(* ===== verification/Prelude.thy ===== *)
theory Prelude
  imports Main "HOL-Library.AList" "HOL-Library.Sublist"
    "HOL-Library.Char_ord" "HOL-Library.List_Lexorder"
begin

text \<open>
  Vocabulary shared by every component: the text and byte types, the Python string
  methods the sources call, the exceptions of the standard library the sources raise or
  catch, and lemmas about association lists used as dictionaries.

  Text. A Python \<open>str\<close> is represented by its UTF-8 encoding and \<open>bytes\<close> by the same
  type, so \<open>s.encode("utf-8")\<close> is the identity. The separators, prefixes and literals the
  sources look for are ASCII, and UTF-8 keeps both the position of ASCII characters and
  the order of code points, so splitting, prefix tests and comparisons agree with Python's.
  Names with a leading underscore lose it (\<open>_resolve\<close> is \<open>resolve\<close>).
\<close>

type_synonym str = string
type_synonym bytes = string

named_theorems str_simps "unfoldings of the Python string methods"

subsection \<open>Python string methods\<close>

abbreviation startswith :: "str \<Rightarrow> str \<Rightarrow> bool" where
  "startswith s p \<equiv> prefix p s"

fun split_on :: "char \<Rightarrow> str \<Rightarrow> str list" where
  "split_on c [] = [[]]"
| "split_on c (x # xs) =
     (if x = c then [] # split_on c xs
      else (case split_on c xs of [] \<Rightarrow> [[x]] | y # ys \<Rightarrow> (x # y) # ys))"

definition lstrip :: "char \<Rightarrow> str \<Rightarrow> str" where
  "lstrip c s = dropWhile (\<lambda>x. x = c) s"

definition rstrip :: "char \<Rightarrow> str \<Rightarrow> str" where
  "rstrip c s = rev (dropWhile (\<lambda>x. x = c) (rev s))"

definition removeprefix :: "str \<Rightarrow> str \<Rightarrow> str" where
  "removeprefix p s = (if prefix p s then drop (length p) s else s)"

definition endswith :: "str \<Rightarrow> str \<Rightarrow> bool" where
  "endswith s p = suffix p s"

definition replace_char :: "char \<Rightarrow> char \<Rightarrow> str \<Rightarrow> str" where
  "replace_char a b s = map (\<lambda>x. if x = a then b else x) s"

fun join_with :: "str \<Rightarrow> str list \<Rightarrow> str" where
  "join_with sep [] = []"
| "join_with sep [x] = x"
| "join_with sep (x # y # ys) = x @ sep @ join_with sep (y # ys)"

abbreviation newline :: char where
  "newline \<equiv> CHR 0x0A"

subsection \<open>Exceptions\<close>

text \<open>
  The exceptions that pass between components: those of the standard library and the two
  the storage protocols declare. A function that may raise returns \<open>exc + 'a\<close>, \<open>Inl\<close> the
  exception. Messages are kept where a caller reads them.
\<close>

datatype conflict_kind = ShadowParent | ShadowChild

datatype exc =
    FileNotFoundError
  | FileExistsError
  | NotADirectoryError
  | IsADirectoryError
  | ValueError str
  | KeyError str
  | IndexError
  | TypeError
  | AttributeError
  | AssertionError
  | BundlePathConflictError str conflict_kind
  | BundleClaimedError str

subsection \<open>Lemmas on splitting\<close>

lemma split_on_not_Nil [simp]: "split_on c s \<noteq> []"
  by (induction s) (auto split: list.splits)

lemma split_on_single: "c \<notin> set s \<Longrightarrow> split_on c s = [s]"
  by (induction s) auto

lemma split_on_append_sep:
  "split_on c (s @ c # t) = split_on c s @ split_on c t"
proof (induction s)
  case Nil
  show ?case by simp
next
  case (Cons x s)
  show ?case
  proof (cases "split_on c s")
    case Nil
    then show ?thesis by simp
  next
    case (Cons y ys)
    with Cons.IH show ?thesis by simp
  qed
qed

lemma split_on_no_sep: "seg \<in> set (split_on c s) \<Longrightarrow> c \<notin> set seg"
proof (induction s arbitrary: seg)
  case Nil
  then show ?case by simp
next
  case (Cons x s)
  show ?case
  proof (cases "x = c")
    case True
    with Cons show ?thesis by auto
  next
    case False
    obtain y ys where s: "split_on c s = y # ys"
      by (cases "split_on c s") auto
    from Cons.IH [of y] s have "c \<notin> set y" by simp
    with Cons False s show ?thesis by auto
  qed
qed

lemma split_on_chars: "seg \<in> set (split_on c s) \<Longrightarrow> set seg \<subseteq> set s"
proof (induction s arbitrary: seg)
  case Nil
  then show ?case by simp
next
  case (Cons x s)
  obtain y ys where s: "split_on c s = y # ys"
    by (cases "split_on c s") auto
  from Cons.IH [of y] s have "set y \<subseteq> set s" by simp
  with Cons s show ?case by (fastforce split: if_splits)
qed

subsection \<open>Association lists as dictionaries\<close>

lemma map_of_filter_key:
  "map_of (filter (\<lambda>(k, v). P k) xs) k = (if P k then map_of xs k else None)"
  by (induction xs) auto

lemma distinct_map_filter_fst:
  "distinct (map fst xs) \<Longrightarrow> distinct (map fst (filter P xs))"
  by (simp add: distinct_map_filter)

lemma map_of_update [simp]: "map_of (AList.update k v xs) = (map_of xs)(k \<mapsto> v)"
  by (rule update_conv')

lemma map_of_delete [simp]: "map_of (AList.delete k xs) = (map_of xs)(k := None)"
  by (rule delete_conv')

lemma update_new: "k \<notin> fst ` set xs \<Longrightarrow> AList.update k v xs = xs @ [(k, v)]"
  by (induction xs) auto

lemma set_update_distinct:
  "distinct (map fst xs) \<Longrightarrow>
   set (AList.update k v xs) = {(k', v') \<in> set xs. k' \<noteq> k} \<union> {(k, v)}"
  by (induction xs) (auto simp: rev_image_eqI)

lemma prefix_snocD: "prefix (xs @ [x]) ys \<Longrightarrow> strict_prefix xs ys"
  by (metis append_prefixD prefix_order.less_le prefix_snoc not_Cons_self2
      append_self_conv prefix_length_le length_append_singleton Suc_n_not_le_n)

lemma subseq_facts:
  "subseq xs ys \<Longrightarrow> set xs \<subseteq> set ys \<and> length xs \<le> length ys \<and> (distinct ys \<longrightarrow> distinct xs)"
  by (induction rule: list_emb.induct) auto

end
