(* ===== verification/Streaming.thy ===== *)
theory Streaming
  imports Prelude
begin

text \<open>
  The bridge between the asynchronous request body and the synchronous tar parser:
  \<^verbatim>\<open>SyncStreamReader\<close> of \<^verbatim>\<open>streaming.py\<close> as a sequential object, and the way
  \<^verbatim>\<open>routes/upload.py\<close> drives it from one event loop and one worker thread, as a step relation.
  A call that would block returns \<open>None\<close>.
\<close>

subsection \<open>SyncStreamReader\<close>

definition DEFAULT_QUEUE_SIZE :: nat where
  "DEFAULT_QUEUE_SIZE = 8"

record stream_reader =
  sr_queue :: "bytes option list"
  sr_maxsize :: nat
  sr_pending :: bytes
  sr_eof_seen :: bool

definition new_reader :: "nat \<Rightarrow> stream_reader" where
  "new_reader queue_size = \<lparr>sr_queue = [], sr_maxsize = queue_size, sr_pending = [], sr_eof_seen = False\<rparr>"

text \<open>A maximal size of zero means no bound.\<close>

definition queue_full :: "stream_reader \<Rightarrow> bool" where
  "queue_full s = (0 < sr_maxsize s \<and> sr_maxsize s \<le> length (sr_queue s))"

definition feed :: "bytes \<Rightarrow> stream_reader \<Rightarrow> stream_reader option" where
  "feed chunk s =
     (if chunk = [] then Some s
      else if queue_full s then None
      else Some (s\<lparr>sr_queue := sr_queue s @ [Some chunk]\<rparr>))"

definition close_reader :: "stream_reader \<Rightarrow> stream_reader option" where
  "close_reader s =
     (if queue_full s then None else Some (s\<lparr>sr_queue := sr_queue s @ [None]\<rparr>))"

text \<open>The loop of \<^verbatim>\<open>read\<close>; a negative \<open>n\<close> reads to the end.\<close>

function read_loop :: "int \<Rightarrow> stream_reader \<Rightarrow> (bytes \<times> stream_reader) option" where
  "read_loop n s =
     (let buf = sr_pending s in
      if n > 0 \<and> int (length buf) \<ge> n
      then Some (take (nat n) buf, s\<lparr>sr_pending := drop (nat n) buf\<rparr>)
      else if sr_eof_seen s then Some (buf, s\<lparr>sr_pending := []\<rparr>)
      else case sr_queue s of
        [] \<Rightarrow> None
      | None # q \<Rightarrow> read_loop n (s\<lparr>sr_queue := q, sr_eof_seen := True\<rparr>)
      | Some chunk # q \<Rightarrow> read_loop n (s\<lparr>sr_queue := q, sr_pending := buf @ chunk\<rparr>))"
  by pat_completeness auto
termination
  by (relation "measure (\<lambda>(n, s). length (sr_queue s))") auto

declare read_loop.simps [simp del]

definition read_stream :: "int \<Rightarrow> stream_reader \<Rightarrow> (bytes \<times> stream_reader) option" where
  "read_stream n s = (if n = 0 then Some ([], s) else read_loop n s)"

text \<open>The bytes a reader still has to deliver: what is buffered, then the chunks before the end mark.\<close>

fun queued :: "bytes option list \<Rightarrow> bytes" where
  "queued [] = []"
| "queued (None # q) = []"
| "queued (Some c # q) = c @ queued q"

definition remaining :: "stream_reader \<Rightarrow> bytes" where
  "remaining s = sr_pending s @ (if sr_eof_seen s then [] else queued (sr_queue s))"

definition closed :: "stream_reader \<Rightarrow> bool" where
  "closed s = (sr_eof_seen s \<or> None \<in> set (sr_queue s))"

lemma read_loop_spec:
  "closed s \<Longrightarrow> n \<noteq> 0 \<Longrightarrow>
   \<exists>r s'. read_loop n s = Some (r, s') \<and> closed s' \<and> remaining s = r @ remaining s'
     \<and> r = (if n > 0 then take (nat n) (remaining s) else remaining s)"
proof (induction n s rule: read_loop.induct)
  case (1 n s)
  show ?case
  proof (cases "(n > 0 \<and> int (length (sr_pending s)) \<ge> n) \<or> sr_eof_seen s")
    case True
    then show ?thesis
      using 1(3,4) by (auto simp: read_loop.simps [of n s] Let_def remaining_def closed_def)
  next
    case False
    then obtain x q where q: "sr_queue s = x # q" using 1(3) by (cases "sr_queue s") (auto simp: closed_def)
    show ?thesis
    proof (cases x)
      case None
      let ?s = "s\<lparr>sr_queue := q, sr_eof_seen := True\<rparr>"
      have "remaining ?s = remaining s" using False q None by (simp add: remaining_def)
      moreover have "read_loop n s = read_loop n ?s"
        using False q None by (subst read_loop.simps) (auto simp: Let_def)
      moreover have "closed ?s" by (simp add: closed_def)
      ultimately show ?thesis using 1(1) [OF refl _ _ q None] False 1(4) by metis
    next
      case (Some c)
      let ?s = "s\<lparr>sr_queue := q, sr_pending := sr_pending s @ c\<rparr>"
      have "remaining ?s = remaining s" using False q Some by (simp add: remaining_def)
      moreover have "closed ?s" using 1(3) q Some by (auto simp: closed_def)
      moreover have "read_loop n s = read_loop n ?s"
        using False q Some by (subst read_loop.simps) (auto simp: Let_def)
      ultimately show ?thesis using 1(2) [OF refl _ _ q Some] False 1(4) by metis
    qed
  qed
qed

lemma feed_remaining:
  "feed c s = Some s' \<Longrightarrow> \<not> closed s \<Longrightarrow> remaining s' = remaining s @ c \<and> \<not> closed s'"
proof -
  assume f: "feed c s = Some s'" and n: "\<not> closed s"
  have "queued (q @ [Some c]) = queued q @ c" if "None \<notin> set q" for q
    using that by (induction q rule: queued.induct) auto
  with f n show ?thesis by (auto simp: feed_def remaining_def closed_def split: if_splits)
qed

lemma close_remaining:
  "close_reader s = Some s' \<Longrightarrow> \<not> closed s \<Longrightarrow> remaining s' = remaining s \<and> closed s'"
proof -
  assume c: "close_reader s = Some s'" and n: "\<not> closed s"
  have "queued (q @ [None]) = queued q" for q by (induction q rule: queued.induct) auto
  with c n show ?thesis by (auto simp: close_reader_def remaining_def closed_def split: if_splits)
qed

subsection \<open>One event loop, one worker thread\<close>

text \<open>
  \<^verbatim>\<open>_pump_stream\<close> runs on the event loop and calls \<^verbatim>\<open>feed\<close>, whose \<^verbatim>\<open>queue.put\<close> blocks the loop
  when the queue is full. The worker thread reads from the queue and, for each complete file,
  submits \<^verbatim>\<open>write_file\<close> to the loop and waits for its result; it has something to submit only once it
  has taken a chunk, and one chunk may hold many files. The state counts the chunks that have not arrived and those in the queue.
\<close>

datatype loop_state = LoopFree | LoopInPut
datatype worker_state = WorkerReading | WorkerWaiting

record bridge =
  bg_incoming :: nat
  bg_queued :: nat
  bg_maxsize :: nat
  bg_loop :: loop_state
  bg_worker :: worker_state
  bg_taken :: bool

inductive bridge_step :: "bridge \<Rightarrow> bridge \<Rightarrow> bool" where
  put_ok: "\<lbrakk>bg_loop s = LoopFree; 0 < bg_incoming s; bg_queued s < bg_maxsize s\<rbrakk>
    \<Longrightarrow> bridge_step s (s\<lparr>bg_incoming := bg_incoming s - 1, bg_queued := bg_queued s + 1\<rparr>)"
| put_blocks: "\<lbrakk>bg_loop s = LoopFree; 0 < bg_incoming s; bg_maxsize s \<le> bg_queued s\<rbrakk>
    \<Longrightarrow> bridge_step s (s\<lparr>bg_loop := LoopInPut\<rparr>)"
| put_resumes: "\<lbrakk>bg_loop s = LoopInPut; bg_queued s < bg_maxsize s\<rbrakk>
    \<Longrightarrow> bridge_step s (s\<lparr>bg_loop := LoopFree, bg_incoming := bg_incoming s - 1, bg_queued := bg_queued s + 1\<rparr>)"
| worker_get: "\<lbrakk>bg_worker s = WorkerReading; 0 < bg_queued s\<rbrakk>
    \<Longrightarrow> bridge_step s (s\<lparr>bg_queued := bg_queued s - 1, bg_taken := True\<rparr>)"
| worker_submits: "\<lbrakk>bg_worker s = WorkerReading; bg_taken s\<rbrakk> \<Longrightarrow> bridge_step s (s\<lparr>bg_worker := WorkerWaiting\<rparr>)"
| loop_writes: "\<lbrakk>bg_loop s = LoopFree; bg_worker s = WorkerWaiting\<rbrakk>
    \<Longrightarrow> bridge_step s (s\<lparr>bg_worker := WorkerReading\<rparr>)"

inductive_cases bridge_stepE: "bridge_step s s'"

definition bridge_start :: "nat \<Rightarrow> nat \<Rightarrow> bridge" where
  "bridge_start chunks queue_size =
     \<lparr>bg_incoming = chunks, bg_queued = 0, bg_maxsize = queue_size, bg_loop = LoopFree, bg_worker = WorkerReading,
      bg_taken = False\<rparr>"

text \<open>The worker waits for the loop and the loop for the worker.\<close>

definition deadlocked :: "bridge \<Rightarrow> bool" where
  "deadlocked s = (bg_loop s = LoopInPut \<and> bg_worker s = WorkerWaiting \<and> bg_maxsize s \<le> bg_queued s)"

lemma deadlocked_no_step: "deadlocked s \<Longrightarrow> \<not> bridge_step s s'"
  by (auto simp: deadlocked_def elim: bridge_stepE)

lemma put_many:
  "k \<le> chunks \<Longrightarrow> k \<le> m \<Longrightarrow> bridge_step\<^sup>*\<^sup>* (bridge_start chunks m)
     ((bridge_start chunks m)\<lparr>bg_incoming := chunks - k, bg_queued := k\<rparr>)"
proof (induction k)
  case 0
  then show ?case by (simp add: bridge_start_def)
next
  case (Suc k)
  let ?s = "(bridge_start chunks m)\<lparr>bg_incoming := chunks - k, bg_queued := k\<rparr>"
  have "bridge_step ?s (?s\<lparr>bg_incoming := bg_incoming ?s - 1, bg_queued := bg_queued ?s + 1\<rparr>)"
    using Suc.prems by (intro put_ok) (auto simp: bridge_start_def)
  with Suc show ?case by (auto simp: bridge_start_def intro: rtranclp.rtrancl_into_rtrancl)
qed

lemma deadlock_reachable:
  assumes "0 < m" "m + 1 < chunks"
  shows "\<exists>s. bridge_step\<^sup>*\<^sup>* (bridge_start chunks m) s \<and> deadlocked s"
proof -
  let ?s = "(bridge_start chunks m)\<lparr>bg_incoming := chunks - m, bg_queued := m\<rparr>"
  let ?t = "?s\<lparr>bg_queued := m - 1, bg_taken := True\<rparr>"
  let ?u = "?s\<lparr>bg_incoming := chunks - m - 1, bg_taken := True\<rparr>"
  have 0: "bridge_step\<^sup>*\<^sup>* (bridge_start chunks m) ?s" using assms put_many [of m chunks m] by simp
  have 1: "bridge_step ?s ?t" using worker_get [of ?s] assms by (simp add: bridge_start_def)
  have 2: "bridge_step ?t ?u" using put_ok [of ?t] assms by (simp add: bridge_start_def)
  have 3: "bridge_step ?u (?u\<lparr>bg_loop := LoopInPut\<rparr>)" using put_blocks [of ?u] assms by (simp add: bridge_start_def)
  have 4: "bridge_step (?u\<lparr>bg_loop := LoopInPut\<rparr>) (?u\<lparr>bg_loop := LoopInPut, bg_worker := WorkerWaiting\<rparr>)"
    using worker_submits [of "?u\<lparr>bg_loop := LoopInPut\<rparr>"] by (simp add: bridge_start_def)
  have "deadlocked (?u\<lparr>bg_loop := LoopInPut, bg_worker := WorkerWaiting\<rparr>)" by (simp add: deadlocked_def bridge_start_def)
  with 0 1 2 3 4 show ?thesis by (meson rtranclp.rtrancl_into_rtrancl)
qed

text \<open>When the body has no more chunks than the queue has places, the loop never blocks.\<close>

lemma small_body_inv:
  "bridge_step\<^sup>*\<^sup>* (bridge_start chunks m) s \<Longrightarrow> chunks \<le> m
   \<Longrightarrow> bg_loop s = LoopFree \<and> bg_maxsize s = m \<and> bg_incoming s + bg_queued s \<le> m"
proof (induction rule: rtranclp_induct)
  case base
  then show ?case by (simp add: bridge_start_def)
next
  case (step s s')
  then show ?case by (auto elim!: bridge_stepE)
qed

section \<open>Properties\<close>

fun feed_all :: "bytes list \<Rightarrow> stream_reader \<Rightarrow> stream_reader option" where
  "feed_all [] s = close_reader s"
| "feed_all (c # cs) s = (case feed c s of None \<Rightarrow> None | Some s' \<Rightarrow> feed_all cs s')"

lemma feed_all_remaining:
  "feed_all cs s = Some s' \<Longrightarrow> \<not> closed s \<Longrightarrow> closed s' \<and> remaining s' = remaining s @ concat cs"
proof (induction cs arbitrary: s)
  case Nil
  then show ?case using close_remaining by simp
next
  case (Cons c cs)
  obtain s1 where "feed c s = Some s1" "feed_all cs s1 = Some s'" using Cons.prems(1) by (auto split: option.splits)
  with Cons.IH feed_remaining Cons.prems(2) show ?case by fastforce
qed

fun read_all :: "int list \<Rightarrow> stream_reader \<Rightarrow> (bytes list \<times> stream_reader) option" where
  "read_all [] s = Some ([], s)"
| "read_all (n # ns) s =
     (case read_stream n s of
        None \<Rightarrow> None
      | Some (r, s') \<Rightarrow> (case read_all ns s' of None \<Rightarrow> None | Some (rs, s'') \<Rightarrow> Some (r # rs, s'')))"

lemma read_all_remaining:
  "closed s \<Longrightarrow> \<forall>n \<in> set ns. 0 < n \<Longrightarrow>
   \<exists>rs s'. read_all ns s = Some (rs, s') \<and> closed s' \<and> remaining s = concat rs @ remaining s' \<and> concat rs = take (nat (sum_list ns)) (remaining s)"
proof (induction ns arbitrary: s)
  case Nil
  then show ?case by simp
next
  case (Cons n ns)
  have n: "0 < n" using Cons.prems(2) by simp
  obtain r s1 where l: "read_loop n s = Some (r, s1)" and r: "closed s1" "remaining s = r @ remaining s1"
    "r = (if n > 0 then take (nat n) (remaining s) else remaining s)"
    using read_loop_spec [OF Cons.prems(1), of n] n by blast
  have rd: "read_stream n s = Some (r, s1)" using l n by (simp add: read_stream_def)
  obtain rs s2 where rs: "read_all ns s1 = Some (rs, s2)" "closed s2" "remaining s1 = concat rs @ remaining s2"
    "concat rs = take (nat (sum_list ns)) (remaining s1)"
    using Cons.IH [OF r(1)] Cons.prems(2) by (meson list.set_intros(2))
  have nn: "0 \<le> sum_list ns" using Cons.prems(2) by (intro sum_list_nonneg) auto
  have tr: "r = take (nat n) (remaining s)" using r(3) n by simp
  then have "remaining s1 = drop (nat n) (remaining s)" using r(2) by (metis append_take_drop_id same_append_eq)
  with tr have c: "concat (r # rs) = take (nat (sum_list (n # ns))) (remaining s)"
    using rs(4) n nn by (simp add: take_add nat_add_distrib)
  have "read_all (n # ns) s = Some (r # rs, s2)" using rd rs(1) by simp
  moreover have "remaining s = concat (r # rs) @ remaining s2" using r(2) rs(3) by simp
  ultimately show ?case using c rs(2) by blast
qed





end
