(* ===== verification/Numerals_Text.thy ===== *)
theory Numerals_Text
  imports Prelude
begin

text \<open>
  Decimal text: Python's \<open>str(n)\<close> and \<open>int(s)\<close>, and the zero-padded fields of time
  stamps. \<open>py_int\<close> accepts surrounding ASCII white space, a sign and single underscores
  between digits, as \<open>int\<close> does. The round trip \<open>py_int_show_int\<close> is used by the
  configuration, the JSON texts and the time stamps.
\<close>

definition digit_char :: "nat \<Rightarrow> char" where
  "digit_char d = char_of (48 + d)"

definition char_digit :: "char \<Rightarrow> nat option" where
  "char_digit c =
     (let n = of_char c in if 48 \<le> n \<and> n \<le> (57::nat) then Some (n - 48) else None)"

abbreviation is_digit :: "char \<Rightarrow> bool" where
  "is_digit c \<equiv> char_digit c \<noteq> None"

fun show_nat :: "nat \<Rightarrow> str" where
  "show_nat n = (if n < 10 then [digit_char n]
     else show_nat (n div 10) @ [digit_char (n mod 10)])"

declare show_nat.simps [simp del]

definition show_int :: "int \<Rightarrow> str" where
  "show_int i = (if i < 0 then CHR ''-'' # show_nat (nat (- i)) else show_nat (nat i))"

fun read_digits :: "nat \<Rightarrow> str \<Rightarrow> nat option" where
  "read_digits acc [] = Some acc"
| "read_digits acc (c # cs) =
     (case char_digit c of None \<Rightarrow> None | Some d \<Rightarrow> read_digits (10 * acc + d) cs)"

text \<open>Digits with single underscores between them, as in \<^verbatim>\<open>int("1_000")\<close>.\<close>

fun read_digits_us :: "bool \<Rightarrow> nat \<Rightarrow> str \<Rightarrow> nat option" where
  "read_digits_us after acc [] = (if after then Some acc else None)"
| "read_digits_us after acc (c # cs) =
     (case char_digit c of
        Some d \<Rightarrow> read_digits_us True (10 * acc + d) cs
      | None \<Rightarrow> if c = CHR ''_'' \<and> after \<and> cs \<noteq> [] \<and> is_digit (hd cs)
                then read_digits_us False acc cs else None)"

definition is_space :: "char \<Rightarrow> bool" where
  "is_space c = (c \<in> {CHR '' '', CHR 0x09, CHR 0x0A, CHR 0x0B, CHR 0x0C, CHR 0x0D})"

definition strip_ws :: "str \<Rightarrow> str" where
  "strip_ws s = rev (dropWhile is_space (rev (dropWhile is_space s)))"

definition py_int :: "str \<Rightarrow> int option" where
  "py_int s = (case strip_ws s of
      [] \<Rightarrow> None
    | c # cs \<Rightarrow>
       if c = CHR ''-'' then map_option (\<lambda>n. - int n) (read_digits_us False 0 cs)
       else if c = CHR ''+'' then map_option int (read_digits_us False 0 cs)
       else map_option int (read_digits_us False 0 (c # cs)))"

text \<open>Zero-padded fields, as the format directive \<^verbatim>\<open>%0wd\<close> prints them.\<close>

fun pad_nat :: "nat \<Rightarrow> nat \<Rightarrow> str" where
  "pad_nat 0 n = []"
| "pad_nat (Suc w) n = pad_nat w (n div 10) @ [digit_char (n mod 10)]"

subsection \<open>Round trips\<close>

lemma char_digit_digit_char [simp]: "d < 10 \<Longrightarrow> char_digit (digit_char d) = Some d"
  by (simp add: digit_char_def char_digit_def)

lemma digit_char_neq [simp]:
  "d < 10 \<Longrightarrow> char_digit c = None \<Longrightarrow> digit_char d \<noteq> c"
  "d < 10 \<Longrightarrow> char_digit c = None \<Longrightarrow> c \<noteq> digit_char d"
  using char_digit_digit_char by force+

lemma char_digit_non [simp]:
  "char_digit (CHR ''-'') = None" "char_digit (CHR ''+'') = None"
  "char_digit (CHR ''_'') = None" "char_digit (CHR '':'') = None"
  "char_digit (CHR ''.'') = None" "char_digit (CHR ''T'') = None"
  "char_digit (CHR '','') = None" "char_digit (CHR '']'') = None"
  "char_digit (CHR ''}'') = None"
  by code_simp+

lemma read_digits_append:
  "read_digits a (xs @ ys) = Option.bind (read_digits a xs) (\<lambda>b. read_digits b ys)"
  by (induction a xs rule: read_digits.induct) (auto split: option.splits)

lemma show_nat_not_Nil [simp]: "show_nat n \<noteq> []"
  by (subst show_nat.simps) simp

lemma list_all_show_nat: "list_all is_digit (show_nat n)"
proof (induction n rule: show_nat.induct)
  case (1 n)
  then show ?case by (cases "n < 10") (simp_all add: show_nat.simps [of n])
qed

lemma read_digits_us_digits:
  "list_all is_digit s \<Longrightarrow> s \<noteq> [] \<or> b \<Longrightarrow> read_digits_us b a s = read_digits a s"
  by (induction s arbitrary: a b) auto

lemma read_digits_show_nat: "read_digits 0 (show_nat n) = Some n"
proof (induction n rule: show_nat.induct)
  case (1 n)
  then show ?case
    by (cases "n < 10") (simp_all add: show_nat.simps [of n] read_digits_append)
qed

lemma read_digits_us_show_nat: "read_digits_us False 0 (show_nat n) = Some n"
  using read_digits_us_digits [OF list_all_show_nat, of n False 0] read_digits_show_nat [of n]
  by simp

lemma not_space_digit: "is_digit c \<Longrightarrow> \<not> is_space c"
  by (auto simp: is_space_def char_digit_def)

lemma not_space_minus [simp]: "\<not> is_space (CHR ''-'')"
  by (simp add: is_space_def)

lemma strip_ws_id:
  assumes "s \<noteq> []" and "\<not> is_space (hd s)" and "\<not> is_space (last s)"
  shows "strip_ws s = s"
proof -
  have "dropWhile is_space s = s" using assms(1,2) by (cases s) auto
  moreover have "dropWhile is_space (rev s) = rev s"
    using assms(1,3) by (cases s rule: rev_cases) auto
  ultimately show ?thesis by (simp add: strip_ws_def)
qed

lemma last_show_nat: "is_digit (last (show_nat n))"
  using list_all_show_nat [of n] by (auto simp: list_all_iff)

lemma hd_show_nat: "is_digit (hd (show_nat n))"
  using list_all_show_nat [of n] by (auto simp: list_all_iff)

lemma py_int_show_int: "py_int (show_int i) = Some i"
proof (cases "i < 0")
  case True
  let ?s = "show_nat (nat (- i))"
  have "strip_ws (CHR ''-'' # ?s) = CHR ''-'' # ?s"
    using last_show_nat [of "nat (- i)"]
    by (intro strip_ws_id) (auto simp: not_space_digit)
  with True show ?thesis
    by (simp add: py_int_def show_int_def read_digits_us_show_nat)
next
  case False
  let ?s = "show_nat (nat i)"
  obtain c cs where s: "?s = c # cs" by (cases ?s) auto
  have c: "is_digit c" using hd_show_nat [of "nat i"] s by simp
  have "strip_ws ?s = ?s"
    using last_show_nat [of "nat i"] hd_show_nat [of "nat i"]
    by (intro strip_ws_id) (auto simp: not_space_digit)
  moreover have "read_digits_us False 0 ?s = Some (nat i)"
    by (rule read_digits_us_show_nat)
  moreover have "c \<noteq> CHR ''-''" "c \<noteq> CHR ''+''" using c by auto
  ultimately show ?thesis using s False by (simp add: py_int_def show_int_def)
qed

lemma length_pad_nat [simp]: "length (pad_nat w n) = w"
  by (induction w arbitrary: n) auto

lemma read_digits_pad_nat: "n < 10 ^ w \<Longrightarrow> read_digits 0 (pad_nat w n) = Some n"
proof (induction w arbitrary: n)
  case 0
  then show ?case by simp
next
  case (Suc w)
  then have "n div 10 < 10 ^ w" by (simp add: less_mult_imp_div_less mult.commute)
  with Suc.IH have "read_digits 0 (pad_nat w (n div 10)) = Some (n div 10)" .
  then show ?case by (simp add: read_digits_append)
qed

lemma list_all_pad_nat: "list_all is_digit (pad_nat w n)"
  by (induction w arbitrary: n) auto

end
