(* ===== verification/Json.thy ===== *)
theory Json
  imports Numerals_Text
begin

text \<open>
  The JSON texts the program keeps on disk: \<open>json.dumps\<close> with its default separators and
  \<open>json.loads\<close> for objects, arrays, strings, integers, booleans and null. Bundle manifests
  (\<^verbatim>\<open>meta.json\<close>), claim sidecars and the key file hold no other values, so a text with a
  fraction or an exponent counts as unreadable here. Non-ASCII text is written as it is,
  where \<open>dumps\<close> would write a \<open>\u\<close> escape that \<open>loads\<close> turns back into the same text.
  The parser takes a fuel argument, one unit per nested value; \<open>loads\<close> starts it with one
  unit per input character, which \<open>loads_dumps\<close> shows to be enough.
\<close>

datatype json =
    JNull
  | JBool bool
  | JInt int
  | JStr str
  | JArr "json list"
  | JObj "(str \<times> json) list"

subsection \<open>Printing\<close>

abbreviation quote_char :: char where
  "quote_char \<equiv> CHR 0x22"

abbreviation backslash :: char where
  "backslash \<equiv> CHR 0x5C"

definition hex_char :: "nat \<Rightarrow> char" where
  "hex_char d = (if d < 10 then char_of (48 + d) else char_of (87 + d))"

definition esc_char :: "char \<Rightarrow> str" where
  "esc_char c =
     (if c = quote_char then [backslash, quote_char]
      else if c = backslash then [backslash, backslash]
      else if c = CHR 0x0A then [backslash, CHR ''n'']
      else if c = CHR 0x0D then [backslash, CHR ''r'']
      else if c = CHR 0x09 then [backslash, CHR ''t'']
      else if c = CHR 0x08 then [backslash, CHR ''b'']
      else if c = CHR 0x0C then [backslash, CHR ''f'']
      else let n = of_char c in
        if n < (32::nat) \<or> n = 127
        then [backslash, CHR ''u'', CHR ''0'', CHR ''0'', hex_char (n div 16), hex_char (n mod 16)]
        else [c])"

definition dumps_str :: "str \<Rightarrow> str" where
  "dumps_str s = quote_char # concat (map esc_char s) @ [quote_char]"

fun dumps :: "json \<Rightarrow> str"
  and dumps_elems :: "json list \<Rightarrow> str"
  and dumps_members :: "(str \<times> json) list \<Rightarrow> str" where
  "dumps JNull = ''null''"
| "dumps (JBool b) = (if b then ''true'' else ''false'')"
| "dumps (JInt i) = show_int i"
| "dumps (JStr s) = dumps_str s"
| "dumps (JArr vs) = CHR ''['' # dumps_elems vs"
| "dumps (JObj ms) = CHR ''{'' # dumps_members ms"
| "dumps_elems [] = '']''"
| "dumps_elems [v] = dumps v @ '']''"
| "dumps_elems (v # w # vs) = dumps v @ '', '' @ dumps_elems (w # vs)"
| "dumps_members [] = ''}''"
| "dumps_members [(k, v)] = dumps_str k @ '': '' @ dumps v @ ''}''"
| "dumps_members ((k, v) # m # ms) = dumps_str k @ '': '' @ dumps v @ '', '' @ dumps_members (m # ms)"

subsection \<open>Parsing\<close>

definition json_ws :: "char \<Rightarrow> bool" where
  "json_ws c = (c \<in> {CHR '' '', CHR 0x09, CHR 0x0A, CHR 0x0D})"

abbreviation skip_ws :: "str \<Rightarrow> str" where
  "skip_ws s \<equiv> dropWhile json_ws s"

definition hex_val :: "char \<Rightarrow> nat option" where
  "hex_val c = (let n = of_char c in
     if 48 \<le> n \<and> n \<le> (57::nat) then Some (n - 48)
     else if 97 \<le> n \<and> n \<le> 102 then Some (n - 87)
     else if 65 \<le> n \<and> n \<le> 70 then Some (n - 55) else None)"

definition hex4 :: "char \<Rightarrow> char \<Rightarrow> char \<Rightarrow> char \<Rightarrow> nat option" where
  "hex4 a b c d = (case (hex_val a, hex_val b, hex_val c, hex_val d) of
     (Some w, Some x, Some y, Some z) \<Rightarrow> Some (4096 * w + 256 * x + 16 * y + z)
   | _ \<Rightarrow> None)"

text \<open>UTF-8 of a code point below \<open>0x10000\<close>.\<close>

definition utf8_of :: "nat \<Rightarrow> str" where
  "utf8_of n =
     (if n < 128 then [char_of n]
      else if n < 2048 then [char_of (192 + n div 64), char_of (128 + n mod 64)]
      else [char_of (224 + n div 4096), char_of (128 + (n div 64) mod 64),
            char_of (128 + n mod 64)])"

definition simple_esc :: "char \<Rightarrow> char option" where
  "simple_esc e =
     (if e = quote_char then Some quote_char
      else if e = backslash then Some backslash
      else if e = CHR ''/'' then Some (CHR ''/'')
      else if e = CHR ''n'' then Some (CHR 0x0A)
      else if e = CHR ''r'' then Some (CHR 0x0D)
      else if e = CHR ''t'' then Some (CHR 0x09)
      else if e = CHR ''b'' then Some (CHR 0x08)
      else if e = CHR ''f'' then Some (CHR 0x0C)
      else None)"

fun pstr :: "str \<Rightarrow> (str \<times> str) option" where
  "pstr [] = None"
| "pstr (c # cs) =
     (if c = quote_char then Some ([], cs)
      else if c = backslash then
        (case cs of [] \<Rightarrow> None
         | e # r \<Rightarrow>
            (case simple_esc e of
               Some x \<Rightarrow> map_option (\<lambda>(t, rest). (x # t, rest)) (pstr r)
             | None \<Rightarrow>
                if e = CHR ''u'' then
                  (case r of w # x # y # z # r' \<Rightarrow>
                      (case hex4 w x y z of
                         Some n \<Rightarrow> map_option (\<lambda>(t, rest). (utf8_of n @ t, rest)) (pstr r')
                       | None \<Rightarrow> None)
                   | _ \<Rightarrow> None)
                else None))
      else if of_char c < (32::nat) then None
      else map_option (\<lambda>(t, rest). (c # t, rest)) (pstr cs))"

definition pint_digits :: "bool \<Rightarrow> str \<Rightarrow> (json \<times> str) option" where
  "pint_digits neg r =
     (let ds = takeWhile is_digit r; rest = dropWhile is_digit r
      in if ds = [] \<or> (hd ds = CHR ''0'' \<and> tl ds \<noteq> []) then None
         else if rest \<noteq> [] \<and> hd rest \<in> {CHR ''.'', CHR ''e'', CHR ''E''} then None
         else case read_digits 0 ds of
                None \<Rightarrow> None
              | Some n \<Rightarrow> Some (JInt (if neg then - int n else int n), rest))"

definition pint :: "str \<Rightarrow> (json \<times> str) option" where
  "pint s = (case s of
      [] \<Rightarrow> None
    | c # cs \<Rightarrow> if c = CHR ''-'' then pint_digits True cs else pint_digits False s)"

fun pval :: "nat \<Rightarrow> str \<Rightarrow> (json \<times> str) option"
  and parr :: "nat \<Rightarrow> str \<Rightarrow> (json list \<times> str) option"
  and pobj :: "nat \<Rightarrow> str \<Rightarrow> ((str \<times> json) list \<times> str) option" where
  "pval 0 s = None"
| "pval (Suc n) s =
     (case skip_ws s of
        [] \<Rightarrow> None
      | c # r \<Rightarrow>
         if c = quote_char then map_option (\<lambda>(t, rest). (JStr t, rest)) (pstr r)
         else if c = CHR ''['' then
           (case skip_ws r of d # r' \<Rightarrow>
              if d = CHR '']'' then Some (JArr [], r')
              else map_option (\<lambda>(vs, rest). (JArr vs, rest)) (parr n (d # r'))
            | [] \<Rightarrow> None)
         else if c = CHR ''{'' then
           (case skip_ws r of d # r' \<Rightarrow>
              if d = CHR ''}'' then Some (JObj [], r')
              else map_option (\<lambda>(ms, rest).
                  (JObj (fold (\<lambda>(k, v) acc. AList.update k v acc) ms []), rest)) (pobj n (d # r'))
            | [] \<Rightarrow> None)
         else if prefix ''null'' (c # r) then Some (JNull, drop 4 (c # r))
         else if prefix ''true'' (c # r) then Some (JBool True, drop 4 (c # r))
         else if prefix ''false'' (c # r) then Some (JBool False, drop 5 (c # r))
         else pint (c # r))"
| "parr 0 s = None"
| "parr (Suc n) s =
     (case pval n s of None \<Rightarrow> None
      | Some (v, r) \<Rightarrow>
         (case skip_ws r of [] \<Rightarrow> None
          | c # r' \<Rightarrow>
             if c = CHR '','' then map_option (\<lambda>(vs, rest). (v # vs, rest)) (parr n r')
             else if c = CHR '']'' then Some ([v], r') else None))"
| "pobj 0 s = None"
| "pobj (Suc n) s =
     (case skip_ws s of [] \<Rightarrow> None
      | q # r \<Rightarrow>
         if q \<noteq> quote_char then None
         else case pstr r of None \<Rightarrow> None
         | Some (k, r1) \<Rightarrow>
            (case skip_ws r1 of [] \<Rightarrow> None
             | c # r2 \<Rightarrow>
                if c \<noteq> CHR '':'' then None
                else case pval n r2 of None \<Rightarrow> None
                | Some (v, r3) \<Rightarrow>
                   (case skip_ws r3 of [] \<Rightarrow> None
                    | d # r4 \<Rightarrow>
                       if d = CHR '','' then map_option (\<lambda>(ms, rest). ((k, v) # ms, rest)) (pobj n r4)
                       else if d = CHR ''}'' then Some ([(k, v)], r4) else None)))"

definition loads :: "bytes \<Rightarrow> json option" where
  "loads s = (case pval (Suc (length s)) s of
      Some (v, r) \<Rightarrow> if skip_ws r = [] then Some v else None
    | None \<Rightarrow> None)"


subsection \<open>Lemmas: strings and integers\<close>

lemma hex_val_hex_char [simp]: "d < 16 \<Longrightarrow> hex_val (hex_char d) = Some d"
  by (auto simp: hex_char_def hex_val_def)

lemma hex4_low:
  "n < 256 \<Longrightarrow> hex4 (CHR ''0'') (CHR ''0'') (hex_char (n div 16)) (hex_char (n mod 16)) = Some n"
proof -
  assume "n < 256"
  then have "n div 16 < 16" by simp
  moreover have "hex_val (CHR ''0'') = Some 0" by (simp add: hex_val_def)
  ultimately show ?thesis by (simp add: hex4_def)
qed

lemma pstr_esc_char:
  "pstr (esc_char c @ t) = map_option (\<lambda>(s, rest). (c # s, rest)) (pstr t)"
proof (cases "of_char c < (32::nat) \<or> of_char c = (127::nat)")
  case True
  have "simple_esc (CHR ''u'') = None" by (simp add: simple_esc_def)
  moreover have "hex4 (CHR ''0'') (CHR ''0'') (hex_char (of_char c div 16)) (hex_char (of_char c mod 16))
      = Some (of_char c :: nat)"
    by (rule hex4_low) simp
  moreover have "utf8_of (of_char c) = [c]" using True by (auto simp: utf8_of_def)
  ultimately show ?thesis using True
    by (auto simp: esc_char_def simple_esc_def Let_def)
next
  case False
  then show ?thesis by (auto simp: esc_char_def simple_esc_def Let_def)
qed

lemma pstr_dumps_str: "pstr (concat (map esc_char s) @ quote_char # rest) = Some (s, rest)"
  by (induction s) (simp_all add: pstr_esc_char)

definition delim :: "str \<Rightarrow> bool" where
  "delim r = (r = [] \<or> hd r \<in> {CHR '','', CHR '']'', CHR ''}''})"

lemma takeWhile_show_nat:
  "delim r \<Longrightarrow> takeWhile is_digit (show_nat n @ r) = show_nat n"
  "delim r \<Longrightarrow> dropWhile is_digit (show_nat n @ r) = r"
proof -
  assume r: "delim r"
  have all: "\<forall>c \<in> set (show_nat n). is_digit c"
    using list_all_show_nat [of n] by (simp add: list_all_iff)
  have "takeWhile is_digit r = []" "dropWhile is_digit r = r"
    using r by (cases r; auto simp: delim_def)+
  with all show "takeWhile is_digit (show_nat n @ r) = show_nat n"
    and "dropWhile is_digit (show_nat n @ r) = r"
    by (simp_all add: takeWhile_append2 dropWhile_append2 del: not_None_eq)
qed

lemma hd_show_nat_pos: "0 < n \<Longrightarrow> hd (show_nat n) \<noteq> CHR ''0''"
proof (induction n rule: show_nat.induct)
  case (1 n)
  show ?case
  proof (cases "n < 10")
    case True
    have "char_digit (CHR ''0'') = Some 0" by (simp add: char_digit_def)
    with True 1(2) have "digit_char n \<noteq> CHR ''0''"
      using char_digit_digit_char [of n] by force
    with True show ?thesis by (simp add: show_nat.simps [of n])
  next
    case False
    with 1 show ?thesis by (simp add: show_nat.simps [of n])
  qed
qed

lemma show_nat_no_leading_zero: "\<not> (hd (show_nat n) = CHR ''0'' \<and> tl (show_nat n) \<noteq> [])"
proof (cases "n = 0")
  case True
  then show ?thesis by (simp add: show_nat.simps)
next
  case False
  then show ?thesis using hd_show_nat_pos by simp
qed

lemma hd_show_nat_not_minus: "hd (show_nat n) \<noteq> CHR ''-''"
  using hd_show_nat [of n] by auto

lemma pint_digits_show_nat:
  assumes "delim r"
  shows "pint_digits neg (show_nat n @ r) = Some (JInt (if neg then - int n else int n), r)"
proof -
  have "\<not> (r \<noteq> [] \<and> hd r \<in> {CHR ''.'', CHR ''e'', CHR ''E''})"
    using assms by (auto simp: delim_def)
  with show_nat_no_leading_zero [of n] show ?thesis
    unfolding pint_digits_def Let_def takeWhile_show_nat [OF assms] read_digits_show_nat
    by simp
qed

lemma pint_show_int: "delim r \<Longrightarrow> pint (show_int i @ r) = Some (JInt i, r)"
proof (cases "i < 0")
  case True
  assume "delim r"
  then show ?thesis
    using True by (simp add: pint_def show_int_def pint_digits_show_nat)
next
  case False
  assume "delim r"
  obtain c cs where s: "show_nat (nat i) = c # cs" by (cases "show_nat (nat i)") auto
  have "c \<noteq> CHR ''-''" using hd_show_nat_not_minus [of "nat i"] s by simp
  then have "pint (show_int i @ r) = pint_digits False (show_nat (nat i) @ r)"
    using False s by (simp add: pint_def show_int_def)
  then show ?thesis using False \<open>delim r\<close> by (simp add: pint_digits_show_nat)
qed

subsection \<open>Lemmas: reading back what was printed\<close>

fun json_ok :: "json \<Rightarrow> bool" where
  "json_ok (JArr vs) = list_all json_ok vs"
| "json_ok (JObj ms) = (distinct (map fst ms) \<and> list_all (\<lambda>m. json_ok (snd m)) ms)"
| "json_ok _ = True"

fun need :: "json \<Rightarrow> nat" where
  "need (JArr vs) = Suc (sum_list (map (\<lambda>v. Suc (need v)) vs))"
| "need (JObj ms) = Suc (sum_list (map (\<lambda>m. Suc (need (snd m))) ms))"
| "need _ = 1"

lemma json_ws_simps [simp]:
  "json_ws (CHR '' '')" "\<not> json_ws quote_char" "\<not> json_ws (CHR ''['')" "\<not> json_ws (CHR '']'')"
  "\<not> json_ws (CHR ''{'')" "\<not> json_ws (CHR ''}'')" "\<not> json_ws (CHR '','')" "\<not> json_ws (CHR '':'')"
  "\<not> json_ws (CHR ''-'')" "\<not> json_ws (CHR ''n'')" "\<not> json_ws (CHR ''t'')" "\<not> json_ws (CHR ''f'')"
  by (simp_all add: json_ws_def)

lemma not_ws_digit: "is_digit c \<Longrightarrow> \<not> json_ws c"
  by (auto simp: json_ws_def char_digit_def)

lemma skip_blank [simp]:
  "pval n (CHR '' '' # s) = pval n s" "pobj n (CHR '' '' # s) = pobj n s"
  by (cases n; simp)+

lemma skip_blank_arr [simp]: "parr n (CHR '' '' # s) = parr n s"
  by (cases n) simp_all

lemma show_int_start:
  "\<exists>c r. show_int i = c # r \<and> (c = CHR ''-'' \<or> is_digit c)"
proof -
  have "\<exists>c r. show_nat m = c # r \<and> is_digit c" for m
    using hd_show_nat [of m] by (cases "show_nat m") auto
  from this [of "nat i"] show ?thesis by (auto simp: show_int_def)
qed

lemma dumps_start:
  "\<exists>c r. dumps v = c # r \<and> \<not> json_ws c \<and> c \<noteq> CHR '']'' \<and> c \<noteq> CHR ''}'' "
proof (cases v)
  case (JInt i)
  obtain c r where "show_int i = c # r" "c = CHR ''-'' \<or> is_digit c"
    using show_int_start [of i] by auto
  with JInt show ?thesis by (auto simp: not_ws_digit)
qed (auto simp: dumps_str_def)

lemma pval_int: "delim r \<Longrightarrow> pval (Suc n) (show_int i @ r) = Some (JInt i, r)"
proof -
  assume r: "delim r"
  obtain c s where cs: "show_int i = c # s" and c: "c = CHR ''-'' \<or> is_digit c"
    using show_int_start [of i] by auto
  have "\<not> json_ws c" using c not_ws_digit [of c] by auto
  moreover have "c \<noteq> quote_char" "c \<noteq> CHR ''[''" "c \<noteq> CHR ''{''" "c \<noteq> CHR ''n''"
      "c \<noteq> CHR ''t''" "c \<noteq> CHR ''f''"
    using c by (auto simp: char_digit_def)
  ultimately show ?thesis using cs pint_show_int [OF r, of i] by simp
qed

lemma fold_update_distinct:
  "distinct (map fst (acc @ ms)) \<Longrightarrow>
   fold (\<lambda>(k, v) acc. AList.update k v acc) ms acc = acc @ ms"
proof (induction ms arbitrary: acc)
  case Nil
  then show ?case by simp
next
  case (Cons m ms)
  obtain k v where m: "m = (k, v)" by fastforce
  have "k \<notin> fst ` set acc" using Cons.prems m by auto
  then have "AList.update k v acc = acc @ [(k, v)]" by (rule update_new)
  with Cons m show ?case by simp
qed

lemma delim_simps [simp]:
  "delim []" "delim (CHR '','' # r)" "delim (CHR '']'' # r)" "delim (CHR ''}'' # r)"
  by (simp_all add: delim_def)

lemma pval_arr:
  assumes "parr n (dumps_elems (v # vs) @ r) = Some (v # vs, r)"
  shows "pval (Suc n) (dumps (JArr (v # vs)) @ r) = Some (JArr (v # vs), r)"
proof -
  obtain c s where c: "dumps v = c # s" "\<not> json_ws c" "c \<noteq> CHR '']''"
    using dumps_start [of v] by auto
  then obtain t where "dumps_elems (v # vs) = c # t" by (cases vs) auto
  with assms c show ?thesis by simp
qed

lemma pval_obj:
  assumes "pobj n (dumps_members (m # ms) @ r) = Some (m # ms, r)"
    and "distinct (map fst (m # ms))"
  shows "pval (Suc n) (dumps (JObj (m # ms)) @ r) = Some (JObj (m # ms), r)"
proof -
  obtain k v where m: "m = (k, v)" by fastforce
  then obtain t where "dumps_members (m # ms) = quote_char # t"
    by (cases ms) (auto simp: dumps_str_def)
  with assms fold_update_distinct [of "[]" "m # ms"] show ?thesis by simp
qed

lemma pobj_key:
  "pobj (Suc n) (dumps_str k @ CHR '':'' # s) =
     (case pval n s of None \<Rightarrow> None
      | Some (v, r3) \<Rightarrow>
         (case skip_ws r3 of [] \<Rightarrow> None
          | d # r4 \<Rightarrow>
             if d = CHR '','' then map_option (\<lambda>(ms, rest). ((k, v) # ms, rest)) (pobj n r4)
             else if d = CHR ''}'' then Some ([(k, v)], r4) else None))"
  by (simp add: dumps_str_def pstr_dumps_str)

lemma pval_dumps_aux:
  shows "json_ok v \<Longrightarrow> need v \<le> n \<Longrightarrow> delim r \<Longrightarrow> pval n (dumps v @ r) = Some (v, r)"
    and "vs \<noteq> [] \<Longrightarrow> list_all json_ok vs \<Longrightarrow> sum_list (map (\<lambda>v. Suc (need v)) vs) \<le> n
      \<Longrightarrow> parr n (dumps_elems vs @ r) = Some (vs, r)"
    and "ms \<noteq> [] \<Longrightarrow> list_all (\<lambda>m. json_ok (snd m)) ms
      \<Longrightarrow> sum_list (map (\<lambda>m. Suc (need (snd m))) ms) \<le> n
      \<Longrightarrow> pobj n (dumps_members ms @ r) = Some (ms, r)"
proof (induction v and vs and ms arbitrary: n r and n r and n r
    rule: dumps_dumps_elems_dumps_members.induct)
  case 1
  then show ?case by (cases n) auto
next
  case (2 b)
  then show ?case by (cases n) auto
next
  case (3 i)
  then obtain m where "n = Suc m" by (cases n) auto
  with 3 show ?case by (simp only: dumps.simps pval_int)
next
  case (4 s)
  then show ?case by (cases n) (auto simp: dumps_str_def pstr_dumps_str)
next
  case (5 vs)
  then obtain m where n: "n = Suc m" by (cases n) auto
  show ?case
  proof (cases vs)
    case Nil
    with n show ?thesis by simp
  next
    case (Cons w ws)
    have "parr m (dumps_elems vs @ r) = Some (vs, r)"
      using 5 n Cons by (intro 5(1)) auto
    with Cons n show ?thesis using pval_arr [of m w ws r] by simp
  qed
next
  case (6 ms)
  then obtain m where n: "n = Suc m" by (cases n) auto
  show ?case
  proof (cases ms)
    case Nil
    with n show ?thesis by simp
  next
    case (Cons w ws)
    have "pobj m (dumps_members ms @ r) = Some (ms, r)"
      using 6 n Cons by (intro 6(1)) auto
    with Cons n 6(2) show ?thesis using pval_obj [of m w ws r] by simp
  qed
next
  case 7
  then show ?case by simp
next
  case (8 v)
  then obtain m where "n = Suc m" by (cases n) auto
  with 8 show ?case by simp
next
  case (9 v w vs)
  then obtain m where "n = Suc m" by (cases n) auto
  with 9 show ?case by simp
next
  case 10
  then show ?case by simp
next
  case (11 k v)
  then obtain m where "n = Suc m" by (cases n) auto
  with 11 show ?case by (simp add: pobj_key del: pobj.simps)
next
  case (12 k v m' ms)
  then obtain m where "n = Suc m" by (cases n) auto
  with 12 show ?case by (simp add: pobj_key del: pobj.simps)
qed

lemma need_le_length:
  shows "need v \<le> length (dumps v)"
    and "sum_list (map (\<lambda>v. Suc (need v)) vs) \<le> length (dumps_elems vs)"
    and "sum_list (map (\<lambda>m. Suc (need (snd m))) ms) \<le> length (dumps_members ms)"
proof (induction v and vs and ms rule: dumps_dumps_elems_dumps_members.induct)
  case (3 i)
  then show ?case using show_int_start [of i] by auto
qed (auto simp: dumps_str_def)

lemma loads_dumps: "json_ok v \<Longrightarrow> loads (dumps v) = Some v"
  using pval_dumps_aux(1) [of v "Suc (length (dumps v))" "[]"] need_le_length(1) [of v]
  by (simp add: loads_def)

subsection \<open>Decoded values as text\<close>

text \<open>
  \<open>str(v)\<close> of a decoded value; the program writes strings only. The text of a list or a
  dictionary is given in JSON instead of Python's \<open>repr\<close>.
\<close>

definition py_str :: "json \<Rightarrow> str" where
  "py_str j = (case j of
      JNull \<Rightarrow> ''None'' | JBool b \<Rightarrow> (if b then ''True'' else ''False'')
    | JInt i \<Rightarrow> show_int i | JStr s \<Rightarrow> s | _ \<Rightarrow> dumps j)"

definition truthy :: "json option \<Rightarrow> bool" where
  "truthy j = (case j of
      None \<Rightarrow> False | Some JNull \<Rightarrow> False | Some (JBool b) \<Rightarrow> b | Some (JInt i) \<Rightarrow> i \<noteq> 0
    | Some (JStr s) \<Rightarrow> s \<noteq> [] | Some (JArr a) \<Rightarrow> a \<noteq> [] | Some (JObj m) \<Rightarrow> m \<noteq> [])"

end
