(* ===== verification/Timestamps.thy ===== *)
theory Timestamps
  imports Numerals_Text
begin

text \<open>
  Clock readings and the time stamps the program stores. A clock reading is an aware UTC
  \<open>datetime\<close> as \<open>datetime.now(UTC)\<close> returns it; \<open>time.time()\<close> is its \<open>timestamp\<close>. Epoch
  values are whole microseconds, the resolution of \<open>datetime\<close> (the program's floats carry
  the same values). \<open>isoformat\<close> prints a reading as \<open>datetime.isoformat\<close> does and
  \<open>fromisoformat\<close> reads the extended calendar form back: date, any separator, time to the
  second, an optional fraction and an optional UTC offset. A stamp without an offset is read
  as UTC, which \<^verbatim>\<open>_iso_to_epoch\<close> does explicitly and the other readers do on a host whose
  local time is UTC. \<open>utcfromtimestamp\<close> is \<open>datetime.fromtimestamp(s, UTC)\<close>.
\<close>

record datetime =
  dt_year :: nat
  dt_month :: nat
  dt_day :: nat
  dt_hour :: nat
  dt_minute :: nat
  dt_second :: nat
  dt_micro :: nat

definition is_leap :: "nat \<Rightarrow> bool" where
  "is_leap y = (y mod 4 = 0 \<and> (y mod 100 \<noteq> 0 \<or> y mod 400 = 0))"

definition days_in_month :: "nat \<Rightarrow> nat \<Rightarrow> nat" where
  "days_in_month y m =
     (if m = 2 then (if is_leap y then 29 else 28)
      else if m \<in> {4, 6, 9, 11} then 30 else 31)"

definition valid_datetime :: "datetime \<Rightarrow> bool" where
  "valid_datetime d =
     (1 \<le> dt_year d \<and> dt_year d \<le> 9999 \<and> 1 \<le> dt_month d \<and> dt_month d \<le> 12
      \<and> 1 \<le> dt_day d \<and> dt_day d \<le> days_in_month (dt_year d) (dt_month d)
      \<and> dt_hour d < 24 \<and> dt_minute d < 60 \<and> dt_second d < 60 \<and> dt_micro d < 1000000)"

subsection \<open>Ordinals and epoch values\<close>

definition days_before_year :: "nat \<Rightarrow> nat" where
  "days_before_year y = (let p = y - 1 in p * 365 + p div 4 - p div 100 + p div 400)"

definition days_before_month :: "nat \<Rightarrow> nat \<Rightarrow> nat" where
  "days_before_month y m =
     [0, 0, 31, 59, 90, 120, 151, 181, 212, 243, 273, 304, 334] ! m
       + (if m > 2 \<and> is_leap y then 1 else 0)"

definition toordinal :: "datetime \<Rightarrow> nat" where
  "toordinal d = days_before_year (dt_year d) + days_before_month (dt_year d) (dt_month d) + dt_day d"

definition timestamp :: "datetime \<Rightarrow> int" where
  "timestamp d =
     (((int (toordinal d) - 719163) * 86400 + int (dt_hour d) * 3600
        + int (dt_minute d) * 60 + int (dt_second d)) * 1000000 + int (dt_micro d))"

text \<open>The month and day of day \<open>r\<close> (from 0) of a year: an estimate, corrected by one month.\<close>

definition month_day :: "nat \<Rightarrow> nat \<Rightarrow> nat \<times> nat" where
  "month_day y r =
     (let m = (r + 50) div 32; pre = days_before_month y m
      in if pre > r then (m - 1, r - (pre - days_in_month y (m - 1)) + 1) else (m, r - pre + 1))"

definition ord2ymd :: "nat \<Rightarrow> nat \<times> nat \<times> nat" where
  "ord2ymd o1 =
     (let n = o1 - 1; n400 = n div 146097; a = n mod 146097;
          n100 = a div 36524; b = a mod 36524;
          n4 = b div 1461; c = b mod 1461;
          n1 = c div 365; r = c mod 365;
          y = n400 * 400 + 1 + n100 * 100 + n4 * 4 + n1
      in if n1 = 4 \<or> n100 = 4 then (y - 1, 12, 31) else (y, month_day y r))"

definition utcfromtimestamp :: "int \<Rightarrow> datetime" where
  "utcfromtimestamp us =
     (let s = us div 1000000; days = s div 86400; rem = nat (s mod 86400);
          (y, m, d) = ord2ymd (nat (days + 719163))
      in \<lparr>dt_year = y, dt_month = m, dt_day = d, dt_hour = rem div 3600,
          dt_minute = rem mod 3600 div 60, dt_second = rem mod 60,
          dt_micro = nat (us mod 1000000)\<rparr>)"

subsection \<open>ISO 8601 text\<close>

definition isoformat :: "datetime \<Rightarrow> str" where
  "isoformat d =
     pad_nat 4 (dt_year d) @ ''-'' @ pad_nat 2 (dt_month d) @ ''-'' @ pad_nat 2 (dt_day d) @ ''T''
       @ pad_nat 2 (dt_hour d) @ '':'' @ pad_nat 2 (dt_minute d) @ '':'' @ pad_nat 2 (dt_second d)
       @ (if dt_micro d = 0 then [] else ''.'' @ pad_nat 6 (dt_micro d))
       @ ''+00:00''"

text \<open>\<^verbatim>\<open>datetime.fromtimestamp(s, UTC).isoformat().replace("+00:00", "Z")\<close>\<close>

definition isoformat_z :: "datetime \<Rightarrow> str" where
  "isoformat_z d = (let s = isoformat d in take (length s - 6) s @ ''Z'')"

text \<open>A field of exactly \<open>w\<close> digits, and the rest of the text.\<close>

definition read_field :: "nat \<Rightarrow> str \<Rightarrow> (nat \<times> str) option" where
  "read_field w s =
     (if length s < w then None
      else case read_digits 0 (take w s) of None \<Rightarrow> None | Some n \<Rightarrow> Some (n, drop w s))"

definition read_lit :: "char \<Rightarrow> str \<Rightarrow> str option" where
  "read_lit c s = (case s of x # xs \<Rightarrow> if x = c then Some xs else None | [] \<Rightarrow> None)"

definition read_micro :: "str \<Rightarrow> (nat \<times> str) option" where
  "read_micro s =
     (case s of c # r \<Rightarrow>
        if c = CHR ''.'' \<or> c = CHR '','' then
          (let ds = takeWhile is_digit r
           in if ds = [] then None
              else map_option (\<lambda>n. (n, dropWhile is_digit r))
                     (read_digits 0 (take 6 (ds @ ''00000''))))
        else Some (0, s)
      | [] \<Rightarrow> Some (0, []))"

definition read_offset :: "str \<Rightarrow> int option" where
  "read_offset s =
     (if s = [] \<or> s = ''Z'' then Some 0
      else case s of c # r \<Rightarrow>
        if c = CHR ''+'' \<or> c = CHR ''-'' then
          (case read_field 2 r of None \<Rightarrow> None | Some (h, r1) \<Rightarrow>
            (case read_lit (CHR '':'') r1 of None \<Rightarrow> None | Some r2 \<Rightarrow>
              (case read_field 2 r2 of None \<Rightarrow> None | Some (m, r3) \<Rightarrow>
                if r3 \<noteq> [] \<or> h \<ge> 24 \<or> m \<ge> 60 then None
                else Some ((if c = CHR ''-'' then - 1 else 1) * (int h * 3600 + int m * 60)))))
        else None)"

definition read_date :: "str \<Rightarrow> (nat \<times> nat \<times> nat \<times> str) option" where
  "read_date s =
     (case read_field 4 s of None \<Rightarrow> None | Some (y, s1) \<Rightarrow>
      (case read_lit (CHR ''-'') s1 of None \<Rightarrow> None | Some s2 \<Rightarrow>
      (case read_field 2 s2 of None \<Rightarrow> None | Some (mo, s3) \<Rightarrow>
      (case read_lit (CHR ''-'') s3 of None \<Rightarrow> None | Some s4 \<Rightarrow>
      (case read_field 2 s4 of None \<Rightarrow> None | Some (d, s5) \<Rightarrow> Some (y, mo, d, s5))))))"

definition read_time :: "str \<Rightarrow> (nat \<times> nat \<times> nat \<times> nat \<times> str) option" where
  "read_time s =
     (case read_field 2 s of None \<Rightarrow> None | Some (h, s1) \<Rightarrow>
      (case read_lit (CHR '':'') s1 of None \<Rightarrow> None | Some s2 \<Rightarrow>
      (case read_field 2 s2 of None \<Rightarrow> None | Some (mi, s3) \<Rightarrow>
      (case read_lit (CHR '':'') s3 of None \<Rightarrow> None | Some s4 \<Rightarrow>
      (case read_field 2 s4 of None \<Rightarrow> None | Some (sec, s5) \<Rightarrow>
      (case read_micro s5 of None \<Rightarrow> None | Some (us, s6) \<Rightarrow> Some (h, mi, sec, us, s6)))))))"

text \<open>The reading and its offset from UTC in seconds.\<close>

definition fromisoformat :: "str \<Rightarrow> (datetime \<times> int) option" where
  "fromisoformat s =
     (case read_date s of None \<Rightarrow> None | Some (y, mo, d, s1) \<Rightarrow>
      (case s1 of [] \<Rightarrow> None | sep # s2 \<Rightarrow>
      (case read_time s2 of None \<Rightarrow> None | Some (h, mi, sec, us, s3) \<Rightarrow>
      (case read_offset s3 of None \<Rightarrow> None | Some off \<Rightarrow>
        let dt = \<lparr>dt_year = y, dt_month = mo, dt_day = d, dt_hour = h,
                  dt_minute = mi, dt_second = sec, dt_micro = us\<rparr>
        in if valid_datetime dt then Some (dt, off) else None))))"

text \<open>\<^verbatim>\<open>datetime.fromisoformat(s).timestamp()\<close>; \<open>None\<close> is \<open>ValueError\<close>.\<close>

definition iso_to_epoch :: "str \<Rightarrow> int option" where
  "iso_to_epoch s = map_option (\<lambda>(d, off). timestamp d - off * 1000000) (fromisoformat s)"

subsection \<open>Round trip\<close>

lemma read_field_pad [simp]:
  "n < 10 ^ w \<Longrightarrow> read_field w (pad_nat w n @ r) = Some (n, r)"
  by (simp add: read_field_def read_digits_pad_nat)

lemma read_lit_Cons [simp]: "read_lit c (c # r) = Some r"
  by (simp add: read_lit_def)

lemma valid_datetime_widths:
  assumes "valid_datetime d"
  shows "dt_year d < 10 ^ 4" "dt_month d < 10 ^ 2" "dt_day d < 10 ^ 2" "dt_hour d < 10 ^ 2"
    "dt_minute d < 10 ^ 2" "dt_second d < 10 ^ 2" "dt_micro d < 10 ^ 6"
  using assms by (auto simp: valid_datetime_def days_in_month_def split: if_splits)

lemma takeWhile_pad_nat:
  "takeWhile is_digit (pad_nat w n @ CHR ''+'' # r) = pad_nat w n"
  "dropWhile is_digit (pad_nat w n @ CHR ''+'' # r) = CHR ''+'' # r"
proof -
  have "\<forall>c \<in> set (pad_nat w n). is_digit c"
    using list_all_pad_nat [of w n] by (simp add: list_all_iff)
  then show "takeWhile is_digit (pad_nat w n @ CHR ''+'' # r) = pad_nat w n"
    and "dropWhile is_digit (pad_nat w n @ CHR ''+'' # r) = CHR ''+'' # r"
    by (simp_all add: takeWhile_append2 dropWhile_append2 del: not_None_eq)
qed

lemma read_micro_plus: "read_micro (CHR ''+'' # r) = Some (0, CHR ''+'' # r)"
  by (simp add: read_micro_def)

lemma read_micro_frac:
  assumes "n < 10 ^ 6"
  shows "read_micro (CHR ''.'' # pad_nat 6 n @ CHR ''+'' # r) = Some (n, CHR ''+'' # r)"
proof -
  have "pad_nat 6 n \<noteq> []" using length_pad_nat [of 6 n] by fastforce
  moreover have "read_digits 0 (take 6 (pad_nat 6 n @ ''00000'')) = Some n"
    using assms by (simp add: read_digits_pad_nat)
  ultimately show ?thesis
    unfolding read_micro_def list.case takeWhile_pad_nat Let_def by simp
qed

lemma read_offset_utc: "read_offset ''+00:00'' = Some 0"
  by code_simp

lemma fromisoformat_isoformat:
  assumes "valid_datetime d"
  shows "fromisoformat (isoformat d) = Some (d, 0)"
proof -
  note w = valid_datetime_widths [OF assms]
  let ?tail = "(if dt_micro d = 0 then [] else ''.'' @ pad_nat 6 (dt_micro d)) @ ''+00:00''"
  let ?time = "pad_nat 2 (dt_hour d) @ '':'' @ pad_nat 2 (dt_minute d) @ '':''
    @ pad_nat 2 (dt_second d) @ ?tail"
  have micro: "read_micro ?tail = Some (dt_micro d, ''+00:00'')"
    using read_micro_frac [OF w(7), of "''00:00''"] read_micro_plus [of "''00:00''"] by simp
  have "read_time ?time = Some (dt_hour d, dt_minute d, dt_second d, dt_micro d, ''+00:00'')"
    using w micro by (simp add: read_time_def)
  moreover have "read_date (isoformat d) = Some (dt_year d, dt_month d, dt_day d, CHR ''T'' # ?time)"
    using w by (simp add: read_date_def isoformat_def)
  moreover have "valid_datetime \<lparr>dt_year = dt_year d, dt_month = dt_month d, dt_day = dt_day d,
      dt_hour = dt_hour d, dt_minute = dt_minute d, dt_second = dt_second d,
      dt_micro = dt_micro d\<rparr>"
    using assms by (simp add: valid_datetime_def)
  ultimately show ?thesis
    using assms by (simp add: fromisoformat_def read_offset_utc Let_def)
qed

lemma iso_to_epoch_isoformat: "valid_datetime d \<Longrightarrow> iso_to_epoch (isoformat d) = Some (timestamp d)"
  by (simp add: iso_to_epoch_def fromisoformat_isoformat)

subsection \<open>The calendar\<close>

lemma month_day_ok:
  assumes "r < 365" "month_day y r = (m, d)"
  shows "1 \<le> m \<and> m \<le> 12 \<and> 1 \<le> d \<and> d \<le> days_in_month y m \<and> days_before_month y m + d = r + 1"
proof -
  define k where "k = (r + 50) div 32"
  have k: "k * 32 \<le> r + 50" "r + 50 < k * 32 + 32" by (simp_all add: k_def)
  have "1 \<le> k" "k \<le> 12" using k assms(1) by linarith+
  then have "k = 1 \<or> k = 2 \<or> k = 3 \<or> k = 4 \<or> k = 5 \<or> k = 6 \<or> k = 7 \<or> k = 8 \<or> k = 9 \<or> k = 10
    \<or> k = 11 \<or> k = 12" by presburger
  then show ?thesis
    using assms k unfolding month_day_def k_def [symmetric] Let_def
    by (elim disjE) (auto simp: days_before_month_def days_in_month_def split: if_splits)
qed

lemma days_before_year_parts:
  assumes "c \<le> 3" "d \<le> 24" "e \<le> 3"
  shows "days_before_year (q * 400 + 1 + c * 100 + d * 4 + e) = 146097 * q + 36524 * c + 1461 * d + 365 * e"
proof -
  let ?p = "q * 400 + c * 100 + d * 4 + e"
  have "?p div 4 = q * 100 + c * 25 + d" "?p div 100 = q * 4 + c" "?p div 400 = q"
    using assms by linarith+
  then show ?thesis by (simp add: days_before_year_def Let_def)
qed

lemma last_day_of_leap:
  assumes "c \<le> 3" "e \<le> 24" "e < 24 \<or> c = 3" "y = q * 400 + 1 + c * 100 + e * 4 + 3"
  shows "days_before_year y + days_before_month y 12 + 31 = 146097 * q + 36524 * c + 1461 * e + 1461"
proof -
  have "y = 4 * (q * 100 + c * 25 + e + 1)" using assms(4) by simp
  then have "y mod 4 = 0" by (metis mod_mult_self1_is_0)
  moreover have "y mod 100 \<noteq> 0 \<or> y mod 400 = 0"
  proof (cases "e < 24")
    case True
    have "y = (e * 4 + 4) + (q * 4 + c) * 100" using assms(4) by simp
    then have "y mod 100 = (e * 4 + 4) mod 100" by (metis mod_mult_self1)
    also have "\<dots> = e * 4 + 4" using True by simp
    finally show ?thesis by simp
  next
    case False
    then have "y = q * 400 + 400" using assms by simp
    then show ?thesis by simp
  qed
  ultimately have l: "is_leap y" by (simp add: is_leap_def)
  show ?thesis
    using days_before_year_parts [OF assms(1,2), of 3 q] assms(4) l by (simp add: days_before_month_def)
qed

lemma ord2ymd_correct:
  assumes "1 \<le> o1" "ord2ymd o1 = (y, m, d)"
  shows "1 \<le> y \<and> 1 \<le> m \<and> m \<le> 12 \<and> 1 \<le> d \<and> d \<le> days_in_month y m
    \<and> days_before_year y + days_before_month y m + d = o1"
proof -
  define n q a where "n = o1 - 1" and "q = n div 146097" and "a = n mod 146097"
  define c b where "c = a div 36524" and "b = a mod 36524"
  define e f where "e = b div 1461" and "f = b mod 1461"
  define g r where "g = f div 365" and "r = f mod 365"
  define z where "z = q * 400 + 1 + c * 100 + e * 4 + g"
  have parts: "n = q * 146097 + a" "a = c * 36524 + b" "b = e * 1461 + f" "f = g * 365 + r" "o1 = n + 1"
    and small: "a < 146097" "b < 36524" "f < 1461" "r < 365"
    using assms(1) by (simp_all add: n_def q_def a_def c_def b_def e_def f_def g_def r_def)
  have e24: "e \<le> 24" using parts small by linarith
  have res: "(y, m, d) = (if g = 4 \<or> c = 4 then (z - 1, 12, 31) else (z, month_day z r))"
    using assms(2) unfolding ord2ymd_def Let_def n_def q_def a_def c_def b_def e_def f_def g_def r_def z_def by simp
  consider "c = 4" | "c \<le> 3" "g = 4" | "c \<le> 3" "g \<le> 3" using parts small by linarith
  then show ?thesis
  proof cases
    case 1
    then have "e = 0" "g = 0" "r = 0" using parts small by linarith+
    with 1 res have y: "y = q * 400 + 1 + 3 * 100 + 24 * 4 + 3" "m = 12" "d = 31" by (simp_all add: z_def)
    from last_day_of_leap [OF _ _ _ y(1)] y parts 1 \<open>e = 0\<close> \<open>g = 0\<close> \<open>r = 0\<close> show ?thesis
      by (simp add: days_in_month_def)
  next
    case 2
    then have "r = 0" "e < 24" using parts small by linarith+
    with 2 res have y: "y = q * 400 + 1 + c * 100 + e * 4 + 3" "m = 12" "d = 31" by (simp_all add: z_def)
    from last_day_of_leap [OF 2(1) e24 _ y(1)] \<open>e < 24\<close> y parts 2 \<open>r = 0\<close> show ?thesis
      by (simp add: days_in_month_def)
  next
    case 3
    then have y: "y = z" "month_day z r = (m, d)" using res by auto
    have "days_before_year z = 146097 * q + 36524 * c + 1461 * e + 365 * g"
      unfolding z_def by (rule days_before_year_parts [OF 3(1) e24 3(2)])
    with month_day_ok [OF small(4) y(2)] y parts show ?thesis by (simp add: z_def)
  qed
qed

lemma days_before_year_10000:
  assumes "9999 < y"
  shows "3652059 \<le> days_before_year y"
proof -
  define p where "p = y - 1"
  have "9999 \<le> p" using assms by (simp add: p_def)
  moreover have "p \<le> 4 * (p div 4) + 3" "100 * (p div 100) \<le> p" "p \<le> 400 * (p div 400) + 399"
    by linarith+
  ultimately have "3652059 + p div 100 \<le> p * 365 + p div 4 + p div 400" by linarith
  moreover have "p div 100 \<le> p * 365 + p div 4" by linarith
  ultimately show ?thesis unfolding days_before_year_def Let_def p_def [symmetric] by linarith
qed

text \<open>Midnight of 1 January 10000, the first instant \<open>datetime\<close> cannot hold.\<close>

definition epoch_end :: int where
  "epoch_end = 253402300800000000"

lemma seconds_of_day:
  assumes "t < (86400 :: nat)"
  shows "t div 3600 < 24" "t mod 3600 div 60 < 60" "t mod 60 < 60"
    "int (t div 3600) * 3600 + int (t mod 3600 div 60) * 60 + int (t mod 60) = int t"
proof -
  have "t mod 60 = t mod 3600 mod 60" by (simp add: mod_mod_cancel)
  then have "t div 3600 * 3600 + t mod 3600 div 60 * 60 + t mod 60 = t"
    by (metis add.assoc div_mod_decomp)
  then have "int (t div 3600 * 3600 + t mod 3600 div 60 * 60 + t mod 60) = int t" by (rule arg_cong)
  then show "int (t div 3600) * 3600 + int (t mod 3600 div 60) * 60 + int (t mod 60) = int t"
    by (simp only: of_nat_add of_nat_mult of_nat_numeral)
  show "t div 3600 < 24" "t mod 3600 div 60 < 60" "t mod 60 < 60" using assms by simp_all
qed

lemma utcfromtimestamp_ok:
  assumes "0 \<le> us" "us < epoch_end"
  shows "valid_datetime (utcfromtimestamp us) \<and> timestamp (utcfromtimestamp us) = us"
proof -
  define s dd where "s = us div 1000000" and "dd = s div 86400"
  define t where "t = nat (s mod 86400)"
  define u where "u = nat (us mod 1000000)"
  obtain y m d where ymd: "ord2ymd (nat (dd + 719163)) = (y, m, d)" by (metis prod_cases3)
  have dd: "0 \<le> dd" "dd < 2932897"
    using assms unfolding dd_def s_def epoch_end_def by linarith+
  have o: "1 \<le> y" "1 \<le> m" "m \<le> 12" "1 \<le> d" "d \<le> days_in_month y m"
    "days_before_year y + days_before_month y m + d = nat (dd + 719163)"
    using ord2ymd_correct [OF _ ymd] dd by auto
  have y: "y \<le> 9999"
    using days_before_year_10000 [of y] o(4,6) dd by linarith
  have t: "t < 86400" "int t = s mod 86400" and u: "u < 1000000" "int u = us mod 1000000"
    unfolding t_def u_def by (simp_all add: nat_less_iff)
  note tod = seconds_of_day [OF t(1)]
  have dt: "utcfromtimestamp us = \<lparr>dt_year = y, dt_month = m, dt_day = d, dt_hour = t div 3600,
      dt_minute = t mod 3600 div 60, dt_second = t mod 60, dt_micro = u\<rparr>"
    using ymd by (simp add: utcfromtimestamp_def Let_def flip: s_def dd_def t_def u_def)
  have "valid_datetime (utcfromtimestamp us)"
    unfolding dt valid_datetime_def using o y tod u by simp
  moreover have "int (nat (dd + 719163)) - 719163 = dd" using dd by simp
  then have "timestamp (utcfromtimestamp us) = (dd * 86400 + s mod 86400) * 1000000 + us mod 1000000"
    unfolding dt timestamp_def toordinal_def datetime.simps o(6) tod(4) [symmetric] t(2) [symmetric]
      u(2) [symmetric] by (simp only: add.assoc)
  moreover have "dd * 86400 + s mod 86400 = s" "s * 1000000 + us mod 1000000 = us"
    by (simp_all only: dd_def s_def div_mult_mod_eq)
  ultimately show ?thesis by simp
qed

end
