(* ===== verification/Observability.thy ===== *)
theory Observability
  imports Json Timestamps
begin

text \<open>
  Logging and metrics: \<^verbatim>\<open>structured_log.py\<close>, \<^verbatim>\<open>auth/observability.py\<close> and \<^verbatim>\<open>middleware.py\<close>. A log
  field is a JSON value, \<^verbatim>\<open>None\<close> the null; the loggers of the process are a function from their names. A logger
  and a metrics provider are arguments that may raise and have a state of their own; metric values are the integers the
  sources pass. The JSON text of a record is that of \<open>dumps\<close>, which also escapes DEL.
\<close>

subsection \<open>Formatters\<close>

record log_record =
  lr_created :: int
  lr_levelname :: str
  lr_message :: str
  lr_extra :: "(str \<times> json) list"
  lr_exception :: "str option"

definition STRUCTURED_FIELDS :: "str list" where
  "STRUCTURED_FIELDS =
     [''event'', ''request_id'', ''identity_label'', ''identity_extra'', ''resource'', ''action'', ''result'', ''duration_ms'', ''detail'']"

definition log_field :: "log_record \<Rightarrow> str \<Rightarrow> json option" where
  "log_field r field = (case map_of (lr_extra r) field of Some JNull \<Rightarrow> None | v \<Rightarrow> v)"

definition add_field :: "str \<Rightarrow> json option \<Rightarrow> (str \<times> json) list \<Rightarrow> (str \<times> json) list" where
  "add_field k v obj = (if map_of obj k \<noteq> None then obj else case v of None \<Rightarrow> obj | Some j \<Rightarrow> obj @ [(k, j)])"

definition json_object :: "str option \<Rightarrow> log_record \<Rightarrow> (str \<times> json) list" where
  "json_object request_id r =
     (let obj = [(''timestamp'', JStr (isoformat (utcfromtimestamp (lr_created r)))), (''level'', JStr (lr_levelname r))]
                @ List.map_filter (\<lambda>f. map_option (Pair f) (log_field r f)) STRUCTURED_FIELDS;
          obj = add_field ''event'' (Some (JStr (lr_message r))) obj;
          obj = add_field ''request_id'' (map_option JStr request_id) obj
      in case lr_exception r of None \<Rightarrow> obj | Some text \<Rightarrow> obj @ [(''exception'', JStr text)])"

definition json_format :: "str option \<Rightarrow> log_record \<Rightarrow> str" where
  "json_format request_id r = dumps (JObj (json_object request_id r))"

text \<open>The text formatter; \<open>asctime\<close> is the local time of the record as the standard library prints it.\<close>

definition text_format :: "str \<Rightarrow> log_record \<Rightarrow> str" where
  "text_format asctime r =
     (let s = asctime @ '' '' @ lr_levelname r @ '' '' @ lr_message r
      in case lr_exception r of
           None \<Rightarrow> s
         | Some text \<Rightarrow> (if s \<noteq> [] \<and> last s = newline then s else s @ [newline]) @ text)"

subsection \<open>Logger trees\<close>

datatype log_format = TextFormat | JsonFormat

record log_handler =
  lh_id :: nat
  lh_format :: log_format
  lh_managed :: bool

record log_tree =
  lt_handlers :: "log_handler list"
  lt_level :: nat
  lt_propagate :: bool

type_synonym log_trees = "str \<Rightarrow> log_tree"

definition DEBUG_LEVEL :: nat where
  "DEBUG_LEVEL = 10"

definition OWN_LOG_TREES :: "str list" where
  "OWN_LOG_TREES = [''cassetta'', ''cassetta.auth'']"

definition attach_managed_handler :: "log_handler \<Rightarrow> str \<Rightarrow> log_trees \<Rightarrow> log_trees" where
  "attach_managed_handler h name trees =
     trees(name := (trees name)\<lparr>lt_handlers := filter (\<lambda>x. \<not> lh_managed x) (lt_handlers (trees name)) @ [h], lt_level := DEBUG_LEVEL\<rparr>)"

definition configure_own_tree :: "log_handler \<Rightarrow> str \<Rightarrow> log_trees \<Rightarrow> log_trees" where
  "configure_own_tree h name trees =
     (let own = attach_managed_handler h name trees in own(name := (own name)\<lparr>lt_propagate := False\<rparr>))"

text \<open>\<open>h\<close> identifies the handler object that the call creates.\<close>

definition configure_logging :: "nat \<Rightarrow> str \<Rightarrow> str list \<Rightarrow> log_trees \<Rightarrow> log_trees" where
  "configure_logging h log_format extra_log_trees trees =
     (let handler = \<lparr>lh_id = h, lh_format = (if log_format = ''json'' then JsonFormat else TextFormat), lh_managed = True\<rparr>;
          own = fold (configure_own_tree handler) OWN_LOG_TREES trees
      in fold (\<lambda>name trees. if name \<in> set OWN_LOG_TREES then trees else attach_managed_handler handler name trees)
           extra_log_trees own)"

subsection \<open>Events\<close>

text \<open>A step that may raise: the exception, or \<open>None\<close>, and the state afterwards.\<close>

type_synonym 's step = "'s \<Rightarrow> exc option \<times> 's"

definition try_except :: "'s step \<Rightarrow> 's step \<Rightarrow> 's step" where
  "try_except body handler s = (case body s of (None, s') \<Rightarrow> (None, s') | (Some e, s') \<Rightarrow> handler s')"

definition step_pass :: "'s step" where
  "step_pass s = (None, s)"

definition and_then :: "'s step \<Rightarrow> 's step \<Rightarrow> 's step" where
  "and_then a b s = (case a s of (None, s') \<Rightarrow> b s' | (Some e, s') \<Rightarrow> (Some e, s'))"

record 's logger =
  lo_log :: "nat \<Rightarrow> str \<Rightarrow> (str \<times> json) list \<Rightarrow> 's step"
  lo_exception :: "str \<Rightarrow> 's step"

type_synonym tags = "(str \<times> str) list"

record 's metrics_provider =
  mp_increment :: "str \<Rightarrow> int \<Rightarrow> tags option \<Rightarrow> 's step"
  mp_observe :: "str \<Rightarrow> int \<Rightarrow> tags option \<Rightarrow> 's step"
  mp_gauge :: "str \<Rightarrow> int \<Rightarrow> tags option \<Rightarrow> 's step"

definition default_metrics_provider :: "'s metrics_provider" where
  "default_metrics_provider =
     \<lparr>mp_increment = (\<lambda>name v t. step_pass), mp_observe = (\<lambda>name v t. step_pass), mp_gauge = (\<lambda>name v t. step_pass)\<rparr>"

text \<open>The keyword arguments of an event, in the order they are added.\<close>

definition EVENT_FIELDS :: "str list" where
  "EVENT_FIELDS = [''identity_label'', ''identity_extra'', ''resource'', ''action'', ''result'', ''duration_ms'', ''detail'']"

definition event_extra :: "str option \<Rightarrow> str \<Rightarrow> (str \<times> json) list \<Rightarrow> (str \<times> json) list" where
  "event_extra request_id event kw =
     [(''event'', JStr event)]
     @ (case request_id of None \<Rightarrow> [] | Some rid \<Rightarrow> [(''request_id'', JStr rid)])
     @ List.map_filter (\<lambda>f. case map_of kw f of None \<Rightarrow> None | Some JNull \<Rightarrow> None | Some v \<Rightarrow> Some (f, v)) EVENT_FIELDS"

definition struct_log :: "str option \<Rightarrow> 's logger \<Rightarrow> nat \<Rightarrow> str \<Rightarrow> (str \<times> json) list \<Rightarrow> 's step" where
  "struct_log request_id logger level event kw = lo_log logger level event (event_extra request_id event kw)"

definition INFO_LEVEL :: nat where
  "INFO_LEVEL = 20"

record metric_call =
  mc_name :: str
  mc_value :: int
  mc_tags :: "tags option"
  mc_gauge :: bool

definition emit_log :: "str option \<Rightarrow> 's logger \<Rightarrow> nat option \<Rightarrow> str \<Rightarrow> (str \<times> json) list \<Rightarrow> 's step" where
  "emit_log request_id logger level event kw =
     try_except (struct_log request_id logger (case level of None \<Rightarrow> INFO_LEVEL | Some l \<Rightarrow> l) event kw)
       (try_except (lo_exception logger (''struct_log failed for '' @ event)) step_pass)"

definition emit_metric :: "'s logger option \<Rightarrow> 's metrics_provider \<Rightarrow> metric_call \<Rightarrow> 's step" where
  "emit_metric logger metrics m =
     try_except
       (if mc_gauge m then mp_gauge metrics (mc_name m) (mc_value m) (mc_tags m)
        else mp_increment metrics (mc_name m) (mc_value m) (mc_tags m))
       (case logger of
          None \<Rightarrow> step_pass
        | Some lg \<Rightarrow>
           try_except (lo_exception lg (''metrics.'' @ (if mc_gauge m then ''gauge'' else ''increment'') @ '' failed for '' @ mc_name m))
             step_pass)"

definition safe_emit ::
  "str option \<Rightarrow> 's logger option \<Rightarrow> nat option \<Rightarrow> str option \<Rightarrow> (str \<times> json) list \<Rightarrow> 's metrics_provider option \<Rightarrow> metric_call option
   \<Rightarrow> 's step" where
  "safe_emit request_id logger level event kw metrics m =
     and_then
       (case (event, logger) of (Some ev, Some lg) \<Rightarrow> emit_log request_id lg level ev kw | _ \<Rightarrow> step_pass)
       (case (m, metrics) of (Some call, Some mp) \<Rightarrow> emit_metric logger mp call | _ \<Rightarrow> step_pass)"

subsection \<open>auth/observability.py\<close>

definition WARNING_LEVEL :: nat where
  "WARNING_LEVEL = 30"

text \<open>The number of characters of a text, \<^verbatim>\<open>len(s)\<close>: the bytes that do not continue a character.\<close>

definition char_count :: "str \<Rightarrow> nat" where
  "char_count s = length (filter (\<lambda>c. \<not> (128 \<le> (of_char c :: nat) \<and> (of_char c :: nat) < 192)) s)"

definition emit_auth_failure ::
  "str option \<Rightarrow> 's logger \<Rightarrow> 's metrics_provider \<Rightarrow> str \<Rightarrow> str \<Rightarrow> str option \<Rightarrow> 's step" where
  "emit_auth_failure request_id logger metrics source reason identity_hint s =
     (if \<not> (case identity_hint of None \<Rightarrow> True | Some h \<Rightarrow> char_count h \<le> 12) then (Some AssertionError, s)
      else try_except
        (and_then
          (struct_log request_id logger WARNING_LEVEL ''auth.failure''
             [(''detail'', JObj [(''source'', JStr source), (''reason'', JStr reason),
                 (''identity_hint'', case identity_hint of None \<Rightarrow> JNull | Some h \<Rightarrow> JStr h)])])
          (mp_increment metrics ''cassetta.auth.failures'' 1 (Some [(''source'', source), (''reason'', reason)])))
        (try_except (lo_exception logger ''auth observability emission failed'') step_pass) s)"

subsection \<open>middleware.py\<close>

text \<open>
  The context variable of the request identifier and the state of everything else. An application takes the
  state and returns what it raised, the status of each response it started and the state afterwards.
\<close>

record 's request_state =
  rs_request_id :: "str option"
  rs_world :: 's

type_synonym 's asgi_app = "'s request_state \<Rightarrow> exc option \<times> int list \<times> 's request_state"

definition last_status :: "int list \<Rightarrow> int" where
  "last_status started = (if started = [] then 200 else last started)"

definition request_metrics :: "str option \<Rightarrow> 's metrics_provider \<Rightarrow> int \<Rightarrow> str \<Rightarrow> str \<Rightarrow> int \<Rightarrow> 's step" where
  "request_metrics rid metrics duration http_method path status_code =
     (let tags = [(''method'', http_method), (''path'', path)] in
      and_then
        (safe_emit rid None None None [] (Some metrics)
           (Some \<lparr>mc_name = ''cassetta.requests.total'', mc_value = 1, mc_tags = Some tags, mc_gauge = False\<rparr>))
        (and_then
          (try_except (mp_observe metrics ''cassetta.request.duration_seconds'' duration (Some tags)) step_pass)
          (if status_code \<ge> 400
           then safe_emit rid None None None [] (Some metrics)
             (Some \<lparr>mc_name = ''cassetta.request.errors'', mc_value = 1,
                mc_tags = Some (tags @ [(''status'', show_int (status_code div 100) @ ''xx'')]), mc_gauge = False\<rparr>)
           else step_pass)))"

definition request_id_middleware ::
  "bool \<Rightarrow> str \<Rightarrow> int \<Rightarrow> 's metrics_provider option \<Rightarrow> str \<Rightarrow> str \<Rightarrow> 's asgi_app \<Rightarrow> 's asgi_app" where
  "request_id_middleware is_http rid duration metrics http_method path app s =
     (if \<not> is_http then app s
      else
        (let (r, started, s1) = app (s\<lparr>rs_request_id := Some rid\<rparr>);
             emit = (case metrics of
                       None \<Rightarrow> step_pass
                     | Some mp \<Rightarrow> request_metrics (rs_request_id s1) mp duration http_method path (last_status started))
         in case emit (rs_world s1) of
              (Some e, w) \<Rightarrow> (Some e, started, s1\<lparr>rs_world := w\<rparr>)
            | (None, w) \<Rightarrow> (r, started, s1\<lparr>rs_world := w, rs_request_id := rs_request_id s\<rparr>)))"

subsection \<open>Lemmas\<close>

lemma try_pass: "fst (try_except a step_pass s) = None"
  by (simp add: try_except_def step_pass_def split: prod.split option.split)

lemma try_quiet: "(\<And>s. fst (h s) = None) \<Longrightarrow> fst (try_except a h s) = None"
  by (simp add: try_except_def split: prod.split option.split)

lemma and_then_quiet: "fst (a s) = None \<Longrightarrow> and_then a b s = b (snd (a s))"
  by (cases "a s") (simp add: and_then_def)

lemma step_pass_simps [simp]: "fst (step_pass s) = None" "snd (step_pass s) = s"
  by (simp_all add: step_pass_def)

lemma emit_quiet [simp]: "fst (emit_log rid lg level ev kw s) = None" "fst (emit_metric logger mp m s) = None"
  by (auto simp: emit_log_def emit_metric_def try_pass intro!: try_quiet split: option.split)

lemma safe_emit_quiet:
  "safe_emit rid logger level event kw metrics m s
   = (None, (case (m, metrics) of (Some call, Some mp) \<Rightarrow> snd \<circ> emit_metric logger mp call | _ \<Rightarrow> id)
       ((case (event, logger) of (Some ev, Some lg) \<Rightarrow> snd \<circ> emit_log rid lg level ev kw | _ \<Rightarrow> id) s))"
  by (auto simp: safe_emit_def and_then_quiet prod_eq_iff split: option.split)

lemma request_metrics_quiet: "fst (request_metrics rid mp duration http_method path status_code s) = None"
  by (simp add: request_metrics_def Let_def and_then_quiet safe_emit_quiet try_pass)

lemma configure_own:
  "fold (configure_own_tree handler) names trees n
   = (if n \<in> set names
      then (trees n)\<lparr>lt_handlers := filter (\<lambda>x. \<not> lh_managed x) (lt_handlers (trees n)) @ [handler], lt_level := DEBUG_LEVEL,
             lt_propagate := False\<rparr>
      else trees n)"
  if "lh_managed handler"
  using that by (induction names arbitrary: trees) (auto simp: attach_managed_handler_def configure_own_tree_def Let_def)

lemma configure_extra:
  "fold (\<lambda>name trees. if name \<in> own then trees else attach_managed_handler handler name trees) names trees n
   = (if n \<in> set names \<and> n \<notin> own
      then (trees n)\<lparr>lt_handlers := filter (\<lambda>x. \<not> lh_managed x) (lt_handlers (trees n)) @ [handler], lt_level := DEBUG_LEVEL\<rparr>
      else trees n)"
  if "lh_managed handler"
  using that by (induction names arbitrary: trees) (auto simp: attach_managed_handler_def)

lemma configure_logging_tree:
  "configure_logging h log_format extra trees n =
     (let handler = \<lparr>lh_id = h, lh_format = (if log_format = ''json'' then JsonFormat else TextFormat), lh_managed = True\<rparr>;
          t = (trees n)\<lparr>lt_handlers := filter (\<lambda>x. \<not> lh_managed x) (lt_handlers (trees n)) @ [handler], lt_level := DEBUG_LEVEL\<rparr>
      in if n \<in> set OWN_LOG_TREES then t\<lparr>lt_propagate := False\<rparr> else if n \<in> set extra then t else trees n)"
  by (auto simp: configure_logging_def Let_def configure_own configure_extra)

lemma hex_char_one_line: "d < 16 \<Longrightarrow> hex_char d \<noteq> newline"
proof
  assume "d < 16" "hex_char d = newline"
  then have "hex_val newline = Some d" using hex_val_hex_char [of d] by simp
  then show False by (simp add: hex_val_def)
qed

lemma esc_char_one_line: "newline \<notin> set (esc_char c)"
proof -
  have "hex_char (of_char c div 16) \<noteq> newline" "hex_char (of_char c mod 16) \<noteq> newline" if "of_char c < (32::nat) \<or> of_char c = (127::nat)"
    using that by (auto intro!: hex_char_one_line)
  then show ?thesis by (auto simp: esc_char_def Let_def)
qed

lemma show_int_one_line: "newline \<notin> set (show_int i)"
proof -
  have "\<not> is_digit newline" by (simp add: char_digit_def)
  then have "newline \<notin> set (show_nat n)" for n using list_all_show_nat [of n] by (auto simp: list_all_iff)
  then show ?thesis by (simp add: show_int_def)
qed

lemma dumps_str_one_line: "newline \<notin> set (dumps_str s)"
  by (induction s) (auto simp: dumps_str_def esc_char_one_line)

lemma dumps_one_line:
  "newline \<notin> set (dumps j)" "newline \<notin> set (dumps_elems js)" "newline \<notin> set (dumps_members ms)"
  by (induction j and js and ms rule: dumps_dumps_elems_dumps_members.induct)
    (auto simp: dumps_str_one_line show_int_one_line)

lemma picked_fields:
  "distinct fs \<Longrightarrow> distinct (map fst (List.map_filter (\<lambda>f. map_option (Pair f) (g f)) fs))
     \<and> set (map fst (List.map_filter (\<lambda>f. map_option (Pair f) (g f)) fs)) \<subseteq> set fs"
  by (induction fs) (auto simp: map_filter_simps split: option.split)

lemma add_field_ok:
  assumes "distinct (map fst obj)" "list_all (\<lambda>m. json_ok (snd m)) obj" "pred_option json_ok v"
  shows "distinct (map fst (add_field k v obj)) \<and> list_all (\<lambda>m. json_ok (snd m)) (add_field k v obj)"
  using assms by (auto simp: add_field_def map_of_eq_None_iff split: option.split)

lemma add_field_keys: "set (map fst (add_field k v obj)) \<subseteq> insert k (set (map fst obj))"
  by (auto simp: add_field_def split: option.split)

lemma json_object_ok:
  assumes "list_all (\<lambda>m. json_ok (snd m)) (lr_extra r)"
  shows "json_ok (JObj (json_object rid r))"
proof -
  let ?p = "List.map_filter (\<lambda>f. map_option (Pair f) (log_field r f)) STRUCTURED_FIELDS"
  let ?o = "[(''timestamp'', JStr (isoformat (utcfromtimestamp (lr_created r)))), (''level'', JStr (lr_levelname r))] @ ?p"
  let ?e = "add_field ''event'' (Some (JStr (lr_message r))) ?o"
  let ?f = "add_field ''request_id'' (map_option JStr rid) ?e"
  have d: "distinct STRUCTURED_FIELDS" "''timestamp'' \<notin> set STRUCTURED_FIELDS" "''level'' \<notin> set STRUCTURED_FIELDS"
    "''exception'' \<notin> set STRUCTURED_FIELDS" by (simp_all add: STRUCTURED_FIELDS_def)
  note p = picked_fields [OF d(1), of "log_field r"]
  have "json_ok v" if "log_field r f = Some v" for f v
    using that assms map_of_SomeD [of "lr_extra r" f v] by (auto simp: log_field_def list_all_iff split: option.splits json.splits)
  then have "list_all (\<lambda>m. json_ok (snd m)) ?p" by (auto simp: list_all_iff map_filter_def)
  moreover have "distinct (map fst ?o)" using p d by auto
  ultimately have o: "distinct (map fst ?o) \<and> list_all (\<lambda>m. json_ok (snd m)) ?o" by simp
  then have e: "distinct (map fst ?e) \<and> list_all (\<lambda>m. json_ok (snd m)) ?e" by (intro add_field_ok) auto
  then have f: "distinct (map fst ?f) \<and> list_all (\<lambda>m. json_ok (snd m)) ?f" by (intro add_field_ok) (cases rid; auto)+
  have "set (map fst ?f) \<subseteq> {''timestamp'', ''level'', ''event'', ''request_id''} \<union> set STRUCTURED_FIELDS"
    using add_field_keys [of "''request_id''" "map_option JStr rid" ?e] add_field_keys [of "''event''" "Some (JStr (lr_message r))" ?o] p
    by auto
  then have "''exception'' \<notin> set (map fst ?f)" using d(4) by auto
  with f show ?thesis by (simp add: json_object_def Let_def split: option.split)
qed

section \<open>Properties\<close>

text \<open>
  Configuring the logs. Every own tree and every tree the caller names has afterwards exactly one handler of
  this module, the new one, behind the handlers others attached, and the level DEBUG; propagation is switched off in the
  own trees and left as it was in the others, which the caller owns; no other tree is touched. Configuring again has the
  effect of the last call alone.
\<close>

theorem logging_configured:
  "(\<forall>n. configure_logging h log_format extra trees n =
      (if n \<in> set OWN_LOG_TREES \<union> set extra
       then \<lparr>lt_handlers = filter (\<lambda>x. \<not> lh_managed x) (lt_handlers (trees n))
                @ [\<lparr>lh_id = h, lh_format = (if log_format = ''json'' then JsonFormat else TextFormat), lh_managed = True\<rparr>],
              lt_level = DEBUG_LEVEL, lt_propagate = (n \<notin> set OWN_LOG_TREES \<and> lt_propagate (trees n))\<rparr>
       else trees n))
   \<and> configure_logging h' log_format' extra (configure_logging h log_format extra trees) = configure_logging h' log_format' extra trees"
proof
  show "\<forall>n. configure_logging h log_format extra trees n =
      (if n \<in> set OWN_LOG_TREES \<union> set extra
       then \<lparr>lt_handlers = filter (\<lambda>x. \<not> lh_managed x) (lt_handlers (trees n))
                @ [\<lparr>lh_id = h, lh_format = (if log_format = ''json'' then JsonFormat else TextFormat), lh_managed = True\<rparr>],
              lt_level = DEBUG_LEVEL, lt_propagate = (n \<notin> set OWN_LOG_TREES \<and> lt_propagate (trees n))\<rparr>
       else trees n)" for h log_format
    by (auto simp: configure_logging_tree Let_def)
  show "configure_logging h' log_format' extra (configure_logging h log_format extra trees) = configure_logging h' log_format' extra trees"
    by (rule ext) (simp add: configure_logging_tree Let_def)
qed

text \<open>
  Observability never disturbs a request. An emission returns without raising whatever the logger and the metrics
  provider do, and a failing log does not keep the metric from being attempted; an authentication failure is
  reported without raising unless the hint is longer than twelve characters; and the middleware hands on what the
  application returned or raised, with the request identifier of before, whatever the application did to it.
\<close>

theorem observability_harmless:
  "safe_emit rid (Some lg) level (Some ev) kw (Some mp) (Some m) s
     = (None, snd (emit_metric (Some lg) mp m (snd (emit_log rid lg level ev kw s))))
   \<and> fst (emit_auth_failure rid lg mp source reason hint s)
     = (if pred_option (\<lambda>h. char_count h \<le> 12) hint then None else Some AssertionError)
   \<and> (\<exists>w. request_id_middleware True rid' duration metrics http_method path app q
        = (let (r, started, q1) = app (q\<lparr>rs_request_id := Some rid'\<rparr>) in (r, started, q1\<lparr>rs_world := w, rs_request_id := rs_request_id q\<rparr>)))"
proof (intro conjI)
  show "safe_emit rid (Some lg) level (Some ev) kw (Some mp) (Some m) s
     = (None, snd (emit_metric (Some lg) mp m (snd (emit_log rid lg level ev kw s))))"
    by (simp add: safe_emit_quiet)
  show "fst (emit_auth_failure rid lg mp source reason hint s)
     = (if pred_option (\<lambda>h. char_count h \<le> 12) hint then None else Some AssertionError)"
    by (cases hint) (auto simp: emit_auth_failure_def try_pass intro!: try_quiet)
  obtain r started q1 where a: "app (q\<lparr>rs_request_id := Some rid'\<rparr>) = (r, started, q1)"
    by (cases "app (q\<lparr>rs_request_id := Some rid'\<rparr>)") auto
  have "fst ((case metrics of None \<Rightarrow> step_pass
      | Some mp \<Rightarrow> request_metrics (rs_request_id q1) mp duration http_method path (last_status started)) (rs_world q1)) = None"
    by (simp add: request_metrics_quiet split: option.split)
  then show "\<exists>w. request_id_middleware True rid' duration metrics http_method path app q
        = (let (r, started, q1) = app (q\<lparr>rs_request_id := Some rid'\<rparr>) in (r, started, q1\<lparr>rs_world := w, rs_request_id := rs_request_id q\<rparr>))"
    unfolding request_id_middleware_def a by (auto split: prod.split option.split)
qed


definition ex_record :: log_record where
  "ex_record = \<lparr>lr_created = 0, lr_levelname = ''INFO'', lr_message = ''a'' @ [newline] @ ''b'', lr_extra = [(''detail'', JStr [newline])],
     lr_exception = None\<rparr>"


text \<open>
  The text formatter leaves the fields of an event out, and a request whose application raises before it has
  started a response is not counted as an error: the answer of status 500 is made outside the middleware.
\<close>

lemma text_format_drops_fields: "text_format asctime (r\<lparr>lr_extra := x\<rparr>) = text_format asctime r"
  by (simp add: text_format_def)

lemma raised_not_counted: "request_metrics rid mp duration http_method path (last_status []) = request_metrics rid mp duration http_method path 200"
  by (simp add: last_status_def)

end
