(* ===== verification/Filesystem.thy ===== *)
theory Filesystem
  imports Prelude
begin

text \<open>
  The part of a POSIX file system and of \<open>os\<close>, \<open>pathlib\<close> and \<open>shutil\<close> that the backends
  use. A path the program holds is a list of components in which \<open>..\<close> may occur;
  \<open>walk\<close> resolves it the way the kernel does, component by component, every component
  but the last having to be a directory. A resolved path has no \<open>..\<close>. Every node carries
  a modification time; creating or removing an entry updates that of its directory. There
  are no symbolic links, permissions or I/O faults; a path that ends in \<open>..\<close> is removed by
  \<open>rmtree\<close> like any other.

  \<open>entry_at\<close> forgets the modification times: it is the abstract file system, a map from
  resolved paths to directories and file contents, and the lemmas at the end say what each
  call does to it.
\<close>

type_synonym fpath = "str list"

datatype node = DirNode int | FileNode bytes int

type_synonym fs = "(fpath \<times> node) list"

subsection \<open>Resolving and inspecting\<close>

fun walk :: "fs \<Rightarrow> fpath \<Rightarrow> str list \<Rightarrow> exc + fpath" where
  "walk fs cur [] = Inr cur"
| "walk fs cur (c # cs) =
     (case map_of fs cur of
        None \<Rightarrow> Inl FileNotFoundError
      | Some (FileNode b m) \<Rightarrow> Inl NotADirectoryError
      | Some (DirNode m) \<Rightarrow> walk fs (if c = ''..'' then butlast cur else cur @ [c]) cs)"

definition stat :: "fs \<Rightarrow> str list \<Rightarrow> node option" where
  "stat fs parts = (case walk fs [] parts of Inl e \<Rightarrow> None | Inr p \<Rightarrow> map_of fs p)"

definition is_dir :: "fs \<Rightarrow> str list \<Rightarrow> bool" where
  "is_dir fs parts = (case stat fs parts of Some (DirNode m) \<Rightarrow> True | _ \<Rightarrow> False)"

definition is_file :: "fs \<Rightarrow> str list \<Rightarrow> bool" where
  "is_file fs parts = (case stat fs parts of Some (FileNode b m) \<Rightarrow> True | _ \<Rightarrow> False)"

definition st_mtime :: "node \<Rightarrow> int" where
  "st_mtime n = (case n of DirNode m \<Rightarrow> m | FileNode b m \<Rightarrow> m)"

definition read_bytes :: "fs \<Rightarrow> str list \<Rightarrow> exc + bytes" where
  "read_bytes fs parts =
     (case walk fs [] parts of
        Inl e \<Rightarrow> Inl e
      | Inr p \<Rightarrow> (case map_of fs p of
           None \<Rightarrow> Inl FileNotFoundError
         | Some (DirNode m) \<Rightarrow> Inl IsADirectoryError
         | Some (FileNode b m) \<Rightarrow> Inr b))"

text \<open>The names in a directory, in the order the file system returns them.\<close>

definition children :: "fs \<Rightarrow> fpath \<Rightarrow> (str \<times> node) list" where
  "children fs p = map (\<lambda>(q, n). (last q, n)) (filter (\<lambda>(q, n). q \<noteq> [] \<and> butlast q = p) fs)"

subsection \<open>Changing\<close>

definition touch :: "int \<Rightarrow> fpath \<Rightarrow> fs \<Rightarrow> fs" where
  "touch t p fs = map (\<lambda>(q, n). (q, if q = p then
       (case n of DirNode m \<Rightarrow> DirNode t | FileNode b m \<Rightarrow> n) else n)) fs"

definition os_mkdir :: "int \<Rightarrow> str list \<Rightarrow> fs \<Rightarrow> exc + fs" where
  "os_mkdir t parts fs =
     (case walk fs [] parts of
        Inl e \<Rightarrow> Inl e
      | Inr p \<Rightarrow> (case map_of fs p of
           Some n \<Rightarrow> Inl FileExistsError
         | None \<Rightarrow> Inr (touch t (butlast p) (AList.update p (DirNode t) fs))))"

text \<open>\<^verbatim>\<open>Path.mkdir(parents=True, exist_ok=True)\<close>\<close>

function mkdir_p :: "int \<Rightarrow> str list \<Rightarrow> fs \<Rightarrow> exc + fs" where
  "mkdir_p t parts fs =
     (case os_mkdir t parts fs of
        Inr fs' \<Rightarrow> Inr fs'
      | Inl e \<Rightarrow>
          if e = FileNotFoundError then
            (if parts = [] then Inl e
             else case mkdir_p t (butlast parts) fs of
                    Inl e' \<Rightarrow> Inl e'
                  | Inr fs' \<Rightarrow>
                      (case os_mkdir t parts fs' of
                         Inr fs'' \<Rightarrow> Inr fs''
                       | Inl e' \<Rightarrow> if is_dir fs' parts then Inr fs' else Inl e'))
          else if is_dir fs parts then Inr fs else Inl e)"
  by pat_completeness auto
termination
  by (relation "measure (\<lambda>(t, parts, fs). length parts)") auto

declare mkdir_p.simps [simp del]

text \<open>\<^verbatim>\<open>open(path, "wb")\<close>, the writes, and the close.\<close>

definition write_bytes :: "int \<Rightarrow> str list \<Rightarrow> bytes \<Rightarrow> fs \<Rightarrow> exc + fs" where
  "write_bytes t parts data fs =
     (case walk fs [] parts of
        Inl e \<Rightarrow> Inl e
      | Inr p \<Rightarrow> (case map_of fs p of
           Some (DirNode m) \<Rightarrow> Inl IsADirectoryError
         | Some (FileNode b m) \<Rightarrow> Inr (AList.update p (FileNode data t) fs)
         | None \<Rightarrow> Inr (touch t (butlast p) (AList.update p (FileNode data t) fs))))"

text \<open>\<^verbatim>\<open>os.open(path, O_WRONLY | O_CREAT | O_EXCL)\<close>, the writes, and the close.\<close>

definition create_excl :: "int \<Rightarrow> str list \<Rightarrow> bytes \<Rightarrow> fs \<Rightarrow> exc + fs" where
  "create_excl t parts data fs =
     (case walk fs [] parts of
        Inl e \<Rightarrow> Inl e
      | Inr p \<Rightarrow> (case map_of fs p of
           Some n \<Rightarrow> Inl FileExistsError
         | None \<Rightarrow> Inr (touch t (butlast p) (AList.update p (FileNode data t) fs))))"

definition unlink :: "int \<Rightarrow> str list \<Rightarrow> fs \<Rightarrow> exc + fs" where
  "unlink t parts fs =
     (case walk fs [] parts of
        Inl e \<Rightarrow> Inl e
      | Inr p \<Rightarrow> (case map_of fs p of
           None \<Rightarrow> Inl FileNotFoundError
         | Some (DirNode m) \<Rightarrow> Inl IsADirectoryError
         | Some (FileNode b m) \<Rightarrow> Inr (touch t (butlast p) (AList.delete p fs))))"

text \<open>\<open>os.rename\<close> and \<open>os.replace\<close> of a file within one directory.\<close>

definition rename :: "int \<Rightarrow> str list \<Rightarrow> str list \<Rightarrow> fs \<Rightarrow> exc + fs" where
  "rename t src dst fs =
     (case walk fs [] src of Inl e \<Rightarrow> Inl e | Inr p \<Rightarrow>
      (case walk fs [] dst of Inl e \<Rightarrow> Inl e | Inr q \<Rightarrow>
       (case map_of fs p of
          None \<Rightarrow> Inl FileNotFoundError
        | Some (DirNode m) \<Rightarrow> Inl IsADirectoryError
        | Some (FileNode b m) \<Rightarrow>
           (case map_of fs q of
              Some (DirNode m') \<Rightarrow> Inl IsADirectoryError
            | _ \<Rightarrow> Inr (touch t (butlast p) (touch t (butlast q)
                      (AList.update q (FileNode b m) (AList.delete p fs))))))))"

definition rmtree :: "int \<Rightarrow> str list \<Rightarrow> fs \<Rightarrow> exc + fs" where
  "rmtree t parts fs =
     (case walk fs [] parts of
        Inl e \<Rightarrow> Inl e
      | Inr p \<Rightarrow> (case map_of fs p of
           None \<Rightarrow> Inl FileNotFoundError
         | Some (FileNode b m) \<Rightarrow> Inl NotADirectoryError
         | Some (DirNode m) \<Rightarrow> Inr (touch t (butlast p) (filter (\<lambda>(q, n). \<not> prefix p q) fs))))"

subsection \<open>The abstract file system\<close>

datatype entry = D | F bytes

definition strip_time :: "node \<Rightarrow> entry" where
  "strip_time n = (case n of DirNode m \<Rightarrow> D | FileNode b m \<Rightarrow> F b)"

definition entry_at :: "fs \<Rightarrow> fpath \<Rightarrow> entry option" where
  "entry_at fs p = map_option strip_time (map_of fs p)"

definition fs_wf :: "fs \<Rightarrow> bool" where
  "fs_wf fs = (distinct (map fst fs) \<and> entry_at fs [] = Some D
     \<and> list_all (\<lambda>(p, n). p \<noteq> [] \<longrightarrow> entry_at fs (butlast p) = Some D) fs)"

lemma strip_time_simps [simp]:
  "strip_time (DirNode m) = D" "strip_time (FileNode b m) = F b"
  "strip_time n = D \<longleftrightarrow> (\<exists>m. n = DirNode m)" "strip_time n = F b \<longleftrightarrow> (\<exists>m. n = FileNode b m)"
  by (auto simp: strip_time_def split: node.splits)

lemma entry_at_D: "entry_at fs p = Some D \<longleftrightarrow> (\<exists>m. map_of fs p = Some (DirNode m))"
  by (auto simp: entry_at_def)

lemma entry_at_F: "entry_at fs p = Some (F b) \<longleftrightarrow> (\<exists>m. map_of fs p = Some (FileNode b m))"
  by (auto simp: entry_at_def)

lemma entry_at_None: "entry_at fs p = None \<longleftrightarrow> map_of fs p = None"
  by (simp add: entry_at_def)

lemma map_of_touch:
  "map_of (touch t p fs) q = map_option (\<lambda>n. if q = p then
     (case n of DirNode m \<Rightarrow> DirNode t | FileNode b m \<Rightarrow> n) else n) (map_of fs q)"
  by (induction fs) (auto simp: touch_def split: node.splits)

lemma fst_touch [simp]: "map fst (touch t p fs) = map fst fs"
  by (auto simp: touch_def)

lemma entry_at_touch [simp]: "entry_at (touch t p fs) = entry_at fs"
proof
  fix q
  show "entry_at (touch t p fs) q = entry_at fs q"
    by (cases "map_of fs q") (auto simp: entry_at_def map_of_touch strip_time_def split: node.splits)
qed

lemma entry_at_update [simp]:
  "entry_at (AList.update p n fs) = (entry_at fs)(p \<mapsto> strip_time n)"
  by (auto simp: entry_at_def fun_eq_iff)

lemma entry_at_delete [simp]: "entry_at (AList.delete p fs) = (entry_at fs)(p := None)"
  by (auto simp: entry_at_def fun_eq_iff)

lemma entry_at_filter [simp]:
  "entry_at (filter (\<lambda>(q, n). P q) fs) = (\<lambda>q. if P q then entry_at fs q else None)"
  by (auto simp: entry_at_def fun_eq_iff map_of_filter_key)

lemma fs_wf_iff:
  "fs_wf fs \<longleftrightarrow> distinct (map fst fs) \<and> entry_at fs [] = Some D
     \<and> (\<forall>p. entry_at fs p \<noteq> None \<longrightarrow> p \<noteq> [] \<longrightarrow> entry_at fs (butlast p) = Some D)"
proof -
  have "(\<exists>n. (p, n) \<in> set fs) \<longleftrightarrow> entry_at fs p \<noteq> None" for p
    by (force simp: entry_at_None map_of_eq_None_iff)
  then show ?thesis unfolding fs_wf_def list_all_iff by auto
qed

lemma fs_wf_parent:
  "fs_wf fs \<Longrightarrow> entry_at fs p = Some e \<Longrightarrow> p \<noteq> [] \<Longrightarrow> entry_at fs (butlast p) = Some D"
  by (simp add: fs_wf_iff)

lemma fs_wf_root: "fs_wf fs \<Longrightarrow> entry_at fs [] = Some D"
  by (simp add: fs_wf_iff)

lemma fs_wf_prefix:
  assumes "fs_wf fs"
  shows "entry_at fs (p @ q) = Some e \<Longrightarrow> q \<noteq> [] \<Longrightarrow> entry_at fs p = Some D"
proof (induction q arbitrary: e rule: rev_induct)
  case Nil
  then show ?case by simp
next
  case (snoc x q)
  have "entry_at fs (p @ q) = Some D"
    using fs_wf_parent [OF assms snoc.prems(1)] by (simp add: butlast_append)
  then show ?case using snoc.IH by (cases q) auto
qed

subsection \<open>Resolution of paths without ..\<close>

definition clean :: "str list \<Rightarrow> bool" where
  "clean p = (''..'' \<notin> set p)"

lemma clean_simps [simp]:
  "clean []" "clean (p @ q) \<longleftrightarrow> clean p \<and> clean q" "clean (c # p) \<longleftrightarrow> c \<noteq> ''..'' \<and> clean p"
  by (auto simp: clean_def)

lemma walk_clean_Inr: "clean p \<Longrightarrow> walk fs cur p = Inr q \<Longrightarrow> q = cur @ p"
proof (induction p arbitrary: cur)
  case Nil
  then show ?case by simp
next
  case (Cons c p)
  then have "walk fs (cur @ [c]) p = Inr q" by (auto split: option.splits node.splits)
  with Cons show ?case by fastforce
qed

lemma walk_clean_exists:
  assumes wf: "fs_wf fs"
  shows "clean p \<Longrightarrow> p = [] \<or> entry_at fs (cur @ butlast p) = Some D \<Longrightarrow> walk fs cur p = Inr (cur @ p)"
proof (induction p arbitrary: cur)
  case Nil
  then show ?case by simp
next
  case (Cons c p)
  have "entry_at fs cur = Some D"
  proof (cases p)
    case Nil
    with Cons.prems show ?thesis by simp
  next
    case (Cons d p')
    with Cons.prems have "entry_at fs (cur @ c # butlast p) = Some D" by simp
    then show ?thesis using fs_wf_prefix [OF wf, of cur "c # butlast p"] by simp
  qed
  moreover have "walk fs (cur @ [c]) p = Inr (cur @ c # p)"
    using Cons by (cases p) auto
  ultimately show ?case using Cons.prems by (auto simp: entry_at_D)
qed

lemma walk_clean_iff:
  assumes "fs_wf fs" and "clean p"
  shows "walk fs [] p = Inr q \<longleftrightarrow> q = p \<and> (p = [] \<or> entry_at fs (butlast p) = Some D)"
proof
  assume l: "walk fs [] p = Inr q"
  then have "q = p" using walk_clean_Inr [OF assms(2)] by force
  moreover have "p = [] \<or> entry_at fs (butlast p) = Some D"
  proof (cases p rule: rev_cases)
    case (snoc p' c)
    have split: "walk fs cur (p' @ [c]) = Inr r \<Longrightarrow> clean p' \<Longrightarrow> entry_at fs (cur @ p') = Some D" for cur r
    proof (induction p' arbitrary: cur)
      case Nil
      then show ?case by (auto simp: entry_at_D split: option.splits node.splits)
    next
      case (Cons x p')
      then show ?case by (fastforce split: option.splits node.splits)
    qed
    show ?thesis using split [of "[]" q] l snoc assms(2) by simp
  qed simp
  ultimately show "q = p \<and> (p = [] \<or> entry_at fs (butlast p) = Some D)" by simp
next
  assume "q = p \<and> (p = [] \<or> entry_at fs (butlast p) = Some D)"
  then show "walk fs [] p = Inr q" using walk_clean_exists [OF assms, of "[]"] by simp
qed

lemma stat_clean:
  assumes "fs_wf fs" and "clean p"
  shows "stat fs p = map_of fs p"
proof (cases "walk fs [] p")
  case (Inl e)
  then have "\<not> (p = [] \<or> entry_at fs (butlast p) = Some D)"
    using walk_clean_iff [OF assms, of p] by auto
  then have "map_of fs p = None"
    using fs_wf_parent [OF assms(1), of p] by (cases "entry_at fs p") (auto simp: entry_at_None)
  with Inl show ?thesis by (simp add: stat_def)
next
  case (Inr q)
  then show ?thesis using walk_clean_iff [OF assms, of q] by (simp add: stat_def)
qed

lemma is_dir_clean: "fs_wf fs \<Longrightarrow> clean p \<Longrightarrow> is_dir fs p \<longleftrightarrow> entry_at fs p = Some D"
  by (auto simp: is_dir_def stat_clean entry_at_D split: option.splits node.splits)

lemma is_file_clean: "fs_wf fs \<Longrightarrow> clean p \<Longrightarrow> is_file fs p \<longleftrightarrow> (\<exists>b. entry_at fs p = Some (F b))"
  by (auto simp: is_file_def stat_clean entry_at_F split: option.splits node.splits)


lemma read_bytes_clean:
  "fs_wf fs \<Longrightarrow> clean p \<Longrightarrow> read_bytes fs p = Inr b \<longleftrightarrow> entry_at fs p = Some (F b)"
proof -
  assume wf: "fs_wf fs" and c: "clean p"
  have par: "entry_at fs p = Some (F b) \<Longrightarrow> p = [] \<or> entry_at fs (butlast p) = Some D"
    using fs_wf_parent [OF wf, of p] by blast
  show ?thesis
  proof (cases "walk fs [] p")
    case (Inl e)
    with par walk_clean_iff [OF wf c, of p] show ?thesis by (auto simp: read_bytes_def)
  next
    case (Inr q)
    with walk_clean_iff [OF wf c, of q] have "q = p" by simp
    with Inr show ?thesis
      by (simp add: read_bytes_def entry_at_F split: option.splits node.splits)
  qed
qed

subsection \<open>What each call does to the abstract file system\<close>

text \<open>A step that adds or overwrites one entry whose directory exists, keeping directories.\<close>

lemma fs_wf_put:
  assumes "fs_wf fs" and "entry_at fs' = (entry_at fs)(p \<mapsto> e)" and "map fst fs' = map fst (AList.update p n fs)"
    and "p \<noteq> []" and "entry_at fs (butlast p) = Some D" and "entry_at fs p = Some D \<Longrightarrow> e = D"
  shows "fs_wf fs'"
proof -
  have "distinct (map fst fs')"
    using assms(1,3) by (simp add: distinct_update fs_wf_iff)
  moreover have "entry_at fs' (butlast q) = Some D"
    if "entry_at fs' q \<noteq> None" "q \<noteq> []" for q
  proof -
    have "entry_at fs (butlast q) = Some D"
      using that assms(1,2,5) by (cases "q = p") (auto simp: fs_wf_iff)
    with assms(2,6) show ?thesis by auto
  qed
  ultimately show ?thesis
    using assms(1,2,4) by (auto simp: fs_wf_iff)
qed

text \<open>A step that removes entries, closed under being below.\<close>

lemma fs_wf_remove:
  assumes "fs_wf fs" and "entry_at fs' = (\<lambda>q. if R q then None else entry_at fs q)"
    and "distinct (map fst fs')" and "\<not> R []"
    and "\<And>q. R (butlast q) \<Longrightarrow> entry_at fs q \<noteq> None \<Longrightarrow> q \<noteq> [] \<Longrightarrow> R q"
  shows "fs_wf fs'"
  using assms by (auto simp: fs_wf_iff split: if_splits)

lemma os_mkdir_clean:
  assumes "fs_wf fs" and "clean p" and "os_mkdir t p fs = Inr fs'"
  shows "entry_at fs p = None \<and> p \<noteq> [] \<and> entry_at fs (butlast p) = Some D
    \<and> entry_at fs' = (entry_at fs)(p \<mapsto> D) \<and> fs_wf fs'"
proof -
  from assms(3) obtain q where q: "walk fs [] p = Inr q" and n: "map_of fs q = None"
    and fs': "fs' = touch t (butlast q) (AList.update q (DirNode t) fs)"
    by (auto simp: os_mkdir_def split: sum.splits option.splits)
  from q walk_clean_iff [OF assms(1,2)] have qp: "q = p"
    and par: "p = [] \<or> entry_at fs (butlast p) = Some D" by auto
  have pn: "p \<noteq> []" using n qp fs_wf_root [OF assms(1)] by (auto simp: entry_at_D)
  have e: "entry_at fs' = (entry_at fs)(p \<mapsto> D)" using fs' qp by simp
  have "fs_wf fs'"
    using par pn n qp fs' by (intro fs_wf_put [OF assms(1) e, of "DirNode t"]) (auto simp: entry_at_None)
  with e par pn n qp show ?thesis by (auto simp: entry_at_None)
qed

lemma os_mkdir_ok:
  assumes "fs_wf fs" and "clean p" and "entry_at fs p = None" and "entry_at fs (butlast p) = Some D"
  shows "\<exists>fs'. os_mkdir t p fs = Inr fs'"
  using walk_clean_iff [OF assms(1,2), of p] assms(3,4)
  by (auto simp: os_mkdir_def entry_at_None)

lemma os_mkdir_exists:
  assumes "fs_wf fs" and "clean p" and "entry_at fs p \<noteq> None"
  shows "os_mkdir t p fs = Inl FileExistsError"
proof -
  have "p = [] \<or> entry_at fs (butlast p) = Some D"
    using assms(3) fs_wf_parent [OF assms(1), of p] by auto
  then show ?thesis
    using walk_clean_iff [OF assms(1,2), of p] assms(3)
    by (auto simp: os_mkdir_def entry_at_None split: option.splits)
qed

lemma write_bytes_clean:
  assumes "fs_wf fs" and "clean p" and "write_bytes t p b fs = Inr fs'"
  shows "entry_at fs p \<noteq> Some D \<and> p \<noteq> [] \<and> entry_at fs (butlast p) = Some D
    \<and> entry_at fs' = (entry_at fs)(p \<mapsto> F b) \<and> fs_wf fs'"
proof -
  from assms(3) obtain q where q: "walk fs [] p = Inr q"
    and n: "\<forall>m. map_of fs q \<noteq> Some (DirNode m)"
    and fs': "fs' = touch t (butlast q) (AList.update q (FileNode b t) fs)
      \<or> fs' = AList.update q (FileNode b t) fs"
    by (auto simp: write_bytes_def split: sum.splits option.splits node.splits)
  from q walk_clean_iff [OF assms(1,2)] have qp: "q = p"
    and par: "p = [] \<or> entry_at fs (butlast p) = Some D" by auto
  have nd: "entry_at fs p \<noteq> Some D" using n qp by (simp add: entry_at_D)
  then have pn: "p \<noteq> []" using fs_wf_root [OF assms(1)] by auto
  have e: "entry_at fs' = (entry_at fs)(p \<mapsto> F b)" using fs' qp by auto
  have "fs_wf fs'"
    using par pn nd qp fs' by (intro fs_wf_put [OF assms(1) e, of "FileNode b t"]) auto
  with e par pn nd show ?thesis by auto
qed

lemma write_bytes_ok:
  assumes "fs_wf fs" and "clean p" and "entry_at fs p \<noteq> Some D" and "entry_at fs (butlast p) = Some D"
  shows "\<exists>fs'. write_bytes t p b fs = Inr fs'"
  using walk_clean_iff [OF assms(1,2), of p] assms(3,4)
  by (auto simp: write_bytes_def entry_at_D split: option.splits node.splits)

lemma create_excl_clean:
  assumes "fs_wf fs" and "clean p" and "create_excl t p b fs = Inr fs'"
  shows "entry_at fs p = None \<and> p \<noteq> [] \<and> entry_at fs (butlast p) = Some D
    \<and> entry_at fs' = (entry_at fs)(p \<mapsto> F b) \<and> fs_wf fs'"
proof -
  from assms(3) obtain q where q: "walk fs [] p = Inr q" and n: "map_of fs q = None"
    and fs': "fs' = touch t (butlast q) (AList.update q (FileNode b t) fs)"
    by (auto simp: create_excl_def split: sum.splits option.splits)
  from q walk_clean_iff [OF assms(1,2)] have qp: "q = p"
    and par: "p = [] \<or> entry_at fs (butlast p) = Some D" by auto
  have pn: "p \<noteq> []" using n qp fs_wf_root [OF assms(1)] by (auto simp: entry_at_D)
  have e: "entry_at fs' = (entry_at fs)(p \<mapsto> F b)" using fs' qp by simp
  have "fs_wf fs'"
    using par pn n qp fs' by (intro fs_wf_put [OF assms(1) e, of "FileNode b t"]) (auto simp: entry_at_D)
  with e par pn n qp show ?thesis by (auto simp: entry_at_None)
qed

lemma create_excl_ok:
  assumes "fs_wf fs" and "clean p" and "entry_at fs p = None" and "entry_at fs (butlast p) = Some D"
  shows "\<exists>fs'. create_excl t p b fs = Inr fs'"
  using walk_clean_iff [OF assms(1,2), of p] assms(3,4)
  by (auto simp: create_excl_def entry_at_None)

lemma create_excl_exists:
  assumes "fs_wf fs" and "clean p" and "entry_at fs p \<noteq> None"
  shows "create_excl t p b fs = Inl FileExistsError"
proof -
  have "p = [] \<or> entry_at fs (butlast p) = Some D"
    using assms(3) fs_wf_parent [OF assms(1), of p] by auto
  then show ?thesis
    using walk_clean_iff [OF assms(1,2), of p] assms(3)
    by (auto simp: create_excl_def entry_at_None split: option.splits)
qed


lemma unlink_clean:
  assumes "fs_wf fs" and "clean p"
  shows "unlink t p fs = Inr fs' \<Longrightarrow>
      (\<exists>b. entry_at fs p = Some (F b)) \<and> entry_at fs' = (entry_at fs)(p := None) \<and> fs_wf fs'"
    and "entry_at fs p = Some (F b) \<Longrightarrow> \<exists>fs'. unlink t p fs = Inr fs'"
    and "entry_at fs p = None \<Longrightarrow> entry_at fs (butlast p) = Some D
      \<Longrightarrow> unlink t p fs = Inl FileNotFoundError"
proof -
  assume "unlink t p fs = Inr fs'"
  then obtain q b m where q: "walk fs [] p = Inr q" and n: "map_of fs q = Some (FileNode b m)"
    and fs': "fs' = touch t (butlast q) (AList.delete q fs)"
    by (auto simp: unlink_def split: sum.splits option.splits node.splits)
  from q walk_clean_iff [OF assms] have qp: "q = p" by auto
  have f: "entry_at fs p = Some (F b)" using n qp by (auto simp: entry_at_F)
  have e: "entry_at fs' = (entry_at fs)(p := None)" using fs' qp by simp
  have "distinct (map fst fs')"
    using assms(1) fs' by (simp add: fs_wf_iff distinct_delete)
  then have "fs_wf fs'"
    using f e assms(1) fs_wf_parent [OF assms(1)] fs_wf_root [OF assms(1)]
    by (intro fs_wf_remove [OF assms(1), of fs' "\<lambda>q. q = p"]) force+
  with f e show "(\<exists>b. entry_at fs p = Some (F b)) \<and> entry_at fs' = (entry_at fs)(p := None) \<and> fs_wf fs'"
    by blast
next
  assume f: "entry_at fs p = Some (F b)"
  then have "p = [] \<or> entry_at fs (butlast p) = Some D"
    using fs_wf_parent [OF assms(1), of p] by blast
  with f show "\<exists>fs'. unlink t p fs = Inr fs'"
    using walk_clean_iff [OF assms, of p] by (auto simp: unlink_def entry_at_F)
next
  assume "entry_at fs p = None" and "entry_at fs (butlast p) = Some D"
  then show "unlink t p fs = Inl FileNotFoundError"
    using walk_clean_iff [OF assms, of p] by (auto simp: unlink_def entry_at_None)
qed

lemma rename_clean:
  assumes "fs_wf fs" and "clean p" and "clean q" and "p \<noteq> q"
    and "entry_at fs p = Some (F b)" and "entry_at fs q \<noteq> Some D" and "entry_at fs (butlast q) = Some D"
  shows "\<exists>fs'. rename t p q fs = Inr fs' \<and> entry_at fs' = (entry_at fs)(p := None, q \<mapsto> F b) \<and> fs_wf fs'"
proof -
  from assms(5) obtain m where m: "map_of fs p = Some (FileNode b m)" by (auto simp: entry_at_F)
  have wp: "walk fs [] p = Inr p"
    using walk_clean_iff [OF assms(1,2), of p] fs_wf_parent [OF assms(1,5)] by auto
  have wq: "walk fs [] q = Inr q"
    using walk_clean_iff [OF assms(1,3), of q] assms(7) by auto
  let ?fs1 = "AList.delete p fs"
  let ?fs' = "touch t (butlast p) (touch t (butlast q) (AList.update q (FileNode b m) ?fs1))"
  have r: "rename t p q fs = Inr ?fs'"
    using m wp wq assms(6) by (auto simp: rename_def entry_at_D split: option.splits node.splits)
  have wf1: "fs_wf ?fs1"
    using assms(1,5) fs_wf_parent [OF assms(1)] fs_wf_root [OF assms(1)]
    by (intro fs_wf_remove [OF assms(1), of ?fs1 "\<lambda>x. x = p"])
      (auto simp: fs_wf_iff distinct_delete)
  have qn: "q \<noteq> []" using assms(6) fs_wf_root [OF assms(1)] by auto
  have "butlast q \<noteq> p" using assms(5,7) by auto
  have "fs_wf ?fs'"
    using assms(6,7) qn \<open>butlast q \<noteq> p\<close> assms(4)
    by (intro fs_wf_put [OF wf1, of ?fs' q "F b" "FileNode b m"]) auto
  with r assms(4) show ?thesis by auto
qed

lemma rmtree_clean:
  assumes "fs_wf fs" and "clean p" and "p \<noteq> []"
  shows "rmtree t p fs = Inr fs' \<Longrightarrow>
      entry_at fs p = Some D \<and> entry_at fs' = (\<lambda>q. if prefix p q then None else entry_at fs q) \<and> fs_wf fs'"
    and "entry_at fs p = Some D \<Longrightarrow> \<exists>fs'. rmtree t p fs = Inr fs'"
proof -
  assume "rmtree t p fs = Inr fs'"
  then obtain q m where q: "walk fs [] p = Inr q" and n: "map_of fs q = Some (DirNode m)"
    and fs': "fs' = touch t (butlast q) (filter (\<lambda>(r, n). \<not> prefix q r) fs)"
    by (auto simp: rmtree_def split: sum.splits option.splits node.splits)
  from q walk_clean_iff [OF assms(1,2)] have qp: "q = p" by auto
  have e: "entry_at fs' = (\<lambda>q. if prefix p q then None else entry_at fs q)"
    using fs' qp by (auto simp: fun_eq_iff)
  have "prefix p r" if "prefix p (butlast r)" for r :: fpath
    using that by (meson prefix_order.trans prefixeq_butlast)
  then have "fs_wf fs'"
    using assms(1,3) fs' by (intro fs_wf_remove [OF assms(1) e]) (auto simp: fs_wf_iff distinct_map_filter_fst)
  with e n qp show "entry_at fs p = Some D
      \<and> entry_at fs' = (\<lambda>q. if prefix p q then None else entry_at fs q) \<and> fs_wf fs'"
    by (auto simp: entry_at_D)
next
  assume d: "entry_at fs p = Some D"
  then show "\<exists>fs'. rmtree t p fs = Inr fs'"
    using walk_clean_iff [OF assms(1,2), of p] fs_wf_parent [OF assms(1) d assms(3)]
    by (auto simp: rmtree_def entry_at_D)
qed

lemma dir_prefixes:
  assumes "fs_wf fs" and "entry_at fs p = Some D" and "prefix q p"
  shows "entry_at fs q = Some D"
proof -
  from assms(3) obtain r where "p = q @ r" by (auto elim: prefixE)
  with assms(1,2) show ?thesis by (cases r) (auto intro: fs_wf_prefix)
qed

lemma prefix_butlast: "p \<noteq> [] \<Longrightarrow> prefix q p \<longleftrightarrow> q = p \<or> prefix q (butlast p)"
  by (metis append_butlast_last_id prefix_snoc)

lemma mkdir_p_clean:
  assumes "fs_wf fs" and "clean p" and "mkdir_p t p fs = Inr fs'"
  shows "fs_wf fs' \<and> entry_at fs' = (\<lambda>q. if prefix q p then Some D else entry_at fs q)
    \<and> (\<forall>q. prefix q p \<longrightarrow> entry_at fs q \<in> {None, Some D})"
  using assms
proof (induction t p fs arbitrary: fs' rule: mkdir_p.induct)
  case (1 t p fs)
  note wf = \<open>fs_wf fs\<close> and cp = \<open>clean p\<close>
  have isdir: ?case if "is_dir fs p" "fs' = fs"
  proof -
    have "entry_at fs p = Some D" using that is_dir_clean [OF wf cp] by simp
    then have "entry_at fs q = Some D" if "prefix q p" for q
      using dir_prefixes [OF wf _ that] by blast
    with wf \<open>fs' = fs\<close> show ?thesis by auto
  qed
  show ?case
  proof (cases "os_mkdir t p fs")
    case (Inr fs1)
    then have f: "fs' = fs1" using 1 by (simp add: mkdir_p.simps [of t p fs])
    from os_mkdir_clean [OF wf cp Inr] have o: "entry_at fs p = None" "p \<noteq> []"
      "entry_at fs (butlast p) = Some D" "entry_at fs1 = (entry_at fs)(p \<mapsto> D)" "fs_wf fs1" by auto
    have d: "prefix q (butlast p) \<Longrightarrow> entry_at fs q = Some D" for q
      using dir_prefixes [OF wf o(3)] .
    show ?thesis using o f d by (auto simp: prefix_butlast fun_eq_iff)
  next
    case (Inl e)
    show ?thesis
    proof (cases "e = FileNotFoundError")
      case False
      with 1 Inl have "is_dir fs p" "fs' = fs"
        by (auto simp: mkdir_p.simps [of t p fs] split: if_splits)
      then show ?thesis by (rule isdir)
    next
      case True
      with Inl 1 obtain fs1 where pn: "p \<noteq> []" and rec: "mkdir_p t (butlast p) fs = Inr fs1"
        and rest: "os_mkdir t p fs1 = Inr fs' \<or> (is_dir fs1 p \<and> fs' = fs1)"
        by (auto simp: mkdir_p.simps [of t p fs] split: if_splits sum.splits)
      have cb: "clean (butlast p)" using cp by (auto simp: clean_def dest: in_set_butlastD)
      from 1(1) [OF Inl True pn wf cb rec]
      have ih: "fs_wf fs1" "entry_at fs1 = (\<lambda>q. if prefix q (butlast p) then Some D else entry_at fs q)"
        "\<And>q. prefix q (butlast p) \<Longrightarrow> entry_at fs q \<in> {None, Some D}" by auto
      have np: "\<not> prefix p (butlast p)"
        using pn by (metis append_butlast_last_id not_Cons_self2 append_self_conv prefix_length_le
            length_butlast length_greater_0_conv diff_less zero_less_one not_less)
      from rest show ?thesis
      proof
        assume "os_mkdir t p fs1 = Inr fs'"
        from os_mkdir_clean [OF ih(1) cp this] ih np pn show ?thesis
          by (auto simp: prefix_butlast fun_eq_iff)
      next
        assume r: "is_dir fs1 p \<and> fs' = fs1"
        then have "entry_at fs1 p = Some D" using is_dir_clean [OF ih(1) cp] by simp
        with r ih np pn show ?thesis by (auto simp: prefix_butlast fun_eq_iff)
      qed
    qed
  qed
qed

lemma mkdir_p_ok:
  assumes "fs_wf fs" and "clean p" and "\<And>q. prefix q p \<Longrightarrow> entry_at fs q \<in> {None, Some D}"
  shows "\<exists>fs'. mkdir_p t p fs = Inr fs'"
  using assms
proof (induction p arbitrary: rule: rev_induct)
  case Nil
  then have "is_dir fs []" using is_dir_clean [of fs "[]"] fs_wf_root by simp
  moreover have "os_mkdir t [] fs = Inl FileExistsError"
    using Nil fs_wf_root [of fs] by (intro os_mkdir_exists) auto
  ultimately show ?case by (simp add: mkdir_p.simps)
next
  case (snoc c p)
  note wf = \<open>fs_wf fs\<close> and cp = \<open>clean (p @ [c])\<close>
  obtain fs1 where fs1: "mkdir_p t p fs = Inr fs1"
    using snoc by (auto simp: prefix_snoc)
  from mkdir_p_clean [OF wf _ fs1] cp have m: "fs_wf fs1"
    "entry_at fs1 = (\<lambda>q. if prefix q p then Some D else entry_at fs q)" by auto
  have np: "\<not> prefix (p @ [c]) p" by (metis append_Nil2 not_Cons_self2 prefix_snocD prefix_order.less_irrefl)
  show ?case
  proof (cases "entry_at fs (p @ [c])")
    case (Some e)
    then have "e = D" using snoc.prems(3) [of "p @ [c]"] by auto
    with Some have "is_dir fs (p @ [c])" using is_dir_clean [OF wf cp] by simp
    moreover have "os_mkdir t (p @ [c]) fs = Inl FileExistsError"
      using os_mkdir_exists [OF wf cp] Some by simp
    ultimately show ?thesis by (simp add: mkdir_p.simps)
  next
    case None
    then have n1: "entry_at fs1 (p @ [c]) = None" using m np by simp
    have d1: "entry_at fs1 (butlast (p @ [c])) = Some D" using m by simp
    obtain fs2 where fs2: "os_mkdir t (p @ [c]) fs1 = Inr fs2"
      using os_mkdir_ok [OF m(1) cp n1 d1] by blast
    show ?thesis
    proof (cases "os_mkdir t (p @ [c]) fs")
      case (Inr x)
      then show ?thesis by (simp add: mkdir_p.simps)
    next
      case (Inl e)
      have "e = FileNotFoundError"
      proof -
        have "\<exists>q. walk fs cur r = Inr q \<or> walk fs cur r = Inl FileNotFoundError"
          if "\<And>q. prefix q (cur @ butlast r) \<Longrightarrow> entry_at fs q \<in> {None, Some D}" "clean r" for cur r
          using that
        proof (induction r arbitrary: cur)
          case (Cons x r)
          have "entry_at fs cur \<in> {None, Some D}" using Cons.prems(1) [of cur] by simp
          moreover have "\<exists>q. walk fs (cur @ [x]) r = Inr q \<or> walk fs (cur @ [x]) r = Inl FileNotFoundError"
          proof (cases r)
            case (Cons y r')
            show ?thesis using Cons Cons.prems by (intro Cons.IH) auto
          qed simp
          ultimately show ?case using Cons.prems(2) by (auto simp: entry_at_D entry_at_None)
        qed simp
        from this [of "[]" "p @ [c]"] cp snoc.prems(3)
        obtain q where "walk fs [] (p @ [c]) = Inr q \<or> walk fs [] (p @ [c]) = Inl FileNotFoundError"
          by (auto simp: prefix_snoc)
        with Inl None walk_clean_iff [OF wf cp, of q] show ?thesis
          by (auto simp: os_mkdir_def entry_at_None)
      qed
      with Inl fs1 fs2 show ?thesis by (simp add: mkdir_p.simps)
    qed
  qed
qed

end
