(* ===== verification/Paths.thy ===== *)
theory Paths
  imports Prelude
begin

text \<open>
  Path and manifest validation: \<^verbatim>\<open>path_validation.py\<close>, \<^verbatim>\<open>auth/manifest_validation.py\<close> and
  the label fields of \<^verbatim>\<open>models.py\<close>. The configurable character set is the inside of a
  regular-expression character class; \<open>class_items\<close> reads the part of that syntax the
  defaults and the documentation use (literals, ranges and backslash-escaped literals).
  \<open>re_class_plus\<close> is Python's \<^verbatim>\<open>re.match("^[...]+$", s)\<close>, in which \<^verbatim>\<open>$\<close> also matches just
  before a newline that ends the string.
\<close>

subsection \<open>Character classes\<close>

definition take_item :: "str \<Rightarrow> (char \<times> str) option" where
  "take_item s = (case s of [] \<Rightarrow> None
     | c # cs \<Rightarrow> if c = CHR 0x5C
                 then (case cs of [] \<Rightarrow> None | d # ds \<Rightarrow> Some (d, ds))
                 else Some (c, cs))"

lemma take_item_shorter: "take_item s = Some (c, r) \<Longrightarrow> length r < length s"
  by (auto simp: take_item_def split: list.splits if_splits)

function class_items :: "str \<Rightarrow> (char \<times> char) list" where
  "class_items s = (case take_item s of None \<Rightarrow> []
     | Some (c, r) \<Rightarrow>
        (case r of
           m # r1 \<Rightarrow>
             (if m = CHR ''-'' then
                (case take_item r1 of
                   Some (d, r2) \<Rightarrow> (c, d) # class_items r2
                 | None \<Rightarrow> (c, c) # class_items r)
              else (c, c) # class_items r)
         | [] \<Rightarrow> [(c, c)]))"
  by pat_completeness auto
termination
  by (relation "measure length") (force dest: take_item_shorter)+

definition in_class :: "str \<Rightarrow> char \<Rightarrow> bool" where
  "in_class cs ch = list_ex (\<lambda>(lo, hi). lo \<le> ch \<and> ch \<le> hi) (class_items cs)"

definition re_class_plus :: "str \<Rightarrow> str \<Rightarrow> bool" where
  "re_class_plus cs s =
     (s \<noteq> [] \<and> (list_all (in_class cs) s
        \<or> (last s = newline \<and> butlast s \<noteq> [] \<and> list_all (in_class cs) (butlast s))))"

subsection \<open>path_validation.py\<close>

definition DEFAULT_ALLOWED_CHARS :: str where
  "DEFAULT_ALLOWED_CHARS = ''a-zA-Z0-9'' @ [CHR 0x5C] @ ''-_./'' @ [CHR 0x27]"

datatype path_error =
    EmptyPath
  | AbsolutePath
  | PathTraversal str
  | DisallowedChars "char list"

definition validate_path :: "str \<Rightarrow> str option \<Rightarrow> path_error + unit" where
  "validate_path path allowed_chars =
     (if path = [] then Inl EmptyPath
      else if startswith path ''/'' then Inl AbsolutePath
      else if ''..'' \<in> set (split_on (CHR ''/'') (replace_char (CHR 0x5C) (CHR ''/'') path))
      then Inl (PathTraversal path)
      else let charset = (case allowed_chars of
                 None \<Rightarrow> DEFAULT_ALLOWED_CHARS
               | Some a \<Rightarrow> if a = [] then DEFAULT_ALLOWED_CHARS else a)
           in if re_class_plus charset path then Inr ()
              else Inl (DisallowedChars
                (sort (remdups (filter (\<lambda>c. \<not> in_class charset c) path)))))"

subsection \<open>auth/manifest_validation.py\<close>

text \<open>
  A rejection carries the reason label and the names its message shows.
  \<^verbatim>\<open>validate_path_for_manifest\<close> tells a traversal from another rejection by looking for
  the word in the message of the path error; the message of \<open>DisallowedChars\<close> lists
  single-character literals and never holds it, so the constructor decides.
\<close>

datatype manifest_reason =
    Malformed | EmptyName | AbsoluteName | Traversal | InvalidChar
  | ReservedName | Duplicate | PrefixCollision str

datatype manifest_error = InvalidManifest manifest_reason str

record manifest_file =
  mf_name :: str
  mf_size :: int
  mf_mime :: "str option"

record upload_manifest =
  um_file_count :: int
  um_files :: "manifest_file list"

definition RESERVED_NAMES :: "str list" where
  "RESERVED_NAMES = [''meta.json'']"

definition validate_path_for_manifest :: "str \<Rightarrow> manifest_error + str" where
  "validate_path_for_manifest name =
     (if name = [] then Inl (InvalidManifest EmptyName name)
      else if startswith name ''/'' then Inl (InvalidManifest AbsoluteName name)
      else (case validate_path name None of
              Inl (PathTraversal p) \<Rightarrow> Inl (InvalidManifest Traversal name)
            | Inl e \<Rightarrow> Inl (InvalidManifest InvalidChar name)
            | Inr _ \<Rightarrow> Inr name))"

fun validate_entries :: "str list \<Rightarrow> str list \<Rightarrow> manifest_error + str list" where
  "validate_entries seen [] = Inr seen"
| "validate_entries seen (name # names) =
     (case validate_path_for_manifest name of
        Inl e \<Rightarrow> Inl e
      | Inr _ \<Rightarrow>
          if name \<in> set RESERVED_NAMES then Inl (InvalidManifest ReservedName name)
          else if name \<in> set seen then Inl (InvalidManifest Duplicate name)
          else validate_entries (name # seen) names)"

fun check_adjacent :: "str list \<Rightarrow> manifest_error + unit" where
  "check_adjacent (p # c # rest) =
     (if startswith c (p @ ''/'') then Inl (InvalidManifest (PrefixCollision c) p)
      else check_adjacent (c # rest))"
| "check_adjacent _ = Inr ()"

definition validate_manifest :: "upload_manifest \<Rightarrow> manifest_error + unit" where
  "validate_manifest manifest =
     (case validate_entries [] (map mf_name (um_files manifest)) of
        Inl e \<Rightarrow> Inl e
      | Inr seen \<Rightarrow> check_adjacent (sort seen))"

subsection \<open>Label fields of models.py\<close>

definition KEY_LABEL_CHARS :: str where
  "KEY_LABEL_CHARS = ''a-zA-Z0-9_'' @ [CHR 0x5C] @ ''-''"

definition validate_key_field :: "str \<Rightarrow> str \<Rightarrow> exc + str" where
  "validate_key_field value field_name =
     (if value = [] then Inl (ValueError (field_name @ '' must not be empty''))
      else if \<not> re_class_plus KEY_LABEL_CHARS value
      then Inl (ValueError (field_name @ '' contains invalid characters''))
      else Inr value)"

definition key_label :: "str \<Rightarrow> str \<Rightarrow> str" where
  "key_label host project = host @ '':'' @ project"


declare class_items.simps [simp del]

subsection \<open>Lemmas: what an accepted path looks like\<close>

lemma split_replace:
  "b \<noteq> c \<Longrightarrow> split_on c (replace_char b c s) = concat (map (split_on b) (split_on c s))"
proof (induction s)
  case Nil
  show ?case by (simp add: replace_char_def)
next
  case (Cons x s)
  obtain y ys where s: "split_on c s = y # ys"
    by (cases "split_on c s") auto
  obtain z zs where y: "split_on b y = z # zs"
    by (cases "split_on b y") auto
  from Cons s y show ?case by (simp add: replace_char_def)
qed

lemma split_replace_mem:
  assumes "b \<noteq> c" and "seg \<in> set (split_on c s)" and "b \<notin> set seg"
  shows "seg \<in> set (split_on c (replace_char b c s))"
proof -
  from assms(3) have "split_on b seg = [seg]" by (rule split_on_single)
  with assms(1,2) show ?thesis by (force simp: split_replace)
qed

lemma validate_path_InrD:
  assumes "validate_path p a = Inr u"
  shows "p \<noteq> []" and "\<not> startswith p ''/''" and "''..'' \<notin> set (split_on (CHR ''/'') p)"
proof -
  from assms show "p \<noteq> []" and "\<not> startswith p ''/''"
    by (auto simp: validate_path_def split: if_splits)
  from assms
  have "''..'' \<notin> set (split_on (CHR ''/'') (replace_char (CHR 0x5C) (CHR ''/'') p))"
    by (auto simp: validate_path_def split: if_splits)
  then show "''..'' \<notin> set (split_on (CHR ''/'') p)"
    using split_replace_mem [of "CHR 0x5C" "CHR ''/''" "''..''" p] by auto
qed

lemma validate_path_chars:
  "validate_path p (Some cs) = Inr u \<Longrightarrow> cs \<noteq> [] \<Longrightarrow>
   list_all (in_class cs) (butlast p) \<and> (in_class cs (last p) \<or> last p = newline)"
  by (cases p rule: rev_cases)
    (auto simp: validate_path_def re_class_plus_def Let_def split: if_splits)

subsection \<open>Lemmas: manifests\<close>

lemma validate_path_for_manifest_Inr:
  "validate_path_for_manifest n = Inr m \<Longrightarrow> m = n \<and> validate_path n None = Inr ()"
  by (auto simp: validate_path_for_manifest_def split: if_splits sum.splits path_error.splits)

lemma validate_entries_Inr:
  "validate_entries seen ns = Inr res \<Longrightarrow>
     res = rev ns @ seen \<and> distinct ns \<and> set ns \<inter> set seen = {}
     \<and> (\<forall>n \<in> set ns. validate_path n None = Inr () \<and> n \<notin> set RESERVED_NAMES)"
proof (induction ns arbitrary: seen)
  case Nil
  then show ?case by simp
next
  case (Cons n ns)
  then show ?case
    by (force dest: validate_path_for_manifest_Inr split: sum.splits if_splits)
qed

lemma check_adjacent_sorted_next:
  "check_adjacent (xs @ p # c # ys) = Inr u \<Longrightarrow> \<not> startswith c (p @ ''/'')"
proof (induction xs)
  case Nil
  then show ?case by (auto split: if_splits)
next
  case (Cons x xs)
  then show ?case by (cases xs) (auto split: if_splits)
qed

lemma prefix_between:
  fixes p n z :: "char list"
  shows "p \<le> n \<Longrightarrow> n \<le> p @ z \<Longrightarrow> prefix p n"
proof (induction p arbitrary: n)
  case Nil
  then show ?case by simp
next
  case (Cons x p)
  then obtain y n' where n: "n = y # n'"
    by (cases n) auto
  with Cons show ?case by (auto simp: Cons_le_Cons less_le_not_le)
qed

lemma less_append_Cons:
  fixes p w :: "char list"
  shows "p < p @ c # w"
  by (induction p) auto

lemma append_le_cancel:
  fixes p v w :: "char list"
  shows "p @ v \<le> p @ w \<longleftrightarrow> v \<le> w"
  by (induction p) auto

text \<open>
  When no name uses a character below the slash, every name that sorts between \<open>p\<close> and
  \<open>p/...\<close> is itself of the form \<open>p/...\<close>, so comparing neighbours is enough.
\<close>

lemma check_adjacent_complete:
  assumes srt: "sorted names" and dst: "distinct names"
    and ok: "check_adjacent names = Inr u"
    and low: "\<And>n c. n \<in> set names \<Longrightarrow> c \<in> set n \<Longrightarrow> CHR ''/'' \<le> c"
    and p: "p \<in> set names" and q: "q \<in> set names"
  shows "\<not> startswith q (p @ ''/'')"
proof
  assume pre: "startswith q (p @ ''/'')"
  then obtain w where w: "q = p @ ''/'' @ w" by (auto elim: prefixE)
  from p obtain xs ys where names: "names = xs @ p # ys" by (auto dest: split_list)
  have "p < q" using w by (simp add: less_append_Cons)
  show False
  proof (cases ys)
    case Nil
    with names srt q w \<open>p < q\<close> show False by (auto simp: sorted_append)
  next
    case (Cons n ys')
    from srt names Cons have "p \<le> n" by (auto simp: sorted_append)
    have "q \<in> set (n # ys')"
      using q names Cons srt \<open>p < q\<close> by (auto simp: sorted_append)
    then have "n \<le> q" using srt names Cons by (auto simp: sorted_append)
    with \<open>p \<le> n\<close> w have "prefix p n" by (intro prefix_between [of p n]) auto
    then obtain v where v: "n = p @ v" by (auto elim: prefixE)
    have "v \<noteq> []" using dst names Cons v by auto
    then obtain c v' where c: "v = c # v'" by (cases v) auto
    from \<open>n \<le> q\<close> v c w have "c \<le> CHR ''/''" by (auto simp: append_le_cancel)
    moreover have "CHR ''/'' \<le> c" using low [of n c] names Cons v c by simp
    ultimately have "startswith n (p @ ''/'')" using v c by (simp add: prefix_def)
    moreover have "\<not> startswith n (p @ ''/'')"
      using ok names Cons check_adjacent_sorted_next by blast
    ultimately show False by simp
  qed
qed

end
