(* ===== verification/Storage.thy ===== *)
theory Storage
  imports Filesystem Json Paths
begin

text \<open>
  The filesystem backend, \<^verbatim>\<open>backends/filesystem/storage.py\<close>, with the data types of
  \<^verbatim>\<open>protocols/storage.py\<close>. An operation takes the storage root, the current time where it
  writes, and the file system; one that may raise after a partial change returns the file
  system beside the exception or the result (\<open>'a io\<close>).

  A bundle is a directory with one file per entry and a \<^verbatim>\<open>meta.json\<close> manifest, written last.
  The manifest dictionary is the record \<open>bundle_meta\<close> with the seven keys every writer of
  the program sets; \<open>meta_json\<close> is its JSON form and \<open>meta_of_json\<close> reads it back. A
  \<^verbatim>\<open>meta.json\<close> that is not such an object was not written by the program and counts as
  unreadable.
\<close>

subsection \<open>Keys, directories and manifests\<close>

text \<open>The parts of a relative POSIX path as \<open>pathlib\<close> keeps them.\<close>

definition path_parts :: "str \<Rightarrow> str list" where
  "path_parts s = filter (\<lambda>p. p \<noteq> [] \<and> p \<noteq> ''.'') (split_on (CHR ''/'') s)"

text \<open>The \<open>/\<close> operator of \<open>pathlib\<close>: an absolute right operand replaces the left one.\<close>

definition join_parts :: "str list \<Rightarrow> str \<Rightarrow> str list" where
  "join_parts base s = (if startswith s ''/'' then path_parts s else base @ path_parts s)"

definition as_posix :: "str list \<Rightarrow> str" where
  "as_posix parts = join_with ''/'' parts"

definition data_root :: "str list \<Rightarrow> str list" where
  "data_root root = root @ [''data'']"

definition resolve :: "str list \<Rightarrow> str \<Rightarrow> str list" where
  "resolve root key = join_parts (data_root root) key"

abbreviation BUNDLE_MANIFEST :: str where
  "BUNDLE_MANIFEST \<equiv> ''meta.json''"

abbreviation BUNDLE_MANIFEST_TMP :: str where
  "BUNDLE_MANIFEST_TMP \<equiv> ''.meta.json.tmp''"

record bundle_meta =
  bm_schema_version :: int
  bm_bundle_id :: str
  bm_sender :: "str option"
  bm_created_at :: str
  bm_content_type :: str
  bm_file_count :: int
  bm_files :: "manifest_file list"

definition json_opt :: "str option \<Rightarrow> json" where
  "json_opt x = (case x of None \<Rightarrow> JNull | Some s \<Rightarrow> JStr s)"

definition file_json :: "manifest_file \<Rightarrow> json" where
  "file_json f = JObj [(''name'', JStr (mf_name f)), (''size'', JInt (mf_size f)),
     (''mime'', json_opt (mf_mime f))]"

definition meta_json :: "bundle_meta \<Rightarrow> json" where
  "meta_json m = JObj
     [(''schema_version'', JInt (bm_schema_version m)),
      (''bundle_id'', JStr (bm_bundle_id m)),
      (''sender'', json_opt (bm_sender m)),
      (''created_at'', JStr (bm_created_at m)),
      (''content_type'', JStr (bm_content_type m)),
      (''file_count'', JInt (bm_file_count m)),
      (''files'', JArr (map file_json (bm_files m)))]"

definition json_to_opt :: "json \<Rightarrow> str option option" where
  "json_to_opt j = (case j of JNull \<Rightarrow> Some None | JStr s \<Rightarrow> Some (Some s) | _ \<Rightarrow> None)"

fun file_of_json :: "json \<Rightarrow> manifest_file option" where
  "file_of_json (JObj ms) =
     (case (map_of ms ''name'', map_of ms ''size'', map_of ms ''mime'') of
        (Some (JStr n), Some (JInt s), Some mj) \<Rightarrow>
          map_option (\<lambda>mi. \<lparr>mf_name = n, mf_size = s, mf_mime = mi\<rparr>) (json_to_opt mj)
      | _ \<Rightarrow> None)"
| "file_of_json _ = None"

fun files_of_json :: "json list \<Rightarrow> manifest_file list option" where
  "files_of_json [] = Some []"
| "files_of_json (j # js) =
     (case file_of_json j of None \<Rightarrow> None
      | Some f \<Rightarrow> map_option (\<lambda>fs. f # fs) (files_of_json js))"

fun meta_of_json :: "json \<Rightarrow> bundle_meta option" where
  "meta_of_json (JObj ms) =
     (case (map_of ms ''schema_version'', map_of ms ''bundle_id'', map_of ms ''sender'',
            map_of ms ''created_at'', map_of ms ''content_type'', map_of ms ''file_count'',
            map_of ms ''files'') of
        (Some (JInt v), Some (JStr i), Some sj, Some (JStr c), Some (JStr ct), Some (JInt n),
         Some (JArr fs)) \<Rightarrow>
          (case (json_to_opt sj, files_of_json fs) of
             (Some s, Some files) \<Rightarrow>
               Some \<lparr>bm_schema_version = v, bm_bundle_id = i, bm_sender = s, bm_created_at = c,
                     bm_content_type = ct, bm_file_count = n, bm_files = files\<rparr>
           | _ \<Rightarrow> None)
      | _ \<Rightarrow> None)"
| "meta_of_json _ = None"

definition meta_bytes :: "bundle_meta \<Rightarrow> bytes" where
  "meta_bytes m = dumps (meta_json m)"

definition meta_of_bytes :: "bytes \<Rightarrow> bundle_meta option" where
  "meta_of_bytes b = Option.bind (loads b) meta_of_json"

lemma json_to_opt_json_opt [simp]: "json_to_opt (json_opt x) = Some x"
  by (cases x) (simp_all add: json_opt_def json_to_opt_def)

lemma files_of_json_map [simp]: "files_of_json (map file_json fs) = Some fs"
  by (induction fs) (simp_all add: file_json_def)

lemma meta_of_json_meta_json: "meta_of_json (meta_json m) = Some m"
  by (simp add: meta_json_def)

lemma json_ok_meta_json: "json_ok (meta_json m)"
  by (auto simp: meta_json_def file_json_def json_opt_def list_all_iff split: option.splits)

lemma meta_of_bytes_meta_bytes [simp]: "meta_of_bytes (meta_bytes m) = Some m"
  by (simp add: meta_of_bytes_def meta_bytes_def loads_dumps json_ok_meta_json meta_of_json_meta_json)

subsection \<open>Plain keys\<close>

type_synonym 'a io = "(exc + 'a) \<times> fs"

definition lift_fs :: "fs \<Rightarrow> exc + fs \<Rightarrow> unit io" where
  "lift_fs fs r = (case r of Inl e \<Rightarrow> (Inl e, fs) | Inr fs' \<Rightarrow> (Inr (), fs'))"

definition put :: "str list \<Rightarrow> int \<Rightarrow> str \<Rightarrow> bytes \<Rightarrow> fs \<Rightarrow> unit io" where
  "put root t key data fs =
     (let path = resolve root key in
      case mkdir_p t (butlast path) fs of
        Inl e \<Rightarrow> (Inl e, fs)
      | Inr fs1 \<Rightarrow> lift_fs fs1 (write_bytes t path data fs1))"

definition get :: "str list \<Rightarrow> str \<Rightarrow> fs \<Rightarrow> exc + bytes" where
  "get root key fs =
     (let path = resolve root key in
      if \<not> is_file fs path then Inl FileNotFoundError else read_bytes fs path)"

definition delete :: "str list \<Rightarrow> int \<Rightarrow> str \<Rightarrow> fs \<Rightarrow> unit io" where
  "delete root t key fs =
     (let path = resolve root key in
      if \<not> is_file fs path then (Inl FileNotFoundError, fs)
      else lift_fs fs (unlink t path fs))"

definition list_keys_under :: "str list \<Rightarrow> str \<Rightarrow> fs \<Rightarrow> str list" where
  "list_keys_under root pre fs =
     (let dd = data_root root in
      if \<not> is_dir fs dd then []
      else sort (filter (\<lambda>r. pre = [] \<or> startswith r pre)
             (map (\<lambda>(q, n). as_posix (drop (length dd) q))
               (filter (\<lambda>(q, n). strict_prefix dd q \<and> (case n of FileNode b m \<Rightarrow> True | _ \<Rightarrow> False)) fs))))"

definition exists_key :: "str list \<Rightarrow> str \<Rightarrow> fs \<Rightarrow> bool" where
  "exists_key root key fs = is_file fs (resolve root key)"

definition get_creation_time :: "str list \<Rightarrow> str \<Rightarrow> fs \<Rightarrow> exc + int" where
  "get_creation_time root key fs =
     (case stat fs (resolve root key) of
        Some (FileNode b m) \<Rightarrow> Inr m | _ \<Rightarrow> Inl FileNotFoundError)"

definition get_size :: "str list \<Rightarrow> str \<Rightarrow> fs \<Rightarrow> exc + int" where
  "get_size root key fs =
     (case stat fs (resolve root key) of
        Some (FileNode b m) \<Rightarrow> Inr (int (length b)) | _ \<Rightarrow> Inl FileNotFoundError)"

subsection \<open>Leases\<close>

text \<open>
  The lease table maps a key to its lease id. Whether the lock file can be opened and
  whether its \<open>flock\<close> is free (another process may hold it) are answers of the host.
\<close>

type_synonym leases = "(str \<times> str) list"

definition acquire_lease :: "bool \<Rightarrow> bool \<Rightarrow> str \<Rightarrow> str \<Rightarrow> leases \<Rightarrow> str option \<times> leases" where
  "acquire_lease open_ok flock_free fresh_id key ls =
     (if map_of ls key \<noteq> None then (None, ls)
      else if \<not> open_ok then (None, ls)
      else if \<not> flock_free then (None, ls)
      else (Some fresh_id, AList.update key fresh_id ls))"

definition renew_lease :: "str \<Rightarrow> str \<Rightarrow> leases \<Rightarrow> bool" where
  "renew_lease key lease_id ls = (map_of ls key = Some lease_id)"

definition release_lease :: "str \<Rightarrow> str \<Rightarrow> leases \<Rightarrow> bool \<times> leases" where
  "release_lease key lease_id ls =
     (if map_of ls key \<noteq> Some lease_id then (False, ls)
      else (True, AList.delete key ls))"

subsection \<open>Collisions\<close>

definition looks_like_bundle_dir :: "fs \<Rightarrow> str list \<Rightarrow> bool" where
  "looks_like_bundle_dir fs candidate =
     (if \<not> is_dir fs candidate then False
      else if is_file fs (candidate @ [BUNDLE_MANIFEST]) then True
      else case walk fs [] candidate of
        Inl e \<Rightarrow> False
      | Inr p \<Rightarrow>
          list_all (\<lambda>(c, n). case n of DirNode m \<Rightarrow> False | FileNode b m \<Rightarrow> True) (children fs p)
          \<and> children fs p \<noteq> [])"

text \<open>\<open>root.rglob("*")\<close> enumerates what lies below, in the order of the file system.\<close>

fun find_descendant :: "fs \<Rightarrow> fpath \<Rightarrow> (fpath \<times> node) list \<Rightarrow> fpath option" where
  "find_descendant fs root [] = None"
| "find_descendant fs root ((q, n) # rest) =
     (if \<not> strict_prefix root q then find_descendant fs root rest
      else case n of
        DirNode m \<Rightarrow>
          if looks_like_bundle_dir fs q then Some q else find_descendant fs root rest
      | FileNode b m \<Rightarrow>
          if butlast q \<noteq> root then Some (butlast q) else find_descendant fs root rest)"

definition find_descendant_bundle :: "fs \<Rightarrow> str list \<Rightarrow> str list option" where
  "find_descendant_bundle fs root =
     (case walk fs [] root of Inl e \<Rightarrow> None
      | Inr p \<Rightarrow> map_option (\<lambda>q. root @ drop (length p) q) (find_descendant fs p fs))"

definition collision_kind :: "fs \<Rightarrow> str list \<Rightarrow> conflict_kind" where
  "collision_kind fs bundle_dir =
     (case walk fs [] bundle_dir of
        Inr p \<Rightarrow> if is_dir fs bundle_dir \<and> children fs p \<noteq> [] then ShadowParent else ShadowChild
      | Inl e \<Rightarrow> ShadowChild)"

text \<open>The loop over the ancestors, from the parent of the bundle up to the namespace root.\<close>

function check_ancestors :: "fs \<Rightarrow> str list \<Rightarrow> str list \<Rightarrow> str list \<Rightarrow> exc option" where
  "check_ancestors fs dd ns_root ancestor =
     (if ancestor = ns_root then None
      else if ancestor = dd then None
      else if is_dir fs ancestor \<and> looks_like_bundle_dir fs ancestor
      then Some (BundlePathConflictError (as_posix (drop (length dd) ancestor)) ShadowChild)
      else if ancestor = [] then None
      else check_ancestors fs dd ns_root (butlast ancestor))"
  by pat_completeness auto
termination
  by (relation "measure (\<lambda>(fs, dd, ns, a). length a)") auto

declare check_ancestors.simps [simp del]

definition check_bundle_path_collision :: "str list \<Rightarrow> fs \<Rightarrow> str list \<Rightarrow> exc option" where
  "check_bundle_path_collision root fs bundle_dir =
     (let dd = data_root root in
      if \<not> prefix dd bundle_dir then None
      else let rel = drop (length dd) bundle_dir in
        if rel = [] then None
        else let depth = (if hd rel = ''inbox'' then 2 else 1::nat) in
          if length rel \<le> depth then None
          else case check_ancestors fs dd (dd @ take depth rel) (butlast bundle_dir) of
            Some e \<Rightarrow> Some e
          | None \<Rightarrow>
             if is_dir fs bundle_dir then
               (case find_descendant_bundle fs bundle_dir of
                  Some d \<Rightarrow> Some (BundlePathConflictError (as_posix (drop (length dd) d)) ShadowParent)
                | None \<Rightarrow> None)
             else None)"

subsection \<open>Bundles\<close>

record bundle_writer =
  bw_dir :: "str list"
  bw_written :: "(str \<times> int) list"
  bw_committed :: bool

definition new_writer :: "str list \<Rightarrow> bundle_writer" where
  "new_writer d = \<lparr>bw_dir = d, bw_written = [], bw_committed = False\<rparr>"

definition open_bundle_write :: "str list \<Rightarrow> int \<Rightarrow> str \<Rightarrow> fs \<Rightarrow> bundle_writer io" where
  "open_bundle_write root t path fs =
     (let bundle_dir = resolve root path in
      case check_bundle_path_collision root fs bundle_dir of
        Some e \<Rightarrow> (Inl e, fs)
      | None \<Rightarrow>
         (case mkdir_p t (butlast bundle_dir) fs of
            Inl e \<Rightarrow> (Inl e, fs)
          | Inr fs1 \<Rightarrow>
             (case os_mkdir t bundle_dir fs1 of
                Inr fs2 \<Rightarrow> (Inr (new_writer bundle_dir), fs2)
              | Inl e \<Rightarrow>
                 if e = FileExistsError
                 then (Inl (BundlePathConflictError path (collision_kind fs1 bundle_dir)), fs1)
                 else (Inl e, fs1))))"

definition write_file :: "int \<Rightarrow> str \<Rightarrow> bytes \<Rightarrow> bundle_writer \<Rightarrow> fs \<Rightarrow> bundle_writer io" where
  "write_file t name data w fs =
     (if name = [] then (Inl (ValueError ''Bundle file name must not be empty''), fs)
      else if map_of (bw_written w) name \<noteq> None
      then (Inl (ValueError (''Duplicate file name in bundle: '' @ name)), fs)
      else let target = join_parts (bw_dir w) name in
        case mkdir_p t (butlast target) fs of
          Inl e \<Rightarrow> (Inl e, fs)
        | Inr fs1 \<Rightarrow>
           (case write_bytes t target data fs1 of
              Inl e \<Rightarrow> (Inl e, fs1)
            | Inr fs2 \<Rightarrow>
               (Inr (w\<lparr>bw_written := AList.update name (int (length data)) (bw_written w)\<rparr>), fs2)))"

fun check_sizes :: "(str \<times> int) list \<Rightarrow> manifest_file list \<Rightarrow> exc option" where
  "check_sizes written [] = None"
| "check_sizes written (f # fs) =
     (if map_of written (mf_name f) \<noteq> Some (mf_size f)
      then Some (ValueError (''Bundle size mismatch for '' @ mf_name f))
      else check_sizes written fs)"

definition commit_check :: "bundle_writer \<Rightarrow> bundle_meta \<Rightarrow> exc option" where
  "commit_check w meta =
     (let files = bm_files meta; declared = map mf_name files in
      if files = [] then Some (ValueError ''Bundle must contain at least one file'')
      else if \<not> distinct declared then Some (ValueError ''Duplicate file names in bundle'')
      else if set (map fst (bw_written w)) \<noteq> set declared
      then Some (ValueError ''Bundle file set mismatch'')
      else check_sizes (bw_written w) files)"

definition commit :: "int \<Rightarrow> bundle_meta \<Rightarrow> bundle_writer \<Rightarrow> fs \<Rightarrow> bundle_writer io" where
  "commit t meta w fs =
     (case commit_check w meta of
        Some e \<Rightarrow> (Inl e, fs)
      | None \<Rightarrow>
         (let tmp_path = bw_dir w @ [BUNDLE_MANIFEST_TMP]; final_path = bw_dir w @ [BUNDLE_MANIFEST] in
          case write_bytes t tmp_path (meta_bytes meta) fs of
            Inl e \<Rightarrow> (Inl e, fs)
          | Inr fs1 \<Rightarrow>
             (case rename t tmp_path final_path fs1 of
                Inl e \<Rightarrow> (Inl e, fs1)
              | Inr fs2 \<Rightarrow> (Inr (w\<lparr>bw_committed := True\<rparr>), fs2))))"

definition abort :: "int \<Rightarrow> bundle_writer \<Rightarrow> fs \<Rightarrow> fs" where
  "abort t w fs =
     (if bw_committed w then fs
      else case rmtree t (bw_dir w) fs of Inl e \<Rightarrow> fs | Inr fs' \<Rightarrow> fs')"

definition read_bundle_meta :: "str list \<Rightarrow> str \<Rightarrow> fs \<Rightarrow> exc + bundle_meta" where
  "read_bundle_meta root path fs =
     (let meta_path = resolve root path @ [BUNDLE_MANIFEST] in
      if \<not> is_file fs meta_path then Inl FileNotFoundError
      else case read_bytes fs meta_path of
        Inl e \<Rightarrow> Inl e
      | Inr b \<Rightarrow> (case meta_of_bytes b of None \<Rightarrow> Inl FileNotFoundError | Some m \<Rightarrow> Inr m))"

definition open_bundle_file_read :: "str list \<Rightarrow> str \<Rightarrow> str \<Rightarrow> fs \<Rightarrow> exc + bytes" where
  "open_bundle_file_read root path name fs =
     (let bundle_dir = resolve root path in
      if \<not> is_file fs (bundle_dir @ [BUNDLE_MANIFEST]) then Inl FileNotFoundError
      else let inner = join_parts bundle_dir name in
        if \<not> is_file fs inner then Inl FileNotFoundError else read_bytes fs inner)"

definition delete_bundle :: "str list \<Rightarrow> int \<Rightarrow> str \<Rightarrow> fs \<Rightarrow> unit io" where
  "delete_bundle root t path fs =
     (let bundle_dir = resolve root path in
      if \<not> is_dir fs bundle_dir then (Inl FileNotFoundError, fs)
      else lift_fs fs (rmtree t bundle_dir fs))"

subsection \<open>Listing\<close>

record bundle_ref =
  br_path :: str
  br_has_meta :: bool
  br_mtime :: int

definition file_names :: "fs \<Rightarrow> fpath \<Rightarrow> str list" where
  "file_names fs p =
     map fst (filter (\<lambda>(c, n). case n of FileNode b m \<Rightarrow> True | DirNode m \<Rightarrow> False) (children fs p))"

definition subdirs :: "fs \<Rightarrow> fpath \<Rightarrow> str list" where
  "subdirs fs p =
     map fst (filter (\<lambda>(c, n). case n of DirNode m \<Rightarrow> True | FileNode b m \<Rightarrow> False) (children fs p))"

definition below :: "fs \<Rightarrow> fpath \<Rightarrow> nat" where
  "below fs p = length (filter (\<lambda>(q, n). strict_prefix p q) fs)"

lemma subdirs_mem: "c \<in> set (subdirs fs p) \<Longrightarrow> \<exists>m. (p @ [c], DirNode m) \<in> set fs"
  by (force simp: subdirs_def children_def append_butlast_last_id split: node.splits)

lemma below_child: "c \<in> set (subdirs fs p) \<Longrightarrow> below fs (p @ [c]) < below fs p"
proof -
  assume "c \<in> set (subdirs fs p)"
  then obtain m where m: "(p @ [c], DirNode m) \<in> set fs" using subdirs_mem by blast
  let ?A = "filter (\<lambda>(q, n). strict_prefix p q) fs"
  have sp: "strict_prefix p q" if "strict_prefix (p @ [c]) q" for q
    using that by (meson prefix_order.less_imp_le prefix_snocD)
  have "filter (\<lambda>(q, n). strict_prefix (p @ [c]) q) fs = filter (\<lambda>(q, n). strict_prefix (p @ [c]) q) ?A"
    using sp by (auto simp: filter_filter intro!: filter_cong)
  moreover have "(p @ [c], DirNode m) \<in> set ?A" using m by (auto simp: strict_prefix_def)
  then have "length (filter (\<lambda>(q, n). strict_prefix (p @ [c]) q) ?A) < length ?A"
    by (rule length_filter_less) auto
  ultimately show ?thesis unfolding below_def by simp
qed

text \<open>
  \<open>os.walk\<close> below a directory that is not the starting point: \<open>rel\<close> is its path from the
  data root. A directory with files is not descended into.
\<close>

function walk_dirs :: "bool \<Rightarrow> fs \<Rightarrow> fpath \<Rightarrow> str list \<Rightarrow> bundle_ref list" where
  "walk_dirs include_orphans fs p rel =
     (let files = file_names fs p;
          mtime = (case map_of fs p of None \<Rightarrow> 0 | Some n \<Rightarrow> st_mtime n)
      in if BUNDLE_MANIFEST \<in> set files
         then [\<lparr>br_path = as_posix rel, br_has_meta = True, br_mtime = mtime\<rparr>]
         else if list_ex (\<lambda>f. f \<noteq> BUNDLE_MANIFEST) files
         then (if include_orphans
               then [\<lparr>br_path = as_posix rel, br_has_meta = False, br_mtime = mtime\<rparr>] else [])
         else concat (map (\<lambda>c. walk_dirs include_orphans fs (p @ [c]) (rel @ [c])) (subdirs fs p)))"
  by pat_completeness auto
termination
  by (relation "measure (\<lambda>(io, fs, p, rel). below fs p)") (auto simp: below_child)

declare walk_dirs.simps [simp del]

definition list_bundles :: "str list \<Rightarrow> str \<Rightarrow> bool \<Rightarrow> fs \<Rightarrow> bundle_ref list" where
  "list_bundles root pre include_orphans fs =
     (let dd = data_root root;
          base = (if pre = [] then dd else join_parts dd pre)
      in if \<not> is_dir fs base then []
         else case walk fs [] base of
           Inl e \<Rightarrow> []
         | Inr p \<Rightarrow>
            sort_key br_path
              (concat (map (\<lambda>c. walk_dirs include_orphans fs (p @ [c]) (drop (length dd) base @ [c]))
                 (subdirs fs p))))"

end
