(* ===== verification/Storage_Laws.thy ===== *)
theory Storage_Laws
  imports Storage
begin

text \<open>
  What the filesystem backend promises, over the abstract file system: where a key is
  stored, what each bundle operation changes, and the contract of a bundle store, stated as
  a locale and discharged for the backend. A bundle store is a map from paths to a manifest
  and file contents: publishing (open, write every file, commit) adds one entry at a free
  path, deleting removes one, and neither touches a bundle that is not nested with it.
\<close>

subsection \<open>Keys\<close>

definition good_key :: "str \<Rightarrow> bool" where
  "good_key k = (\<not> startswith k ''/'' \<and> clean (path_parts k))"

lemma path_parts_join: "path_parts (a @ ''/'' @ b) = path_parts a @ path_parts b"
  using split_on_append_sep [of "CHR ''/''" a b] by (simp add: path_parts_def)

lemma path_parts_single:
  "CHR ''/'' \<notin> set s \<Longrightarrow> path_parts s = (if s = [] \<or> s = ''.'' then [] else [s])"
  by (simp add: path_parts_def split_on_single)

lemma validate_path_good_key: "validate_path p a = Inr u \<Longrightarrow> good_key p"
  using validate_path_InrD [of p a u] by (auto simp: good_key_def path_parts_def clean_def)

lemma good_key_join:
  "good_key a \<Longrightarrow> a \<noteq> [] \<Longrightarrow> clean (path_parts b) \<Longrightarrow> good_key (a @ ''/'' @ b)"
  using path_parts_join [of a b] by (cases a) (auto simp: good_key_def)

lemma resolve_good: "good_key k \<Longrightarrow> resolve root k = data_root root @ path_parts k"
  by (simp add: good_key_def resolve_def join_parts_def)

lemma clean_resolve: "clean root \<Longrightarrow> good_key k \<Longrightarrow> clean (resolve root k)"
  by (simp add: resolve_good good_key_def data_root_def)

lemma clean_butlast: "clean p \<Longrightarrow> clean (butlast p)"
  by (auto simp: clean_def dest: in_set_butlastD)

subsection \<open>Opening\<close>

lemma open_bundle_write_Inr:
  assumes wf: "fs_wf fs" and c: "clean root" and g: "good_key path"
    and o: "open_bundle_write root t path fs = (Inr w, fs')"
  shows "w = new_writer (resolve root path)"
    and "entry_at fs (resolve root path) = None"
    and "entry_at fs' = (\<lambda>q. if prefix q (resolve root path) then Some D else entry_at fs q)"
    and "fs_wf fs'"
    and "check_bundle_path_collision root fs (resolve root path) = None"
    and "\<And>q. prefix q (resolve root path) \<Longrightarrow> entry_at fs q \<in> {None, Some D}"
proof -
  let ?b = "resolve root path"
  have cb: "clean ?b" using clean_resolve [OF c g] .
  from o obtain fs1 where chk: "check_bundle_path_collision root fs ?b = None"
    and m: "mkdir_p t (butlast ?b) fs = Inr fs1" and k: "os_mkdir t ?b fs1 = Inr fs'"
    and w: "w = new_writer ?b"
    by (auto simp: open_bundle_write_def Let_def split: option.splits sum.splits if_splits)
  from mkdir_p_clean [OF wf clean_butlast [OF cb] m] have m': "fs_wf fs1"
    "entry_at fs1 = (\<lambda>q. if prefix q (butlast ?b) then Some D else entry_at fs q)"
    "\<And>q. prefix q (butlast ?b) \<Longrightarrow> entry_at fs q \<in> {None, Some D}" by auto
  from os_mkdir_clean [OF m'(1) cb k] have k': "entry_at fs1 ?b = None" "?b \<noteq> []"
    "entry_at fs' = (entry_at fs1)(?b \<mapsto> D)" "fs_wf fs'" by auto
  have e: "entry_at fs ?b = None" using k'(1) m'(2) by (auto split: if_splits)
  show "w = new_writer ?b" "check_bundle_path_collision root fs ?b = None" "fs_wf fs'"
    "entry_at fs ?b = None" by fact+
  show "entry_at fs' = (\<lambda>q. if prefix q ?b then Some D else entry_at fs q)"
    using k' m'(2) by (auto simp: fun_eq_iff prefix_butlast)
  show "entry_at fs q \<in> {None, Some D}" if "prefix q ?b" for q
    using that m'(3) [of q] e k'(2) by (auto simp: prefix_butlast)
qed

subsection \<open>Writing files\<close>

text \<open>The names whose file lies in the bundle and is not one of the manifest's two files.\<close>

definition bundle_name :: "str \<Rightarrow> bool" where
  "bundle_name n = (good_key n \<and> path_parts n \<notin> {[], [BUNDLE_MANIFEST], [BUNDLE_MANIFEST_TMP]})"

lemma join_parts_good: "good_key n \<Longrightarrow> join_parts d n = d @ path_parts n"
  by (simp add: good_key_def join_parts_def)

lemma write_file_Inr:
  assumes wf: "fs_wf fs" and c: "clean (bw_dir w)" and g: "good_key n"
    and o: "write_file t n b w fs = (Inr w', fs')"
  defines "p \<equiv> bw_dir w @ path_parts n"
  shows "w' = w\<lparr>bw_written := AList.update n (int (length b)) (bw_written w)\<rparr>"
    and "entry_at fs' = (\<lambda>q. if q = p then Some (F b) else if prefix q p then Some D else entry_at fs q)"
    and "entry_at fs p \<noteq> Some D" and "fs_wf fs'"
    and "\<And>q. strict_prefix q p \<Longrightarrow> entry_at fs q \<in> {None, Some D}"
    and "n \<noteq> []" and "map_of (bw_written w) n = None"
proof -
  have cp: "clean p" using c g by (simp add: p_def good_key_def)
  from o obtain fs1 where m: "mkdir_p t (butlast p) fs = Inr fs1"
    and k: "write_bytes t p b fs1 = Inr fs'"
    and w: "w' = w\<lparr>bw_written := AList.update n (int (length b)) (bw_written w)\<rparr>"
    and n: "n \<noteq> []" "map_of (bw_written w) n = None"
    unfolding p_def
    by (auto simp: write_file_def Let_def join_parts_good [OF g] split: option.splits sum.splits if_splits)
  from mkdir_p_clean [OF wf clean_butlast [OF cp] m] have m': "fs_wf fs1"
    "entry_at fs1 = (\<lambda>q. if prefix q (butlast p) then Some D else entry_at fs q)"
    "\<And>q. prefix q (butlast p) \<Longrightarrow> entry_at fs q \<in> {None, Some D}" by auto
  from write_bytes_clean [OF m'(1) cp k] have k': "entry_at fs1 p \<noteq> Some D" "p \<noteq> []"
    "entry_at fs' = (entry_at fs1)(p \<mapsto> F b)" "fs_wf fs'" by auto
  show "w' = w\<lparr>bw_written := AList.update n (int (length b)) (bw_written w)\<rparr>" "fs_wf fs'"
    "n \<noteq> []" "map_of (bw_written w) n = None" by fact+
  show "entry_at fs p \<noteq> Some D" using k'(1) m'(2) by (auto split: if_splits)
  show "entry_at fs' = (\<lambda>q. if q = p then Some (F b) else if prefix q p then Some D else entry_at fs q)"
    using k' m'(2) by (auto simp: fun_eq_iff prefix_butlast)
  show "entry_at fs q \<in> {None, Some D}" if "strict_prefix q p" for q
    using that m'(3) [of q] k'(2) by (auto simp: prefix_butlast strict_prefix_def)
qed

text \<open>The loop of the callers: one \<^verbatim>\<open>write_file\<close> per file.\<close>

fun write_files :: "int \<Rightarrow> (str \<times> bytes) list \<Rightarrow> bundle_writer \<Rightarrow> fs \<Rightarrow> bundle_writer io" where
  "write_files t [] w fs = (Inr w, fs)"
| "write_files t ((n, b) # rest) w fs =
     (case write_file t n b w fs of
        (Inl e, fs') \<Rightarrow> (Inl e, fs')
      | (Inr w', fs') \<Rightarrow> write_files t rest w' fs')"

text \<open>
  What a writer may change: below its directory files are added, nothing that exists there
  changes kind, a file keeps its content unless it is one of those written, and outside
  nothing changes.
\<close>

definition writer_frame :: "fpath \<Rightarrow> fpath set \<Rightarrow> fs \<Rightarrow> fs \<Rightarrow> bool" where
  "writer_frame d W fs fs' \<longleftrightarrow>
     (\<forall>q. \<not> prefix d q \<longrightarrow> entry_at fs' q = entry_at fs q)
     \<and> (\<forall>q. entry_at fs q = Some D \<longrightarrow> entry_at fs' q = Some D)
     \<and> (\<forall>q b. entry_at fs q = Some (F b) \<longrightarrow> q \<notin> W \<longrightarrow> entry_at fs' q = Some (F b))"

lemma writer_frame_refl: "writer_frame d {} fs fs"
  by (simp add: writer_frame_def)

lemma writer_frame_trans:
  "writer_frame d V fs fs1 \<Longrightarrow> writer_frame d W fs1 fs2 \<Longrightarrow> writer_frame d (V \<union> W) fs fs2"
  by (simp add: writer_frame_def)

lemma write_file_frame:
  assumes wf: "fs_wf fs" and c: "clean (bw_dir w)" and g: "good_key n"
    and o: "write_file t n b w fs = (Inr w', fs')" and d: "entry_at fs (bw_dir w) = Some D"
  shows "writer_frame (bw_dir w) {bw_dir w @ path_parts n} fs fs'"
proof -
  let ?p = "bw_dir w @ path_parts n"
  note wr = write_file_Inr [OF wf c g o]
  have frame: "entry_at fs' q = entry_at fs q" if "entry_at fs q \<noteq> None" "q \<noteq> ?p" for q
    using that wr(2) wr(5) [of q] by (auto simp: strict_prefix_def)
  have "entry_at fs' q = entry_at fs q" if q: "\<not> prefix (bw_dir w) q" for q
  proof (cases "prefix q ?p")
    case True
    with q have "prefix q (bw_dir w)" by (metis prefix_same_cases prefixI)
    then have "entry_at fs q = Some D" by (rule dir_prefixes [OF wf d])
    moreover have "q \<noteq> ?p" using q by auto
    ultimately show ?thesis using frame by simp
  next
    case False
    then show ?thesis using wr(2) by auto
  qed
  moreover have "entry_at fs' q = Some D" if "entry_at fs q = Some D" for q
    using that frame [of q] wr(3) by auto
  ultimately show ?thesis using frame by (auto simp: writer_frame_def)
qed

lemma write_files_Inr:
  assumes "fs_wf fs" and "clean (bw_dir w)" and "\<forall>n \<in> fst ` set files. good_key n"
    and "entry_at fs (bw_dir w) = Some D" and "write_files t files w fs = (Inr w', fs')"
  shows "fs_wf fs' \<and> bw_dir w' = bw_dir w \<and> bw_committed w' = bw_committed w
    \<and> writer_frame (bw_dir w) ((\<lambda>(n, b). bw_dir w @ path_parts n) ` set files) fs fs'
    \<and> bw_written w' = bw_written w @ map (\<lambda>(n, b). (n, int (length b))) files"
  using assms
proof (induction files arbitrary: w fs)
  case Nil
  then show ?case by (simp add: writer_frame_refl)
next
  case (Cons f rest)
  obtain n b where f: "f = (n, b)" by (cases f)
  from Cons.prems(5) f obtain w1 fs1 where 1: "write_file t n b w fs = (Inr w1, fs1)"
    and 2: "write_files t rest w1 fs1 = (Inr w', fs')"
    by (auto split: prod.splits sum.splits)
  have g: "good_key n" using Cons.prems(3) f by auto
  note wr = write_file_Inr [OF Cons.prems(1,2) g 1]
  note fr = write_file_frame [OF Cons.prems(1,2) g 1 Cons.prems(4)]
  have w1: "bw_dir w1 = bw_dir w" "bw_committed w1 = bw_committed w"
    "bw_written w1 = bw_written w @ [(n, int (length b))]"
    using wr(1,7) by (auto simp: map_of_eq_None_iff update_new)
  have d1: "entry_at fs1 (bw_dir w) = Some D"
    using fr Cons.prems(4) by (simp add: writer_frame_def)
  have "fs_wf fs' \<and> bw_dir w' = bw_dir w1 \<and> bw_committed w' = bw_committed w1
    \<and> writer_frame (bw_dir w1) ((\<lambda>(n, b). bw_dir w1 @ path_parts n) ` set rest) fs1 fs'
    \<and> bw_written w' = bw_written w1 @ map (\<lambda>(n, b). (n, int (length b))) rest"
    using Cons.prems wr(4) w1 d1 f by (intro Cons.IH [OF _ _ _ _ 2]) auto
  with w1 f writer_frame_trans [OF fr] show ?case by auto
qed

lemma write_files_contents:
  assumes "fs_wf fs" and "clean (bw_dir w)" and "\<forall>n \<in> fst ` set files. good_key n"
    and "entry_at fs (bw_dir w) = Some D" and "write_files t files w fs = (Inr w', fs')"
    and "distinct (map (\<lambda>(n, b). path_parts n) files)" and "(n, b) \<in> set files"
  shows "entry_at fs' (bw_dir w @ path_parts n) = Some (F b)"
  using assms
proof (induction files arbitrary: w fs)
  case Nil
  then show ?case by simp
next
  case (Cons f rest)
  obtain n1 b1 where f: "f = (n1, b1)" by (cases f)
  from Cons.prems(5) f obtain w1 fs1 where 1: "write_file t n1 b1 w fs = (Inr w1, fs1)"
    and 2: "write_files t rest w1 fs1 = (Inr w', fs')"
    by (auto split: prod.splits sum.splits)
  have g: "good_key n1" using Cons.prems(3) f by auto
  note wr = write_file_Inr [OF Cons.prems(1,2) g 1]
  have w1: "bw_dir w1 = bw_dir w" using wr(1) by simp
  have d1: "entry_at fs1 (bw_dir w) = Some D"
    using write_file_frame [OF Cons.prems(1,2) g 1 Cons.prems(4)] Cons.prems(4)
    by (simp add: writer_frame_def)
  show ?case
  proof (cases "(n, b) \<in> set rest")
    case True
    have "entry_at fs' (bw_dir w1 @ path_parts n) = Some (F b)"
      using Cons.prems wr(4) w1 d1 True by (intro Cons.IH [OF _ _ _ _ 2]) auto
    with w1 show ?thesis by simp
  next
    case False
    then have nb: "n1 = n" "b1 = b" using Cons.prems(7) f by auto
    have "entry_at fs1 (bw_dir w @ path_parts n) = Some (F b)" using wr(2) nb by simp
    moreover have "bw_dir w @ path_parts n \<notin> (\<lambda>(n, b). bw_dir w1 @ path_parts n) ` set rest"
      using Cons.prems(6) f nb w1 by force
    moreover have "writer_frame (bw_dir w1) ((\<lambda>(n, b). bw_dir w1 @ path_parts n) ` set rest) fs1 fs'"
      using Cons.prems wr(4) w1 d1 write_files_Inr [OF _ _ _ _ 2] by auto
    ultimately show ?thesis by (simp add: writer_frame_def)
  qed
qed

subsection \<open>Committing, aborting, deleting\<close>

lemma commit_Inr:
  assumes wf: "fs_wf fs" and c: "clean (bw_dir w)" and d: "entry_at fs (bw_dir w) = Some D"
    and o: "commit t m w fs = (Inr w', fs')"
  shows "commit_check w m = None" and "w' = w\<lparr>bw_committed := True\<rparr>" and "fs_wf fs'"
    and "entry_at fs' = (entry_at fs)(bw_dir w @ [BUNDLE_MANIFEST_TMP] := None,
           bw_dir w @ [BUNDLE_MANIFEST] \<mapsto> F (meta_bytes m))"
proof -
  let ?t = "bw_dir w @ [BUNDLE_MANIFEST_TMP]" and ?m = "bw_dir w @ [BUNDLE_MANIFEST]"
  from o obtain fs1 where 1: "commit_check w m = None" "w' = w\<lparr>bw_committed := True\<rparr>"
    and wb: "write_bytes t ?t (meta_bytes m) fs = Inr fs1" and rn: "rename t ?t ?m fs1 = Inr fs'"
    by (auto simp: commit_def Let_def split: option.splits sum.splits)
  have ct: "clean ?t" "clean ?m" using c by auto
  from write_bytes_clean [OF wf ct(1) wb] have wb': "entry_at fs1 = (entry_at fs)(?t \<mapsto> F (meta_bytes m))"
    "fs_wf fs1" by auto
  have p1: "entry_at fs1 ?t = Some (F (meta_bytes m))" "entry_at fs1 (bw_dir w) = Some D"
    using wb'(1) d by auto
  have nd: "entry_at fs1 ?m \<noteq> Some D"
  proof
    assume "entry_at fs1 ?m = Some D"
    then have "rename t ?t ?m fs1 = Inl IsADirectoryError"
      using walk_clean_iff [OF wb'(2) ct(1), of ?t] walk_clean_iff [OF wb'(2) ct(2), of ?m] p1
      by (auto simp: rename_def entry_at_D entry_at_F)
    with rn show False by simp
  qed
  from rename_clean [OF wb'(2) ct _ p1(1) nd, of t] p1(2) rn
  have "entry_at fs' = (entry_at fs1)(?t := None, ?m \<mapsto> F (meta_bytes m))" "fs_wf fs'" by auto
  with wb'(1) 1 show "commit_check w m = None" "w' = w\<lparr>bw_committed := True\<rparr>" "fs_wf fs'"
    "entry_at fs' = (entry_at fs)(?t := None, ?m \<mapsto> F (meta_bytes m))" by auto
qed

lemma delete_bundle_Inr:
  assumes wf: "fs_wf fs" and c: "clean root" and g: "good_key path"
    and o: "delete_bundle root t path fs = (Inr u, fs')"
  shows "entry_at fs (resolve root path) = Some D" and "fs_wf fs'"
    and "entry_at fs' = (\<lambda>q. if prefix (resolve root path) q then None else entry_at fs q)"
proof -
  have n: "resolve root path \<noteq> []" by (simp add: resolve_good [OF g] data_root_def)
  from o have "rmtree t (resolve root path) fs = Inr fs'"
    by (auto simp: delete_bundle_def lift_fs_def Let_def split: if_splits sum.splits)
  from rmtree_clean(1) [OF wf clean_resolve [OF c g] n this]
  show "entry_at fs (resolve root path) = Some D" "fs_wf fs'"
    "entry_at fs' = (\<lambda>q. if prefix (resolve root path) q then None else entry_at fs q)" by auto
qed

lemma delete_bundle_ok:
  assumes wf: "fs_wf fs" and c: "clean root" and g: "good_key path"
    and d: "entry_at fs (resolve root path) = Some D"
  shows "\<exists>fs'. delete_bundle root t path fs = (Inr (), fs')"
proof -
  have n: "resolve root path \<noteq> []" by (simp add: resolve_good [OF g] data_root_def)
  obtain fs' where "rmtree t (resolve root path) fs = Inr fs'"
    using rmtree_clean(2) [OF wf clean_resolve [OF c g] n d] by blast
  then show ?thesis
    using is_dir_clean [OF wf clean_resolve [OF c g]] d
    by (auto simp: delete_bundle_def Let_def lift_fs_def)
qed

lemma abort_uncommitted:
  assumes wf: "fs_wf fs" and c: "clean (bw_dir w)" and n: "bw_dir w \<noteq> []"
    and d: "entry_at fs (bw_dir w) = Some D" and u: "\<not> bw_committed w"
  shows "entry_at (abort t w fs) = (\<lambda>q. if prefix (bw_dir w) q then None else entry_at fs q)"
    and "fs_wf (abort t w fs)"
proof -
  obtain fs' where r: "rmtree t (bw_dir w) fs = Inr fs'" using rmtree_clean(2) [OF wf c n d] by blast
  then have "abort t w fs = fs'" using u by (simp add: abort_def)
  with rmtree_clean(1) [OF wf c n r]
  show "entry_at (abort t w fs) = (\<lambda>q. if prefix (bw_dir w) q then None else entry_at fs q)"
    "fs_wf (abort t w fs)" by auto
qed

subsection \<open>Reading\<close>

lemma read_bundle_meta_Inr:
  assumes "fs_wf fs" and "clean root" and "good_key path"
  shows "read_bundle_meta root path fs = Inr m \<longleftrightarrow>
    (\<exists>b. entry_at fs (resolve root path @ [BUNDLE_MANIFEST]) = Some (F b) \<and> meta_of_bytes b = Some m)"
proof -
  have c: "clean (resolve root path @ [BUNDLE_MANIFEST])" using clean_resolve [OF assms(2,3)] by simp
  show ?thesis
  proof (cases "is_file fs (resolve root path @ [BUNDLE_MANIFEST])")
    case True
    with is_file_clean [OF assms(1) c] obtain b
      where b: "entry_at fs (resolve root path @ [BUNDLE_MANIFEST]) = Some (F b)" by auto
    then have "read_bytes fs (resolve root path @ [BUNDLE_MANIFEST]) = Inr b"
      using read_bytes_clean [OF assms(1) c] by simp
    with b True show ?thesis by (auto simp: read_bundle_meta_def Let_def split: option.splits)
  next
    case False
    with is_file_clean [OF assms(1) c] show ?thesis by (auto simp: read_bundle_meta_def Let_def)
  qed
qed

lemma open_bundle_file_read_Inr:
  assumes "fs_wf fs" and "clean root" and "good_key path" and "good_key name"
  shows "open_bundle_file_read root path name fs = Inr b \<longleftrightarrow>
    (\<exists>m. entry_at fs (resolve root path @ [BUNDLE_MANIFEST]) = Some (F m))
    \<and> entry_at fs (resolve root path @ path_parts name) = Some (F b)"
proof -
  have c: "clean (resolve root path @ [BUNDLE_MANIFEST])" "clean (resolve root path @ path_parts name)"
    using clean_resolve [OF assms(2,3)] assms(4) by (auto simp: good_key_def)
  show ?thesis
    using is_file_clean [OF assms(1) c(1)] is_file_clean [OF assms(1) c(2)] read_bytes_clean [OF assms(1) c(2)]
    by (auto simp: open_bundle_file_read_def Let_def join_parts_good [OF assms(4)])
qed

lemma commit_check_None:
  assumes "commit_check w m = None"
  shows "bm_files m \<noteq> []" and "distinct (map mf_name (bm_files m))"
    and "set (map fst (bw_written w)) = set (map mf_name (bm_files m))"
    and "f \<in> set (bm_files m) \<Longrightarrow> map_of (bw_written w) (mf_name f) = Some (mf_size f)"
proof -
  have sz: "check_sizes wr fs = None \<Longrightarrow> f \<in> set fs \<Longrightarrow> map_of wr (mf_name f) = Some (mf_size f)" for wr fs
    by (induction fs) (auto split: if_splits)
  from assms show "bm_files m \<noteq> []" "distinct (map mf_name (bm_files m))"
    "set (map fst (bw_written w)) = set (map mf_name (bm_files m))"
    by (auto simp: commit_check_def Let_def split: if_splits)
  from assms sz [of "bw_written w" "bm_files m"]
  show "f \<in> set (bm_files m) \<Longrightarrow> map_of (bw_written w) (mf_name f) = Some (mf_size f)"
    by (auto simp: commit_check_def Let_def split: if_splits)
qed

subsection \<open>Publishing a bundle\<close>

text \<open>
  The sequence every uploading route runs: open, write each file, commit, and abort on any
  failure after the opening.
\<close>

definition publish :: "str list \<Rightarrow> int \<Rightarrow> str \<Rightarrow> (str \<times> bytes) list \<Rightarrow> bundle_meta \<Rightarrow> fs \<Rightarrow> unit io" where
  "publish root t path files m fs =
     (case open_bundle_write root t path fs of
        (Inl e, fs1) \<Rightarrow> (Inl e, fs1)
      | (Inr w, fs1) \<Rightarrow>
         (case write_files t files w fs1 of
            (Inl e, fs2) \<Rightarrow> (Inl e, abort t w fs2)
          | (Inr w2, fs2) \<Rightarrow>
             (case commit t m w2 fs2 of
                (Inl e, fs3) \<Rightarrow> (Inl e, abort t w2 fs3)
              | (Inr w3, fs3) \<Rightarrow> (Inr (), fs3))))"

definition bundle_files_ok :: "(str \<times> bytes) list \<Rightarrow> bool" where
  "bundle_files_ok files =
     (list_all (\<lambda>(n, b). bundle_name n) files \<and> distinct (map (\<lambda>(n, b). path_parts n) files))"

lemma publish_Inr:
  assumes wf: "fs_wf fs" and c: "clean root" and g: "good_key path" and ok: "bundle_files_ok files"
    and p: "publish root t path files m fs = (Inr u, fs')"
  defines "d \<equiv> resolve root path"
  shows "fs_wf fs'" and "entry_at fs d = None"
    and "entry_at fs' (d @ [BUNDLE_MANIFEST]) = Some (F (meta_bytes m))"
    and "(n, b) \<in> set files \<Longrightarrow> entry_at fs' (d @ path_parts n) = Some (F b)"
    and "\<not> prefix d q \<Longrightarrow> entry_at fs' q = (if prefix q d then Some D else entry_at fs q)"
    and "check_bundle_path_collision root fs d = None"
    and "set (map mf_name (bm_files m)) = fst ` set files"
    and "f \<in> set (bm_files m) \<Longrightarrow> \<exists>b. (mf_name f, b) \<in> set files \<and> mf_size f = int (length b)"
proof -
  from p obtain w fs1 w2 fs2 w3 where o: "open_bundle_write root t path fs = (Inr w, fs1)"
    and wr: "write_files t files w fs1 = (Inr w2, fs2)" and cm: "commit t m w2 fs2 = (Inr w3, fs')"
    by (auto simp: publish_def split: prod.splits sum.splits)
  note op = open_bundle_write_Inr [OF wf c g o]
  have wd: "bw_dir w = d" "bw_written w = []" using op(1) by (auto simp: new_writer_def d_def)
  have cd: "clean (bw_dir w)" using wd clean_resolve [OF c g] by (simp add: d_def)
  have dd: "entry_at fs1 (bw_dir w) = Some D" using op(3) wd by (simp add: d_def)
  have gn: "\<forall>n \<in> fst ` set files. good_key n"
    using ok by (auto simp: bundle_files_ok_def bundle_name_def list_all_iff)
  have ds: "distinct (map (\<lambda>(n, b). path_parts n) files)" using ok by (simp add: bundle_files_ok_def)
  from write_files_Inr [OF op(4) cd gn dd wr]
  have ws: "fs_wf fs2" "bw_dir w2 = d" "bw_written w2 = map (\<lambda>(n, b). (n, int (length b))) files"
    "writer_frame d ((\<lambda>(n, b). d @ path_parts n) ` set files) fs1 fs2" using wd by auto
  have d2: "entry_at fs2 (bw_dir w2) = Some D" using ws dd wd by (auto simp: writer_frame_def)
  note cmt = commit_Inr [OF ws(1) _ d2 cm]
  have c2: "clean (bw_dir w2)" using ws(2) wd cd by simp
  note cmt = cmt [OF c2]
  note cc = commit_check_None [OF cmt(1)]
  show "fs_wf fs'" "entry_at fs d = None" "check_bundle_path_collision root fs d = None"
    using cmt(3) op(2,5) by (auto simp: d_def)
  show "entry_at fs' (d @ [BUNDLE_MANIFEST]) = Some (F (meta_bytes m))" using cmt(4) ws(2) by simp
  show "entry_at fs' (d @ path_parts n) = Some (F b)" if "(n, b) \<in> set files"
  proof -
    have "bundle_name n" using that ok by (auto simp: bundle_files_ok_def list_all_iff)
    then show ?thesis
      using write_files_contents [OF op(4) cd gn dd wr ds that] cmt(4) ws(2) wd by (auto simp: bundle_name_def)
  qed
  show "entry_at fs' q = (if prefix q d then Some D else entry_at fs q)" if "\<not> prefix d q"
  proof -
    have "entry_at fs2 q = entry_at fs1 q" using that ws(4) by (simp add: writer_frame_def)
    moreover have "q \<noteq> d @ x" for x using that by auto
    ultimately show ?thesis using cmt(4) ws(2) op(3) by (simp add: d_def)
  qed
  show "set (map mf_name (bm_files m)) = fst ` set files" using cc(3) ws(3) by force
  show "\<exists>b. (mf_name f, b) \<in> set files \<and> mf_size f = int (length b)" if "f \<in> set (bm_files m)"
    using map_of_SomeD [OF cc(4) [OF that]] ws(3) by auto
qed

subsection \<open>Failures leave no trace\<close>

text \<open>Whatever a step of the writer answers, it stays within the frame of the writer.\<close>

lemma put_frame:
  assumes wf: "fs_wf fs" and d: "entry_at fs d = Some D" and p: "p = d @ r"
    and e: "entry_at fs' = (\<lambda>q. if prefix q p then Some D else entry_at fs q)"
    and n: "\<And>q. prefix q p \<Longrightarrow> entry_at fs q \<in> {None, Some D}"
  shows "writer_frame d {} fs fs'"
proof -
  have "entry_at fs q = Some D" if "prefix q p" "\<not> prefix d q" for q
    using that p by (metis dir_prefixes [OF wf d] prefix_same_cases prefixI)
  then have "entry_at fs' q = entry_at fs q" if "\<not> prefix d q" for q
    using that e by auto
  moreover have "\<not> prefix q p" if "entry_at fs q = Some (F b)" for q b
    using that n [of q] by auto
  ultimately show ?thesis using e by (auto simp: writer_frame_def)
qed

lemma write_file_any:
  assumes wf: "fs_wf fs" and c: "clean (bw_dir w)" and g: "good_key n"
    and d: "entry_at fs (bw_dir w) = Some D" and o: "write_file t n b w fs = (r, fs')"
  shows "fs_wf fs' \<and> writer_frame (bw_dir w) {bw_dir w @ path_parts n} fs fs'"
proof (cases r)
  case (Inr w')
  then show ?thesis using write_file_Inr(4) write_file_frame assms by blast
next
  case (Inl e)
  let ?p = "bw_dir w @ path_parts n"
  have cp: "clean ?p" using c g by (simp add: good_key_def)
  from o Inl consider "fs' = fs" | "mkdir_p t (butlast ?p) fs = Inr fs'"
    by (auto simp: write_file_def Let_def join_parts_good [OF g] split: option.splits sum.splits if_splits)
  then show ?thesis
  proof cases
    case 1
    with wf show ?thesis by (simp add: writer_frame_def)
  next
    case 2
    from mkdir_p_clean [OF wf clean_butlast [OF cp] 2]
    have m: "fs_wf fs'" "entry_at fs' = (\<lambda>q. if prefix q (butlast ?p) then Some D else entry_at fs q)"
      "\<And>q. prefix q (butlast ?p) \<Longrightarrow> entry_at fs q \<in> {None, Some D}" by auto
    have "writer_frame (bw_dir w) {} fs fs'"
    proof (cases "path_parts n")
      case Nil
      have "entry_at fs q = Some D" if "prefix q (butlast (bw_dir w))" for q
        using that d dir_prefixes [OF wf d, of q] by (meson prefix_order.trans prefixeq_butlast)
      with m(2) Nil have "entry_at fs' = entry_at fs" by (auto simp: fun_eq_iff)
      then show ?thesis by (simp add: writer_frame_def)
    next
      case (Cons x xs)
      then have "butlast ?p = bw_dir w @ butlast (path_parts n)" by (simp add: butlast_append)
      then show ?thesis using put_frame [OF wf d _ m(2,3)] by blast
    qed
    with m(1) show ?thesis by (auto simp: writer_frame_def)
  qed
qed

lemma write_files_any:
  assumes "fs_wf fs" and "clean (bw_dir w)" and "\<forall>n \<in> fst ` set files. good_key n"
    and "entry_at fs (bw_dir w) = Some D" and "write_files t files w fs = (r, fs')"
  shows "fs_wf fs' \<and> (\<exists>W. writer_frame (bw_dir w) W fs fs')"
  using assms
proof (induction files arbitrary: w fs)
  case Nil
  then show ?case using writer_frame_refl by auto
next
  case (Cons f rest)
  obtain n b where f: "f = (n, b)" by (cases f)
  obtain r1 fs1 where 1: "write_file t n b w fs = (r1, fs1)" by (cases "write_file t n b w fs")
  have g: "good_key n" using Cons.prems(3) f by auto
  from write_file_any [OF Cons.prems(1,2) g Cons.prems(4) 1]
  have a: "fs_wf fs1" "writer_frame (bw_dir w) {bw_dir w @ path_parts n} fs fs1" by auto
  show ?case
  proof (cases r1)
    case (Inl e)
    with 1 f Cons.prems(5) a show ?thesis by auto
  next
    case (Inr w1)
    have w1: "bw_dir w1 = bw_dir w" using write_file_Inr(1) [OF Cons.prems(1,2) g 1 [unfolded Inr]] by simp
    have d1: "entry_at fs1 (bw_dir w) = Some D" using a(2) Cons.prems(4) by (simp add: writer_frame_def)
    from Inr 1 f Cons.prems(5) have 2: "write_files t rest w1 fs1 = (r, fs')" by simp
    have "fs_wf fs' \<and> (\<exists>W. writer_frame (bw_dir w1) W fs1 fs')"
      using Cons.prems(2,3) w1 d1 a(1) f by (intro Cons.IH [OF _ _ _ _ 2]) auto
    with w1 writer_frame_trans [OF a(2)] show ?thesis by auto
  qed
qed

lemma commit_any:
  assumes wf: "fs_wf fs" and c: "clean (bw_dir w)" and d: "entry_at fs (bw_dir w) = Some D"
    and o: "commit t m w fs = (Inl e, fs')"
  shows "fs_wf fs' \<and> (\<exists>W. writer_frame (bw_dir w) W fs fs')"
proof -
  let ?t = "bw_dir w @ [BUNDLE_MANIFEST_TMP]"
  from o consider "fs' = fs" | "write_bytes t ?t (meta_bytes m) fs = Inr fs'"
    by (auto simp: commit_def Let_def split: option.splits sum.splits)
  then show ?thesis
  proof cases
    case 1
    with wf show ?thesis using writer_frame_refl by auto
  next
    case 2
    have "clean ?t" using c by simp
    from write_bytes_clean [OF wf this 2]
    have "entry_at fs ?t \<noteq> Some D" "entry_at fs' = (entry_at fs)(?t \<mapsto> F (meta_bytes m))" "fs_wf fs'" by auto
    moreover from this have "writer_frame (bw_dir w) {?t} fs fs'" by (auto simp: writer_frame_def)
    ultimately show ?thesis by auto
  qed
qed

lemma abort_frame:
  assumes "fs_wf fs" and "clean d" and "d \<noteq> []" and "entry_at fs d = Some D"
    and "fs_wf fs'" and "writer_frame d W fs fs'" and "bw_dir w = d" and "\<not> bw_committed w"
  shows "entry_at (abort t w fs') = (\<lambda>q. if prefix d q then None else entry_at fs q) \<and> fs_wf (abort t w fs')"
proof -
  have "entry_at fs' d = Some D" using assms(4,6) by (simp add: writer_frame_def)
  with abort_uncommitted [OF assms(5), of w t] assms show ?thesis
    by (auto simp: writer_frame_def fun_eq_iff)
qed

lemma publish_Inl:
  assumes wf: "fs_wf fs" and c: "clean root" and g: "good_key path"
    and gn: "\<forall>n \<in> fst ` set files. good_key n"
    and o: "open_bundle_write root t path fs = (Inr w, fs1)"
    and p: "publish root t path files m fs = (Inl e, fs')"
  defines "d \<equiv> resolve root path"
  shows "fs_wf fs'"
    and "entry_at fs' q = (if prefix d q then None else if prefix q d then Some D else entry_at fs q)"
proof -
  note op = open_bundle_write_Inr [OF wf c g o]
  have wd: "bw_dir w = d" "\<not> bw_committed w" using op(1) by (auto simp: new_writer_def d_def)
  have cd: "clean d" "d \<noteq> []" using clean_resolve [OF c g] by (auto simp: d_def resolve_good [OF g] data_root_def)
  have dd: "entry_at fs1 d = Some D" using op(3) by (simp add: d_def)
  obtain r2 fs2 where wr: "write_files t files w fs1 = (r2, fs2)" by (cases "write_files t files w fs1")
  obtain W where ws: "fs_wf fs2" "writer_frame d W fs1 fs2"
    using write_files_any [OF op(4) _ gn _ wr] wd cd dd by auto
  obtain w' fs3 V where a: "fs' = abort t w' fs3" "fs_wf fs3" "writer_frame d V fs1 fs3"
    "bw_dir w' = d" "\<not> bw_committed w'"
  proof (cases r2)
    case (Inl e2)
    with p o wr have "fs' = abort t w fs2" by (simp add: publish_def)
    with that ws wd show ?thesis by blast
  next
    case (Inr w2)
    have w2: "bw_dir w2 = d" "\<not> bw_committed w2"
      using write_files_Inr [OF op(4) _ gn _ wr [unfolded Inr]] wd cd dd by auto
    obtain e3 fs3 where cm: "commit t m w2 fs2 = (Inl e3, fs3)" "fs' = abort t w2 fs3"
      using p o wr Inr by (auto simp: publish_def split: prod.splits sum.splits)
    have "entry_at fs2 d = Some D" using ws(2) dd by (simp add: writer_frame_def)
    with commit_any [OF ws(1) _ _ cm(1)] w2 cd obtain V where "fs_wf fs3" "writer_frame d V fs2 fs3" by auto
    with that cm w2 writer_frame_trans [OF ws(2)] show ?thesis by blast
  qed
  from abort_frame [OF op(4) cd dd a(2,3,4,5), of t] a(1) op(3)
  show "fs_wf fs'" "entry_at fs' q = (if prefix d q then None else if prefix q d then Some D else entry_at fs q)"
    by (auto simp: d_def)
qed

lemma open_bundle_write_any:
  assumes wf: "fs_wf fs" and c: "clean root" and g: "good_key path"
    and o: "open_bundle_write root t path fs = (r, fs')"
  shows "fs_wf fs' \<and> (\<forall>q. entry_at fs q \<noteq> None \<or> \<not> prefix q (resolve root path) \<longrightarrow> entry_at fs' q = entry_at fs q)"
proof (cases r)
  case (Inr w)
  note op = open_bundle_write_Inr [OF wf c g o [unfolded Inr]]
  have "entry_at fs' q = entry_at fs q" if "entry_at fs q \<noteq> None \<or> \<not> prefix q (resolve root path)" for q
    using that op(3) op(6) [of q] by auto
  with op(4) show ?thesis by blast
next
  case (Inl e)
  let ?b = "resolve root path"
  from o Inl consider "fs' = fs" | "mkdir_p t (butlast ?b) fs = Inr fs'"
    by (auto simp: open_bundle_write_def Let_def split: option.splits sum.splits if_splits)
  then show ?thesis
  proof cases
    case 2
    from mkdir_p_clean [OF wf clean_butlast [OF clean_resolve [OF c g]] 2]
    have m: "fs_wf fs'" "entry_at fs' = (\<lambda>q. if prefix q (butlast ?b) then Some D else entry_at fs q)"
      "\<And>q. prefix q (butlast ?b) \<Longrightarrow> entry_at fs q \<in> {None, Some D}" by auto
    have "entry_at fs' q = entry_at fs q" if "entry_at fs q \<noteq> None \<or> \<not> prefix q ?b" for q
    proof (cases "prefix q (butlast ?b)")
      case True
      then have "prefix q ?b" by (meson prefix_order.trans prefixeq_butlast)
      with that m(3) [OF True] m(2) True show ?thesis by auto
    qed (simp add: m(2))
    with m(1) show ?thesis by blast
  qed (use wf in simp)
qed

lemma publish_frame:
  assumes wf: "fs_wf fs" and c: "clean root" and g: "good_key path" and ok: "bundle_files_ok files"
    and p: "publish root t path files m fs = (r, fs')"
    and i: "\<not> prefix (resolve root path) q" "\<not> prefix q (resolve root path)"
  shows "entry_at fs' q = entry_at fs q"
proof -
  have gn: "\<forall>n \<in> fst ` set files. good_key n"
    using ok by (auto simp: bundle_files_ok_def bundle_name_def list_all_iff)
  obtain r1 fs1 where o: "open_bundle_write root t path fs = (r1, fs1)" by (cases "open_bundle_write root t path fs")
  consider e where "r1 = Inl e" | w u where "r1 = Inr w" "r = Inr u" | w e where "r1 = Inr w" "r = Inl e"
    by (cases r1; cases r) auto
  then show ?thesis
  proof cases
    case 1
    with o p have "fs' = fs1" by (simp add: publish_def)
    with open_bundle_write_any [OF wf c g o] i show ?thesis by simp
  next
    case 2
    then show ?thesis using publish_Inr(5) [OF wf c g ok, of t m] p i by auto
  next
    case 3
    then show ?thesis using publish_Inl(2) [OF wf c g gn, of t _ _ m] o p i by auto
  qed
qed

lemma publish_wf:
  assumes wf: "fs_wf fs" and c: "clean root" and g: "good_key path" and ok: "bundle_files_ok files"
    and p: "publish root t path files m fs = (r, fs')"
  shows "fs_wf fs'"
proof -
  have gn: "\<forall>n \<in> fst ` set files. good_key n"
    using ok by (auto simp: bundle_files_ok_def bundle_name_def list_all_iff)
  obtain r1 fs1 where o: "open_bundle_write root t path fs = (r1, fs1)" by (cases "open_bundle_write root t path fs")
  consider e where "r1 = Inl e" | w u where "r1 = Inr w" "r = Inr u" | w e where "r1 = Inr w" "r = Inl e"
    by (cases r1; cases r) auto
  then show ?thesis
  proof cases
    case 1
    with o p have "fs' = fs1" by (simp add: publish_def)
    with open_bundle_write_any [OF wf c g o] show ?thesis by simp
  next
    case 2
    then show ?thesis using publish_Inr(1) [OF wf c g ok] p by auto
  next
    case 3
    then show ?thesis using publish_Inl(1) [OF wf c g gn] o p by auto
  qed
qed

text \<open>An occupied path refuses a new bundle and what is stored there stays.\<close>

lemma publish_occupied:
  assumes wf: "fs_wf fs" and c: "clean root" and g: "good_key path"
    and e: "entry_at fs (resolve root path) \<noteq> None"
    and p: "publish root t path files m fs = (r, fs')"
  shows "(\<exists>e. r = Inl e) \<and> fs_wf fs' \<and> (\<forall>q. entry_at fs q \<noteq> None \<longrightarrow> entry_at fs' q = entry_at fs q)
    \<and> (\<forall>q. prefix (resolve root path) q \<longrightarrow> entry_at fs' q = entry_at fs q)"
proof -
  obtain r1 fs1 where o: "open_bundle_write root t path fs = (r1, fs1)" by (cases "open_bundle_write root t path fs")
  have r1: "\<exists>e. r1 = Inl e"
    using open_bundle_write_Inr(2) [OF wf c g] o e by (cases r1) auto
  with o p have "r = Inl (projl r1)" "fs' = fs1" by (auto simp: publish_def)
  moreover note open_bundle_write_any [OF wf c g o]
  moreover have "entry_at fs q \<noteq> None \<or> \<not> prefix q (resolve root path)" if "prefix (resolve root path) q" for q
    using that e by (metis prefix_order.antisym)
  ultimately show ?thesis by blast
qed

end
