(* ===== verification/Claims.thy ===== *)
theory Claims
  imports Storage_Laws Timestamps
begin

text \<open>
  Download claims: \<^verbatim>\<open>claims.py\<close> and \<^verbatim>\<open>backends/filesystem/claim_storage.py\<close>. One JSON
  sidecar per claim, keyed by its \<^verbatim>\<open>jti\<close>, and one lock file per claimed bundle path, created
  with \<^verbatim>\<open>O_EXCL\<close>. The name of the lock is a digest of the bundle path; the digest
  (\<^verbatim>\<open>sha256(...).hexdigest()[:16]\<close>) is an argument. \<open>issue\<close> is the composition of its two
  exclusive creations, so that concurrent issuers can be interleaved between them.
\<close>

record claim_record =
  cr_schema_version :: int
  cr_jti :: str
  cr_bundle_path :: str
  cr_bundle_id :: str
  cr_recipient :: str
  cr_created_at :: str
  cr_files_fetched :: "str list"

subsection \<open>Sidecar bodies\<close>

definition claim_json :: "claim_record \<Rightarrow> json" where
  "claim_json c = JObj
     [(''schema_version'', JInt (cr_schema_version c)),
      (''jti'', JStr (cr_jti c)),
      (''bundle_path'', JStr (cr_bundle_path c)),
      (''bundle_id'', JStr (cr_bundle_id c)),
      (''recipient'', JStr (cr_recipient c)),
      (''created_at'', JStr (cr_created_at c)),
      (''files_fetched'', JArr (map JStr (cr_files_fetched c)))]"

definition claim_bytes :: "claim_record \<Rightarrow> bytes" where
  "claim_bytes c = dumps (claim_json c)"

definition py_list :: "json \<Rightarrow> exc + str list" where
  "py_list j = (case j of
      JArr js \<Rightarrow> Inr (map py_str js)
    | JObj ms \<Rightarrow> Inr (map fst ms)
    | JStr s \<Rightarrow> Inr (map (\<lambda>c. [c]) s)
    | _ \<Rightarrow> Inl TypeError)"

definition item :: "(str \<times> json) list \<Rightarrow> str \<Rightarrow> exc + str" where
  "item ms k = (case map_of ms k of None \<Rightarrow> Inl (KeyError k) | Some v \<Rightarrow> Inr (py_str v))"

definition parse :: "bytes \<Rightarrow> exc + claim_record" where
  "parse body =
     (case loads body of
        None \<Rightarrow> Inl (ValueError ''malformed claim sidecar'')
      | Some (JObj data) \<Rightarrow>
         if map_of data ''schema_version'' \<notin> {Some (JInt 1), Some (JBool True)}
         then Inl (ValueError ''unknown claim schema_version'')
         else
          (case item data ''jti'' of Inl e \<Rightarrow> Inl e | Inr jti \<Rightarrow>
          (case item data ''bundle_path'' of Inl e \<Rightarrow> Inl e | Inr bundle_path \<Rightarrow>
          (case item data ''bundle_id'' of Inl e \<Rightarrow> Inl e | Inr bundle_id \<Rightarrow>
          (case item data ''recipient'' of Inl e \<Rightarrow> Inl e | Inr recipient \<Rightarrow>
          (case item data ''created_at'' of Inl e \<Rightarrow> Inl e | Inr created_at \<Rightarrow>
          (case (case map_of data ''files_fetched'' of None \<Rightarrow> Inr [] | Some v \<Rightarrow> py_list v) of
             Inl e \<Rightarrow> Inl e
           | Inr files_fetched \<Rightarrow>
              Inr \<lparr>cr_schema_version = 1, cr_jti = jti, cr_bundle_path = bundle_path,
                   cr_bundle_id = bundle_id, cr_recipient = recipient, cr_created_at = created_at,
                   cr_files_fetched = files_fetched\<rparr>))))))
      | Some _ \<Rightarrow> Inl (ValueError ''claim sidecar body is not an object''))"

lemma json_ok_claim: "json_ok (claim_json c)"
  by (auto simp: claim_json_def list_all_iff)

lemma parse_claim_bytes: "cr_schema_version c = 1 \<Longrightarrow> parse (claim_bytes c) = Inr c"
  by (simp add: parse_def claim_bytes_def loads_dumps json_ok_claim)
    (simp add: claim_json_def item_def py_str_def py_list_def comp_def)

subsection \<open>The store\<close>

definition claim_path :: "str list \<Rightarrow> str \<Rightarrow> str list" where
  "claim_path base jti = join_parts base (jti @ ''.json'')"

definition lock_path :: "(str \<Rightarrow> str) \<Rightarrow> str list \<Rightarrow> str \<Rightarrow> str list" where
  "lock_path digest base bundle_path = join_parts base (''.'' @ digest bundle_path @ ''.lock'')"

definition ensure_base :: "int \<Rightarrow> str list \<Rightarrow> fs \<Rightarrow> exc + fs" where
  "ensure_base t base fs = mkdir_p t base fs"

text \<open>\<^verbatim>\<open>with contextlib.suppress(FileNotFoundError): os.unlink(path)\<close>\<close>

definition unlink_quiet :: "int \<Rightarrow> str list \<Rightarrow> fs \<Rightarrow> unit io" where
  "unlink_quiet t path fs =
     (case unlink t path fs of
        Inr fs' \<Rightarrow> (Inr (), fs')
      | Inl e \<Rightarrow> if e = FileNotFoundError then (Inr (), fs) else (Inl e, fs))"

text \<open>The first half of \<^verbatim>\<open>issue\<close>: create the lock, holding the \<^verbatim>\<open>jti\<close>.\<close>

definition issue_lock :: "(str \<Rightarrow> str) \<Rightarrow> str list \<Rightarrow> int \<Rightarrow> claim_record \<Rightarrow> fs \<Rightarrow> unit io" where
  "issue_lock digest base t claim fs =
     (case ensure_base t base fs of
        Inl e \<Rightarrow> (Inl e, fs)
      | Inr fs1 \<Rightarrow>
         (case create_excl t (lock_path digest base (cr_bundle_path claim)) (cr_jti claim) fs1 of
            Inr fs2 \<Rightarrow> (Inr (), fs2)
          | Inl e \<Rightarrow> (Inl (if e = FileExistsError then BundleClaimedError (cr_bundle_path claim) else e), fs1)))"

text \<open>The second half: create the sidecar, or give the lock back.\<close>

definition issue_sidecar :: "(str \<Rightarrow> str) \<Rightarrow> str list \<Rightarrow> int \<Rightarrow> claim_record \<Rightarrow> fs \<Rightarrow> unit io" where
  "issue_sidecar digest base t claim fs =
     (case create_excl t (claim_path base (cr_jti claim)) (claim_bytes claim) fs of
        Inr fs1 \<Rightarrow> (Inr (), fs1)
      | Inl e \<Rightarrow>
         if e = FileExistsError then
           (case unlink_quiet t (lock_path digest base (cr_bundle_path claim)) fs of
              (Inl e', fs1) \<Rightarrow> (Inl e', fs1)
            | (Inr u, fs1) \<Rightarrow> (Inl (BundleClaimedError (cr_bundle_path claim)), fs1))
         else (Inl e, fs))"

definition issue :: "(str \<Rightarrow> str) \<Rightarrow> str list \<Rightarrow> int \<Rightarrow> claim_record \<Rightarrow> fs \<Rightarrow> unit io" where
  "issue digest base t claim fs =
     (case issue_lock digest base t claim fs of
        (Inl e, fs1) \<Rightarrow> (Inl e, fs1)
      | (Inr u, fs1) \<Rightarrow> issue_sidecar digest base t claim fs1)"

definition get_claim :: "str list \<Rightarrow> str \<Rightarrow> fs \<Rightarrow> exc + claim_record option" where
  "get_claim base jti fs =
     (case read_bytes fs (claim_path base jti) of
        Inl e \<Rightarrow> if e = FileNotFoundError then Inr None else Inl e
      | Inr body \<Rightarrow> (case parse body of Inl e \<Rightarrow> Inl e | Inr c \<Rightarrow> Inr (Some c)))"

text \<open>The temporary file of \<^verbatim>\<open>final.with_suffix(".json.tmp")\<close>; a \<^verbatim>\<open>jti\<close> is not empty.\<close>

definition durable_write :: "str list \<Rightarrow> int \<Rightarrow> claim_record \<Rightarrow> fs \<Rightarrow> unit io" where
  "durable_write base t claim fs =
     (case ensure_base t base fs of
        Inl e \<Rightarrow> (Inl e, fs)
      | Inr fs1 \<Rightarrow>
         (let final = claim_path base (cr_jti claim);
              tmp = join_parts base (cr_jti claim @ ''.json.tmp'')
          in case write_bytes t tmp (claim_bytes claim) fs1 of
               Inl e \<Rightarrow> (Inl e, fs1)
             | Inr fs2 \<Rightarrow>
                (case rename t tmp final fs2 of
                   Inr fs3 \<Rightarrow> (Inr (), fs3)
                 | Inl e \<Rightarrow> (Inl e, snd (unlink_quiet t tmp fs2)))))"

definition mark_fetched :: "str list \<Rightarrow> int \<Rightarrow> str \<Rightarrow> str \<Rightarrow> fs \<Rightarrow> claim_record io" where
  "mark_fetched base t jti name fs =
     (case get_claim base jti fs of
        Inl e \<Rightarrow> (Inl e, fs)
      | Inr None \<Rightarrow> (Inl FileNotFoundError, fs)
      | Inr (Some current) \<Rightarrow>
         if name \<in> set (cr_files_fetched current) then (Inr current, fs)
         else let updated = current\<lparr>cr_files_fetched := cr_files_fetched current @ [name]\<rparr>
              in (case durable_write base t updated fs of
                    (Inl e, fs') \<Rightarrow> (Inl e, fs')
                  | (Inr u, fs') \<Rightarrow> (Inr updated, fs')))"

definition delete_claim :: "(str \<Rightarrow> str) \<Rightarrow> str list \<Rightarrow> int \<Rightarrow> str \<Rightarrow> fs \<Rightarrow> unit io" where
  "delete_claim digest base t jti fs =
     (let drop_sidecar = unlink_quiet t (claim_path base jti) in
      case get_claim base jti fs of
        Inl (ValueError msg) \<Rightarrow> drop_sidecar fs
      | Inl e \<Rightarrow> (Inl e, fs)
      | Inr None \<Rightarrow> drop_sidecar fs
      | Inr (Some record) \<Rightarrow>
         (case unlink_quiet t (lock_path digest base (cr_bundle_path record)) fs of
            (Inl e, fs1) \<Rightarrow> (Inl e, fs1)
          | (Inr u, fs1) \<Rightarrow> drop_sidecar fs1))"

text \<open>
  The generator \<^verbatim>\<open>iter_all\<close>, consumed to its end: a malformed body (a \<open>ValueError\<close> or an
  \<open>OSError\<close>) is skipped, any other exception ends the iteration.
\<close>

fun iter_entries :: "(str \<times> node) list \<Rightarrow> exc + claim_record list" where
  "iter_entries [] = Inr []"
| "iter_entries ((name, DirNode m) # rest) = iter_entries rest"
| "iter_entries ((name, FileNode body m) # rest) =
     (if \<not> endswith name ''.json'' \<or> endswith name ''.json.tmp'' then iter_entries rest
      else case parse body of
        Inr c \<Rightarrow> (case iter_entries rest of Inl e \<Rightarrow> Inl e | Inr cs \<Rightarrow> Inr (c # cs))
      | Inl (ValueError msg) \<Rightarrow> iter_entries rest
      | Inl e \<Rightarrow> Inl e)"

definition iter_all :: "str list \<Rightarrow> fs \<Rightarrow> exc + claim_record list" where
  "iter_all base fs =
     (case walk fs [] base of
        Inl e \<Rightarrow> if e = FileNotFoundError then Inr [] else Inl e
      | Inr p \<Rightarrow> (case map_of fs p of
           None \<Rightarrow> Inr []
         | Some (FileNode b m) \<Rightarrow> Inl NotADirectoryError
         | Some (DirNode m) \<Rightarrow> iter_entries (children fs p)))"

definition is_active :: "int \<Rightarrow> int \<Rightarrow> claim_record \<Rightarrow> bool" where
  "is_active now ttl_s claim =
     (case iso_to_epoch (cr_created_at claim) of
        None \<Rightarrow> False
      | Some created \<Rightarrow> \<not> (now - created \<ge> ttl_s * 1000000))"

definition iter_active_by_bundle_path :: "str list \<Rightarrow> int \<Rightarrow> int \<Rightarrow> fs \<Rightarrow> exc + (str \<times> str) list" where
  "iter_active_by_bundle_path base now ttl_s fs =
     (case iter_all base fs of
        Inl e \<Rightarrow> Inl e
      | Inr claims \<Rightarrow>
         Inr (foldl (\<lambda>active c. if is_active now ttl_s c
                then AList.update (cr_bundle_path c) (cr_jti c) active else active) [] claims))"

end
