(* ===== verification/Claims_Laws.thy ===== *)
theory Claims_Laws
  imports Claims
begin

text \<open>
  What the claim store promises: \<^verbatim>\<open>issue\<close> is exclusive per bundle path, a claim can be read
  back, recording a fetched file is idempotent, and \<^verbatim>\<open>delete\<close> releases the path. The
  contract is the locale \<open>claim_storage\<close>; the interleaving of concurrent issuers is the
  relation \<open>issue_step\<close>.
\<close>

subsection \<open>Where the files are\<close>

definition jti_ok :: "str \<Rightarrow> bool" where
  "jti_ok j = (CHR ''/'' \<notin> set j)"

text \<open>
  The directory of the store has no \<^verbatim>\<open>..\<close> in its path and no subdirectories, and the digest
  (hexadecimal) has no slash.
\<close>

definition claims_invar :: "(str \<Rightarrow> str) \<Rightarrow> str list \<Rightarrow> fs \<Rightarrow> bool" where
  "claims_invar digest base fs \<longleftrightarrow> fs_wf fs \<and> clean base \<and> (\<forall>p. CHR ''/'' \<notin> set (digest p))
     \<and> (\<forall>n. entry_at fs (base @ [n]) \<noteq> Some D)"

definition lock_name :: "(str \<Rightarrow> str) \<Rightarrow> str \<Rightarrow> str" where
  "lock_name digest p = ''.'' @ digest p @ ''.lock''"

lemma claim_path_eq: "jti_ok j \<Longrightarrow> claim_path base j = base @ [j @ ''.json'']"
  by (cases j) (auto simp: claim_path_def join_parts_def jti_ok_def path_parts_single)

lemma tmp_path_eq: "jti_ok j \<Longrightarrow> join_parts base (j @ ''.json.tmp'') = base @ [j @ ''.json.tmp'']"
  by (cases j) (auto simp: join_parts_def jti_ok_def path_parts_single)

lemma lock_path_eq: "claims_invar digest base fs \<Longrightarrow> lock_path digest base p = base @ [lock_name digest p]"
  by (auto simp: lock_path_def join_parts_def claims_invar_def path_parts_single lock_name_def)

lemma names_differ [simp]:
  "j @ ''.json'' \<noteq> lock_name digest p" "lock_name digest p \<noteq> j @ ''.json''"
  "j @ ''.json.tmp'' \<noteq> lock_name digest p" "lock_name digest p \<noteq> j @ ''.json.tmp''"
  "j @ ''.json'' \<noteq> i @ ''.json.tmp''" "i @ ''.json.tmp'' \<noteq> j @ ''.json''"
  by (auto simp: lock_name_def dest!: arg_cong [of _ _ last])

lemma clean_names [simp]: "j @ ''.json'' \<noteq> ''..''" "j @ ''.json.tmp'' \<noteq> ''..''" "lock_name digest p \<noteq> ''..''"
  by (auto simp: lock_name_def dest!: arg_cong [of _ _ last])

definition locked :: "(str \<Rightarrow> str) \<Rightarrow> str list \<Rightarrow> fs \<Rightarrow> str \<Rightarrow> bool" where
  "locked digest base fs p = (entry_at fs (base @ [lock_name digest p]) \<noteq> None)"

definition record_of :: "str list \<Rightarrow> fs \<Rightarrow> str \<Rightarrow> claim_record option" where
  "record_of base fs j = (case get_claim base j fs of Inr (Some c) \<Rightarrow> Some c | _ \<Rightarrow> None)"

lemma mkdir_p_exists:
  assumes "fs_wf fs" and "clean p" and "entry_at fs p = Some D"
  shows "mkdir_p t p fs = Inr fs"
  using os_mkdir_exists [OF assms(1,2)] is_dir_clean [OF assms(1,2)] assms(3)
  by (simp add: mkdir_p.simps [of t p fs])

lemma locked_base: "claims_invar digest base fs \<Longrightarrow> locked digest base fs p \<Longrightarrow> entry_at fs base = Some D"
  using fs_wf_prefix [of fs base "[lock_name digest p]"] by (auto simp: locked_def claims_invar_def)

subsection \<open>The two halves of issue\<close>

lemma issue_lock_Inr:
  assumes i: "claims_invar digest base fs" and o: "issue_lock digest base t c fs = (Inr u, fs')"
  defines "l \<equiv> base @ [lock_name digest (cr_bundle_path c)]"
  shows "claims_invar digest base fs'" and "entry_at fs l = None" and "entry_at fs' base = Some D"
    and "entry_at fs' = (\<lambda>q. if q = l then Some (F (cr_jti c)) else if prefix q base then Some D else entry_at fs q)"
    and "\<And>q. prefix q base \<Longrightarrow> entry_at fs q \<in> {None, Some D}"
proof -
  have wf: "fs_wf fs" "clean base" and cl: "clean l" using i by (auto simp: claims_invar_def l_def)
  from o obtain fs1 where m: "mkdir_p t base fs = Inr fs1" and k: "create_excl t l (cr_jti c) fs1 = Inr fs'"
    by (auto simp: issue_lock_def ensure_base_def lock_path_eq [OF i] l_def split: sum.splits if_splits)
  from mkdir_p_clean [OF wf m] have m': "fs_wf fs1"
    "entry_at fs1 = (\<lambda>q. if prefix q base then Some D else entry_at fs q)"
    "\<And>q. prefix q base \<Longrightarrow> entry_at fs q \<in> {None, Some D}" by auto
  from create_excl_clean [OF m'(1) cl k] have k': "entry_at fs1 l = None"
    "entry_at fs' = (entry_at fs1)(l \<mapsto> F (cr_jti c))" "fs_wf fs'" by auto
  show "claims_invar digest base fs'" using k'(2,3) m'(2) i by (auto simp: claims_invar_def prefix_order.antisym)
  show "entry_at fs l = None" using k'(1) m'(2) by (auto split: if_splits)
  show "entry_at fs' base = Some D" using k'(2) m'(2) by (simp add: l_def)
  show "entry_at fs' = (\<lambda>q. if q = l then Some (F (cr_jti c)) else if prefix q base then Some D else entry_at fs q)"
    using k'(2) m'(2) by (auto simp: fun_eq_iff)
  show "entry_at fs q \<in> {None, Some D}" if "prefix q base" for q using m'(3) that .
qed

lemma issue_lock_locked:
  assumes i: "claims_invar digest base fs" and l: "locked digest base fs (cr_bundle_path c)"
  shows "issue_lock digest base t c fs = (Inl (BundleClaimedError (cr_bundle_path c)), fs)"
proof -
  have wf: "fs_wf fs" "clean base" "clean (base @ [lock_name digest (cr_bundle_path c)])"
    using i by (auto simp: claims_invar_def)
  have "mkdir_p t base fs = Inr fs" by (rule mkdir_p_exists [OF wf(1,2) locked_base [OF i l]])
  moreover have "create_excl t (base @ [lock_name digest (cr_bundle_path c)]) (cr_jti c) fs = Inl FileExistsError"
    using create_excl_exists [OF wf(1,3)] l by (simp add: locked_def)
  ultimately show ?thesis by (simp add: issue_lock_def ensure_base_def lock_path_eq [OF i])
qed

lemma issue_lock_any:
  assumes i: "claims_invar digest base fs" and o: "issue_lock digest base t c fs = (Inl e, fs')"
  shows "claims_invar digest base fs' \<and> (\<forall>q. entry_at fs q \<noteq> None \<or> \<not> prefix q base \<longrightarrow> entry_at fs' q = entry_at fs q)"
proof -
  have wf: "fs_wf fs" "clean base" using i by (auto simp: claims_invar_def)
  from o consider "fs' = fs" | "mkdir_p t base fs = Inr fs'"
    by (auto simp: issue_lock_def ensure_base_def split: sum.splits if_splits)
  then show ?thesis
  proof cases
    case 2
    from mkdir_p_clean [OF wf 2] have m: "fs_wf fs'"
      "entry_at fs' = (\<lambda>q. if prefix q base then Some D else entry_at fs q)"
      "\<And>q. prefix q base \<Longrightarrow> entry_at fs q \<in> {None, Some D}" by auto
    have "entry_at fs' q = entry_at fs q" if "entry_at fs q \<noteq> None \<or> \<not> prefix q base" for q
      using that m(2) m(3) [of q] by auto
    with m(1) i show ?thesis by (auto simp: claims_invar_def)
  qed (use i in simp)
qed

lemma issue_sidecar_Inr:
  assumes i: "claims_invar digest base fs" and j: "jti_ok (cr_jti c)"
    and o: "issue_sidecar digest base t c fs = (Inr u, fs')"
  defines "p \<equiv> base @ [cr_jti c @ ''.json'']"
  shows "claims_invar digest base fs'" and "entry_at fs p = None"
    and "entry_at fs' = (entry_at fs)(p \<mapsto> F (claim_bytes c))"
proof -
  have wf: "fs_wf fs" and cl: "clean p" using i by (auto simp: claims_invar_def p_def)
  from o have k: "create_excl t p (claim_bytes c) fs = Inr fs'"
    by (auto simp: issue_sidecar_def claim_path_eq [OF j] p_def split: sum.splits if_splits prod.splits)
  from create_excl_clean [OF wf cl k] i
  show "claims_invar digest base fs'" "entry_at fs p = None"
    "entry_at fs' = (entry_at fs)(p \<mapsto> F (claim_bytes c))" by (auto simp: claims_invar_def)
qed

lemma unlink_quiet_file:
  assumes "fs_wf fs" "clean p" "entry_at fs p = Some (F b)"
  shows "fst (unlink_quiet t p fs) = Inr ()" and "entry_at (snd (unlink_quiet t p fs)) = (entry_at fs)(p := None)"
    and "fs_wf (snd (unlink_quiet t p fs))"
proof -
  obtain fs' where u: "unlink t p fs = Inr fs'" using unlink_clean(2) [OF assms] by blast
  with unlink_clean(1) [OF assms(1,2) u]
  show "fst (unlink_quiet t p fs) = Inr ()" "entry_at (snd (unlink_quiet t p fs)) = (entry_at fs)(p := None)"
    "fs_wf (snd (unlink_quiet t p fs))" by (auto simp: unlink_quiet_def)
qed

lemma unlink_quiet_absent:
  assumes "fs_wf fs" "clean p" "entry_at fs p = None" "entry_at fs (butlast p) = Some D"
  shows "unlink_quiet t p fs = (Inr (), fs)"
  using unlink_clean(3) [OF assms] by (simp add: unlink_quiet_def)

text \<open>With its lock in place the second half fails only on an existing sidecar, and then gives the lock back.\<close>

lemma issue_sidecar_Inl:
  assumes i: "claims_invar digest base fs" and j: "jti_ok (cr_jti c)"
    and l: "entry_at fs (base @ [lock_name digest (cr_bundle_path c)]) = Some (F b)"
    and o: "issue_sidecar digest base t c fs = (Inl e, fs')"
  shows "entry_at fs (base @ [cr_jti c @ ''.json'']) \<noteq> None" and "e = BundleClaimedError (cr_bundle_path c)"
    and "claims_invar digest base fs'"
    and "entry_at fs' = (entry_at fs)(base @ [lock_name digest (cr_bundle_path c)] := None)"
proof -
  let ?l = "base @ [lock_name digest (cr_bundle_path c)]" and ?p = "base @ [cr_jti c @ ''.json'']"
  have wf: "fs_wf fs" and cl: "clean ?p" "clean ?l" using i by (auto simp: claims_invar_def)
  have d: "entry_at fs base = Some D" using l locked_base [OF i] by (auto simp: locked_def)
  show x: "entry_at fs ?p \<noteq> None"
  proof
    assume "entry_at fs ?p = None"
    from create_excl_ok [OF wf cl(1) this, of t "claim_bytes c"] d o show False
      by (auto simp: issue_sidecar_def claim_path_eq [OF j])
  qed
  note u = unlink_quiet_file [OF wf cl(2) l, of t]
  from create_excl_exists [OF wf cl(1) x, of t "claim_bytes c"] o u(1)
  have r: "e = BundleClaimedError (cr_bundle_path c)" "fs' = snd (unlink_quiet t ?l fs)"
    by (auto simp: issue_sidecar_def claim_path_eq [OF j] lock_path_eq [OF i] split: prod.splits sum.splits)
  with u(2,3) i show "e = BundleClaimedError (cr_bundle_path c)" "claims_invar digest base fs'"
    "entry_at fs' = (entry_at fs)(?l := None)" by (auto simp: claims_invar_def)
qed

subsection \<open>The operations\<close>

lemma record_of_iff:
  assumes i: "claims_invar digest base fs" and j: "jti_ok j"
  shows "record_of base fs j = Some c \<longleftrightarrow>
    (\<exists>b. entry_at fs (base @ [j @ ''.json'']) = Some (F b) \<and> parse b = Inr c)"
proof -
  have wf: "fs_wf fs" and cl: "clean (base @ [j @ ''.json''])" using i by (auto simp: claims_invar_def)
  show ?thesis
  proof (cases "read_bytes fs (base @ [j @ ''.json''])")
    case (Inl e)
    have "entry_at fs (base @ [j @ ''.json'']) \<noteq> Some (F b)" for b
      using read_bytes_clean [OF wf cl, of b] Inl by simp
    with Inl show ?thesis by (simp add: record_of_def get_claim_def claim_path_eq [OF j])
  next
    case (Inr b)
    then have "entry_at fs (base @ [j @ ''.json'']) = Some (F b)" using read_bytes_clean [OF wf cl, of b] by simp
    with Inr show ?thesis
      by (cases "parse b") (simp_all add: record_of_def get_claim_def claim_path_eq [OF j])
  qed
qed

lemma issue_Inr:
  assumes i: "claims_invar digest base fs" and j: "jti_ok (cr_jti c)" and v: "cr_schema_version c = 1"
    and o: "issue digest base t c fs = (Inr u, fs')"
  shows "claims_invar digest base fs'"
    and "\<not> locked digest base fs (cr_bundle_path c)" and "locked digest base fs' (cr_bundle_path c)"
    and "record_of base fs' (cr_jti c) = Some c"
    and "entry_at fs' = (\<lambda>q. if q = base @ [cr_jti c @ ''.json''] then Some (F (claim_bytes c))
          else if q = base @ [lock_name digest (cr_bundle_path c)] then Some (F (cr_jti c))
          else if prefix q base then Some D else entry_at fs q)"
proof -
  from o obtain fs1 where 1: "issue_lock digest base t c fs = (Inr (), fs1)"
    and 2: "issue_sidecar digest base t c fs1 = (Inr u, fs')"
    by (auto simp: issue_def split: prod.splits sum.splits)
  note L = issue_lock_Inr [OF i 1]
  note S = issue_sidecar_Inr [OF L(1) j 2]
  show "claims_invar digest base fs'" by (rule S(1))
  show "\<not> locked digest base fs (cr_bundle_path c)" using L(2) by (simp add: locked_def)
  show "locked digest base fs' (cr_bundle_path c)" using L(4) S(3) by (simp add: locked_def)
  show "record_of base fs' (cr_jti c) = Some c"
    using S(3) parse_claim_bytes [OF v] by (simp add: record_of_iff [OF S(1) j])
  show "entry_at fs' = (\<lambda>q. if q = base @ [cr_jti c @ ''.json''] then Some (F (claim_bytes c))
          else if q = base @ [lock_name digest (cr_bundle_path c)] then Some (F (cr_jti c))
          else if prefix q base then Some D else entry_at fs q)"
    using L(4) S(3) by (auto simp: fun_eq_iff)
qed

lemma issue_locked:
  "claims_invar digest base fs \<Longrightarrow> locked digest base fs (cr_bundle_path c)
   \<Longrightarrow> issue digest base t c fs = (Inl (BundleClaimedError (cr_bundle_path c)), fs)"
  by (simp add: issue_def issue_lock_locked)

lemma issue_frame:
  assumes i: "claims_invar digest base fs" and j: "jti_ok (cr_jti c)" and v: "cr_schema_version c = 1"
    and o: "issue digest base t c fs = (Inr u, fs')"
  shows "jti_ok j' \<Longrightarrow> j' \<noteq> cr_jti c \<Longrightarrow> record_of base fs' j' = record_of base fs j'"
    and "digest p \<noteq> digest (cr_bundle_path c) \<Longrightarrow> locked digest base fs' p = locked digest base fs p"
proof -
  note I = issue_Inr [OF i j v o]
  show "locked digest base fs' p = locked digest base fs p" if "digest p \<noteq> digest (cr_bundle_path c)"
  proof -
    have "lock_name digest p \<noteq> lock_name digest (cr_bundle_path c)" using that by (simp add: lock_name_def)
    then show ?thesis using I(5) by (simp add: locked_def prefix_order.antisym)
  qed
  assume "jti_ok j'" "j' \<noteq> cr_jti c"
  then have "record_of base fs' j' = Some d \<longleftrightarrow> record_of base fs j' = Some d" for d
    using I(5) by (simp add: record_of_iff [OF I(1)] record_of_iff [OF i] prefix_order.antisym)
  then show "record_of base fs' j' = record_of base fs j'" by (metis option.exhaust)
qed

text \<open>Deleting a claim removes exactly its sidecar and its lock.\<close>

lemma delete_claim_record:
  assumes i: "claims_invar digest base fs" and j: "jti_ok j" and r: "record_of base fs j = Some c"
  shows "\<exists>fs'. delete_claim digest base t j fs = (Inr (), fs') \<and> claims_invar digest base fs'
    \<and> entry_at fs' = (entry_at fs)(base @ [lock_name digest (cr_bundle_path c)] := None, base @ [j @ ''.json''] := None)"
proof -
  let ?l = "base @ [lock_name digest (cr_bundle_path c)]" and ?p = "base @ [j @ ''.json'']"
  have wf: "fs_wf fs" and cl: "clean ?p" "clean ?l" using i by (auto simp: claims_invar_def)
  from r record_of_iff [OF i j] obtain b where b: "entry_at fs ?p = Some (F b)" by blast
  then have d: "entry_at fs base = Some D" using fs_wf_prefix [OF wf, of base "[j @ ''.json'']"] by simp
  have g: "get_claim base j fs = Inr (Some c)" using r by (auto simp: record_of_def split: sum.splits option.splits)
  obtain fs1 where u1: "unlink_quiet t ?l fs = (Inr (), fs1)" "entry_at fs1 = (entry_at fs)(?l := None)" "fs_wf fs1"
  proof (cases "entry_at fs ?l")
    case None
    with unlink_quiet_absent [OF wf cl(2)] d wf that [of fs] show ?thesis by (auto simp: fun_upd_idem)
  next
    case (Some e)
    then obtain b' where "e = F b'" using i by (cases e) (auto simp: claims_invar_def)
    with Some unlink_quiet_file [OF wf cl(2), of b' t] that show ?thesis by (metis prod.collapse)
  qed
  have b1: "entry_at fs1 ?p = Some (F b)" using u1(2) b by simp
  note u2 = unlink_quiet_file [OF u1(3) cl(1) b1, of t]
  have "delete_claim digest base t j fs = unlink_quiet t ?p fs1"
    using g u1(1) by (simp add: delete_claim_def Let_def lock_path_eq [OF i] claim_path_eq [OF j])
  with u1(2) u2 i show ?thesis
    by (intro exI [of _ "snd (unlink_quiet t ?p fs1)"]) (auto simp: claims_invar_def prod_eq_iff)
qed

lemma delete_claim_releases:
  assumes i: "claims_invar digest base fs" and j: "jti_ok j" and r: "record_of base fs j = Some c"
  shows "claims_invar digest base (snd (delete_claim digest base t j fs))
    \<and> fst (delete_claim digest base t j fs) = Inr ()
    \<and> \<not> locked digest base (snd (delete_claim digest base t j fs)) (cr_bundle_path c)
    \<and> record_of base (snd (delete_claim digest base t j fs)) j = None"
proof -
  from delete_claim_record [OF assms, of t] obtain fs' where d: "delete_claim digest base t j fs = (Inr (), fs')"
    "claims_invar digest base fs'" and e: "entry_at fs' = (entry_at fs)(base @ [lock_name digest (cr_bundle_path c)] := None,
      base @ [j @ ''.json''] := None)" by blast
  have "record_of base fs' j \<noteq> Some c'" for c' using e by (simp add: record_of_iff [OF d(2) j])
  with d e show ?thesis by (auto simp: locked_def)
qed

lemma durable_write_ok:
  assumes i: "claims_invar digest base fs" and j: "jti_ok (cr_jti c)" and d: "entry_at fs base = Some D"
  shows "\<exists>fs'. durable_write base t c fs = (Inr (), fs') \<and> claims_invar digest base fs'
    \<and> entry_at fs' = (entry_at fs)(base @ [cr_jti c @ ''.json.tmp''] := None,
         base @ [cr_jti c @ ''.json''] \<mapsto> F (claim_bytes c))"
proof -
  let ?t = "base @ [cr_jti c @ ''.json.tmp'']" and ?p = "base @ [cr_jti c @ ''.json'']"
  have wf: "fs_wf fs" "clean base" and cl: "clean ?t" "clean ?p" and nd: "\<And>n. entry_at fs (base @ [n]) \<noteq> Some D"
    using i by (auto simp: claims_invar_def)
  have eb: "ensure_base t base fs = Inr fs" using mkdir_p_exists [OF wf d] by (simp add: ensure_base_def)
  obtain fs1 where w: "write_bytes t ?t (claim_bytes c) fs = Inr fs1"
    using write_bytes_ok [OF wf(1) cl(1) nd, of t "claim_bytes c"] d by auto
  from write_bytes_clean [OF wf(1) cl(1) w] have w': "entry_at fs1 = (entry_at fs)(?t \<mapsto> F (claim_bytes c))" "fs_wf fs1"
    by auto
  have q: "entry_at fs1 ?t = Some (F (claim_bytes c))" "entry_at fs1 ?p \<noteq> Some D" "entry_at fs1 (butlast ?p) = Some D"
    using w'(1) nd d by auto
  from rename_clean [OF w'(2) cl _ q, of t] obtain fs2 where r: "rename t ?t ?p fs1 = Inr fs2"
    "entry_at fs2 = (entry_at fs1)(?t := None, ?p \<mapsto> F (claim_bytes c))" "fs_wf fs2" by auto
  from eb w r i w'(1) show ?thesis
    by (auto simp: durable_write_def Let_def claim_path_eq [OF j] tmp_path_eq [OF j] claims_invar_def)
qed

lemma mark_fetched_ok:
  assumes i: "claims_invar digest base fs" and j: "jti_ok j" and r: "record_of base fs j = Some c"
    and own: "cr_jti c = j" "cr_schema_version c = 1"
  shows "\<exists>fs' c'. mark_fetched base t j n fs = (Inr c', fs') \<and> claims_invar digest base fs'
    \<and> record_of base fs' j = Some c' \<and> c' = c\<lparr>cr_files_fetched := cr_files_fetched c'\<rparr>
    \<and> set (cr_files_fetched c') = insert n (set (cr_files_fetched c))
    \<and> (\<forall>p. locked digest base fs' p = locked digest base fs p)
    \<and> (\<forall>q. \<not> prefix base q \<longrightarrow> entry_at fs' q = entry_at fs q)"
proof (cases "n \<in> set (cr_files_fetched c)")
  case True
  have "get_claim base j fs = Inr (Some c)" using r by (auto simp: record_of_def split: sum.splits option.splits)
  with True i r show ?thesis by (auto simp: mark_fetched_def insert_absorb)
next
  case False
  let ?c = "c\<lparr>cr_files_fetched := cr_files_fetched c @ [n]\<rparr>"
  have g: "get_claim base j fs = Inr (Some c)" using r by (auto simp: record_of_def split: sum.splits option.splits)
  from r record_of_iff [OF i j] obtain b where "entry_at fs (base @ [j @ ''.json'']) = Some (F b)" by blast
  then have d: "entry_at fs base = Some D"
    using i fs_wf_prefix [of fs base "[j @ ''.json'']"] by (simp add: claims_invar_def)
  obtain fs' where w: "durable_write base t ?c fs = (Inr (), fs')" "claims_invar digest base fs'"
    "entry_at fs' = (entry_at fs)(base @ [j @ ''.json.tmp''] := None, base @ [j @ ''.json''] \<mapsto> F (claim_bytes ?c))"
    using durable_write_ok [OF i _ d, of ?c t] own j by auto
  have "record_of base fs' j = Some ?c"
    using w(3) parse_claim_bytes [of ?c] own by (simp add: record_of_iff [OF w(2) j])
  with w g False show ?thesis by (auto simp: mark_fetched_def Let_def locked_def)
qed

lemma issue_lock_ok:
  assumes i: "claims_invar digest base fs" and n: "\<not> locked digest base fs (cr_bundle_path c)"
    and b: "\<And>q. prefix q base \<Longrightarrow> entry_at fs q \<in> {None, Some D}"
  shows "\<exists>fs'. issue_lock digest base t c fs = (Inr (), fs')"
proof -
  let ?l = "base @ [lock_name digest (cr_bundle_path c)]"
  have wf: "fs_wf fs" "clean base" "clean ?l" using i by (auto simp: claims_invar_def)
  obtain fs1 where m: "mkdir_p t base fs = Inr fs1" using mkdir_p_ok [OF wf(1,2) b] by blast
  from mkdir_p_clean [OF wf(1,2) m] have m': "fs_wf fs1"
    "entry_at fs1 = (\<lambda>q. if prefix q base then Some D else entry_at fs q)" by auto
  have "\<not> prefix ?l base" by (metis prefix_snocD prefix_order.less_irrefl)
  then have "entry_at fs1 ?l = None" using m'(2) n by (simp add: locked_def)
  then obtain fs2 where "create_excl t ?l (cr_jti c) fs1 = Inr fs2"
    using create_excl_ok [OF m'(1) wf(3)] m'(2) by force
  with m show ?thesis by (simp add: issue_lock_def ensure_base_def lock_path_eq [OF i])
qed

lemma issue_ok:
  assumes i: "claims_invar digest base fs" and j: "jti_ok (cr_jti c)"
    and n: "\<not> locked digest base fs (cr_bundle_path c)"
    and b: "\<And>q. prefix q base \<Longrightarrow> entry_at fs q \<in> {None, Some D}"
    and s: "entry_at fs (base @ [cr_jti c @ ''.json'']) = None"
  shows "\<exists>fs'. issue digest base t c fs = (Inr (), fs')"
proof -
  obtain fs1 where 1: "issue_lock digest base t c fs = (Inr (), fs1)" using issue_lock_ok [OF i n b] by blast
  note L = issue_lock_Inr [OF i 1]
  obtain r fs2 where 2: "issue_sidecar digest base t c fs1 = (r, fs2)" by (cases "issue_sidecar digest base t c fs1")
  have "entry_at fs1 (base @ [cr_jti c @ ''.json'']) = None" using L(4) s by (simp add: prefix_order.antisym)
  then have "\<exists>u. r = Inr u"
    using issue_sidecar_Inl(1) [OF L(1) j, of "cr_jti c" t] L(4) 2 by (cases r) auto
  with 1 2 show ?thesis by (auto simp: issue_def)
qed

lemma issue_invar:
  assumes i: "claims_invar digest base fs" and j: "jti_ok (cr_jti c)"
  shows "claims_invar digest base (snd (issue digest base t c fs))"
proof -
  obtain r1 fs1 where 1: "issue_lock digest base t c fs = (r1, fs1)" by (cases "issue_lock digest base t c fs")
  show ?thesis
  proof (cases r1)
    case (Inl e)
    with 1 issue_lock_any [OF i] show ?thesis by (auto simp: issue_def)
  next
    case (Inr u)
    note L = issue_lock_Inr [OF i 1 [unfolded Inr]]
    obtain r2 fs2 where 2: "issue_sidecar digest base t c fs1 = (r2, fs2)"
      by (cases "issue_sidecar digest base t c fs1")
    have "claims_invar digest base fs2"
      using issue_sidecar_Inr(1) [OF L(1) j] issue_sidecar_Inl(3) [OF L(1) j, of "cr_jti c"] 2 L(4)
      by (cases r2) auto
    with 1 2 Inr show ?thesis by (simp add: issue_def)
  qed
qed

subsection \<open>The contract\<close>

definition claim_ok :: "claim_record \<Rightarrow> bool" where
  "claim_ok c = (jti_ok (cr_jti c) \<and> cr_schema_version c = 1)"

fun issue_all :: "(int \<Rightarrow> claim_record \<Rightarrow> 's \<Rightarrow> (exc + unit) \<times> 's) \<Rightarrow> int \<Rightarrow> claim_record list \<Rightarrow> 's
    \<Rightarrow> claim_record list \<times> 's" where
  "issue_all iss t [] s = ([], s)"
| "issue_all iss t (c # cs) s =
     (let (r, s1) = iss t c s; (won, s2) = issue_all iss t cs s1
      in (case r of Inl e \<Rightarrow> won | Inr u \<Rightarrow> c # won, s2))"

locale claim_storage =
  fixes invar :: "'s \<Rightarrow> bool"
    and is_locked :: "'s \<Rightarrow> str \<Rightarrow> bool"
    and rec :: "'s \<Rightarrow> str \<Rightarrow> claim_record option"
    and iss :: "int \<Rightarrow> claim_record \<Rightarrow> 's \<Rightarrow> (exc + unit) \<times> 's"
    and rel :: "int \<Rightarrow> str \<Rightarrow> 's \<Rightarrow> (exc + unit) \<times> 's"
  assumes iss_invar: "\<lbrakk>invar s; claim_ok c\<rbrakk> \<Longrightarrow> invar (snd (iss t c s))"
    and iss_locks: "\<lbrakk>invar s; claim_ok c; iss t c s = (Inr u, s')\<rbrakk> \<Longrightarrow> is_locked s' (cr_bundle_path c)"
    and iss_record: "\<lbrakk>invar s; claim_ok c; iss t c s = (Inr u, s')\<rbrakk> \<Longrightarrow> rec s' (cr_jti c) = Some c"
    and iss_locked: "\<lbrakk>invar s; is_locked s (cr_bundle_path c)\<rbrakk>
        \<Longrightarrow> iss t c s = (Inl (BundleClaimedError (cr_bundle_path c)), s)"
    and rel_releases: "\<lbrakk>invar s; jti_ok j; rec s j = Some c\<rbrakk>
        \<Longrightarrow> invar (snd (rel t j s)) \<and> \<not> is_locked (snd (rel t j s)) (cr_bundle_path c) \<and> rec (snd (rel t j s)) j = None"
begin

lemma issue_all_locked:
  "invar s \<Longrightarrow> is_locked s p \<Longrightarrow> \<forall>c \<in> set cs. cr_bundle_path c = p \<Longrightarrow> issue_all iss t cs s = ([], s)"
  by (induction cs) (auto simp: iss_locked)

text \<open>However many claims are issued for one path, at most one succeeds.\<close>

lemma at_most_one:
  "invar s \<Longrightarrow> \<forall>c \<in> set cs. claim_ok c \<and> cr_bundle_path c = p \<Longrightarrow> length (fst (issue_all iss t cs s)) \<le> 1"
proof (induction cs arbitrary: s)
  case Nil
  then show ?case by simp
next
  case (Cons c cs)
  obtain r s1 where 1: "iss t c s = (r, s1)" by (cases "iss t c s")
  have i1: "invar s1" using iss_invar [of s c t] Cons.prems 1 by simp
  show ?case
  proof (cases r)
    case (Inl e)
    with 1 Cons.IH [OF i1] Cons.prems show ?thesis by (auto simp: Let_def split: prod.splits)
  next
    case (Inr u)
    then have "is_locked s1 p" using iss_locks [of s c t u s1] 1 Cons.prems by simp
    then have "issue_all iss t cs s1 = ([], s1)" using issue_all_locked [OF i1] Cons.prems by auto
    with 1 Inr show ?thesis by simp
  qed
qed

lemma issued_then_released:
  assumes "invar s" "claim_ok c" "iss t c s = (Inr u, s')"
  shows "rec s' (cr_jti c) = Some c \<and> is_locked s' (cr_bundle_path c)
    \<and> \<not> is_locked (snd (rel t' (cr_jti c) s')) (cr_bundle_path c)"
proof -
  have "invar s'" using iss_invar [OF assms(1,2), of t] assms(3) by simp
  with assms iss_record iss_locks rel_releases show ?thesis by (simp add: claim_ok_def)
qed

end

interpretation fs_claims: claim_storage "claims_invar digest base" "locked digest base" "record_of base"
  "issue digest base" "delete_claim digest base" for digest base
  by unfold_locales
    (auto simp: claim_ok_def issue_invar issue_locked delete_claim_releases intro: issue_Inr(3,4))

end
