(* ===== verification/Bundle_Store.thy ===== *)
theory Bundle_Store
  imports Storage_Laws
begin

text \<open>
  The contract the routes rely on when they use the storage protocol of
  \<^verbatim>\<open>protocols/storage.py\<close> for bundles, as a locale, and its discharge for the filesystem
  backend. The abstract state answers, for a path, the manifest (\<open>meta_of\<close>) and the content
  of each file (\<open>file_of\<close>); publishing and deleting are the two updates.
\<close>

datatype store_op =
    OpPublish int str "(str \<times> bytes) list" bundle_meta
  | OpDelete int str

fun op_path :: "store_op \<Rightarrow> str" where
  "op_path (OpPublish t p files m) = p"
| "op_path (OpDelete t p) = p"

fun op_files_ok :: "store_op \<Rightarrow> bool" where
  "op_files_ok (OpPublish t p files m) = bundle_files_ok files"
| "op_files_ok (OpDelete t p) = True"

fun run_ops :: "(int \<Rightarrow> str \<Rightarrow> (str \<times> bytes) list \<Rightarrow> bundle_meta \<Rightarrow> 's \<Rightarrow> (exc + unit) \<times> 's)
    \<Rightarrow> (int \<Rightarrow> str \<Rightarrow> 's \<Rightarrow> (exc + unit) \<times> 's) \<Rightarrow> store_op list \<Rightarrow> 's \<Rightarrow> 's" where
  "run_ops pub del [] s = s"
| "run_ops pub del (OpPublish t p files m # ops) s = run_ops pub del ops (snd (pub t p files m s))"
| "run_ops pub del (OpDelete t p # ops) s = run_ops pub del ops (snd (del t p s))"

locale bundle_store =
  fixes invar :: "'s \<Rightarrow> bool"
    and meta_of :: "'s \<Rightarrow> str \<Rightarrow> bundle_meta option"
    and file_of :: "'s \<Rightarrow> str \<Rightarrow> str \<Rightarrow> bytes option"
    and indep :: "str \<Rightarrow> str \<Rightarrow> bool"
    and pub :: "int \<Rightarrow> str \<Rightarrow> (str \<times> bytes) list \<Rightarrow> bundle_meta \<Rightarrow> 's \<Rightarrow> (exc + unit) \<times> 's"
    and del :: "int \<Rightarrow> str \<Rightarrow> 's \<Rightarrow> (exc + unit) \<times> 's"
  assumes pub_invar: "\<lbrakk>invar s; good_key p; bundle_files_ok files\<rbrakk> \<Longrightarrow> invar (snd (pub t p files m s))"
    and del_invar: "\<lbrakk>invar s; good_key p\<rbrakk> \<Longrightarrow> invar (snd (del t p s))"
    and pub_meta: "\<lbrakk>invar s; good_key p; bundle_files_ok files; pub t p files m s = (Inr u, s')\<rbrakk>
        \<Longrightarrow> meta_of s' p = Some m"
    and pub_file: "\<lbrakk>invar s; good_key p; bundle_files_ok files; pub t p files m s = (Inr u, s');
        (n, b) \<in> set files\<rbrakk> \<Longrightarrow> file_of s' p n = Some b"
    and pub_occupied: "\<lbrakk>invar s; good_key p; meta_of s p = Some m'\<rbrakk>
        \<Longrightarrow> (\<exists>e. fst (pub t p files m s) = Inl e) \<and> meta_of (snd (pub t p files m s)) p = Some m'"
    and pub_frame: "\<lbrakk>invar s; good_key p; bundle_files_ok files; good_key p'; good_key n; indep p p'\<rbrakk>
        \<Longrightarrow> meta_of (snd (pub t p files m s)) p' = meta_of s p'
          \<and> file_of (snd (pub t p files m s)) p' n = file_of s p' n"
    and del_meta: "\<lbrakk>invar s; good_key p; meta_of s p = Some m\<rbrakk>
        \<Longrightarrow> fst (del t p s) = Inr () \<and> meta_of (snd (del t p s)) p = None"
    and del_frame: "\<lbrakk>invar s; good_key p; good_key p'; good_key n; indep p p'\<rbrakk>
        \<Longrightarrow> meta_of (snd (del t p s)) p' = meta_of s p' \<and> file_of (snd (del t p s)) p' n = file_of s p' n"
begin

lemma run_invar:
  "invar s \<Longrightarrow> \<forall>x \<in> set ops. good_key (op_path x) \<and> op_files_ok x \<Longrightarrow> invar (run_ops pub del ops s)"
proof (induction ops arbitrary: s)
  case Nil
  then show ?case by simp
next
  case (Cons x ops)
  then show ?case by (cases x) (auto intro: pub_invar del_invar)
qed

lemma run_frame:
  "invar s \<Longrightarrow> \<forall>x \<in> set ops. good_key (op_path x) \<and> op_files_ok x \<and> indep (op_path x) p
   \<Longrightarrow> good_key p \<Longrightarrow> good_key n
   \<Longrightarrow> meta_of (run_ops pub del ops s) p = meta_of s p \<and> file_of (run_ops pub del ops s) p n = file_of s p n"
proof (induction ops arbitrary: s)
  case Nil
  then show ?case by simp
next
  case (Cons x ops)
  then show ?case
    by (cases x) (auto simp: pub_invar del_invar pub_frame del_frame)
qed

text \<open>
  A published bundle stays readable, manifest and files, under every sequence of operations
  on other paths, and a second publication at its path is refused.
\<close>

lemma published_survives:
  assumes "invar s" "good_key p" "bundle_files_ok files" "pub t p files m s = (Inr u, s')"
    and "\<forall>x \<in> set ops. good_key (op_path x) \<and> op_files_ok x \<and> indep (op_path x) p"
    and "(n, b) \<in> set files"
  shows "meta_of (run_ops pub del ops s') p = Some m \<and> file_of (run_ops pub del ops s') p n = Some b
    \<and> (\<exists>e. fst (pub t' p files' m' (run_ops pub del ops s')) = Inl e)"
proof -
  have i: "invar s'" using pub_invar [OF assms(1-3), of t m] assms(4) by simp
  have n: "good_key n" using assms(3,6) by (auto simp: bundle_files_ok_def bundle_name_def list_all_iff)
  have fr: "meta_of (run_ops pub del ops s') p = meta_of s' p \<and> file_of (run_ops pub del ops s') p n = file_of s' p n"
    by (rule run_frame [OF i assms(5,2) n])
  have i2: "invar (run_ops pub del ops s')" using run_invar [OF i] assms(5) by blast
  show ?thesis
    using fr pub_meta [OF assms(1-4)] pub_file [OF assms(1-4,6)] pub_occupied [OF i2 assms(2)] by simp
qed

end

subsection \<open>The filesystem backend implements the contract\<close>

definition store_invar :: "str list \<Rightarrow> fs \<Rightarrow> bool" where
  "store_invar root fs = (fs_wf fs \<and> clean root)"

definition meta_at :: "str list \<Rightarrow> fs \<Rightarrow> str \<Rightarrow> bundle_meta option" where
  "meta_at root fs path = (case read_bundle_meta root path fs of Inl e \<Rightarrow> None | Inr m \<Rightarrow> Some m)"

definition file_at :: "str list \<Rightarrow> fs \<Rightarrow> str \<Rightarrow> str \<Rightarrow> bytes option" where
  "file_at root fs path name =
     (case open_bundle_file_read root path name fs of Inl e \<Rightarrow> None | Inr b \<Rightarrow> Some b)"

text \<open>Two bundle paths neither of which lies below the other.\<close>

definition unrelated :: "str \<Rightarrow> str \<Rightarrow> bool" where
  "unrelated p q = (\<not> prefix (path_parts p) (path_parts q) \<and> \<not> prefix (path_parts q) (path_parts p))"

lemma meta_at_Some:
  "store_invar root fs \<Longrightarrow> good_key p \<Longrightarrow> meta_at root fs p = Some m \<longleftrightarrow>
    (\<exists>b. entry_at fs (resolve root p @ [BUNDLE_MANIFEST]) = Some (F b) \<and> meta_of_bytes b = Some m)"
  using read_bundle_meta_Inr [of fs root p m]
  by (auto simp: store_invar_def meta_at_def split: sum.splits)

lemma file_at_Some:
  "store_invar root fs \<Longrightarrow> good_key p \<Longrightarrow> good_key n \<Longrightarrow> file_at root fs p n = Some b \<longleftrightarrow>
    (\<exists>m. entry_at fs (resolve root p @ [BUNDLE_MANIFEST]) = Some (F m))
    \<and> entry_at fs (resolve root p @ path_parts n) = Some (F b)"
  using open_bundle_file_read_Inr [of fs root p n b]
  by (auto simp: store_invar_def file_at_def split: sum.splits)

lemma view_cong:
  assumes i: "store_invar root fs" "store_invar root fs'" and g: "good_key p" "good_key n"
    and e: "\<And>q. prefix (resolve root p) q \<Longrightarrow> entry_at fs' q = entry_at fs q"
  shows "meta_at root fs' p = meta_at root fs p \<and> file_at root fs' p n = file_at root fs p n"
proof -
  have "meta_at root fs' p = Some m \<longleftrightarrow> meta_at root fs p = Some m" for m
    using meta_at_Some [OF i(1) g(1)] meta_at_Some [OF i(2) g(1)] e by simp
  moreover have "file_at root fs' p n = Some b \<longleftrightarrow> file_at root fs p n = Some b" for b
    using file_at_Some [OF i(1) g] file_at_Some [OF i(2) g] e by simp
  ultimately show ?thesis by (metis option.exhaust)
qed

lemma unrelated_below:
  assumes "good_key p" "good_key p'" "unrelated p p'" "prefix (resolve root p') q"
  shows "\<not> prefix (resolve root p) q" and "\<not> prefix q (resolve root p)"
proof -
  from assms(3) have u: "\<not> prefix (resolve root p) (resolve root p')" "\<not> prefix (resolve root p') (resolve root p)"
    by (auto simp: unrelated_def resolve_good [OF assms(1)] resolve_good [OF assms(2)])
  with assms(4) show "\<not> prefix (resolve root p) q" by (metis prefix_same_cases)
  from u(2) assms(4) show "\<not> prefix q (resolve root p)" by (meson prefix_order.trans)
qed

lemma delete_any:
  assumes i: "store_invar root fs" and g: "good_key p" and o: "delete_bundle root t p fs = (r, fs')"
  shows "store_invar root fs' \<and> (\<forall>q. \<not> prefix (resolve root p) q \<longrightarrow> entry_at fs' q = entry_at fs q)"
proof (cases r)
  case (Inl e)
  with o have "fs' = fs" by (auto simp: delete_bundle_def Let_def lift_fs_def split: if_splits sum.splits)
  with i show ?thesis by simp
next
  case (Inr u)
  with delete_bundle_Inr [of fs root p t u fs'] o i g show ?thesis by (auto simp: store_invar_def)
qed

lemma delete_committed:
  assumes i: "store_invar root fs" and g: "good_key p" and m: "meta_at root fs p = Some m"
  shows "fst (delete_bundle root t p fs) = Inr () \<and> meta_at root (snd (delete_bundle root t p fs)) p = None"
proof -
  obtain b where "entry_at fs (resolve root p @ [BUNDLE_MANIFEST]) = Some (F b)"
    using m meta_at_Some [OF i g] by blast
  then have d: "entry_at fs (resolve root p) = Some D"
    using i fs_wf_prefix [of fs "resolve root p" "[BUNDLE_MANIFEST]"] by (simp add: store_invar_def)
  have wf: "fs_wf fs" and c: "clean root" using i by (auto simp: store_invar_def)
  obtain fs' where o: "delete_bundle root t p fs = (Inr (), fs')"
    using delete_bundle_ok [OF wf c g d] by blast
  note dl = delete_bundle_Inr [OF wf c g o]
  have "meta_at root fs' p \<noteq> Some m'" for m'
    using meta_at_Some [of root fs' p m'] dl(2,3) c g by (simp add: store_invar_def)
  then show ?thesis using o by (cases "meta_at root fs' p") auto
qed

lemma publish_invar:
  "store_invar root fs \<Longrightarrow> good_key p \<Longrightarrow> bundle_files_ok files
   \<Longrightarrow> store_invar root (snd (publish root t p files m fs))"
  using publish_wf [of fs root p files t m] by (auto simp: store_invar_def prod_eq_iff)

lemma publish_view:
  assumes "store_invar root fs" "good_key p" "bundle_files_ok files" "publish root t p files m fs = (Inr u, fs')"
  shows "meta_at root fs' p = Some m" and "(n, b) \<in> set files \<Longrightarrow> file_at root fs' p n = Some b"
proof -
  have i: "store_invar root fs'" using publish_invar [OF assms(1-3), of t m] assms(4) by simp
  have p: "fs_wf fs" "clean root" using assms(1) by (auto simp: store_invar_def)
  note pb = publish_Inr [OF p assms(2-4)]
  show "meta_at root fs' p = Some m" using pb(3) by (simp add: meta_at_Some [OF i assms(2)])
  assume n: "(n, b) \<in> set files"
  then have "good_key n" using assms(3) by (auto simp: bundle_files_ok_def bundle_name_def list_all_iff)
  then show "file_at root fs' p n = Some b" using pb(3) pb(4) [OF n] by (simp add: file_at_Some [OF i assms(2)])
qed

lemma publish_refused:
  assumes i: "store_invar root fs" and g: "good_key p" and m: "meta_at root fs p = Some m'"
  shows "(\<exists>e. fst (publish root t p files m fs) = Inl e)
    \<and> meta_at root (snd (publish root t p files m fs)) p = Some m'"
proof -
  obtain r fs' where p: "publish root t p files m fs = (r, fs')" by (cases "publish root t p files m fs")
  obtain b where b: "entry_at fs (resolve root p @ [BUNDLE_MANIFEST]) = Some (F b)" "meta_of_bytes b = Some m'"
    using m meta_at_Some [OF i g] by blast
  have wf: "fs_wf fs" "clean root" using i by (auto simp: store_invar_def)
  then have "entry_at fs (resolve root p) \<noteq> None"
    using b fs_wf_prefix [of fs "resolve root p" "[BUNDLE_MANIFEST]"] by simp
  from publish_occupied [OF wf g this p] b
  have "(\<exists>e. r = Inl e)" "entry_at fs' (resolve root p @ [BUNDLE_MANIFEST]) = Some (F b)" "fs_wf fs'" by auto
  with p b(2) wf(2) show ?thesis by (auto simp: meta_at_Some [OF _ g] store_invar_def)
qed

lemma publish_unrelated:
  assumes i: "store_invar root fs" and g: "good_key p" "bundle_files_ok files"
    and g': "good_key p'" "good_key n" and u: "unrelated p p'"
  shows "meta_at root (snd (publish root t p files m fs)) p' = meta_at root fs p'
    \<and> file_at root (snd (publish root t p files m fs)) p' n = file_at root fs p' n"
proof -
  have wf: "fs_wf fs" "clean root" using i by (auto simp: store_invar_def)
  show ?thesis
  proof (rule view_cong [OF i publish_invar [OF i g] g'])
    fix q assume "prefix (resolve root p') q"
    from unrelated_below [OF g(1) g'(1) u this]
    show "entry_at (snd (publish root t p files m fs)) q = entry_at fs q"
      using publish_frame [OF wf g, of t m] by (cases "publish root t p files m fs") auto
  qed
qed

lemma delete_unrelated:
  assumes i: "store_invar root fs" and g: "good_key p" and g': "good_key p'" "good_key n" and u: "unrelated p p'"
  shows "meta_at root (snd (delete_bundle root t p fs)) p' = meta_at root fs p'
    \<and> file_at root (snd (delete_bundle root t p fs)) p' n = file_at root fs p' n"
proof -
  obtain r fs' where p: "delete_bundle root t p fs = (r, fs')" by (cases "delete_bundle root t p fs")
  from delete_any [OF i g p] have d: "store_invar root fs'"
    "\<And>q. \<not> prefix (resolve root p) q \<Longrightarrow> entry_at fs' q = entry_at fs q" by auto
  show ?thesis
    using view_cong [OF i d(1) g'] d(2) unrelated_below(1) [OF g g'(1) u] p by simp
qed

lemma delete_invar: "store_invar root fs \<Longrightarrow> good_key p \<Longrightarrow> store_invar root (snd (delete_bundle root t p fs))"
  using delete_any [of root fs p t] by (auto simp: prod_eq_iff)

interpretation filesystem: bundle_store "store_invar root" "meta_at root" "file_at root" unrelated
  "publish root" "delete_bundle root" for root
  by unfold_locales
    (auto simp: publish_invar delete_invar publish_view publish_refused publish_unrelated
      delete_committed delete_unrelated)

end
