(* ===== verification/Encoding.thy ===== *)
theory Encoding
  imports Prelude
begin

text \<open>
  The two encodings of the standard library the sources use on the wire: base64
  (\<^verbatim>\<open>base64.b64encode\<close>, \<^verbatim>\<open>base64.b64decode(validate=True)\<close>) and percent-encoding with no
  safe characters (\<^verbatim>\<open>urllib.parse.quote(s, safe="")\<close>, \<^verbatim>\<open>urllib.parse.unquote\<close>), on UTF-8 bytes,
  each with its round trip.
\<close>

abbreviation byte_of :: "char \<Rightarrow> nat" where
  "byte_of c \<equiv> of_char c"

lemma byte_of_less [simp]: "byte_of c < 256"
  using of_char_mod_256 [of c] mod_less_divisor [of 256 "byte_of c"] by simp

subsection \<open>Base64\<close>

definition b64_digit :: "nat \<Rightarrow> char" where
  "b64_digit n =
     (if n < 26 then char_of (65 + n) else if n < 52 then char_of (71 + n)
      else if n < 62 then char_of (n - 4) else if n = 62 then CHR ''+'' else CHR ''/'')"

definition b64_value :: "char \<Rightarrow> nat option" where
  "b64_value c =
     (let n = byte_of c in
      if 65 \<le> n \<and> n \<le> 90 then Some (n - 65)
      else if 97 \<le> n \<and> n \<le> 122 then Some (n - 71)
      else if 48 \<le> n \<and> n \<le> 57 then Some (n + 4)
      else if n = 43 then Some 62
      else if n = 47 then Some 63 else None)"

fun b64encode :: "bytes \<Rightarrow> str" where
  "b64encode [] = []"
| "b64encode [a] =
     [b64_digit (byte_of a div 4), b64_digit (byte_of a mod 4 * 16), CHR ''='', CHR ''='']"
| "b64encode [a, b] =
     [b64_digit (byte_of a div 4), b64_digit (byte_of a mod 4 * 16 + byte_of b div 16),
      b64_digit (byte_of b mod 16 * 4), CHR ''='']"
| "b64encode (a # b # c # rest) =
     [b64_digit (byte_of a div 4), b64_digit (byte_of a mod 4 * 16 + byte_of b div 16),
      b64_digit (byte_of b mod 16 * 4 + byte_of c div 64), b64_digit (byte_of c mod 64)] @ b64encode rest"

text \<open>Strict decoding: groups of four, padding only in the last.\<close>

fun b64decode :: "str \<Rightarrow> bytes option" where
  "b64decode [] = Some []"
| "b64decode (p # q # r # s # rest) =
     (case (b64_value p, b64_value q) of
        (Some w, Some x) \<Rightarrow>
          (if r = CHR ''='' then
             (if s = CHR ''='' \<and> rest = [] then Some [char_of (w * 4 + x div 16)] else None)
           else case b64_value r of
             None \<Rightarrow> None
           | Some y \<Rightarrow>
              if s = CHR ''='' then
                (if rest = [] then Some [char_of (w * 4 + x div 16), char_of (x mod 16 * 16 + y div 4)] else None)
              else case b64_value s of
                None \<Rightarrow> None
              | Some z \<Rightarrow>
                 map_option (\<lambda>bs. char_of (w * 4 + x div 16) # char_of (x mod 16 * 16 + y div 4)
                     # char_of (y mod 4 * 64 + z) # bs) (b64decode rest))
      | _ \<Rightarrow> None)"
| "b64decode _ = None"

lemma byte_b64_digit:
  "n < 64 \<Longrightarrow> byte_of (b64_digit n) =
     (if n < 26 then 65 + n else if n < 52 then 71 + n else if n < 62 then n - 4 else if n = 62 then 43 else 47)"
  by (simp add: b64_digit_def)

lemma b64_digit_value [simp]:
  assumes "n < 64"
  shows "b64_value (b64_digit n) = Some n" and "b64_digit n \<noteq> CHR ''=''"
proof -
  show "b64_value (b64_digit n) = Some n"
    using assms unfolding b64_value_def Let_def byte_b64_digit [OF assms] by auto
  show "b64_digit n \<noteq> CHR ''=''"
  proof
    assume "b64_digit n = CHR ''=''"
    then have "byte_of (b64_digit n) = (61 :: nat)" by simp
    then show False using assms unfolding byte_b64_digit [OF assms] by (auto split: if_splits)
  qed
qed

lemma byte_halves:
  "byte_of a div 4 < 64" "byte_of a div 16 < 16" "byte_of a div 64 < 4"
  "byte_of a div 16 div 16 = 0" "byte_of a div 64 div 4 = 0"
  "byte_of a div 16 mod 16 = byte_of a div 16" "byte_of a div 64 mod 4 = byte_of a div 64"
proof -
  have "byte_of a < 64 * 4" "byte_of a < 16 * 16" "byte_of a < 4 * 64" using byte_of_less [of a] by simp_all
  then show "byte_of a div 4 < 64" "byte_of a div 16 < 16" "byte_of a div 64 < 4" by (simp_all add: less_mult_imp_div_less)
  then show "byte_of a div 16 div 16 = 0" "byte_of a div 64 div 4 = 0"
    "byte_of a div 16 mod 16 = byte_of a div 16" "byte_of a div 64 mod 4 = byte_of a div 64" by simp_all
qed

lemma byte_split:
  "byte_of a mod 4 * 16 + byte_of b div 16 < 64"
  "byte_of b mod 16 * 4 + byte_of c div 64 < 64"
  "byte_of c mod 64 < 64" "byte_of a mod 4 * 16 < 64" "byte_of b mod 16 * 4 < 64"
proof -
  have "byte_of a mod 4 < 4" "byte_of b mod 16 < 16" by simp_all
  with byte_halves(2) [of b] byte_halves(3) [of c]
  show "byte_of a mod 4 * 16 + byte_of b div 16 < 64" "byte_of b mod 16 * 4 + byte_of c div 64 < 64"
    "byte_of a mod 4 * 16 < 64" "byte_of b mod 16 * 4 < 64" by linarith+
  show "byte_of c mod 64 < 64" by simp
qed

lemma b64decode_b64encode: "b64decode (b64encode bs) = Some bs"
  by (induction bs rule: b64encode.induct)
    (simp_all add: byte_split byte_halves)

subsection \<open>Percent-encoding\<close>

definition unreserved :: "char \<Rightarrow> bool" where
  "unreserved c =
     (let n = byte_of c in (65 \<le> n \<and> n \<le> 90) \<or> (97 \<le> n \<and> n \<le> 122) \<or> (48 \<le> n \<and> n \<le> 57)
        \<or> c \<in> {CHR ''_'', CHR ''.'', CHR ''-'', CHR ''~''})"

definition hex_upper :: "nat \<Rightarrow> char" where
  "hex_upper d = (if d < 10 then char_of (48 + d) else char_of (55 + d))"

definition hex_value :: "char \<Rightarrow> nat option" where
  "hex_value c =
     (let n = byte_of c in
      if 48 \<le> n \<and> n \<le> 57 then Some (n - 48)
      else if 65 \<le> n \<and> n \<le> 70 then Some (n - 55)
      else if 97 \<le> n \<and> n \<le> 102 then Some (n - 87) else None)"

definition quote_char_pct :: "char \<Rightarrow> str" where
  "quote_char_pct c =
     (if unreserved c then [c] else [CHR ''%'', hex_upper (byte_of c div 16), hex_upper (byte_of c mod 16)])"

definition url_quote :: "str \<Rightarrow> str" where
  "url_quote s = concat (map quote_char_pct s)"

text \<open>An escape that is not two hexadecimal digits stays as it is.\<close>

fun url_unquote :: "str \<Rightarrow> str" where
  "url_unquote [] = []"
| "url_unquote (c # a # b # rest) =
     (if c = CHR ''%'' then
        (case (hex_value a, hex_value b) of
           (Some x, Some y) \<Rightarrow> char_of (16 * x + y) # url_unquote rest
         | _ \<Rightarrow> c # url_unquote (a # b # rest))
      else c # url_unquote (a # b # rest))"
| "url_unquote (c # rest) = c # url_unquote rest"

lemma byte_hex_upper: "d < 16 \<Longrightarrow> byte_of (hex_upper d) = (if d < 10 then 48 + d else 55 + d)"
  by (simp add: hex_upper_def)

lemma hex_value_upper:
  assumes "d < 16"
  shows "hex_value (hex_upper d) = Some d" "hex_upper d \<noteq> CHR ''/''" "hex_upper d \<noteq> CHR ''?''"
proof -
  show "hex_value (hex_upper d) = Some d"
    using assms unfolding hex_value_def Let_def byte_hex_upper [OF assms] by auto
  have "byte_of (hex_upper d) \<noteq> 47" "byte_of (hex_upper d) \<noteq> 63"
    using assms unfolding byte_hex_upper [OF assms] by auto
  then show "hex_upper d \<noteq> CHR ''/''" "hex_upper d \<noteq> CHR ''?''" by auto
qed

lemma unquote_plain: "c \<noteq> CHR ''%'' \<Longrightarrow> url_unquote (c # s) = c # url_unquote s"
  by (cases s rule: url_unquote.cases) auto

lemma url_unquote_quote: "url_unquote (url_quote s) = s"
proof (induction s)
  case Nil
  then show ?case by (simp add: url_quote_def)
next
  case (Cons c s)
  have h: "byte_of c div 16 < 16" "byte_of c mod 16 < 16" by (simp_all add: byte_halves)
  show ?case
  proof (cases "unreserved c")
    case True
    then have "c \<noteq> CHR ''%''" by (auto simp: unreserved_def)
    with True Cons show ?thesis by (simp add: url_quote_def quote_char_pct_def unquote_plain)
  next
    case False
    with h Cons show ?thesis by (simp add: url_quote_def quote_char_pct_def hex_value_upper)
  qed
qed

lemma url_quote_no_slash: "CHR ''/'' \<notin> set (url_quote s)" "CHR ''?'' \<notin> set (url_quote s)"
proof -
  have u: "\<not> unreserved (CHR ''/'')" "\<not> unreserved (CHR ''?'')" by (simp_all add: unreserved_def)
  have "CHR ''/'' \<notin> set (quote_char_pct c) \<and> CHR ''?'' \<notin> set (quote_char_pct c)" for c
    using u hex_value_upper(2,3) [OF byte_halves(2) [of c]] hex_value_upper(2,3) [of "byte_of c mod 16"]
    by (auto simp: quote_char_pct_def dest: sym)
  then show "CHR ''/'' \<notin> set (url_quote s)" "CHR ''?'' \<notin> set (url_quote s)" by (auto simp: url_quote_def)
qed

end
