(* ===== verification/Tokens.thy ===== *)
theory Tokens
  imports Json Encoding Numerals_Text
begin

text \<open>
  Upload and download credentials: \<^verbatim>\<open>auth/jwt_tokens.py\<close> and the rotation of the signing key in
  \<^verbatim>\<open>auth/jwt_hot_reload.py\<close>. The JWT library is not part of the sources: its \<^verbatim>\<open>encode\<close> and
  \<^verbatim>\<open>decode\<close> are arguments, and \<open>jwt_laws\<close> is what its documentation says of HS256 tokens. The
  claims of a token are an association list from names to JSON values. Instants of the
  monotonic clock are microseconds, those of the claims and of the wall clock seconds.
\<close>

type_synonym claims = "(str \<times> json) list"

subsection \<open>The library\<close>

datatype jwt_exc =
    ExpiredSignatureError
  | ImmatureSignatureError
  | InvalidSignatureError
  | MissingRequiredClaimError str
  | InvalidTokenError str

type_synonym jwt_encode = "claims \<Rightarrow> bytes \<Rightarrow> str"
type_synonym jwt_decode = "str \<Rightarrow> bytes \<Rightarrow> int \<Rightarrow> jwt_exc + claims"

definition REQUIRED_CLAIMS :: "str list" where
  "REQUIRED_CLAIMS = [''exp'', ''nbf'', ''iat'', ''jti'']"

text \<open>The checks of the registered claims, in the order of the documentation, with no leeway.\<close>

definition claim_int :: "claims \<Rightarrow> str \<Rightarrow> int option" where
  "claim_int c k = (case map_of c k of Some (JInt i) \<Rightarrow> Some i | _ \<Rightarrow> None)"

definition check_claims :: "claims \<Rightarrow> int \<Rightarrow> jwt_exc + claims" where
  "check_claims c now =
     (case find (\<lambda>k. map_of c k = None \<or> map_of c k = Some JNull) REQUIRED_CLAIMS of
        Some k \<Rightarrow> Inl (MissingRequiredClaimError k)
      | None \<Rightarrow>
         (case (claim_int c ''iat'', claim_int c ''nbf'', claim_int c ''exp'') of
            (Some iat, Some nbf, Some exp) \<Rightarrow>
              if iat > now \<or> nbf > now then Inl ImmatureSignatureError
              else if exp \<le> now then Inl ExpiredSignatureError else Inr c
          | _ \<Rightarrow> Inl (InvalidTokenError ''DecodeError'')))"

text \<open>The claims are a dictionary, so no key occurs twice, at any depth.\<close>

abbreviation claims_ok :: "claims \<Rightarrow> bool" where
  "claims_ok c \<equiv> json_ok (JObj c)"

definition jwt_laws :: "jwt_encode \<Rightarrow> jwt_decode \<Rightarrow> bool" where
  "jwt_laws encode decode \<longleftrightarrow>
     (\<forall>c k now. claims_ok c \<longrightarrow> decode (encode c k) k now = check_claims c now)
     \<and> (\<forall>c k k' now. claims_ok c \<longrightarrow> k' \<noteq> k \<longrightarrow> decode (encode c k) k' now = Inl InvalidSignatureError)"

subsection \<open>jwt_tokens.py\<close>

datatype token_error =
    TokenExpired
  | TokenNotYetValid
  | TokenInvalidSignature
  | TokenMissingClaim str
  | TokenDecodeError
  | RevokedTokenError str

text \<open>The payload \<^verbatim>\<open>sign\<close> encodes; \<open>uuid\<close> is the fresh identifier.\<close>

definition with_jti :: "str \<Rightarrow> claims \<Rightarrow> claims" where
  "with_jti uuid claims =
     (if truthy (map_of claims ''jti'') then claims else AList.update ''jti'' (JStr uuid) claims)"

definition sign :: "jwt_encode \<Rightarrow> str \<Rightarrow> claims \<Rightarrow> bytes \<Rightarrow> str" where
  "sign encode uuid claims key = encode (with_jti uuid claims) key"

text \<open>The chain of \<open>except\<close> clauses that follows both decodings.\<close>

fun map_jwt_exc :: "jwt_exc \<Rightarrow> token_error" where
  "map_jwt_exc InvalidSignatureError = TokenInvalidSignature"
| "map_jwt_exc ExpiredSignatureError = TokenExpired"
| "map_jwt_exc ImmatureSignatureError = TokenNotYetValid"
| "map_jwt_exc (MissingRequiredClaimError c) = TokenMissingClaim c"
| "map_jwt_exc (InvalidTokenError m) = TokenDecodeError"

text \<open>\<^verbatim>\<open>str(claims.get(k) or "")\<close>\<close>

definition claim_str :: "claims \<Rightarrow> str \<Rightarrow> str" where
  "claim_str c k = (if truthy (map_of c k) then py_str (the (map_of c k)) else [])"

definition verify ::
  "jwt_decode \<Rightarrow> (str \<Rightarrow> token_error option) \<Rightarrow> int \<Rightarrow> str \<Rightarrow> bytes \<Rightarrow> bytes option \<Rightarrow> token_error + claims" where
  "verify decode revocation_check now token primary secondary =
     (let decoded = (case decode token primary now of
            Inr c \<Rightarrow> Inr c
          | Inl e \<Rightarrow>
             if e = InvalidSignatureError then
               (case secondary of
                  None \<Rightarrow> Inl TokenInvalidSignature
                | Some k \<Rightarrow> (case decode token k now of Inr c \<Rightarrow> Inr c | Inl e' \<Rightarrow> Inl (map_jwt_exc e')))
             else Inl (map_jwt_exc e))
      in case decoded of
           Inl e \<Rightarrow> Inl e
         | Inr c \<Rightarrow>
            (case revocation_check (claim_str c ''jti'') of None \<Rightarrow> Inr c | Some e \<Rightarrow> Inl e))"

definition noop_revocation_check :: "str \<Rightarrow> token_error option" where
  "noop_revocation_check jti = None"

subsection \<open>jwt_hot_reload.py\<close>

record jwt_slots =
  js_primary :: bytes
  js_secondary :: "bytes option"
  js_last_rotation_ts :: "int option"
  js_overlap_ttl_seconds :: int

definition MIN_HS256_KEY_BYTES :: nat where
  "MIN_HS256_KEY_BYTES = 32"

definition init_jwt_key_slots :: "bytes \<Rightarrow> bytes option \<Rightarrow> int \<Rightarrow> jwt_slots" where
  "init_jwt_key_slots primary secondary overlap_ttl =
     \<lparr>js_primary = primary, js_secondary = secondary, js_last_rotation_ts = None,
      js_overlap_ttl_seconds = overlap_ttl\<rparr>"

text \<open>Past the overlap the secondary is dropped from the slots.\<close>

definition resolve_secondary :: "int \<Rightarrow> jwt_slots \<Rightarrow> bytes option \<times> jwt_slots" where
  "resolve_secondary monotonic slots =
     (case js_last_rotation_ts slots of
        None \<Rightarrow> (js_secondary slots, slots)
      | Some last_ts \<Rightarrow>
         if monotonic - last_ts \<ge> js_overlap_ttl_seconds slots * 1000000
         then (None, slots\<lparr>js_secondary := None\<rparr>)
         else (js_secondary slots, slots))"

text \<open>The environment variables that announce several workers, in the order they are read.\<close>

fun is_single_worker :: "str option list \<Rightarrow> bool" where
  "is_single_worker [] = True"
| "is_single_worker (None # rest) = is_single_worker rest"
| "is_single_worker (Some v # rest) =
     (case py_int v of None \<Rightarrow> is_single_worker rest | Some n \<Rightarrow> n = 1)"

definition decode_key_material :: "bytes \<Rightarrow> bytes option" where
  "decode_key_material raw =
     (let stripped = strip_ws raw in
      if stripped = [] then None
      else case b64decode stripped of
        None \<Rightarrow> None
      | Some decoded \<Rightarrow> if length decoded < MIN_HS256_KEY_BYTES then None else Some decoded)"

datatype key_file = KeyFileMissing | KeyFileForbidden | KeyFileUnreadable | KeyFileContent bytes

datatype rotation_event =
    RotationFailed str
  | RotationUnchanged
  | KeyRotated

text \<open>
  \<open>file_path\<close> is the value of \<^verbatim>\<open>CASSETTA_JWT_KEY_FILE\<close>, \<open>content\<close> what opening and reading
  that file gives, and the event what is logged.
\<close>

definition handle_rotation ::
  "int \<Rightarrow> int \<Rightarrow> str \<Rightarrow> key_file \<Rightarrow> jwt_slots \<Rightarrow> rotation_event \<times> jwt_slots" where
  "handle_rotation overlap_ttl monotonic file_path content slots =
     (if strip_ws file_path = [] then (RotationFailed ''missing_file'', slots)
      else case content of
        KeyFileMissing \<Rightarrow> (RotationFailed ''missing_file'', slots)
      | KeyFileForbidden \<Rightarrow> (RotationFailed ''permission_denied'', slots)
      | KeyFileUnreadable \<Rightarrow> (RotationFailed ''read_error'', slots)
      | KeyFileContent raw \<Rightarrow>
         (case decode_key_material raw of
            None \<Rightarrow> (RotationFailed ''invalid_key_material'', slots)
          | Some new_key \<Rightarrow>
             if new_key = js_primary slots then (RotationUnchanged, slots)
             else (KeyRotated,
                   \<lparr>js_primary = new_key, js_secondary = Some (js_primary slots),
                    js_last_rotation_ts = Some monotonic, js_overlap_ttl_seconds = overlap_ttl\<rparr>)))"

text \<open>What a request does first: resolve the secondary and verify against both slots.\<close>

definition verify_slots ::
  "jwt_decode \<Rightarrow> (str \<Rightarrow> token_error option) \<Rightarrow> int \<Rightarrow> int \<Rightarrow> str \<Rightarrow> jwt_slots \<Rightarrow> (token_error + claims) \<times> jwt_slots" where
  "verify_slots decode revocation_check now monotonic token slots =
     (let (secondary, slots') = resolve_secondary monotonic slots
      in (verify decode revocation_check now token (js_primary slots) secondary, slots'))"

subsection \<open>Lemmas\<close>

lemma verify_primary:
  "jwt_laws enc dec \<Longrightarrow> claims_ok c \<Longrightarrow> check_claims c now = Inr c \<Longrightarrow> chk (claim_str c ''jti'') = None
   \<Longrightarrow> verify dec chk now (enc c k) k sec = Inr c"
  by (simp add: verify_def jwt_laws_def del: json_ok.simps)

lemma verify_other_primary:
  "jwt_laws enc dec \<Longrightarrow> claims_ok c \<Longrightarrow> k' \<noteq> k \<Longrightarrow> verify dec chk now (enc c k) k' sec =
     (case sec of None \<Rightarrow> Inl TokenInvalidSignature | Some k2 \<Rightarrow> verify dec chk now (enc c k) k2 None)"
proof -
  assume l: "jwt_laws enc dec" and c: "claims_ok c" and k: "k' \<noteq> k"
  then have "dec (enc c k) k' now = Inl InvalidSignatureError" by (simp add: jwt_laws_def del: json_ok.simps)
  then show ?thesis by (auto simp: verify_def Let_def split: option.splits sum.splits)
qed

lemma verify_InrD:
  assumes "jwt_laws enc dec" "claims_ok c" "verify dec chk now (enc c k) p sec = Inr c'"
  shows "c' = c \<and> (p = k \<or> sec = Some k) \<and> check_claims c now = Inr c"
proof -
  have cc: "check_claims c now = Inr x \<Longrightarrow> x = c" for x
    by (auto simp: check_claims_def split: option.splits if_splits)
  have d: "dec (enc c k) q now = Inr x \<Longrightarrow> q = k \<and> x = c \<and> check_claims c now = Inr c" for q x
    using assms(1,2) cc [of x] by (cases "q = k") (auto simp: jwt_laws_def simp del: json_ok.simps)
  show ?thesis
    using assms(3) d by (fastforce simp: verify_def Let_def split: sum.splits option.splits if_splits)
qed

lemma claims_ok_with_jti: "claims_ok c \<Longrightarrow> claims_ok (with_jti uuid c)"
  using set_update_distinct [of c "''jti''" "JStr uuid"]
  by (auto simp: with_jti_def list_all_iff distinct_update)

lemma claim_str_JStr: "map_of c k = Some (JStr s) \<Longrightarrow> claim_str c k = s"
  by (simp add: claim_str_def truthy_def py_str_def)

lemma jti_with_jti: "\<not> truthy (map_of c ''jti'') \<Longrightarrow> claim_str (with_jti uuid c) ''jti'' = uuid"
  by (simp add: with_jti_def claim_str_JStr)

lemma with_jti_other: "k \<noteq> ''jti'' \<Longrightarrow> map_of (with_jti uuid c) k = map_of c k"
  by (simp add: with_jti_def)

lemma handle_rotation_cases:
  "handle_rotation ov t path content s = (ev, s') \<Longrightarrow>
     (ev = KeyRotated \<and> (\<exists>k. k \<noteq> js_primary s \<and> length k \<ge> MIN_HS256_KEY_BYTES
        \<and> s' = \<lparr>js_primary = k, js_secondary = Some (js_primary s), js_last_rotation_ts = Some t,
                js_overlap_ttl_seconds = ov\<rparr>))
     \<or> (ev \<noteq> KeyRotated \<and> s' = s)"
  by (auto simp: handle_rotation_def decode_key_material_def Let_def split: if_splits key_file.splits option.splits)

end
