(* ===== verification/Limits.thy ===== *)
theory Limits
  imports Paths Numerals_Text
begin

text \<open>
  Upload and download limits: \<^verbatim>\<open>limits.py\<close> (the arithmetic shared by server and client),
  \<^verbatim>\<open>defaults/default_limits.py\<close> (\<open>CoreLimitsPolicy\<close>, \<open>LimitsRejection\<close>), the decision
  types of \<^verbatim>\<open>protocols/limits.py\<close>, and the loading of \<open>LimitsConfig\<close> from the environment in
  \<^verbatim>\<open>config.py\<close>. The environment is a dictionary of texts; \<open>SystemExit\<close> is the left injection.
\<close>

subsection \<open>Decisions and settings\<close>

datatype upload_mode = InlineMode | BatchMode

datatype download_mode = DownloadInline | DownloadReference

datatype limit_error = CapExceeded | BatchRequired

datatype limit_constraint =
  PerFileMax | PerBundleTotalMax | PerBundleFileCountMax | MaxInlineSize

datatype upload_decision =
    Accept upload_mode
  | Reject limit_error limit_constraint "int option" int

record limits_advertisement =
  la_per_file_max :: "int option"
  la_per_bundle_total_max :: "int option"
  la_per_bundle_file_count_max :: "int option"
  la_max_inline_size :: "int option"

record ttl_settings =
  ts_upload_token_ttl :: int
  ts_download_claim_ttl :: int
  ts_passive_gc_min_age :: int
  ts_passive_gc_interval :: int

record limits_config =
  per_file_max :: "int option"
  per_bundle_total_max :: "int option"
  per_bundle_file_count_max :: "int option"
  max_inline_size :: "int option"
  upload_token_ttl :: int
  download_claim_ttl :: int
  passive_gc_min_age :: int
  passive_gc_interval :: int

definition default_limits_config :: limits_config where
  "default_limits_config =
     \<lparr>per_file_max = None, per_bundle_total_max = None, per_bundle_file_count_max = Some 25,
      max_inline_size = Some (100 * 1024), upload_token_ttl = 300, download_claim_ttl = 300,
      passive_gc_min_age = 3600, passive_gc_interval = 600\<rparr>"

definition DEFAULT_PER_FILE_MAX :: int where
  "DEFAULT_PER_FILE_MAX = 100 * 1024 * 1024"

subsection \<open>limits.py\<close>

definition total_size :: "manifest_file list \<Rightarrow> int" where
  "total_size files = sum_list (map mf_size files)"

fun first_oversize :: "int \<Rightarrow> manifest_file list \<Rightarrow> int option" where
  "first_oversize cap [] = None"
| "first_oversize cap (f # fs) = (if mf_size f > cap then Some (mf_size f) else first_oversize cap fs)"

definition exceeds :: "int option \<Rightarrow> int \<Rightarrow> bool" where
  "exceeds cap n = (case cap of None \<Rightarrow> False | Some c \<Rightarrow> n > c)"

definition check_manifest_against_limits ::
    "upload_manifest \<Rightarrow> limits_advertisement \<Rightarrow> upload_decision" where
  "check_manifest_against_limits manifest limits =
     (let files = um_files manifest; file_count = um_file_count manifest;
          count_max = la_per_bundle_file_count_max limits
      in if exceeds count_max file_count
         then Reject CapExceeded PerBundleFileCountMax count_max file_count
         else case (case la_per_file_max limits of None \<Rightarrow> None
                    | Some cap \<Rightarrow> first_oversize cap files) of
           Some sz \<Rightarrow> Reject CapExceeded PerFileMax (la_per_file_max limits) sz
         | None \<Rightarrow>
             let total_sz = total_size files; total_max = la_per_bundle_total_max limits
             in if exceeds total_max total_sz
                then Reject CapExceeded PerBundleTotalMax total_max total_sz
                else case la_max_inline_size limits of
                       None \<Rightarrow> Accept InlineMode
                     | Some inline_max \<Rightarrow>
                         if total_sz \<le> inline_max then Accept InlineMode else Accept BatchMode)"

subsection \<open>defaults/default\_limits.py\<close>

definition show_limit :: "int option \<Rightarrow> str" where
  "show_limit l = (case l of None \<Rightarrow> ''None'' | Some n \<Rightarrow> show_int n)"

definition constraint_name :: "limit_constraint \<Rightarrow> str" where
  "constraint_name c = (case c of
      PerFileMax \<Rightarrow> ''per_file_max''
    | PerBundleTotalMax \<Rightarrow> ''per_bundle_total_max''
    | PerBundleFileCountMax \<Rightarrow> ''per_bundle_file_count_max''
    | MaxInlineSize \<Rightarrow> ''max_inline_size'')"

definition format_reason ::
    "limit_error \<Rightarrow> limit_constraint \<Rightarrow> int option \<Rightarrow> int \<Rightarrow> str option \<Rightarrow> str" where
  "format_reason err constraint limit observed context =
     (if err = BatchRequired
      then ''bundle exceeds max inline size; upload it with the batch URL and token send_init returns''
      else case constraint of
        PerBundleFileCountMax \<Rightarrow>
          ''bundle has '' @ show_int observed @ '' files; per_bundle_file_count_max is '' @ show_limit limit
      | PerBundleTotalMax \<Rightarrow>
          ''sum is '' @ show_int observed @ '' bytes; per_bundle_total_max is '' @ show_limit limit @ '' bytes''
      | PerFileMax \<Rightarrow>
          (case context of None \<Rightarrow> ''file'' | Some w \<Rightarrow> if w = [] then ''file'' else w)
            @ '' is '' @ show_int observed @ '' bytes; per_file_max is '' @ show_limit limit @ '' bytes''
      | _ \<Rightarrow> constraint_name constraint @ '': observed '' @ show_int observed
               @ '', limit '' @ show_limit limit)"

record limits_rejection =
  lr_error :: limit_error
  lr_constraint :: limit_constraint
  lr_limit :: "int option"
  lr_observed :: int
  lr_reason :: str

definition limits_rejection_str :: "limits_rejection \<Rightarrow> str" where
  "limits_rejection_str r =
     (case lr_error r of CapExceeded \<Rightarrow> ''cap_exceeded'' | BatchRequired \<Rightarrow> ''batch_required'')
       @ '': '' @ lr_reason r"

definition advertise_limits :: "limits_config \<Rightarrow> limits_advertisement" where
  "advertise_limits cfg =
     \<lparr>la_per_file_max = per_file_max cfg,
      la_per_bundle_total_max = per_bundle_total_max cfg,
      la_per_bundle_file_count_max = per_bundle_file_count_max cfg,
      la_max_inline_size = max_inline_size cfg\<rparr>"

definition evaluate_upload :: "limits_config \<Rightarrow> upload_manifest \<Rightarrow> upload_decision" where
  "evaluate_upload cfg manifest = check_manifest_against_limits manifest (advertise_limits cfg)"

definition evaluate_download :: "limits_config \<Rightarrow> int \<Rightarrow> download_mode" where
  "evaluate_download cfg total_sz =
     (case max_inline_size cfg of
        None \<Rightarrow> DownloadInline
      | Some inline_max \<Rightarrow> if total_sz \<le> inline_max then DownloadInline else DownloadReference)"

definition ttls :: "limits_config \<Rightarrow> ttl_settings" where
  "ttls cfg =
     \<lparr>ts_upload_token_ttl = upload_token_ttl cfg,
      ts_download_claim_ttl = download_claim_ttl cfg,
      ts_passive_gc_min_age = passive_gc_min_age cfg,
      ts_passive_gc_interval = passive_gc_interval cfg\<rparr>"

definition FEATURES :: "str list" where
  "FEATURES = [''peek'', ''batch_upload'', ''reference_download'', ''rest_send_init'']"

definition advertise_features :: "limits_config \<Rightarrow> str list" where
  "advertise_features cfg = FEATURES"

subsection \<open>Loading LimitsConfig (config.py)\<close>

type_synonym environ = "(str \<times> str) list"

datatype sys_exit = SystemExit int

definition parse_cap :: "str \<Rightarrow> sys_exit + int option" where
  "parse_cap raw =
     (if raw = [] then Inr None
      else case py_int raw of
        None \<Rightarrow> Inl (SystemExit 1)
      | Some v \<Rightarrow> if v < 0 then Inl (SystemExit 1) else Inr (Some v))"

definition parse_ttl :: "str \<Rightarrow> int \<Rightarrow> sys_exit + int" where
  "parse_ttl raw dflt =
     (if raw = [] then Inr dflt
      else case py_int raw of
        None \<Rightarrow> Inl (SystemExit 1)
      | Some v \<Rightarrow> if v \<le> 0 then Inl (SystemExit 1) else Inr v)"

text \<open>One turn of the loops over \<^verbatim>\<open>_CAP_ENV_VARS\<close> and \<^verbatim>\<open>_TTL_ENV_VARS\<close>.\<close>

definition load_cap :: "environ \<Rightarrow> str \<Rightarrow> int option \<Rightarrow> sys_exit + int option" where
  "load_cap env var dflt = (case map_of env var of None \<Rightarrow> Inr dflt | Some raw \<Rightarrow> parse_cap raw)"

definition load_ttl :: "environ \<Rightarrow> str \<Rightarrow> int \<Rightarrow> sys_exit + int" where
  "load_ttl env var dflt = (case map_of env var of None \<Rightarrow> Inr dflt | Some raw \<Rightarrow> parse_ttl raw dflt)"

definition load_limits_config :: "environ \<Rightarrow> sys_exit + limits_config" where
  "load_limits_config env =
     (let d = default_limits_config in
      case load_cap env ''CASSETTA_PER_FILE_MAX'' (per_file_max d) of Inl e \<Rightarrow> Inl e | Inr pf \<Rightarrow>
      (case load_cap env ''CASSETTA_PER_BUNDLE_TOTAL_MAX'' (per_bundle_total_max d) of Inl e \<Rightarrow> Inl e | Inr pt \<Rightarrow>
      (case load_cap env ''CASSETTA_PER_BUNDLE_FILE_COUNT_MAX'' (per_bundle_file_count_max d) of Inl e \<Rightarrow> Inl e | Inr pc \<Rightarrow>
      (case load_cap env ''CASSETTA_MAX_INLINE_SIZE'' (max_inline_size d) of Inl e \<Rightarrow> Inl e | Inr mi \<Rightarrow>
      (case load_ttl env ''CASSETTA_UPLOAD_TOKEN_TTL'' (upload_token_ttl d) of Inl e \<Rightarrow> Inl e | Inr ut \<Rightarrow>
      (case load_ttl env ''CASSETTA_DOWNLOAD_CLAIM_TTL'' (download_claim_ttl d) of Inl e \<Rightarrow> Inl e | Inr dt \<Rightarrow>
      (case load_ttl env ''CASSETTA_PASSIVE_GC_MIN_AGE'' (passive_gc_min_age d) of Inl e \<Rightarrow> Inl e | Inr ga \<Rightarrow>
      (case load_ttl env ''CASSETTA_PASSIVE_GC_INTERVAL'' (passive_gc_interval d) of Inl e \<Rightarrow> Inl e | Inr gi \<Rightarrow>
        Inr \<lparr>per_file_max = pf, per_bundle_total_max = pt, per_bundle_file_count_max = pc,
             max_inline_size = mi, upload_token_ttl = ut, download_claim_ttl = dt,
             passive_gc_min_age = ga, passive_gc_interval = gi\<rparr>))))))))"

subsection \<open>Lemmas\<close>

lemma first_oversize_None: "first_oversize cap fs = None \<longleftrightarrow> (\<forall>f \<in> set fs. mf_size f \<le> cap)"
  by (induction fs) auto

lemma first_oversize_Some:
  "first_oversize cap fs = Some s \<Longrightarrow> cap < s \<and> (\<exists>f \<in> set fs. mf_size f = s)"
  by (induction fs) (auto split: if_splits)

lemma exceeds_simps [simp]: "exceeds None n = False" "exceeds (Some c) n \<longleftrightarrow> c < n"
  by (simp_all add: exceeds_def)

lemma exceedsI: "Some c = cap \<Longrightarrow> c < n \<Longrightarrow> exceeds cap n"
  by auto

lemma check_manifest_Accept:
  "check_manifest_against_limits m l = Accept mode \<longleftrightarrow>
     \<not> exceeds (la_per_bundle_file_count_max l) (um_file_count m)
     \<and> (\<forall>f \<in> set (um_files m). \<not> exceeds (la_per_file_max l) (mf_size f))
     \<and> \<not> exceeds (la_per_bundle_total_max l) (total_size (um_files m))
     \<and> mode = (if exceeds (la_max_inline_size l) (total_size (um_files m))
               then BatchMode else InlineMode)"
proof -
  have no: "(case la_per_file_max l of None \<Rightarrow> None | Some cap \<Rightarrow> first_oversize cap (um_files m)) = None
      \<longleftrightarrow> (\<forall>f \<in> set (um_files m). \<not> exceeds (la_per_file_max l) (mf_size f))"
    by (auto simp: first_oversize_None not_less split: option.splits)
  show ?thesis
    by (cases "la_max_inline_size l")
      (auto simp: check_manifest_against_limits_def Let_def no [symmetric] split: option.splits)
qed

lemma check_manifest_Reject:
  assumes "check_manifest_against_limits m l = Reject err con lim obs"
  shows "err = CapExceeded \<and> exceeds lim obs
    \<and> ((con = PerBundleFileCountMax \<and> lim = la_per_bundle_file_count_max l \<and> obs = um_file_count m)
       \<or> (con = PerFileMax \<and> lim = la_per_file_max l \<and> (\<exists>f \<in> set (um_files m). mf_size f = obs))
       \<or> (con = PerBundleTotalMax \<and> lim = la_per_bundle_total_max l \<and> obs = total_size (um_files m)))"
  using assms
  by (auto simp: check_manifest_against_limits_def Let_def intro: exceedsI
      dest!: first_oversize_Some split: option.splits if_splits)

end
