(* ===== verification/Downloads.thy ===== *)
theory Downloads
  imports Claims_Laws Bundle_Store Tokens Limits
begin

text \<open>
  Reading a bundle: \<^verbatim>\<open>mime.py\<close>, \<^verbatim>\<open>envelopes.py\<close>, \<^verbatim>\<open>defaults/default_transport.py\<close>,
  \<^verbatim>\<open>downloads.py\<close> and the route of \<^verbatim>\<open>routes/download.py\<close>. The table behind
  \<^verbatim>\<open>mimetypes.guess_type\<close> belongs to the host and is an argument, as are the two directions of
  the JWT library and the identifier \<^verbatim>\<open>sign\<close> draws. The clock \<open>t\<close> is in microseconds;
  \<open>epoch t\<close> is \<^verbatim>\<open>int(time.time())\<close>.
\<close>

definition epoch :: "int \<Rightarrow> int" where
  "epoch t = t div 1000000"

subsection \<open>mime.py\<close>

definition DEFAULT_MIME :: str where
  "DEFAULT_MIME = ''application/octet-stream''"

definition infer_mime :: "(str \<Rightarrow> str option) \<Rightarrow> str \<Rightarrow> str" where
  "infer_mime guess name = (case guess name of None \<Rightarrow> DEFAULT_MIME | Some m \<Rightarrow> m)"

definition pick_mime :: "(str \<Rightarrow> str option) \<Rightarrow> str \<Rightarrow> str option \<Rightarrow> str" where
  "pick_mime guess name explicit =
     (case explicit of None \<Rightarrow> infer_mime guess name
      | Some m \<Rightarrow> if m \<noteq> [] then m else infer_mime guess name)"

subsection \<open>Inline envelopes\<close>

text \<open>Well-formed UTF-8, as \<^verbatim>\<open>bytes.decode("utf-8")\<close> accepts it.\<close>

abbreviation cont_byte :: "char \<Rightarrow> bool" where
  "cont_byte c \<equiv> 128 \<le> byte_of c \<and> byte_of c \<le> 191"

function utf8_valid :: "bytes \<Rightarrow> bool" where
  "utf8_valid s =
     (case s of [] \<Rightarrow> True
      | a # r \<Rightarrow>
         let n = byte_of a in
         if n < 128 then utf8_valid r
         else if 194 \<le> n \<and> n \<le> 223 then
           (case r of b # r1 \<Rightarrow> cont_byte b \<and> utf8_valid r1 | _ \<Rightarrow> False)
         else if 224 \<le> n \<and> n \<le> 239 then
           (case r of b # c # r1 \<Rightarrow>
              cont_byte b \<and> cont_byte c \<and> (n = 224 \<longrightarrow> 160 \<le> byte_of b) \<and> (n = 237 \<longrightarrow> byte_of b \<le> 159)
              \<and> utf8_valid r1
            | _ \<Rightarrow> False)
         else if 240 \<le> n \<and> n \<le> 244 then
           (case r of b # c # d # r1 \<Rightarrow>
              cont_byte b \<and> cont_byte c \<and> cont_byte d \<and> (n = 240 \<longrightarrow> 144 \<le> byte_of b)
              \<and> (n = 244 \<longrightarrow> byte_of b \<le> 143) \<and> utf8_valid r1
            | _ \<Rightarrow> False)
         else False)"
  by pat_completeness auto
termination
  by (relation "measure length") auto

declare utf8_valid.simps [simp del]

datatype transfer_encoding = Utf8 | Base64

record inline_file =
  if_name :: str
  if_content :: str
  if_encoding :: transfer_encoding

record inline_envelope =
  ie_bundle :: bundle_meta
  ie_files :: "inline_file list"

definition inline_entry :: "str \<times> bytes \<Rightarrow> inline_file" where
  "inline_entry f =
     (case f of (name, data) \<Rightarrow>
        if utf8_valid data then \<lparr>if_name = name, if_content = data, if_encoding = Utf8\<rparr>
        else \<lparr>if_name = name, if_content = b64encode data, if_encoding = Base64\<rparr>)"

definition build_inline_envelope :: "bundle_meta \<Rightarrow> (str \<times> bytes) list \<Rightarrow> inline_envelope" where
  "build_inline_envelope m file_payloads =
     \<lparr>ie_bundle = m, ie_files = map inline_entry file_payloads\<rparr>"

subsection \<open>Reference envelopes\<close>

record reference_file =
  rf_name :: str
  rf_size :: int
  rf_mime :: str
  rf_url :: str

record reference_envelope =
  re_bundle :: bundle_meta
  re_files :: "reference_file list"
  re_download_token :: str
  re_expires_at :: str

definition build_download_url :: "str \<Rightarrow> str \<Rightarrow> str \<Rightarrow> str \<Rightarrow> str" where
  "build_download_url public_base_url bundle_path name token =
     rstrip (CHR ''/'') public_base_url @ ''/download/'' @ url_quote bundle_path @ ''/'' @ url_quote name"

definition mime_or_default :: "str option \<Rightarrow> str" where
  "mime_or_default m = (case m of None \<Rightarrow> DEFAULT_MIME | Some s \<Rightarrow> if s \<noteq> [] then s else DEFAULT_MIME)"

definition reference_entry :: "(str \<Rightarrow> str \<Rightarrow> str \<Rightarrow> str) \<Rightarrow> str \<Rightarrow> str \<Rightarrow> manifest_file \<Rightarrow> reference_file" where
  "reference_entry transport bundle_path token f =
     \<lparr>rf_name = mf_name f, rf_size = mf_size f, rf_mime = mime_or_default (mf_mime f),
      rf_url = transport bundle_path (mf_name f) token\<rparr>"

definition build_reference_envelope_with_path ::
  "bundle_meta \<Rightarrow> str \<Rightarrow> (str \<Rightarrow> str \<Rightarrow> str \<Rightarrow> str) \<Rightarrow> str \<Rightarrow> str \<Rightarrow> reference_envelope" where
  "build_reference_envelope_with_path m bundle_path transport token expires_at =
     \<lparr>re_bundle = m, re_files = map (reference_entry transport bundle_path token) (bm_files m),
      re_download_token = token, re_expires_at = expires_at\<rparr>"

subsection \<open>downloads.py\<close>

definition download_ttl :: "limits_config \<Rightarrow> int" where
  "download_ttl cfg = ts_download_claim_ttl (ttls cfg)"

definition build_claims :: "str \<Rightarrow> bundle_meta \<Rightarrow> str \<Rightarrow> int \<Rightarrow> int \<Rightarrow> claims" where
  "build_claims bundle_path m recipient ttl_s iat =
     [(''bundle_path'', JStr bundle_path),
      (''bundle_id'', JStr (bm_bundle_id m)),
      (''recipient'', JStr recipient),
      (''file_names'', JArr (map (\<lambda>f. JStr (mf_name f)) (bm_files m))),
      (''iat'', JInt iat), (''nbf'', JInt iat), (''exp'', JInt (iat + ttl_s))]"

text \<open>\<open>peek\<close> is the library's decoding without verification.\<close>

definition extract_jti :: "(str \<Rightarrow> claims) \<Rightarrow> str \<Rightarrow> str" where
  "extract_jti peek token = claim_str (peek token) ''jti''"

definition expires_iso :: "int \<Rightarrow> int \<Rightarrow> str" where
  "expires_iso now_epoch ttl_s = isoformat_z (utcfromtimestamp ((now_epoch + ttl_s) * 1000000))"

text \<open>
  The library as the routes use it. Beside \<open>jwt_laws\<close>, decoding without verification returns
  the claims, and a token, in compact serialisation, has no white space around it.
\<close>

record jwt_lib =
  jl_encode :: jwt_encode
  jl_decode :: jwt_decode
  jl_peek :: "str \<Rightarrow> claims"

definition lib_laws :: "jwt_lib \<Rightarrow> bool" where
  "lib_laws lib \<longleftrightarrow> jwt_laws (jl_encode lib) (jl_decode lib)
     \<and> (\<forall>c k. claims_ok c \<longrightarrow> jl_peek lib (jl_encode lib c k) = c)
     \<and> (\<forall>c k. strip_ws (jl_encode lib c k) = jl_encode lib c k)"

definition build_reference_payload_for_inbox ::
  "jwt_lib \<Rightarrow> str \<Rightarrow> bytes \<Rightarrow> limits_config \<Rightarrow> (str \<Rightarrow> str \<Rightarrow> str \<Rightarrow> str) \<Rightarrow> (str \<Rightarrow> str) \<Rightarrow> str list
   \<Rightarrow> int \<Rightarrow> str \<Rightarrow> bundle_meta \<Rightarrow> str \<Rightarrow> bool \<Rightarrow> fs \<Rightarrow> reference_envelope io" where
  "build_reference_payload_for_inbox lib uuid key cfg transport digest base t bundle_path m recipient write_claim fs =
     (let ttl_s = download_ttl cfg;
          now_epoch = epoch t;
          claims = build_claims bundle_path m recipient ttl_s now_epoch;
          token = sign (jl_encode lib) uuid claims key;
          jti = extract_jti (jl_peek lib) token;
          envelope = build_reference_envelope_with_path m bundle_path transport token (expires_iso now_epoch ttl_s)
      in if write_claim then
           (case issue digest base t
                   \<lparr>cr_schema_version = 1, cr_jti = jti, cr_bundle_path = bundle_path,
                    cr_bundle_id = bm_bundle_id m, cr_recipient = recipient,
                    cr_created_at = isoformat (utcfromtimestamp t), cr_files_fetched = []\<rparr> fs of
              (Inl e, fs') \<Rightarrow> (Inl e, fs')
            | (Inr u, fs') \<Rightarrow> (Inr envelope, fs'))
         else (Inr envelope, fs))"

definition build_reference_payload_for_store ::
  "jwt_lib \<Rightarrow> str \<Rightarrow> bytes \<Rightarrow> limits_config \<Rightarrow> (str \<Rightarrow> str \<Rightarrow> str \<Rightarrow> str)
   \<Rightarrow> int \<Rightarrow> str \<Rightarrow> bundle_meta \<Rightarrow> str \<Rightarrow> reference_envelope" where
  "build_reference_payload_for_store lib uuid key cfg transport t bundle_path m recipient =
     (let ttl_s = download_ttl cfg;
          now_epoch = epoch t;
          claims = build_claims bundle_path m recipient ttl_s now_epoch;
          token = sign (jl_encode lib) uuid claims key
      in build_reference_envelope_with_path m bundle_path transport token (expires_iso now_epoch ttl_s))"

subsection \<open>routes/download.py\<close>

text \<open>A rejection: the status, the reason, and the claim a missing-claim rejection names.\<close>

datatype download_error = DownloadError nat str "str option" | DownloadRaised exc

abbreviation unauth :: "str \<Rightarrow> download_error" where
  "unauth reason \<equiv> DownloadError 401 reason None"

abbreviation not_found :: "str \<Rightarrow> download_error" where
  "not_found reason \<equiv> DownloadError 404 reason None"

fun map_jwt_error :: "token_error \<Rightarrow> download_error" where
  "map_jwt_error TokenExpired = unauth ''expired''"
| "map_jwt_error TokenNotYetValid = unauth ''immature''"
| "map_jwt_error TokenInvalidSignature = unauth ''bad_signature''"
| "map_jwt_error (TokenMissingClaim c) = DownloadError 401 ''missing_claim'' (Some c)"
| "map_jwt_error (RevokedTokenError j) = unauth ''revoked''"
| "map_jwt_error TokenDecodeError = unauth ''invalid''"

definition to_lower :: "str \<Rightarrow> str" where
  "to_lower s = map (\<lambda>c. if 65 \<le> byte_of c \<and> byte_of c \<le> 90 then char_of (byte_of c + 32) else c) s"

text \<open>The token after the scheme, \<open>None\<close> when the header is not a bearer credential.\<close>

definition extract_bearer :: "str \<Rightarrow> str option" where
  "extract_bearer auth =
     (if startswith (to_lower auth) ''bearer '' then Some (strip_ws (tl (dropWhile (\<lambda>c. c \<noteq> CHR '' '') auth)))
      else None)"

definition resolve_identity_label :: "bool \<Rightarrow> str option \<Rightarrow> str option" where
  "resolve_identity_label dev_mode x_sender =
     (if dev_mode then Some ''*''
      else case x_sender of None \<Rightarrow> None | Some s \<Rightarrow> if s \<noteq> [] then Some s else None)"

definition split_raw_path :: "str \<Rightarrow> download_error + str \<times> str" where
  "split_raw_path raw =
     (let raw_str = takeWhile (\<lambda>c. c \<noteq> CHR ''?'') raw in
      if \<not> startswith raw_str ''/download/'' then Inl (not_found ''bundle_gone'')
      else let remainder = drop (length ''/download/'') raw_str in
        if CHR ''/'' \<notin> set remainder then Inl (not_found ''bundle_gone'')
        else let name_enc = rev (takeWhile (\<lambda>c. c \<noteq> CHR ''/'') (rev remainder));
                 path_enc = take (length remainder - length name_enc - 1) remainder
             in Inr (url_unquote path_enc, url_unquote name_enc))"

definition claim_names :: "claims \<Rightarrow> exc + str list" where
  "claim_names c = (if truthy (map_of c ''file_names'') then py_list (the (map_of c ''file_names'')) else Inr [])"

record download_request =
  dr_authorization :: str
  dr_raw_path :: str
  dr_x_sender :: "str option"

text \<open>
  Steps 1 to 5: the credential, the path and the name it covers, and the identity. On
  success, the claims, the bundle path and the file name.
\<close>

definition authorize_download ::
  "jwt_decode \<Rightarrow> (str \<Rightarrow> token_error option) \<Rightarrow> bool \<Rightarrow> int \<Rightarrow> int \<Rightarrow> jwt_slots \<Rightarrow> download_request
   \<Rightarrow> download_error + claims \<times> str \<times> str" where
  "authorize_download decode revocation_check dev_mode now monotonic slots req =
     (case extract_bearer (dr_authorization req) of
        None \<Rightarrow> Inl (unauth ''missing_bearer'')
      | Some token \<Rightarrow>
     (case fst (verify_slots decode revocation_check now monotonic token slots) of
        Inl e \<Rightarrow> Inl (map_jwt_error e)
      | Inr claims \<Rightarrow>
     (case find (\<lambda>k. map_of claims k = None) [''bundle_path'', ''bundle_id'', ''recipient'', ''file_names''] of
        Some k \<Rightarrow> Inl (DownloadError 401 ''missing_claim'' (Some k))
      | None \<Rightarrow>
     (case split_raw_path (dr_raw_path req) of
        Inl e \<Rightarrow> Inl e
      | Inr (decoded_path, decoded_name) \<Rightarrow>
          let claim_bundle_path = py_str (the (map_of claims ''bundle_path'')) in
          if decoded_path \<noteq> claim_bundle_path then Inl (unauth ''bundle_path_mismatch'')
          else case claim_names claims of
            Inl e \<Rightarrow> Inl (DownloadRaised e)
          | Inr names \<Rightarrow>
             if decoded_name \<notin> set names then Inl (unauth ''name_not_in_claim'')
             else case resolve_identity_label dev_mode (dr_x_sender req) of
               None \<Rightarrow> Inl (unauth ''identity_missing'')
             | Some identity_label \<Rightarrow>
                if identity_label \<noteq> ''*'' \<and> identity_label \<noteq> py_str (the (map_of claims ''recipient''))
                then Inl (DownloadError 403 ''identity_mismatch'' None)
                else Inr (claims, claim_bundle_path, decoded_name)))))"

record download_response =
  ds_media_type :: str
  ds_content_length :: int
  ds_body :: bytes

text \<open>Steps 6 and 7: the manifest entry and the bytes.\<close>

definition find_file :: "str \<Rightarrow> manifest_file list \<Rightarrow> manifest_file option" where
  "find_file name files = find (\<lambda>f. mf_name f = name) files"

definition serve_file :: "str list \<Rightarrow> str \<Rightarrow> str \<Rightarrow> fs \<Rightarrow> download_error + bundle_meta \<times> download_response" where
  "serve_file root bundle_path name fs =
     (case read_bundle_meta root bundle_path fs of
        Inl e \<Rightarrow> Inl (if e = FileNotFoundError then not_found ''bundle_gone'' else DownloadRaised e)
      | Inr m \<Rightarrow>
         (case find_file name (bm_files m) of
            None \<Rightarrow> Inl (not_found ''name_not_in_manifest'')
          | Some entry \<Rightarrow>
             (case open_bundle_file_read root bundle_path name fs of
                Inl e \<Rightarrow> Inl (if e = FileNotFoundError then not_found ''bundle_gone'' else DownloadRaised e)
              | Inr data \<Rightarrow>
                 Inr (m, \<lparr>ds_media_type = mime_or_default (mf_mime entry), ds_content_length = mf_size entry,
                          ds_body = data\<rparr>))))"

definition post_stream_claim_accounting ::
  "(str \<Rightarrow> str) \<Rightarrow> str list \<Rightarrow> str list \<Rightarrow> int \<Rightarrow> str \<Rightarrow> str \<Rightarrow> str \<Rightarrow> manifest_file list \<Rightarrow> fs \<Rightarrow> unit io" where
  "post_stream_claim_accounting digest base root t jti bundle_path name manifest_files fs =
     (case get_claim base jti fs of
        Inl e \<Rightarrow> (Inl e, fs)
      | Inr None \<Rightarrow> (Inr (), fs)
      | Inr (Some r) \<Rightarrow>
         (case mark_fetched base t jti name fs of
            (Inl e, fs1) \<Rightarrow> (if e = FileNotFoundError then Inr () else Inl e, fs1)
          | (Inr updated, fs1) \<Rightarrow>
             if set (map mf_name manifest_files) \<subseteq> set (cr_files_fetched updated) then
               (case delete_bundle root t bundle_path fs1 of
                  (Inl e, fs2) \<Rightarrow>
                    if e = FileNotFoundError then delete_claim digest base t jti fs2 else (Inl e, fs2)
                | (Inr u, fs2) \<Rightarrow> delete_claim digest base t jti fs2)
             else (Inr (), fs1)))"

text \<open>
  The whole request. \<open>complete\<close>: the client read the body to its end; otherwise the
  generator stops at a \<open>yield\<close> and the claim is not touched.
\<close>

definition download_file ::
  "jwt_decode \<Rightarrow> (str \<Rightarrow> token_error option) \<Rightarrow> bool \<Rightarrow> (str \<Rightarrow> str) \<Rightarrow> str list \<Rightarrow> str list \<Rightarrow> int \<Rightarrow> int \<Rightarrow> bool
   \<Rightarrow> jwt_slots \<Rightarrow> download_request \<Rightarrow> fs \<Rightarrow> (download_error + download_response) \<times> fs" where
  "download_file decode revocation_check dev_mode digest base root t monotonic complete slots req fs =
     (case authorize_download decode revocation_check dev_mode (epoch t) monotonic slots req of
        Inl e \<Rightarrow> (Inl e, fs)
      | Inr (claims, bundle_path, name) \<Rightarrow>
         (case serve_file root bundle_path name fs of
            Inl e \<Rightarrow> (Inl e, fs)
          | Inr (m, response) \<Rightarrow>
             (Inr response,
              if complete \<and> startswith bundle_path ''inbox/''
              then snd (post_stream_claim_accounting digest base root t (claim_str claims ''jti'')
                          bundle_path name (bm_files m) fs)
              else fs)))"

end
