(* ===== verification/Keystore.thy ===== *)
theory Keystore
  imports Json Timestamps
begin

text \<open>
  API keys: \<^verbatim>\<open>auth/models.py\<close>, \<^verbatim>\<open>backends/filesystem/keystore.py\<close> and the resolution of the
  caller in \<^verbatim>\<open>auth/dependencies.py\<close>. The store keeps its records in memory and rewrites its
  JSON file after each change; the file is the JSON value it holds. The hash of a raw key
  (\<^verbatim>\<open>sha256(...).hexdigest()\<close>) and the random part of a new key (\<^verbatim>\<open>secrets.token_urlsafe\<close>) are
  arguments. An operation returns its result or exception beside the new store.
\<close>

definition KEY_PREFIX :: str where
  "KEY_PREFIX = ''cst_''"

definition KEY_PREFIX_LEN :: nat where
  "KEY_PREFIX_LEN = 8"

record key_record =
  kr_label :: str
  kr_key_hash :: str
  kr_key_prefix :: str
  kr_created_at :: str
  kr_is_active :: bool

text \<open>The creation time of a \<^verbatim>\<open>KeyInfo\<close> is the instant its \<^verbatim>\<open>datetime\<close> denotes.\<close>

record key_info =
  ki_label :: str
  ki_key_prefix :: str
  ki_created_at :: int
  ki_is_active :: bool

record key_store =
  ks_keys :: "key_record list"
  ks_setup_done :: bool
  ks_file :: "json option"

type_synonym 'a ks = "(exc + 'a) \<times> key_store"

subsection \<open>The file\<close>

definition key_json :: "key_record \<Rightarrow> json" where
  "key_json k = JObj
     [(''label'', JStr (kr_label k)), (''key_hash'', JStr (kr_key_hash k)),
      (''key_prefix'', JStr (kr_key_prefix k)), (''created_at'', JStr (kr_created_at k)),
      (''is_active'', JBool (kr_is_active k))]"

definition store_json :: "key_store \<Rightarrow> json" where
  "store_json s = JObj
     [(''setup_done'', JBool (ks_setup_done s)), (''keys'', JArr (map key_json (ks_keys s)))]"

definition save :: "key_store \<Rightarrow> key_store" where
  "save s = s\<lparr>ks_file := Some (store_json s)\<rparr>"

text \<open>\<^verbatim>\<open>KeyRecord(**k)\<close>: every field but \<^verbatim>\<open>is_active\<close> is required and no other is accepted.\<close>

fun key_of_json :: "json \<Rightarrow> exc + key_record" where
  "key_of_json (JObj ms) =
     (if \<not> set (map fst ms) \<subseteq> {''label'', ''key_hash'', ''key_prefix'', ''created_at'', ''is_active''}
      then Inl TypeError
      else case (map_of ms ''label'', map_of ms ''key_hash'', map_of ms ''key_prefix'',
                 map_of ms ''created_at'', map_of ms ''is_active'') of
        (Some (JStr l), Some (JStr h), Some (JStr p), Some (JStr c), None) \<Rightarrow>
          Inr \<lparr>kr_label = l, kr_key_hash = h, kr_key_prefix = p, kr_created_at = c, kr_is_active = True\<rparr>
      | (Some (JStr l), Some (JStr h), Some (JStr p), Some (JStr c), Some (JBool a)) \<Rightarrow>
          Inr \<lparr>kr_label = l, kr_key_hash = h, kr_key_prefix = p, kr_created_at = c, kr_is_active = a\<rparr>
      | _ \<Rightarrow> Inl TypeError)"
| "key_of_json _ = Inl TypeError"

fun keys_of_json :: "json list \<Rightarrow> exc + key_record list" where
  "keys_of_json [] = Inr []"
| "keys_of_json (j # js) =
     (case key_of_json j of Inl e \<Rightarrow> Inl e
      | Inr k \<Rightarrow> (case keys_of_json js of Inl e \<Rightarrow> Inl e | Inr ks \<Rightarrow> Inr (k # ks)))"

text \<open>The constructor: the state is empty when there is no file.\<close>

definition load :: "json option \<Rightarrow> exc + key_store" where
  "load file =
     (case file of
        None \<Rightarrow> Inr \<lparr>ks_keys = [], ks_setup_done = False, ks_file = None\<rparr>
      | Some (JObj ms) \<Rightarrow>
         (case (case map_of ms ''keys'' of None \<Rightarrow> Inr [] | Some (JArr js) \<Rightarrow> keys_of_json js
                | Some _ \<Rightarrow> Inl TypeError) of
            Inl e \<Rightarrow> Inl e
          | Inr ks \<Rightarrow>
             Inr \<lparr>ks_keys = ks, ks_setup_done = (map_of ms ''setup_done'' = Some (JBool True)),
                  ks_file = file\<rparr>)
      | Some _ \<Rightarrow> Inl TypeError)"

subsection \<open>Operations\<close>

definition generate_key :: "str \<Rightarrow> str" where
  "generate_key token = KEY_PREFIX @ token"

definition has_active :: "str \<Rightarrow> key_record list \<Rightarrow> bool" where
  "has_active label ks = list_ex (\<lambda>k. kr_label k = label \<and> kr_is_active k) ks"

definition create_key :: "(str \<Rightarrow> str) \<Rightarrow> str \<Rightarrow> int \<Rightarrow> str \<Rightarrow> key_store \<Rightarrow> (str \<times> key_info) ks" where
  "create_key hash_key token now label s =
     (if has_active label (ks_keys s)
      then (Inl (ValueError (''Key with label '' @ label @ '' already exists'')), s)
      else
        let raw_key = generate_key token;
            record = \<lparr>kr_label = label, kr_key_hash = hash_key raw_key,
                      kr_key_prefix = take (length KEY_PREFIX + KEY_PREFIX_LEN) raw_key,
                      kr_created_at = isoformat (utcfromtimestamp now), kr_is_active = True\<rparr>;
            s' = save (s\<lparr>ks_keys := ks_keys s @ [record]\<rparr>)
        in (Inr (raw_key, \<lparr>ki_label = label, ki_key_prefix = kr_key_prefix record,
                           ki_created_at = now, ki_is_active = True\<rparr>), s'))"

definition setup_first_key :: "(str \<Rightarrow> str) \<Rightarrow> str \<Rightarrow> int \<Rightarrow> str \<Rightarrow> key_store \<Rightarrow> (str \<times> key_info) ks" where
  "setup_first_key hash_key token now label s =
     (if ks_setup_done s then (Inl (ValueError ''Setup already completed''), s)
      else create_key hash_key token now label (s\<lparr>ks_setup_done := True\<rparr>))"

definition info_of :: "key_record \<Rightarrow> exc + key_info" where
  "info_of k =
     (case iso_to_epoch (kr_created_at k) of
        None \<Rightarrow> Inl (ValueError ''Invalid isoformat string'')
      | Some c \<Rightarrow> Inr \<lparr>ki_label = kr_label k, ki_key_prefix = kr_key_prefix k,
                       ki_created_at = c, ki_is_active = kr_is_active k\<rparr>)"

definition validate :: "(str \<Rightarrow> str) \<Rightarrow> str \<Rightarrow> key_store \<Rightarrow> exc + key_info option" where
  "validate hash_key raw_key s =
     (case find (\<lambda>k. kr_key_hash k = hash_key raw_key \<and> kr_is_active k) (ks_keys s) of
        None \<Rightarrow> Inr None
      | Some k \<Rightarrow> (case info_of k of Inl e \<Rightarrow> Inl e | Inr i \<Rightarrow> Inr (Some i)))"

fun infos_of :: "key_record list \<Rightarrow> exc + key_info list" where
  "infos_of [] = Inr []"
| "infos_of (k # ks) =
     (case info_of k of Inl e \<Rightarrow> Inl e
      | Inr i \<Rightarrow> (case infos_of ks of Inl e \<Rightarrow> Inl e | Inr is \<Rightarrow> Inr (i # is)))"

definition list_keys :: "key_store \<Rightarrow> exc + key_info list" where
  "list_keys s = infos_of (ks_keys s)"

text \<open>The loops that deactivate the first active record of a label.\<close>

fun deactivate :: "str \<Rightarrow> key_record list \<Rightarrow> key_record list option" where
  "deactivate label [] = None"
| "deactivate label (k # ks) =
     (if kr_label k = label \<and> kr_is_active k then Some (k\<lparr>kr_is_active := False\<rparr> # ks)
      else map_option (\<lambda>ks'. k # ks') (deactivate label ks))"

definition revoke_key :: "str \<Rightarrow> key_store \<Rightarrow> unit ks" where
  "revoke_key label s =
     (case deactivate label (ks_keys s) of
        None \<Rightarrow> (Inl (KeyError (''Active key with label '' @ label @ '' not found'')), s)
      | Some ks \<Rightarrow> (Inr (), save (s\<lparr>ks_keys := ks\<rparr>)))"

definition rotate_key :: "(str \<Rightarrow> str) \<Rightarrow> str \<Rightarrow> int \<Rightarrow> str \<Rightarrow> key_store \<Rightarrow> (str \<times> key_info) ks" where
  "rotate_key hash_key token now label s =
     (case deactivate label (ks_keys s) of
        None \<Rightarrow> (Inl (KeyError (''Active key with label '' @ label @ '' not found'')), s)
      | Some ks \<Rightarrow> create_key hash_key token now label (s\<lparr>ks_keys := ks\<rparr>))"

subsection \<open>The caller of a request\<close>

text \<open>
  \<^verbatim>\<open>get_current_identity\<close>, with the default identity provider. The opaque \<^verbatim>\<open>extra\<close> of an
  identity is its kind: \<^verbatim>\<open>dev\<close>, \<^verbatim>\<open>operator\<close>, or none for the holder of a key.
\<close>

datatype identity = DevIdentity | OperatorIdentity | KeyIdentity str

fun id_label :: "identity \<Rightarrow> str" where
  "id_label DevIdentity = ''dev''"
| "id_label OperatorIdentity = ''operator''"
| "id_label (KeyIdentity l) = l"

definition resolve_identity :: "key_info \<Rightarrow> identity" where
  "resolve_identity info = KeyIdentity (ki_label info)"

datatype auth_error = Unauthorized | AuthRaised exc

record auth_config =
  ac_dev_mode :: bool
  ac_setup_token :: str

definition get_current_identity ::
  "(str \<Rightarrow> exc + key_info option) \<Rightarrow> auth_config \<Rightarrow> str option \<Rightarrow> str option \<Rightarrow> auth_error + identity" where
  "get_current_identity validate_key cfg x_setup_token credentials =
     (if ac_dev_mode cfg then Inr DevIdentity
      else if x_setup_token = Some (ac_setup_token cfg) then Inr OperatorIdentity
      else case credentials of
        None \<Rightarrow> Inl Unauthorized
      | Some c \<Rightarrow>
         (case validate_key c of
            Inl e \<Rightarrow> Inl (AuthRaised e)
          | Inr (Some info) \<Rightarrow> Inr (resolve_identity info)
          | Inr None \<Rightarrow> Inl Unauthorized))"

subsection \<open>Invariant\<close>

text \<open>At most one active key per label, and every record has a readable creation time.\<close>

definition active_keys :: "key_record list \<Rightarrow> key_record list" where
  "active_keys ks = filter kr_is_active ks"

definition ks_invar :: "key_store \<Rightarrow> bool" where
  "ks_invar s = (distinct (map kr_label (active_keys (ks_keys s)))
     \<and> list_all (\<lambda>k. iso_to_epoch (kr_created_at k) \<noteq> None) (ks_keys s))"

text \<open>The file holds the state in memory.\<close>

definition in_sync :: "key_store \<Rightarrow> bool" where
  "in_sync s = (ks_file s = Some (store_json s))"

lemma has_active_iff: "has_active l ks \<longleftrightarrow> l \<in> kr_label ` set (active_keys ks)"
  by (auto simp: has_active_def list_ex_iff active_keys_def)

lemma deactivate_None: "deactivate l ks = None \<longleftrightarrow> \<not> has_active l ks"
  by (induction ks) (auto simp: has_active_def)

lemma deactivate_active:
  "deactivate l ks = Some ks' \<Longrightarrow> distinct (map kr_label (active_keys ks))
   \<Longrightarrow> active_keys ks' = filter (\<lambda>k. kr_label k \<noteq> l) (active_keys ks)"
proof (induction ks arbitrary: ks')
  case Nil
  then show ?case by simp
next
  case (Cons k ks)
  show ?case
  proof (cases "kr_label k = l \<and> kr_is_active k")
    case True
    then have "l \<notin> kr_label ` set (active_keys ks)" using Cons.prems by (auto simp: active_keys_def)
    then have "filter (\<lambda>k. kr_label k \<noteq> l) (active_keys ks) = active_keys ks"
      by (intro filter_True) auto
    with True Cons.prems show ?thesis by (auto simp: active_keys_def)
  next
    case False
    with Cons show ?thesis by (auto simp: active_keys_def)
  qed
qed

lemma deactivate_created:
  "deactivate l ks = Some ks' \<Longrightarrow> map kr_created_at ks' = map kr_created_at ks"
  by (induction ks arbitrary: ks') (auto split: if_splits)

lemma created_all: "list_all (\<lambda>k. P (kr_created_at k)) ks \<longleftrightarrow> list_all P (map kr_created_at ks)"
  by (simp add: list_all_iff)

lemma load_store_json: "load (Some (store_json s)) = Inr (s\<lparr>ks_file := Some (store_json s)\<rparr>)"
proof -
  have "keys_of_json (map key_json ks) = Inr ks" for ks
    by (induction ks) (auto simp: key_json_def)
  then show ?thesis by (simp add: load_def store_json_def)
qed

subsection \<open>What the operations do\<close>

definition clock_ok :: "int \<Rightarrow> bool" where
  "clock_ok now = valid_datetime (utcfromtimestamp now)"

lemma clock_iso: "clock_ok now \<Longrightarrow> iso_to_epoch (isoformat (utcfromtimestamp now)) \<noteq> None"
  by (simp add: clock_ok_def iso_to_epoch_isoformat)

lemma create_key_Inr:
  assumes "create_key h tok now l s = (Inr (raw, info), s')"
  shows "\<not> has_active l (ks_keys s)" and "raw = generate_key tok" and "ki_label info = l"
    and "in_sync s'" and "ks_setup_done s' = ks_setup_done s"
    and "ks_keys s' = ks_keys s @ [\<lparr>kr_label = l, kr_key_hash = h raw,
          kr_key_prefix = take (length KEY_PREFIX + KEY_PREFIX_LEN) raw,
          kr_created_at = isoformat (utcfromtimestamp now), kr_is_active = True\<rparr>]"
  using assms
  by (auto simp: create_key_def Let_def save_def in_sync_def store_json_def split: if_splits)

lemma create_key_Inl: "create_key h tok now l s = (Inl e, s') \<Longrightarrow> has_active l (ks_keys s) \<and> s' = s"
  by (auto simp: create_key_def Let_def split: if_splits)

lemma create_key_invar:
  assumes "ks_invar s" "clock_ok now"
  shows "ks_invar (snd (create_key h tok now l s))"
  using assms clock_iso [OF assms(2)]
  by (auto simp: create_key_def Let_def ks_invar_def save_def has_active_iff active_keys_def)

lemma deactivate_invar:
  assumes "ks_invar s" "deactivate l (ks_keys s) = Some ks"
  shows "ks_invar (s\<lparr>ks_keys := ks\<rparr>)"
proof -
  have "active_keys ks = filter (\<lambda>k. kr_label k \<noteq> l) (active_keys (ks_keys s))"
    using deactivate_active [OF assms(2)] assms(1) by (simp add: ks_invar_def)
  moreover have "list_all (\<lambda>k. iso_to_epoch (kr_created_at k) \<noteq> None) ks
      = list_all (\<lambda>k. iso_to_epoch (kr_created_at k) \<noteq> None) (ks_keys s)"
    using deactivate_created [OF assms(2)] created_all [of "\<lambda>c. iso_to_epoch c \<noteq> None"] by metis
  ultimately show ?thesis using assms(1) by (simp add: ks_invar_def distinct_map_filter)
qed

lemma ks_invar_save [simp]: "ks_invar (save s) = ks_invar s" "ks_invar (s\<lparr>ks_setup_done := b\<rparr>) = ks_invar s"
  by (simp_all add: ks_invar_def save_def)

lemma revoke_key_invar: "ks_invar s \<Longrightarrow> ks_invar (snd (revoke_key l s))"
  by (auto simp: revoke_key_def deactivate_invar split: option.splits)

lemma rotate_key_invar: "ks_invar s \<Longrightarrow> clock_ok now \<Longrightarrow> ks_invar (snd (rotate_key h tok now l s))"
  by (auto simp: rotate_key_def deactivate_invar create_key_invar split: option.splits)

lemma setup_invar: "ks_invar s \<Longrightarrow> clock_ok now \<Longrightarrow> ks_invar (snd (setup_first_key h tok now l s))"
  by (simp add: setup_first_key_def create_key_invar)

text \<open>Which key a presented credential opens.\<close>

lemma validate_Some:
  assumes "ks_invar s"
  shows "validate h raw s = Inr (Some i) \<Longrightarrow>
      \<exists>k \<in> set (active_keys (ks_keys s)). kr_key_hash k = h raw \<and> kr_label k = ki_label i"
    and "\<exists>r. validate h raw s = Inr r"
    and "validate h raw s = Inr None \<longleftrightarrow> (\<forall>k \<in> set (active_keys (ks_keys s)). kr_key_hash k \<noteq> h raw)"
proof -
  let ?P = "\<lambda>k. kr_key_hash k = h raw \<and> kr_is_active k"
  let ?A = "set (active_keys (ks_keys s))"
  have "(validate h raw s = Inr None \<and> (\<forall>k \<in> ?A. kr_key_hash k \<noteq> h raw))
    \<or> (\<exists>i k. validate h raw s = Inr (Some i) \<and> k \<in> ?A \<and> kr_key_hash k = h raw \<and> kr_label k = ki_label i)"
  proof (cases "find ?P (ks_keys s)")
    case None
    then have "\<forall>k \<in> ?A. kr_key_hash k \<noteq> h raw" by (auto simp: active_keys_def find_None_iff)
    with None show ?thesis by (simp add: validate_def)
  next
    case (Some k)
    then have k: "k \<in> set (ks_keys s)" "?P k" by (auto simp: find_Some_iff)
    then obtain i where "info_of k = Inr i" "ki_label i = kr_label k"
      using assms by (auto simp: ks_invar_def list_all_iff info_of_def)
    with Some k show ?thesis by (auto simp: validate_def active_keys_def)
  qed
  then show "\<exists>r. validate h raw s = Inr r"
    "validate h raw s = Inr (Some i) \<Longrightarrow> \<exists>k \<in> ?A. kr_key_hash k = h raw \<and> kr_label k = ki_label i"
    "validate h raw s = Inr None \<longleftrightarrow> (\<forall>k \<in> ?A. kr_key_hash k \<noteq> h raw)" by auto
qed

lemma validate_unique:
  assumes "ks_invar s" "k \<in> set (active_keys (ks_keys s))" "kr_key_hash k = h raw"
    and "\<forall>k' \<in> set (active_keys (ks_keys s)). kr_key_hash k' = h raw \<longrightarrow> k' = k"
  shows "\<exists>i. validate h raw s = Inr (Some i) \<and> ki_label i = kr_label k"
proof -
  obtain r where r: "validate h raw s = Inr r" using validate_Some(2) [OF assms(1)] by blast
  with validate_Some(3) [OF assms(1), of h raw] assms(2,3) obtain i where "r = Some i" by (cases r) auto
  with r validate_Some(1) [OF assms(1), of h raw i] assms(4) show ?thesis by auto
qed

subsection \<open>Reachable stores\<close>

text \<open>A step runs one operation, whether it succeeds or raises.\<close>

inductive ks_step :: "(str \<Rightarrow> str) \<Rightarrow> key_store \<Rightarrow> key_store \<Rightarrow> bool" for hash_key where
  step_setup: "clock_ok now \<Longrightarrow> ks_step hash_key s (snd (setup_first_key hash_key tok now l s))"
| step_create: "clock_ok now \<Longrightarrow> ks_step hash_key s (snd (create_key hash_key tok now l s))"
| step_revoke: "ks_step hash_key s (snd (revoke_key l s))"
| step_rotate: "clock_ok now \<Longrightarrow> ks_step hash_key s (snd (rotate_key hash_key tok now l s))"

lemma ks_step_invar: "ks_step h s s' \<Longrightarrow> ks_invar s \<Longrightarrow> ks_invar s'"
  by (induction rule: ks_step.induct) (auto intro: setup_invar create_key_invar revoke_key_invar rotate_key_invar)

lemma ks_reachable_invar: "(ks_step h)\<^sup>*\<^sup>* s s' \<Longrightarrow> ks_invar s \<Longrightarrow> ks_invar s'"
  by (induction rule: rtranclp_induct) (auto intro: ks_step_invar)

subsection \<open>The contract\<close>

text \<open>What the authentication of requests relies on: the labels a credential can open.\<close>

locale key_store_contract =
  fixes invar :: "'s \<Rightarrow> bool"
    and opens :: "'s \<Rightarrow> str \<Rightarrow> exc + key_info option"
    and revoke :: "str \<Rightarrow> 's \<Rightarrow> (exc + unit) \<times> 's"
  assumes opens_total: "invar s \<Longrightarrow> \<exists>r. opens s raw = Inr r"
    and revoke_invar: "invar s \<Longrightarrow> invar (snd (revoke l s))"
    and revoke_closes: "invar s \<Longrightarrow> opens (snd (revoke l s)) raw = Inr (Some i) \<Longrightarrow> ki_label i \<noteq> l"
    and revoke_others: "invar s \<Longrightarrow> opens s raw = Inr (Some i) \<Longrightarrow> opens (snd (revoke l s)) raw \<noteq> Inr (Some i)
        \<Longrightarrow> ki_label i = l"
begin

text \<open>After a revocation no bearer credential authenticates as the revoked label.\<close>

lemma revoked_label_rejected:
  assumes "invar s" "\<not> ac_dev_mode cfg"
    and "get_current_identity (opens (snd (revoke l s))) cfg tok cred = Inr (KeyIdentity l')"
  shows "l' \<noteq> l"
proof -
  from assms(2,3) obtain c i where "opens (snd (revoke l s)) c = Inr (Some i)" "l' = ki_label i"
    by (auto simp: get_current_identity_def resolve_identity_def split: if_splits option.splits sum.splits)
  with revoke_closes [OF assms(1)] show ?thesis by blast
qed

lemma no_auth_exception:
  "invar s \<Longrightarrow> get_current_identity (opens s) cfg tok cred \<noteq> Inl (AuthRaised e)"
  using opens_total [of s "the cred"]
  by (auto simp: get_current_identity_def split: if_splits option.splits sum.splits)

end

lemma revoke_active:
  assumes "ks_invar s"
  shows "active_keys (ks_keys (snd (revoke_key l s))) = filter (\<lambda>k. kr_label k \<noteq> l) (active_keys (ks_keys s))"
proof (cases "deactivate l (ks_keys s)")
  case None
  then have "l \<notin> kr_label ` set (active_keys (ks_keys s))" by (simp add: deactivate_None has_active_iff)
  then have "filter (\<lambda>k. kr_label k \<noteq> l) (active_keys (ks_keys s)) = active_keys (ks_keys s)"
    by (intro filter_True) auto
  with None show ?thesis by (simp add: revoke_key_def)
next
  case (Some ks)
  with deactivate_active [OF Some] assms show ?thesis by (simp add: revoke_key_def ks_invar_def save_def)
qed

lemma find_filter_other:
  "find P xs = Some k \<Longrightarrow> Q k \<Longrightarrow> find P (filter Q xs) = Some k"
  by (induction xs) (auto split: if_splits)

lemma find_active: "find (\<lambda>k. P k \<and> kr_is_active k) ks = find P (active_keys ks)"
  by (induction ks) (auto simp: active_keys_def)

lemma validate_by_active:
  "validate h raw s = (case find (\<lambda>k. kr_key_hash k = h raw) (active_keys (ks_keys s)) of
     None \<Rightarrow> Inr None | Some k \<Rightarrow> (case info_of k of Inl e \<Rightarrow> Inl e | Inr i \<Rightarrow> Inr (Some i)))"
  by (simp add: validate_def find_active)

lemma revoke_keeps_others:
  assumes "ks_invar s" "validate h raw s = Inr (Some i)" "ki_label i \<noteq> l"
  shows "validate h raw (snd (revoke_key l s)) = Inr (Some i)"
proof -
  from assms(2) obtain k where k: "find (\<lambda>k. kr_key_hash k = h raw) (active_keys (ks_keys s)) = Some k"
    "info_of k = Inr i"
    by (auto simp: validate_by_active split: option.splits sum.splits)
  have "kr_label k \<noteq> l" using k(2) assms(3) by (auto simp: info_of_def split: option.splits)
  with k(1) have "find (\<lambda>k. kr_key_hash k = h raw) (filter (\<lambda>k. kr_label k \<noteq> l) (active_keys (ks_keys s))) = Some k"
    by (rule find_filter_other)
  with k(2) show ?thesis by (simp add: validate_by_active revoke_active [OF assms(1)])
qed

lemma revoke_no_label:
  "ks_invar s \<Longrightarrow> validate h raw (snd (revoke_key l s)) = Inr (Some i) \<Longrightarrow> ki_label i \<noteq> l"
  using validate_Some(1) [of "snd (revoke_key l s)" h raw i] by (auto simp: revoke_key_invar revoke_active)

interpretation file_keys: key_store_contract ks_invar "\<lambda>s raw. validate h raw s" revoke_key for h
  by unfold_locales (auto simp: validate_Some(2) revoke_key_invar dest: revoke_no_label revoke_keeps_others)

end
