(* ===== verification/Send_Init.thy ===== *)
theory Send_Init
  imports Downloads Keystore
begin

text \<open>
  Phase one of a directed send: \<^verbatim>\<open>send_init.py\<close>, the default alias resolver
  (\<^verbatim>\<open>defaults/default_alias.py\<close>) and the route \<^verbatim>\<open>POST /uploads\<close> of \<^verbatim>\<open>routes/uploads.py\<close>. The
  policies are arguments: the access check and the alias resolver are functions, the limits
  policy is the core one with its settings. The identifiers drawn by \<^verbatim>\<open>uuid4\<close> are arguments
  too. The three kinds of \<^verbatim>\<open>ManifestError\<close> keep what they report instead of their text.
\<close>

record send_manifest =
  sm_files :: "manifest_file list"
  sm_file_count :: "int option"

datatype send_error =
    ManifestMalformed
  | ManifestInvalid manifest_error
  | ManifestBadPath path_error
  | UnknownRecipientError str
  | AccessDenied
  | SendLimits limits_rejection
  | SendRaised exc

record send_result =
  sr_bundle_id :: str
  sr_mode :: upload_mode
  sr_token :: str
  sr_expires_at :: str
  sr_upload_url :: "str option"

subsection \<open>Helpers\<close>

text \<open>The request body is typed, so only the declared count can be wrong.\<close>

definition manifest_from_input :: "send_manifest \<Rightarrow> send_error + upload_manifest" where
  "manifest_from_input raw =
     (let entries = sm_files raw;
          file_count = (case sm_file_count raw of None \<Rightarrow> int (length entries) | Some n \<Rightarrow> n)
      in if file_count \<noteq> int (length entries) then Inl ManifestMalformed
         else Inr \<lparr>um_file_count = file_count, um_files = entries\<rparr>)"

definition enrich_manifest_mimes :: "(str \<Rightarrow> str option) \<Rightarrow> upload_manifest \<Rightarrow> upload_manifest" where
  "enrich_manifest_mimes guess manifest =
     manifest\<lparr>um_files := map (\<lambda>f. f\<lparr>mf_mime := Some (pick_mime guess (mf_name f) (mf_mime f))\<rparr>) (um_files manifest)\<rparr>"

definition recipient_of :: "str \<Rightarrow> str" where
  "recipient_of target = rstrip (CHR ''/'') (removeprefix ''inbox/'' (rstrip (CHR ''/'') target))"

text \<open>\<open>repr\<close> of a text with no control characters.\<close>

definition repr_str :: "str \<Rightarrow> str" where
  "repr_str s =
     (let q = (if CHR 0x27 \<in> set s \<and> CHR 0x22 \<notin> set s then CHR 0x22 else CHR 0x27)
      in q # concat (map (\<lambda>c. if c = q \<or> c = CHR 0x5C then [CHR 0x5C, c] else [c]) s) @ [q])"

definition rejection_context :: "limit_constraint \<Rightarrow> int \<Rightarrow> manifest_file list \<Rightarrow> str option" where
  "rejection_context constraint observed files =
     (if constraint = PerFileMax
      then map_option (\<lambda>f. ''file '' @ repr_str (mf_name f)) (find (\<lambda>f. mf_size f = observed) files)
      else None)"

definition rejection_of :: "limit_error \<Rightarrow> limit_constraint \<Rightarrow> int option \<Rightarrow> int \<Rightarrow> manifest_file list \<Rightarrow> limits_rejection" where
  "rejection_of err constraint limit observed files =
     \<lparr>lr_error = err, lr_constraint = constraint, lr_limit = limit, lr_observed = observed,
      lr_reason = format_reason err constraint limit observed (rejection_context constraint observed files)\<rparr>"

subsection \<open>The default alias resolver\<close>

type_synonym alias_resolver = "str \<Rightarrow> str option \<Rightarrow> exc + str list option"

definition default_alias_resolve :: "key_store \<Rightarrow> alias_resolver" where
  "default_alias_resolve ks name sender_label =
     (if CHR '':'' \<notin> set name then Inr None
      else case list_keys ks of
        Inl e \<Rightarrow> Inl e
      | Inr keys \<Rightarrow>
         if list_ex (\<lambda>k. ki_label k = name \<and> ki_is_active k) keys
         then Inr (Some [''inbox/'' @ name @ ''/'']) else Inr None)"

text \<open>Step 3: the recipient of a send.\<close>

definition resolve_recipient :: "alias_resolver option \<Rightarrow> str \<Rightarrow> str option \<Rightarrow> send_error + str" where
  "resolve_recipient alias_resolver dest sender_label =
     (case alias_resolver of
        None \<Rightarrow> Inr dest
      | Some resolver \<Rightarrow>
         (case resolver dest sender_label of
            Inl e \<Rightarrow> Inl (SendRaised e)
          | Inr None \<Rightarrow> if CHR '':'' \<in> set dest then Inl (UnknownRecipientError dest) else Inr dest
          | Inr (Some targets) \<Rightarrow>
             (let targets' = (case sender_label of
                    Some l \<Rightarrow> if length targets > 1
                              then filter (\<lambda>t. \<not> endswith (rstrip (CHR ''/'') t) l) targets else targets
                  | None \<Rightarrow> targets)
              in case targets' of [] \<Rightarrow> Inl (SendRaised IndexError) | t # ts \<Rightarrow> Inr (recipient_of t))))"

subsection \<open>prepare\_send\_init\<close>

definition manifest_json :: "upload_manifest \<Rightarrow> json" where
  "manifest_json m = JObj [(''file_count'', JInt (um_file_count m)), (''files'', JArr (map file_json (um_files m)))]"

definition mode_name :: "upload_mode \<Rightarrow> str" where
  "mode_name m = (case m of InlineMode \<Rightarrow> ''inline'' | BatchMode \<Rightarrow> ''batch'')"

definition upload_claims ::
  "str \<Rightarrow> str \<Rightarrow> str \<Rightarrow> str \<Rightarrow> upload_mode \<Rightarrow> upload_manifest \<Rightarrow> int \<Rightarrow> int \<Rightarrow> claims" where
  "upload_claims bundle_path bundle_id sender recipient mode manifest now ttl =
     [(''bundle_path'', JStr bundle_path), (''bundle_id'', JStr bundle_id), (''sender'', JStr sender),
      (''recipient'', JStr recipient), (''mode'', JStr (mode_name mode)), (''manifest'', manifest_json manifest),
      (''iat'', JInt now), (''nbf'', JInt now), (''exp'', JInt (now + ttl))]"

definition or_label :: "str option \<Rightarrow> str \<Rightarrow> str" where
  "or_label sender_label label =
     (case sender_label of Some s \<Rightarrow> if s \<noteq> [] then s else label | None \<Rightarrow> label)"

record send_env =
  se_lib :: jwt_lib
  se_guess :: "str \<Rightarrow> str option"
  se_limits :: limits_config
  se_allowed_path_chars :: "str option"
  se_public_base_url :: str
  se_access :: "identity \<Rightarrow> str \<Rightarrow> str \<Rightarrow> bool"
  se_alias :: "alias_resolver option"

definition mint_upload ::
  "send_env \<Rightarrow> str \<Rightarrow> str \<Rightarrow> bytes \<Rightarrow> int \<Rightarrow> str \<Rightarrow> str \<Rightarrow> str \<Rightarrow> upload_mode \<Rightarrow> upload_manifest \<Rightarrow> send_result" where
  "mint_upload env jti bundle_id signing_key t recipient path sender mode parsed =
     (let enriched = enrich_manifest_mimes (se_guess env) parsed;
          bundle_path = ''inbox/'' @ recipient @ ''/'' @ path;
          now = epoch t;
          ttl = ts_upload_token_ttl (ttls (se_limits env));
          token = sign (jl_encode (se_lib env)) jti
                    (upload_claims bundle_path bundle_id sender recipient mode enriched now ttl) signing_key
      in \<lparr>sr_bundle_id = bundle_id, sr_mode = mode, sr_token = token, sr_expires_at = expires_iso now ttl,
          sr_upload_url = (if mode = InlineMode then None
             else Some (rstrip (CHR ''/'') (se_public_base_url env) @ ''/upload/'' @ url_quote bundle_path))\<rparr>)"

definition prepare_send_init ::
  "send_env \<Rightarrow> str \<Rightarrow> str \<Rightarrow> bytes \<Rightarrow> int \<Rightarrow> str \<Rightarrow> str \<Rightarrow> send_manifest \<Rightarrow> identity \<Rightarrow> str option \<Rightarrow> bool
   \<Rightarrow> send_error + send_result" where
  "prepare_send_init env jti bundle_id signing_key t dest path manifest ident sender_label allow_inline =
     (case manifest_from_input manifest of Inl e \<Rightarrow> Inl e | Inr parsed \<Rightarrow>
     (case validate_manifest parsed of Inl e \<Rightarrow> Inl (ManifestInvalid e) | Inr u \<Rightarrow>
     (case validate_path path (se_allowed_path_chars env) of Inl e \<Rightarrow> Inl (ManifestBadPath e) | Inr u \<Rightarrow>
     (case resolve_recipient (se_alias env) dest sender_label of Inl e \<Rightarrow> Inl e | Inr recipient \<Rightarrow>
      if \<not> se_access env ident (''inbox:'' @ recipient) ''write'' then Inl AccessDenied
      else case evaluate_upload (se_limits env) parsed of
        Reject err constraint limit observed \<Rightarrow>
          Inl (SendLimits (rejection_of err constraint limit observed (um_files parsed)))
      | Accept policy_mode \<Rightarrow>
          Inr (mint_upload env jti bundle_id signing_key t recipient path (or_label sender_label (id_label ident))
                 (if allow_inline then policy_mode else BatchMode) parsed)))))"

subsection \<open>POST /uploads\<close>

record upload_session =
  us_bundle_id :: str
  us_upload_url :: str
  us_batch_token :: str
  us_expires_at :: str

datatype session_error = SessionHttp nat send_error

definition create_upload_session ::
  "send_env \<Rightarrow> str \<Rightarrow> str \<Rightarrow> bytes \<Rightarrow> int \<Rightarrow> str \<Rightarrow> str \<Rightarrow> send_manifest \<Rightarrow> identity \<Rightarrow> session_error + upload_session" where
  "create_upload_session env jti bundle_id jwt_primary_key t dest path manifest ident =
     (case prepare_send_init env jti bundle_id jwt_primary_key t dest path manifest ident (Some (id_label ident)) False of
        Inr r \<Rightarrow> Inr \<lparr>us_bundle_id = sr_bundle_id r, us_upload_url = the (sr_upload_url r),
                      us_batch_token = sr_token r, us_expires_at = sr_expires_at r\<rparr>
      | Inl e \<Rightarrow>
         Inl (case e of
             ManifestMalformed \<Rightarrow> SessionHttp 422 e
           | ManifestInvalid m \<Rightarrow> SessionHttp 422 e
           | ManifestBadPath p \<Rightarrow> SessionHttp 422 e
           | UnknownRecipientError n \<Rightarrow> SessionHttp 404 e
           | AccessDenied \<Rightarrow> SessionHttp 403 e
           | SendLimits r \<Rightarrow> SessionHttp (if lr_error r = CapExceeded then 413 else 422) e
           | SendRaised x \<Rightarrow> SessionHttp 500 e))"

end
