(* ===== verification/Inbox.thy ===== *)
theory Inbox
  imports Send_Init
begin

text \<open>
  The inbox routes of \<^verbatim>\<open>routes/inbox.py\<close>: list, peek, read, pick and delete. A handler takes the
  environment of the application, the clock, the caller and the request, and returns the
  response or the error beside the file system. \<^verbatim>\<open>HttpRaised\<close> is an exception no handler
  catches, a 500 for the client.
\<close>

datatype http_error = HttpError nat str | HttpRaised exc

type_synonym 'a http = "(http_error + 'a) \<times> fs"

record route_env =
  rt_root :: "str list"
  rt_claims_base :: "str list"
  rt_digest :: "str \<Rightarrow> str"
  rt_lib :: jwt_lib
  rt_jwt_primary_key :: bytes
  rt_limits :: limits_config
  rt_default_ttl :: int
  rt_public_base_url :: str
  rt_access :: "identity \<Rightarrow> str \<Rightarrow> str \<Rightarrow> bool"

subsection \<open>Helpers\<close>

definition enforce :: "route_env \<Rightarrow> identity \<Rightarrow> str \<Rightarrow> str \<Rightarrow> http_error + unit" where
  "enforce env ident resource action =
     (if \<not> rt_access env ident resource action then Inl (HttpError 403 ''Forbidden'') else Inr ())"

definition is_expired_by_meta :: "int \<Rightarrow> str \<Rightarrow> int \<Rightarrow> exc + bool" where
  "is_expired_by_meta t created_at_iso ttl =
     (if ttl \<le> 0 then Inr False
      else case iso_to_epoch created_at_iso of
        None \<Rightarrow> Inl (ValueError ''Invalid isoformat string'')
      | Some created \<Rightarrow> Inr (t - created > ttl * 1000000))"

definition compute_remaining_ttl :: "int \<Rightarrow> str \<Rightarrow> int \<Rightarrow> exc + int option" where
  "compute_remaining_ttl t created_at_iso ttl =
     (if ttl \<le> 0 then Inr None
      else case iso_to_epoch created_at_iso of
        None \<Rightarrow> Inl (ValueError ''Invalid isoformat string'')
      | Some created \<Rightarrow> Inr (Some (max ((ttl * 1000000 - (t - created)) div 1000000) 0)))"

record inbox_entry =
  ib_path :: str
  ib_bundle_id :: str
  ib_size :: int
  ib_sender :: "str option"
  ib_created_at :: str
  ib_remaining_ttl :: "int option"
  ib_file_count :: int
  ib_schema_version :: int
  ib_files :: "manifest_file list"

definition listing_entry :: "int \<Rightarrow> str \<Rightarrow> bundle_meta \<Rightarrow> int \<Rightarrow> exc + inbox_entry" where
  "listing_entry t path m ttl =
     (case compute_remaining_ttl t (bm_created_at m) ttl of
        Inl e \<Rightarrow> Inl e
      | Inr remaining \<Rightarrow>
         Inr \<lparr>ib_path = path, ib_bundle_id = bm_bundle_id m, ib_size = total_size (bm_files m),
              ib_sender = bm_sender m, ib_created_at = bm_created_at m, ib_remaining_ttl = remaining,
              ib_file_count = bm_file_count m, ib_schema_version = bm_schema_version m, ib_files = bm_files m\<rparr>)"

fun collect_bundle_files :: "str list \<Rightarrow> str \<Rightarrow> manifest_file list \<Rightarrow> fs \<Rightarrow> exc + (str \<times> bytes) list" where
  "collect_bundle_files root bundle_path [] fs = Inr []"
| "collect_bundle_files root bundle_path (f # files) fs =
     (case open_bundle_file_read root bundle_path (mf_name f) fs of
        Inl e \<Rightarrow> Inl e
      | Inr data \<Rightarrow>
         (case collect_bundle_files root bundle_path files fs of
            Inl e \<Rightarrow> Inl e | Inr rest \<Rightarrow> Inr ((mf_name f, data) # rest)))"

definition inbox_path :: "str \<Rightarrow> str \<Rightarrow> str" where
  "inbox_path agent path = ''inbox/'' @ agent @ ''/'' @ path"

text \<open>\<^verbatim>\<open>list.sort(reverse=True)\<close>: descending, equal elements in their order.\<close>

definition sort_desc :: "('a \<Rightarrow> str) \<Rightarrow> 'a list \<Rightarrow> 'a list" where
  "sort_desc key xs = rev (sort_key key (rev xs))"

definition raised :: "str \<Rightarrow> exc \<Rightarrow> http_error" where
  "raised path e = (if e = FileNotFoundError then HttpError 404 (''File not found: '' @ path) else HttpRaised e)"

subsection \<open>GET /inbox/\{agent\}/\<close>

text \<open>A bundle whose manifest cannot be read is skipped, as are hidden and expired ones.\<close>

fun inbox_entries :: "route_env \<Rightarrow> int \<Rightarrow> str \<Rightarrow> (str \<times> str) list \<Rightarrow> bundle_ref list \<Rightarrow> fs \<Rightarrow> exc + inbox_entry list" where
  "inbox_entries env t agent hidden [] fs = Inr []"
| "inbox_entries env t agent hidden (ref # refs) fs =
     (if map_of hidden (br_path ref) \<noteq> None then inbox_entries env t agent hidden refs fs
      else case read_bundle_meta (rt_root env) (br_path ref) fs of
        Inl e \<Rightarrow> if e = FileNotFoundError then inbox_entries env t agent hidden refs fs else Inl e
      | Inr m \<Rightarrow>
         (case is_expired_by_meta t (bm_created_at m) (rt_default_ttl env) of
            Inl e \<Rightarrow> Inl e
          | Inr True \<Rightarrow> inbox_entries env t agent hidden refs fs
          | Inr False \<Rightarrow>
             (case listing_entry t (removeprefix (''inbox/'' @ agent @ ''/'') (br_path ref)) m (rt_default_ttl env) of
                Inl e \<Rightarrow> Inl e
              | Inr entry \<Rightarrow>
                 (case inbox_entries env t agent hidden refs fs of
                    Inl e \<Rightarrow> Inl e | Inr es \<Rightarrow> Inr (entry # es)))))"

definition list_inbox :: "route_env \<Rightarrow> int \<Rightarrow> identity \<Rightarrow> str \<Rightarrow> str \<Rightarrow> fs \<Rightarrow> http_error + inbox_entry list" where
  "list_inbox env t ident agent pre fs =
     (case enforce env ident (''inbox:'' @ agent) ''list'' of Inl e \<Rightarrow> Inl e | Inr u \<Rightarrow>
      (let scan_prefix = ''inbox/'' @ agent @ ''/'' @ pre;
           ttl = ts_download_claim_ttl (ttls (rt_limits env))
       in case iter_active_by_bundle_path (rt_claims_base env) t ttl fs of
            Inl e \<Rightarrow> Inl (HttpRaised e)
          | Inr hidden \<Rightarrow>
             (case inbox_entries env t agent hidden (list_bundles (rt_root env) scan_prefix False fs) fs of
                Inl e \<Rightarrow> Inl (HttpRaised e)
              | Inr entries \<Rightarrow> Inr (sort_desc ib_created_at entries))))"

subsection \<open>Peek\<close>

definition peek_bundle :: "route_env \<Rightarrow> int \<Rightarrow> str \<Rightarrow> str \<Rightarrow> fs \<Rightarrow> http_error + bundle_meta" where
  "peek_bundle env t bundle_path path fs =
     (case read_bundle_meta (rt_root env) bundle_path fs of
        Inl e \<Rightarrow> Inl (raised path e)
      | Inr m \<Rightarrow>
         (case is_expired_by_meta t (bm_created_at m) (rt_default_ttl env) of
            Inl e \<Rightarrow> Inl (HttpRaised e)
          | Inr expired \<Rightarrow> if expired then Inl (HttpError 404 (''File not found: '' @ path)) else Inr m))"

definition peek_inbox_file :: "route_env \<Rightarrow> int \<Rightarrow> identity \<Rightarrow> str \<Rightarrow> str \<Rightarrow> fs \<Rightarrow> http_error + bundle_meta" where
  "peek_inbox_file env t ident agent path fs =
     (case enforce env ident (''inbox:'' @ agent) ''peek'' of Inl e \<Rightarrow> Inl e | Inr u \<Rightarrow>
        peek_bundle env t (inbox_path agent path) path fs)"

subsection \<open>Read\<close>

datatype read_body = InlineBody inline_envelope | ReferenceBody reference_envelope

record read_response =
  rr_body :: read_body
  rr_sender :: str
  rr_file_count :: int
  rr_path :: "str option"

definition sender_header :: "bundle_meta \<Rightarrow> str" where
  "sender_header m = (case bm_sender m of None \<Rightarrow> [] | Some s \<Rightarrow> s)"

text \<open>The manifest of a bundle that is present and not expired; an expired one is deleted.\<close>

definition live_meta :: "route_env \<Rightarrow> int \<Rightarrow> str \<Rightarrow> str \<Rightarrow> fs \<Rightarrow> bundle_meta http" where
  "live_meta env t bundle_path path fs =
     (case read_bundle_meta (rt_root env) bundle_path fs of
        Inl e \<Rightarrow> (Inl (raised path e), fs)
      | Inr m \<Rightarrow>
         (case is_expired_by_meta t (bm_created_at m) (rt_default_ttl env) of
            Inl e \<Rightarrow> (Inl (HttpRaised e), fs)
          | Inr False \<Rightarrow> (Inr m, fs)
          | Inr True \<Rightarrow>
             (case delete_bundle (rt_root env) t bundle_path fs of
                (Inl e, fs') \<Rightarrow>
                  (Inl (if e = FileNotFoundError then HttpError 404 (''File not found: '' @ path) else HttpRaised e), fs')
              | (Inr u, fs') \<Rightarrow> (Inl (HttpError 404 (''File not found: '' @ path)), fs'))))"

definition inbox_reference ::
  "route_env \<Rightarrow> str \<Rightarrow> int \<Rightarrow> str \<Rightarrow> bundle_meta \<Rightarrow> str \<Rightarrow> bool \<Rightarrow> fs \<Rightarrow> reference_envelope io" where
  "inbox_reference env uuid t bundle_path m agent write_claim fs =
     build_reference_payload_for_inbox (rt_lib env) uuid (rt_jwt_primary_key env) (rt_limits env)
       (build_download_url (rt_public_base_url env)) (rt_digest env) (rt_claims_base env)
       t bundle_path m agent write_claim fs"

definition get_inbox_file ::
  "route_env \<Rightarrow> str \<Rightarrow> int \<Rightarrow> identity \<Rightarrow> str \<Rightarrow> str \<Rightarrow> fs \<Rightarrow> read_response http" where
  "get_inbox_file env uuid t ident agent path fs =
     (case enforce env ident (''inbox:'' @ agent) ''read'' of Inl e \<Rightarrow> (Inl e, fs) | Inr u \<Rightarrow>
      (let bundle_path = inbox_path agent path in
       case live_meta env t bundle_path path fs of
         (Inl e, fs1) \<Rightarrow> (Inl e, fs1)
       | (Inr m, fs1) \<Rightarrow>
          (case evaluate_download (rt_limits env) (total_size (bm_files m)) of
             DownloadReference \<Rightarrow>
               (case inbox_reference env uuid t bundle_path m agent False fs1 of
                  (Inl e, fs2) \<Rightarrow> (Inl (HttpRaised e), fs2)
                | (Inr r, fs2) \<Rightarrow>
                   (Inr \<lparr>rr_body = ReferenceBody r, rr_sender = sender_header m,
                         rr_file_count = bm_file_count m, rr_path = None\<rparr>, fs2))
           | DownloadInline \<Rightarrow>
               (case collect_bundle_files (rt_root env) bundle_path (bm_files m) fs1 of
                  Inl e \<Rightarrow> (Inl (HttpRaised e), fs1)
                | Inr payloads \<Rightarrow>
                   (Inr \<lparr>rr_body = InlineBody (build_inline_envelope m payloads), rr_sender = sender_header m,
                         rr_file_count = bm_file_count m, rr_path = None\<rparr>, fs1)))))"

subsection \<open>Pick\<close>

text \<open>The newest bundle of an inbox: its path and manifest.\<close>

fun newest_bundle ::
  "route_env \<Rightarrow> int \<Rightarrow> bundle_ref list \<Rightarrow> str \<Rightarrow> (str \<times> bundle_meta) option \<Rightarrow> fs \<Rightarrow> exc + (str \<times> bundle_meta) option" where
  "newest_bundle env t [] newest_time newest fs = Inr newest"
| "newest_bundle env t (ref # refs) newest_time newest fs =
     (case read_bundle_meta (rt_root env) (br_path ref) fs of
        Inl e \<Rightarrow> if e = FileNotFoundError then newest_bundle env t refs newest_time newest fs else Inl e
      | Inr m \<Rightarrow>
         (case is_expired_by_meta t (bm_created_at m) (rt_default_ttl env) of
            Inl e \<Rightarrow> Inl e
          | Inr expired \<Rightarrow>
             if expired then newest_bundle env t refs newest_time newest fs
             else if bm_created_at m > newest_time
             then newest_bundle env t refs (bm_created_at m) (Some (br_path ref, m)) fs
             else newest_bundle env t refs newest_time newest fs))"

definition select_pick :: "route_env \<Rightarrow> int \<Rightarrow> str \<Rightarrow> str \<Rightarrow> fs \<Rightarrow> (str \<times> bundle_meta) http" where
  "select_pick env t agent path fs =
     (if path = ''latest'' then
        (case newest_bundle env t (list_bundles (rt_root env) (''inbox/'' @ agent @ ''/'') False fs) [] None fs of
           Inl e \<Rightarrow> (Inl (HttpRaised e), fs)
         | Inr None \<Rightarrow> (Inl (HttpError 404 ''No files in inbox''), fs)
         | Inr (Some pm) \<Rightarrow> (Inr pm, fs))
      else
        (case live_meta env t (inbox_path agent path) path fs of
           (Inl e, fs') \<Rightarrow> (Inl e, fs')
         | (Inr m, fs') \<Rightarrow> (Inr (inbox_path agent path, m), fs')))"

definition pick_inbox_file ::
  "route_env \<Rightarrow> str \<Rightarrow> int \<Rightarrow> identity \<Rightarrow> str \<Rightarrow> str \<Rightarrow> fs \<Rightarrow> read_response http" where
  "pick_inbox_file env uuid t ident agent path fs =
     (case enforce env ident (''inbox:'' @ agent) ''pick'' of Inl e \<Rightarrow> (Inl e, fs) | Inr u \<Rightarrow>
     (case select_pick env t agent path fs of
        (Inl e, fs1) \<Rightarrow> (Inl e, fs1)
      | (Inr (bundle_path, m), fs1) \<Rightarrow>
         (let actual_path = (if path = ''latest'' then removeprefix (''inbox/'' @ agent @ ''/'') bundle_path else path) in
          case evaluate_download (rt_limits env) (total_size (bm_files m)) of
            DownloadReference \<Rightarrow>
              (case inbox_reference env uuid t bundle_path m agent True fs1 of
                 (Inl e, fs2) \<Rightarrow>
                   (Inl (case e of BundleClaimedError p \<Rightarrow> HttpError 404 (''File not found: '' @ path)
                         | _ \<Rightarrow> HttpRaised e), fs2)
               | (Inr r, fs2) \<Rightarrow>
                  (Inr \<lparr>rr_body = ReferenceBody r, rr_sender = sender_header m,
                        rr_file_count = bm_file_count m, rr_path = Some actual_path\<rparr>, fs2))
          | DownloadInline \<Rightarrow>
              (case collect_bundle_files (rt_root env) bundle_path (bm_files m) fs1 of
                 Inl e \<Rightarrow> (Inl (HttpRaised e), fs1)
               | Inr payloads \<Rightarrow>
                  (case delete_bundle (rt_root env) t bundle_path fs1 of
                     (Inl e, fs2) \<Rightarrow>
                       if e = FileNotFoundError
                       then (Inr \<lparr>rr_body = InlineBody (build_inline_envelope m payloads), rr_sender = sender_header m,
                                  rr_file_count = bm_file_count m, rr_path = Some actual_path\<rparr>, fs2)
                       else (Inl (HttpRaised e), fs2)
                   | (Inr u, fs2) \<Rightarrow>
                      (Inr \<lparr>rr_body = InlineBody (build_inline_envelope m payloads), rr_sender = sender_header m,
                            rr_file_count = bm_file_count m, rr_path = Some actual_path\<rparr>, fs2))))))"

subsection \<open>Delete\<close>

definition delete_inbox_file :: "route_env \<Rightarrow> int \<Rightarrow> identity \<Rightarrow> str \<Rightarrow> str \<Rightarrow> fs \<Rightarrow> unit http" where
  "delete_inbox_file env t ident agent path fs =
     (case enforce env ident (''inbox:'' @ agent) ''delete'' of Inl e \<Rightarrow> (Inl e, fs) | Inr u \<Rightarrow>
     (case delete_bundle (rt_root env) t (inbox_path agent path) fs of
        (Inl e, fs') \<Rightarrow> (Inl (raised path e), fs')
      | (Inr u, fs') \<Rightarrow> (Inr (), fs')))"

end
