(* ===== verification/Files.thy ===== *)
theory Files
  imports Inbox
begin

text \<open>
  The store routes of \<^verbatim>\<open>routes/files.py\<close>: put, list, peek, read and delete under \<^verbatim>\<open>store/\<close>. Its
  private helpers repeat those of the inbox routes and are the same definitions here.
\<close>

definition RESERVED_PREFIXES :: "str list" where
  "RESERVED_PREFIXES = [''inbox/'', ''store/'']"

definition store_path :: "str \<Rightarrow> str" where
  "store_path path = ''store/'' @ path"

datatype upload_body =
    MultipartBody "(str \<times> bytes \<times> str option) list"
  | RawBody bytes

datatype store_error =
    StoreHttp http_error
  | StoreLimits limits_rejection
  | StoreConflict str conflict_kind

type_synonym file_part = "str \<times> bytes \<times> str option"

text \<open>A part of a multipart form counts when it is a file with a name.\<close>

definition body_parts :: "str \<Rightarrow> upload_body \<Rightarrow> file_part list" where
  "body_parts path body =
     (case body of
        MultipartBody parts \<Rightarrow>
          map (\<lambda>(n, d, ct). (n, d, if ct = Some [] then None else ct)) (filter (\<lambda>(n, d, ct). n \<noteq> []) parts)
      | RawBody content \<Rightarrow> [(last (split_on (CHR ''/'') path), content, None)])"

definition part_entry :: "file_part \<Rightarrow> manifest_file" where
  "part_entry p = (case p of (n, d, ct) \<Rightarrow> \<lparr>mf_name = n, mf_size = int (length d), mf_mime = ct\<rparr>)"

definition evaluate_or_raise :: "limits_config \<Rightarrow> file_part list \<Rightarrow> limits_rejection + unit" where
  "evaluate_or_raise cfg file_parts =
     (let entries = map part_entry file_parts;
          manifest = \<lparr>um_file_count = int (length entries), um_files = entries\<rparr>
      in case evaluate_upload cfg manifest of
           Reject err constraint limit observed \<Rightarrow> Inl (rejection_of err constraint limit observed entries)
         | Accept mode \<Rightarrow>
            if mode \<noteq> InlineMode
            then Inl (rejection_of BatchRequired MaxInlineSize (la_max_inline_size (advertise_limits cfg))
                        (total_size entries) [])
            else Inr ())"

subsection \<open>PUT /files/\{path\}\<close>

definition store_meta :: "(str \<Rightarrow> str option) \<Rightarrow> int \<Rightarrow> str \<Rightarrow> file_part list \<Rightarrow> bundle_meta" where
  "store_meta guess t bundle_id files =
     (let records = map (\<lambda>(n, d, ct). \<lparr>mf_name = n, mf_size = int (length d), mf_mime = Some (pick_mime guess n ct)\<rparr>) files
      in \<lparr>bm_schema_version = 1, bm_bundle_id = bundle_id, bm_sender = None,
          bm_created_at = isoformat (utcfromtimestamp t), bm_content_type = ''application/octet-stream'',
          bm_file_count = int (length records), bm_files = records\<rparr>)"

definition write_store_bundle ::
  "(str \<Rightarrow> str option) \<Rightarrow> str list \<Rightarrow> int \<Rightarrow> str \<Rightarrow> file_part list \<Rightarrow> str \<Rightarrow> fs \<Rightarrow> bundle_meta io" where
  "write_store_bundle guess root t bundle_path files bundle_id fs =
     (case open_bundle_write root t bundle_path fs of
        (Inl e, fs1) \<Rightarrow> (Inl e, fs1)
      | (Inr w, fs1) \<Rightarrow>
         (case write_files t (map (\<lambda>(n, d, ct). (n, d)) files) w fs1 of
            (Inl e, fs2) \<Rightarrow> (Inl e, abort t w fs2)
          | (Inr w2, fs2) \<Rightarrow>
             (let m = store_meta guess t bundle_id files in
              case commit t m w2 fs2 of
                (Inl e, fs3) \<Rightarrow> (Inl e, abort t w2 fs3)
              | (Inr w3, fs3) \<Rightarrow> (Inr m, fs3))))"

record file_metadata =
  fm_status :: nat
  fm_path :: str
  fm_size :: int

definition upload_file ::
  "route_env \<Rightarrow> (str \<Rightarrow> str option) \<Rightarrow> str option \<Rightarrow> str \<Rightarrow> int \<Rightarrow> identity \<Rightarrow> str \<Rightarrow> upload_body \<Rightarrow> fs
   \<Rightarrow> (store_error + file_metadata) \<times> fs" where
  "upload_file env guess allowed_path_chars bundle_id t ident path body fs =
     (case validate_path path allowed_path_chars of
        Inl e \<Rightarrow> (Inl (StoreHttp (HttpError 400 ''invalid path'')), fs)
      | Inr u \<Rightarrow>
     if list_ex (\<lambda>p. startswith path p) RESERVED_PREFIXES
     then (Inl (StoreHttp (HttpError 400 ''Reserved path prefix'')), fs)
     else
     (case enforce env ident (''files:'' @ path) ''write'' of Inl e \<Rightarrow> (Inl (StoreHttp e), fs) | Inr u \<Rightarrow>
      (let file_parts = body_parts path body in
       if file_parts = [] then (Inl (StoreHttp (HttpError 400 ''No files found in multipart request'')), fs)
       else
       (case evaluate_or_raise (rt_limits env) file_parts of
          Inl r \<Rightarrow> (Inl (StoreLimits r), fs)
        | Inr u \<Rightarrow>
           (case read_bundle_meta (rt_root env) (store_path path) fs of
              Inl e \<Rightarrow>
                if e = FileNotFoundError then
                  (case write_store_bundle guess (rt_root env) t (store_path path) file_parts bundle_id fs of
                     (Inl (BundlePathConflictError p k), fs') \<Rightarrow> (Inl (StoreConflict p k), fs')
                   | (Inl e, fs') \<Rightarrow> (Inl (StoreHttp (HttpRaised e)), fs')
                   | (Inr m, fs') \<Rightarrow>
                      (Inr \<lparr>fm_status = 201, fm_path = path, fm_size = total_size (map part_entry file_parts)\<rparr>, fs'))
                else (Inl (StoreHttp (HttpRaised e)), fs)
            | Inr old \<Rightarrow>
               (case delete_bundle (rt_root env) t (store_path path) fs of
                  (r, fs1) \<Rightarrow>
                    if r \<noteq> Inr () \<and> r \<noteq> Inl FileNotFoundError
                    then (Inl (StoreHttp (HttpRaised (projl r))), fs1)
                    else
                  (case write_store_bundle guess (rt_root env) t (store_path path) file_parts bundle_id fs1 of
                     (Inl (BundlePathConflictError p k), fs') \<Rightarrow> (Inl (StoreConflict p k), fs')
                   | (Inl e, fs') \<Rightarrow> (Inl (StoreHttp (HttpRaised e)), fs')
                   | (Inr m, fs') \<Rightarrow>
                      (Inr \<lparr>fm_status = 200, fm_path = path, fm_size = total_size (map part_entry file_parts)\<rparr>, fs'))))))))"

subsection \<open>GET /files/\<close>

record file_listing =
  fl_path :: str
  fl_size :: int
  fl_created_at :: int
  fl_remaining_ttl :: "int option"
  fl_file_count :: int
  fl_bundle_id :: str
  fl_files :: "manifest_file list"

fun store_entries :: "route_env \<Rightarrow> int \<Rightarrow> bundle_ref list \<Rightarrow> fs \<Rightarrow> exc + file_listing list" where
  "store_entries env t [] fs = Inr []"
| "store_entries env t (ref # refs) fs =
     (case read_bundle_meta (rt_root env) (br_path ref) fs of
        Inl e \<Rightarrow> if e = FileNotFoundError then store_entries env t refs fs else Inl e
      | Inr m \<Rightarrow>
         (case is_expired_by_meta t (bm_created_at m) (rt_default_ttl env) of
            Inl e \<Rightarrow> Inl e
          | Inr True \<Rightarrow> store_entries env t refs fs
          | Inr False \<Rightarrow>
             (case (iso_to_epoch (bm_created_at m), compute_remaining_ttl t (bm_created_at m) (rt_default_ttl env)) of
                (Some created, Inr remaining) \<Rightarrow>
                  (case store_entries env t refs fs of
                     Inl e \<Rightarrow> Inl e
                   | Inr es \<Rightarrow>
                      Inr (\<lparr>fl_path = removeprefix ''store/'' (br_path ref), fl_size = total_size (bm_files m),
                            fl_created_at = created, fl_remaining_ttl = remaining, fl_file_count = bm_file_count m,
                            fl_bundle_id = bm_bundle_id m, fl_files = bm_files m\<rparr> # es))
              | _ \<Rightarrow> Inl (ValueError ''Invalid isoformat string''))))"

definition list_files :: "route_env \<Rightarrow> int \<Rightarrow> identity \<Rightarrow> str \<Rightarrow> fs \<Rightarrow> http_error + file_listing list" where
  "list_files env t ident pre fs =
     (case enforce env ident ''files:*'' ''list'' of Inl e \<Rightarrow> Inl e | Inr u \<Rightarrow>
     (case store_entries env t (list_bundles (rt_root env) (''store/'' @ lstrip (CHR ''/'') pre) False fs) fs of
        Inl e \<Rightarrow> Inl (HttpRaised e)
      | Inr es \<Rightarrow> Inr es))"

subsection \<open>Peek, read and delete\<close>

definition validated :: "str \<Rightarrow> http_error + unit" where
  "validated path = (case validate_path path None of Inl e \<Rightarrow> Inl (HttpError 400 ''invalid path'') | Inr u \<Rightarrow> Inr ())"

definition peek_store_file :: "route_env \<Rightarrow> int \<Rightarrow> identity \<Rightarrow> str \<Rightarrow> fs \<Rightarrow> http_error + bundle_meta" where
  "peek_store_file env t ident path fs =
     (case validated path of Inl e \<Rightarrow> Inl e | Inr u \<Rightarrow>
     (case enforce env ident (''files:'' @ path) ''peek'' of Inl e \<Rightarrow> Inl e | Inr u \<Rightarrow>
        peek_bundle env t (store_path path) path fs))"

definition get_store_file ::
  "route_env \<Rightarrow> str \<Rightarrow> int \<Rightarrow> identity \<Rightarrow> str \<Rightarrow> fs \<Rightarrow> read_response http" where
  "get_store_file env uuid t ident path fs =
     (case validated path of Inl e \<Rightarrow> (Inl e, fs) | Inr u \<Rightarrow>
     (case enforce env ident (''files:'' @ path) ''read'' of Inl e \<Rightarrow> (Inl e, fs) | Inr u \<Rightarrow>
     (case live_meta env t (store_path path) path fs of
        (Inl e, fs1) \<Rightarrow> (Inl e, fs1)
      | (Inr m, fs1) \<Rightarrow>
         (case evaluate_download (rt_limits env) (total_size (bm_files m)) of
            DownloadReference \<Rightarrow>
              (Inr \<lparr>rr_body = ReferenceBody
                     (build_reference_payload_for_store (rt_lib env) uuid (rt_jwt_primary_key env) (rt_limits env)
                        (build_download_url (rt_public_base_url env)) t (store_path path) m (id_label ident)),
                    rr_sender = [], rr_file_count = bm_file_count m, rr_path = None\<rparr>, fs1)
          | DownloadInline \<Rightarrow>
              (case collect_bundle_files (rt_root env) (store_path path) (bm_files m) fs1 of
                 Inl e \<Rightarrow> (Inl (HttpRaised e), fs1)
               | Inr payloads \<Rightarrow>
                  (Inr \<lparr>rr_body = InlineBody (build_inline_envelope m payloads), rr_sender = [],
                        rr_file_count = bm_file_count m, rr_path = None\<rparr>, fs1))))))"

definition delete_file :: "route_env \<Rightarrow> int \<Rightarrow> identity \<Rightarrow> str \<Rightarrow> fs \<Rightarrow> str http" where
  "delete_file env t ident path fs =
     (case validated path of Inl e \<Rightarrow> (Inl e, fs) | Inr u \<Rightarrow>
     (case enforce env ident (''files:'' @ path) ''delete'' of Inl e \<Rightarrow> (Inl e, fs) | Inr u \<Rightarrow>
     (case delete_bundle (rt_root env) t (store_path path) fs of
        (Inl e, fs') \<Rightarrow> (Inl (raised path e), fs')
      | (Inr u, fs') \<Rightarrow> (Inr path, fs'))))"

end
