(* ===== verification/Claims_Race.thy ===== *)
theory Claims_Race
  imports Claims_Laws
begin

text \<open>
  Concurrent issuers. Several workers run \<^verbatim>\<open>issue\<close> on one store, each for its own claim; the
  file system serialises their two exclusive creations, in any order. A state is the program
  counter of every worker and the file system; \<open>issue_step\<close> lets one worker make one
  creation. The invariants are proved by rule induction over the reachable states.
\<close>

datatype issue_pc = Starting | Locked | Issued | Refused exc

definition holds :: "issue_pc \<Rightarrow> bool" where
  "holds pc = (pc = Locked \<or> pc = Issued)"

lemma holds_simps [simp]: "\<not> holds Starting" "holds Locked" "holds Issued" "\<not> holds (Refused e)"
  by (auto simp: holds_def)

inductive issue_step :: "(str \<Rightarrow> str) \<Rightarrow> str list \<Rightarrow> claim_record list \<Rightarrow> issue_pc list \<times> fs \<Rightarrow> issue_pc list \<times> fs \<Rightarrow> bool"
  for digest base cs where
  lock_won: "\<lbrakk>i < length cs; pcs ! i = Starting; issue_lock digest base t (cs ! i) fs = (Inr u, fs')\<rbrakk>
    \<Longrightarrow> issue_step digest base cs (pcs, fs) (pcs[i := Locked], fs')"
| lock_lost: "\<lbrakk>i < length cs; pcs ! i = Starting; issue_lock digest base t (cs ! i) fs = (Inl e, fs')\<rbrakk>
    \<Longrightarrow> issue_step digest base cs (pcs, fs) (pcs[i := Refused e], fs')"
| sidecar_won: "\<lbrakk>i < length cs; pcs ! i = Locked; issue_sidecar digest base t (cs ! i) fs = (Inr u, fs')\<rbrakk>
    \<Longrightarrow> issue_step digest base cs (pcs, fs) (pcs[i := Issued], fs')"
| sidecar_lost: "\<lbrakk>i < length cs; pcs ! i = Locked; issue_sidecar digest base t (cs ! i) fs = (Inl e, fs')\<rbrakk>
    \<Longrightarrow> issue_step digest base cs (pcs, fs) (pcs[i := Refused e], fs')"

inductive_cases issue_stepE: "issue_step digest base cs (pcs, fs) (pcs', fs')"

abbreviation lock_file :: "(str \<Rightarrow> str) \<Rightarrow> str list \<Rightarrow> claim_record \<Rightarrow> fpath" where
  "lock_file digest base c \<equiv> base @ [lock_name digest (cr_bundle_path c)]"

abbreviation sidecar_file :: "str list \<Rightarrow> claim_record \<Rightarrow> fpath" where
  "sidecar_file base c \<equiv> base @ [cr_jti c @ ''.json'']"

definition race_inv :: "(str \<Rightarrow> str) \<Rightarrow> str list \<Rightarrow> claim_record list \<Rightarrow> issue_pc list \<Rightarrow> fs \<Rightarrow> bool" where
  "race_inv digest base cs pcs fs \<longleftrightarrow> length pcs = length cs \<and> claims_invar digest base fs
     \<and> (\<forall>i < length cs. holds (pcs ! i) \<longrightarrow> entry_at fs (lock_file digest base (cs ! i)) = Some (F (cr_jti (cs ! i))))
     \<and> (\<forall>i < length cs. \<forall>j < length cs. holds (pcs ! i) \<longrightarrow> holds (pcs ! j) \<longrightarrow> i \<noteq> j
          \<longrightarrow> lock_name digest (cr_bundle_path (cs ! i)) \<noteq> lock_name digest (cr_bundle_path (cs ! j)))
     \<and> (\<forall>i < length cs. pcs ! i = Issued \<longrightarrow> entry_at fs (sidecar_file base (cs ! i)) = Some (F (claim_bytes (cs ! i))))"

lemma race_invI:
  assumes "length pcs = length cs" "claims_invar digest base fs"
    "\<And>i. i < length cs \<Longrightarrow> holds (pcs ! i) \<Longrightarrow> entry_at fs (lock_file digest base (cs ! i)) = Some (F (cr_jti (cs ! i)))"
    "\<And>i j. i < length cs \<Longrightarrow> j < length cs \<Longrightarrow> holds (pcs ! i) \<Longrightarrow> holds (pcs ! j) \<Longrightarrow> i \<noteq> j
       \<Longrightarrow> lock_name digest (cr_bundle_path (cs ! i)) \<noteq> lock_name digest (cr_bundle_path (cs ! j))"
    "\<And>i. i < length cs \<Longrightarrow> pcs ! i = Issued \<Longrightarrow> entry_at fs (sidecar_file base (cs ! i)) = Some (F (claim_bytes (cs ! i)))"
  shows "race_inv digest base cs pcs fs"
  using assms by (simp add: race_inv_def)

lemma race_invD:
  assumes "race_inv digest base cs pcs fs"
  shows "length pcs = length cs" "claims_invar digest base fs"
    "i < length cs \<Longrightarrow> holds (pcs ! i) \<Longrightarrow> entry_at fs (lock_file digest base (cs ! i)) = Some (F (cr_jti (cs ! i)))"
    "i < length cs \<Longrightarrow> j < length cs \<Longrightarrow> holds (pcs ! i) \<Longrightarrow> holds (pcs ! j) \<Longrightarrow> i \<noteq> j
       \<Longrightarrow> lock_name digest (cr_bundle_path (cs ! i)) \<noteq> lock_name digest (cr_bundle_path (cs ! j))"
    "i < length cs \<Longrightarrow> pcs ! i = Issued \<Longrightarrow> entry_at fs (sidecar_file base (cs ! i)) = Some (F (claim_bytes (cs ! i)))"
  using assms unfolding race_inv_def by blast+

text \<open>One lemma per rule.\<close>

lemma race_lock_won:
  assumes r: "race_inv digest base cs pcs fs" and k: "k < length cs" "pcs ! k = Starting"
    and o: "issue_lock digest base t (cs ! k) fs = (Inr u, fs')"
  shows "race_inv digest base cs (pcs[k := Locked]) fs'"
proof -
  note I = race_invD [OF r] and L = issue_lock_Inr [OF race_invD(2) [OF r] o]
  have other: "lock_name digest (cr_bundle_path (cs ! i)) \<noteq> lock_name digest (cr_bundle_path (cs ! k))"
    if "i < length cs" "holds (pcs ! i)" for i
    using that I(3) L(2) by force
  have keep: "entry_at fs' (base @ [n]) = entry_at fs (base @ [n])" if "n \<noteq> lock_name digest (cr_bundle_path (cs ! k))" for n
    using that L(4) by (simp add: prefix_order.antisym)
  show ?thesis
  proof (rule race_invI)
    fix i assume a: "i < length cs" "holds (pcs[k := Locked] ! i)"
    show "entry_at fs' (lock_file digest base (cs ! i)) = Some (F (cr_jti (cs ! i)))"
    proof (cases "i = k")
      case False
      with a have "holds (pcs ! i)" by simp
      with other a keep I(3) show ?thesis by simp
    qed (simp add: L(4))
  next
    fix i j assume "i < length cs" "j < length cs" "holds (pcs[k := Locked] ! i)" "holds (pcs[k := Locked] ! j)" "i \<noteq> j"
    then show "lock_name digest (cr_bundle_path (cs ! i)) \<noteq> lock_name digest (cr_bundle_path (cs ! j))"
      using I(4) other by (cases "i = k"; cases "j = k") (auto dest: not_sym)
  next
    fix i assume "i < length cs" "pcs[k := Locked] ! i = Issued"
    then show "entry_at fs' (sidecar_file base (cs ! i)) = Some (F (claim_bytes (cs ! i)))"
      using I(1,5) keep by (cases "i = k") auto
  qed (use I L in auto)
qed

lemma race_lock_lost:
  assumes r: "race_inv digest base cs pcs fs" and k: "k < length cs" "pcs ! k = Starting"
    and o: "issue_lock digest base t (cs ! k) fs = (Inl e, fs')"
  shows "race_inv digest base cs (pcs[k := Refused e]) fs'"
proof -
  note I = race_invD [OF r]
  from issue_lock_any [OF I(2) o] have L: "claims_invar digest base fs'"
    "\<And>q. entry_at fs q \<noteq> None \<Longrightarrow> entry_at fs' q = entry_at fs q" by auto
  show ?thesis
  proof (rule race_invI)
    fix i assume "i < length cs" "holds (pcs[k := Refused e] ! i)"
    then show "entry_at fs' (lock_file digest base (cs ! i)) = Some (F (cr_jti (cs ! i)))"
      using I(1,3) L(2) by (cases "i = k") auto
  next
    fix i j assume "i < length cs" "j < length cs" "holds (pcs[k := Refused e] ! i)" "holds (pcs[k := Refused e] ! j)" "i \<noteq> j"
    then show "lock_name digest (cr_bundle_path (cs ! i)) \<noteq> lock_name digest (cr_bundle_path (cs ! j))"
      using I(1,4) by (cases "i = k"; cases "j = k") auto
  next
    fix i assume "i < length cs" "pcs[k := Refused e] ! i = Issued"
    then show "entry_at fs' (sidecar_file base (cs ! i)) = Some (F (claim_bytes (cs ! i)))"
      using I(1,5) L(2) by (cases "i = k") auto
  qed (use I L in auto)
qed

lemma race_sidecar_won:
  assumes r: "race_inv digest base cs pcs fs" and k: "k < length cs" "pcs ! k = Locked"
    and j: "jti_ok (cr_jti (cs ! k))" and o: "issue_sidecar digest base t (cs ! k) fs = (Inr u, fs')"
  shows "race_inv digest base cs (pcs[k := Issued]) fs'"
proof -
  note I = race_invD [OF r] and L = issue_sidecar_Inr [OF race_invD(2) [OF r] j o]
  have h: "holds (pcs[k := Issued] ! i) = holds (pcs ! i)" if "i < length cs" for i
    using that k I(1) by (cases "i = k") auto
  show ?thesis
  proof (rule race_invI)
    fix i assume "i < length cs" "pcs[k := Issued] ! i = Issued"
    then show "entry_at fs' (sidecar_file base (cs ! i)) = Some (F (claim_bytes (cs ! i)))"
      using I(5) [of i] L(2,3) by (cases "i = k") auto
  next
    fix i j assume "i < length cs" "j < length cs" "holds (pcs[k := Issued] ! i)" "holds (pcs[k := Issued] ! j)" "i \<noteq> j"
    then show "lock_name digest (cr_bundle_path (cs ! i)) \<noteq> lock_name digest (cr_bundle_path (cs ! j))"
      using I(4) h by auto
  qed (use I L h in auto)
qed

lemma race_sidecar_lost:
  assumes r: "race_inv digest base cs pcs fs" and k: "k < length cs" "pcs ! k = Locked"
    and j: "jti_ok (cr_jti (cs ! k))" and o: "issue_sidecar digest base t (cs ! k) fs = (Inl e, fs')"
  shows "race_inv digest base cs (pcs[k := Refused e]) fs'"
proof -
  note I = race_invD [OF r]
  have "entry_at fs (lock_file digest base (cs ! k)) = Some (F (cr_jti (cs ! k)))" using I(3) k by simp
  note L = issue_sidecar_Inl [OF I(2) j this o]
  have h: "i \<noteq> k \<and> holds (pcs ! i)" if "i < length cs" "holds (pcs[k := Refused e] ! i)" for i
    using that k I(1) by (cases "i = k") auto
  show ?thesis
  proof (rule race_invI)
    fix i assume a: "i < length cs" "holds (pcs[k := Refused e] ! i)"
    then have "lock_name digest (cr_bundle_path (cs ! i)) \<noteq> lock_name digest (cr_bundle_path (cs ! k))"
      using I(4) [of i k] h k by auto
    then show "entry_at fs' (lock_file digest base (cs ! i)) = Some (F (cr_jti (cs ! i)))"
      using I(3) h a L(4) by auto
  next
    fix i j assume "i < length cs" "j < length cs" "holds (pcs[k := Refused e] ! i)" "holds (pcs[k := Refused e] ! j)" "i \<noteq> j"
    then show "lock_name digest (cr_bundle_path (cs ! i)) \<noteq> lock_name digest (cr_bundle_path (cs ! j))"
      using I(4) h by blast
  next
    fix i assume "i < length cs" "pcs[k := Refused e] ! i = Issued"
    then show "entry_at fs' (sidecar_file base (cs ! i)) = Some (F (claim_bytes (cs ! i)))"
      using I(1,5) L(4) by (cases "i = k") auto
  qed (use I L in auto)
qed

lemma race_inv_step:
  assumes "race_inv digest base cs pcs fs" and "issue_step digest base cs (pcs, fs) (pcs', fs')"
    and "\<forall>c \<in> set cs. jti_ok (cr_jti c)"
  shows "race_inv digest base cs pcs' fs'"
  using assms(2,1,3)
  by (auto elim!: issue_stepE intro: race_lock_won race_lock_lost race_sidecar_won race_sidecar_lost nth_mem)

lemma race_inv_reachable:
  assumes "(issue_step digest base cs)\<^sup>*\<^sup>* (pcs, fs) (pcs', fs')" and "race_inv digest base cs pcs fs"
    and "\<forall>c \<in> set cs. jti_ok (cr_jti c)"
  shows "race_inv digest base cs pcs' fs'"
  using assms
proof (induction rule: rtranclp_induct2)
  case (step pcs1 fs1 pcs2 fs2)
  then show ?case using race_inv_step by blast
qed simp

lemma race_inv_init:
  "claims_invar digest base fs \<Longrightarrow> race_inv digest base cs (replicate (length cs) Starting) fs"
  by (simp add: race_inv_def)

subsection \<open>Somebody wins\<close>

abbreviation same_lock :: "(str \<Rightarrow> str) \<Rightarrow> claim_record \<Rightarrow> claim_record \<Rightarrow> bool" where
  "same_lock digest c d \<equiv> lock_name digest (cr_bundle_path c) = lock_name digest (cr_bundle_path d)"

definition has_holder :: "(str \<Rightarrow> str) \<Rightarrow> claim_record list \<Rightarrow> issue_pc list \<Rightarrow> nat \<Rightarrow> bool" where
  "has_holder digest cs pcs i \<longleftrightarrow> (\<exists>j < length cs. holds (pcs ! j) \<and> same_lock digest (cs ! j) (cs ! i))"

definition live_inv :: "(str \<Rightarrow> str) \<Rightarrow> str list \<Rightarrow> claim_record list \<Rightarrow> issue_pc list \<Rightarrow> fs \<Rightarrow> bool" where
  "live_inv digest base cs pcs fs \<longleftrightarrow>
     (\<forall>q. prefix q base \<longrightarrow> entry_at fs q \<in> {None, Some D})
     \<and> (\<forall>i < length cs. entry_at fs (lock_file digest base (cs ! i)) \<noteq> None \<longrightarrow> has_holder digest cs pcs i)
     \<and> (\<forall>i < length cs. entry_at fs (sidecar_file base (cs ! i)) \<noteq> None \<longrightarrow> pcs ! i = Issued)
     \<and> (\<forall>i < length cs. (\<exists>e. pcs ! i = Refused e) \<longrightarrow> has_holder digest cs pcs i)"

lemma has_holder_update:
  "has_holder digest cs pcs i \<Longrightarrow> length pcs = length cs \<Longrightarrow> holds pc \<or> \<not> holds (pcs ! k)
   \<Longrightarrow> has_holder digest cs (pcs[k := pc]) i"
  unfolding has_holder_def by (metis nth_list_update nth_list_update_neq)

lemma live_lock_won:
  assumes r: "race_inv digest base cs pcs fs" and v: "live_inv digest base cs pcs fs"
    and k: "k < length cs" "pcs ! k = Starting" and o: "issue_lock digest base t (cs ! k) fs = (Inr u, fs')"
  shows "live_inv digest base cs (pcs[k := Locked]) fs'"
proof -
  note I = race_invD [OF r] and L = issue_lock_Inr [OF race_invD(2) [OF r] o]
  have keep: "entry_at fs' (base @ [n]) = entry_at fs (base @ [n])" if "n \<noteq> lock_name digest (cr_bundle_path (cs ! k))" for n
    using that L(4) by (simp add: prefix_order.antisym)
  have up: "has_holder digest cs (pcs[k := Locked]) i" if "has_holder digest cs pcs i" for i
    using has_holder_update [OF that I(1)] by simp
  have hk: "has_holder digest cs (pcs[k := Locked]) i" if "same_lock digest (cs ! i) (cs ! k)" for i
    using that k I(1) by (auto simp: has_holder_def intro!: exI [of _ k])
  have "has_holder digest cs (pcs[k := Locked]) i"
    if "i < length cs" "entry_at fs' (lock_file digest base (cs ! i)) \<noteq> None" for i
    using that hk keep up v by (cases "same_lock digest (cs ! i) (cs ! k)") (auto simp: live_inv_def)
  moreover have "entry_at fs' q \<in> {None, Some D}" if "prefix q base" for q
    using that L(4) by (auto simp: prefix_order.antisym)
  moreover have "pcs[k := Locked] ! i = Issued"
    if "i < length cs" "entry_at fs' (sidecar_file base (cs ! i)) \<noteq> None" for i
    using that keep v k by (cases "i = k") (auto simp: live_inv_def)
  moreover have "has_holder digest cs (pcs[k := Locked]) i"
    if "i < length cs" "pcs[k := Locked] ! i = Refused e" for i e
    using that v k I(1) up by (cases "i = k") (auto simp: live_inv_def)
  ultimately show ?thesis unfolding live_inv_def by blast
qed

lemma live_lock_lost:
  assumes r: "race_inv digest base cs pcs fs" and v: "live_inv digest base cs pcs fs"
    and k: "k < length cs" "pcs ! k = Starting" and o: "issue_lock digest base t (cs ! k) fs = (Inl e, fs')"
  shows "live_inv digest base cs (pcs[k := Refused e]) fs'"
proof -
  note I = race_invD [OF r]
  have lk: "locked digest base fs (cr_bundle_path (cs ! k))"
  proof (rule ccontr)
    assume "\<not> ?thesis"
    with issue_lock_ok [OF I(2), of "cs ! k" t] v o show False by (auto simp: live_inv_def)
  qed
  have fs': "fs' = fs" using issue_lock_locked [OF I(2) lk, of t] o by simp
  have up: "has_holder digest cs (pcs[k := Refused e]) i" if "has_holder digest cs pcs i" for i
    using has_holder_update [OF that I(1)] k by simp
  have "has_holder digest cs pcs k" using lk k v by (simp add: live_inv_def locked_def)
  then have "has_holder digest cs (pcs[k := Refused e]) i"
    if "i < length cs" "pcs[k := Refused e] ! i = Refused e'" for i e'
    using that v up by (cases "i = k") (auto simp: live_inv_def)
  moreover have "pcs[k := Refused e] ! i = Issued"
    if "i < length cs" "entry_at fs (sidecar_file base (cs ! i)) \<noteq> None" for i
    using that v k by (cases "i = k") (auto simp: live_inv_def)
  ultimately show ?thesis using v up unfolding fs' live_inv_def by blast
qed

lemma live_sidecar_lost:
  assumes r: "race_inv digest base cs pcs fs" and v: "live_inv digest base cs pcs fs"
    and k: "k < length cs" "pcs ! k = Locked" and j: "\<forall>c \<in> set cs. jti_ok (cr_jti c)"
    and o: "issue_sidecar digest base t (cs ! k) fs = (Inl e, fs')"
  shows False
proof -
  have "entry_at fs (lock_file digest base (cs ! k)) = Some (F (cr_jti (cs ! k)))"
    using race_invD(3) [OF r] k by simp
  from issue_sidecar_Inl(1) [OF race_invD(2) [OF r] _ this o] j v k
  show ?thesis by (auto simp: live_inv_def)
qed

lemma live_sidecar_won:
  assumes r: "race_inv digest base cs pcs fs" and v: "live_inv digest base cs pcs fs"
    and k: "k < length cs" "pcs ! k = Locked" and js: "\<forall>c \<in> set cs. jti_ok (cr_jti c)"
    and d: "distinct (map cr_jti cs)" and o: "issue_sidecar digest base t (cs ! k) fs = (Inr u, fs')"
  shows "live_inv digest base cs (pcs[k := Issued]) fs'"
proof -
  have j: "jti_ok (cr_jti (cs ! k))" using js k by simp
  note I = race_invD [OF r] and L = issue_sidecar_Inr [OF race_invD(2) [OF r] j o]
  have up: "has_holder digest cs (pcs[k := Issued]) i" if "has_holder digest cs pcs i" for i
    using has_holder_update [OF that I(1)] by simp
  have "pcs[k := Issued] ! i = Issued"
    if "i < length cs" "entry_at fs' (sidecar_file base (cs ! i)) \<noteq> None" for i
    using that v k L(3) d I(1) by (cases "i = k") (auto simp: live_inv_def distinct_conv_nth)
  moreover have "entry_at fs' q \<in> {None, Some D}" if "prefix q base" for q
  proof -
    have "q \<noteq> sidecar_file base (cs ! k)" using that by auto
    with that v L(3) show ?thesis by (auto simp: live_inv_def)
  qed
  moreover have "has_holder digest cs (pcs[k := Issued]) i"
    if "i < length cs" "pcs[k := Issued] ! i = Refused e" for i e
    using that v k I(1) up by (cases "i = k") (auto simp: live_inv_def)
  moreover have "has_holder digest cs (pcs[k := Issued]) i"
    if "i < length cs" "entry_at fs' (lock_file digest base (cs ! i)) \<noteq> None" for i
    using that v L(3) up by (auto simp: live_inv_def)
  ultimately show ?thesis unfolding live_inv_def by blast
qed

lemma live_inv_step:
  assumes "issue_step digest base cs (pcs, fs) (pcs', fs')"
    and "race_inv digest base cs pcs fs" and "live_inv digest base cs pcs fs"
    and "\<forall>c \<in> set cs. jti_ok (cr_jti c)" and "distinct (map cr_jti cs)"
  shows "live_inv digest base cs pcs' fs'"
  using assms(1)
  by (rule issue_stepE)
    (auto intro: live_lock_won [OF assms(2,3)] live_lock_lost [OF assms(2,3)]
      live_sidecar_won [OF assms(2,3) _ _ assms(4,5)] dest: live_sidecar_lost [OF assms(2,3) _ _ assms(4)])

lemma live_inv_reachable:
  assumes "(issue_step digest base cs)\<^sup>*\<^sup>* (pcs, fs) (pcs', fs')"
    and "race_inv digest base cs pcs fs" and "live_inv digest base cs pcs fs"
    and "\<forall>c \<in> set cs. jti_ok (cr_jti c)" and "distinct (map cr_jti cs)"
  shows "race_inv digest base cs pcs' fs' \<and> live_inv digest base cs pcs' fs'"
  using assms
proof (induction rule: rtranclp_induct2)
  case (step pcs1 fs1 pcs2 fs2)
  then show ?case using race_inv_step live_inv_step by blast
qed simp

end
