(* ===== verification/Listing.thy ===== *)
theory Listing
  imports Bundle_Store
begin

text \<open>
  What the collision check of \<^verbatim>\<open>open_bundle_write\<close> guarantees and which directories
  \<^verbatim>\<open>list_bundles\<close> reports, over the abstract file system.
\<close>

subsection \<open>Directory contents\<close>

definition has_meta :: "fs \<Rightarrow> fpath \<Rightarrow> bool" where
  "has_meta fs d \<longleftrightarrow> (\<exists>b. entry_at fs (d @ [BUNDLE_MANIFEST]) = Some (F b))"

definition has_file :: "fs \<Rightarrow> fpath \<Rightarrow> bool" where
  "has_file fs d \<longleftrightarrow> (\<exists>c b. entry_at fs (d @ [c]) = Some (F b))"

lemma has_meta_file: "has_meta fs d \<Longrightarrow> has_file fs d"
  by (auto simp: has_meta_def has_file_def)

lemma children_iff:
  assumes "fs_wf fs"
  shows "(c, n) \<in> set (children fs p) \<longleftrightarrow> map_of fs (p @ [c]) = Some n"
proof -
  have "(c, n) \<in> set (children fs p) \<longleftrightarrow> (p @ [c], n) \<in> set fs"
    by (force simp: children_def append_butlast_last_id)
  with assms show ?thesis by (simp add: fs_wf_iff)
qed

lemma subdirs_iff: "fs_wf fs \<Longrightarrow> c \<in> set (subdirs fs p) \<longleftrightarrow> entry_at fs (p @ [c]) = Some D"
  by (force simp: subdirs_def children_iff entry_at_D split: node.splits)

lemma file_names_iff: "fs_wf fs \<Longrightarrow> c \<in> set (file_names fs p) \<longleftrightarrow> (\<exists>b. entry_at fs (p @ [c]) = Some (F b))"
  by (force simp: file_names_def children_iff entry_at_F split: node.splits)

lemma has_file_names: "fs_wf fs \<Longrightarrow> has_file fs p \<longleftrightarrow> file_names fs p \<noteq> []"
  using file_names_iff [of fs _ p] by (auto simp: has_file_def) (metis list.set_intros(1) neq_Nil_conv)

subsection \<open>Walking the tree\<close>

definition dir_mtime :: "fs \<Rightarrow> fpath \<Rightarrow> int" where
  "dir_mtime fs p = (case map_of fs p of None \<Rightarrow> 0 | Some n \<Rightarrow> st_mtime n)"

text \<open>
  \<open>reported inc fs p s\<close>: the directory \<open>p @ s\<close> holds a file, no directory on the way from
  \<open>p\<close> to it does, and it is committed or orphans are asked for.
\<close>

definition reported :: "bool \<Rightarrow> fs \<Rightarrow> fpath \<Rightarrow> fpath \<Rightarrow> bool" where
  "reported inc fs p s \<longleftrightarrow> has_file fs (p @ s) \<and> (\<forall>a. strict_prefix a s \<longrightarrow> \<not> has_file fs (p @ a))
     \<and> (inc \<or> has_meta fs (p @ s))"

definition ref_of :: "fs \<Rightarrow> fpath \<Rightarrow> fpath \<Rightarrow> bundle_ref" where
  "ref_of fs d rel = \<lparr>br_path = as_posix rel, br_has_meta = (BUNDLE_MANIFEST \<in> set (file_names fs d)),
     br_mtime = dir_mtime fs d\<rparr>"

lemma reported_file:
  assumes "has_file fs p"
  shows "reported inc fs p s \<longleftrightarrow> s = [] \<and> (inc \<or> has_meta fs p)"
proof (cases "s = []")
  case False
  then have "strict_prefix [] s" by (simp add: strict_prefix_def)
  with assms False show ?thesis unfolding reported_def by (metis append_Nil2)
qed (use assms in \<open>simp add: reported_def\<close>)

lemma reported_descend:
  assumes "fs_wf fs" and "\<not> has_file fs p"
  shows "reported inc fs p s \<longleftrightarrow>
    (\<exists>c s'. s = c # s' \<and> entry_at fs (p @ [c]) = Some D \<and> reported inc fs (p @ [c]) s')"
proof (cases s)
  case Nil
  with assms(2) show ?thesis by (simp add: reported_def)
next
  case (Cons c s')
  have d: "entry_at fs (p @ [c]) = Some D" if "has_file fs (p @ c # s')"
    using that fs_wf_prefix [OF assms(1), of "p @ [c]" "s' @ [_]"] by (auto simp: has_file_def)
  have "(\<forall>a. strict_prefix a (c # s') \<longrightarrow> \<not> has_file fs (p @ a))
      \<longleftrightarrow> (\<forall>a. strict_prefix a s' \<longrightarrow> \<not> has_file fs (p @ c # a))"
    using assms(2) by (force simp: strict_prefix_def prefix_Cons)
  with d Cons show ?thesis by (auto simp: reported_def)
qed

lemma walk_dirs_iff:
  assumes "fs_wf fs"
  shows "r \<in> set (walk_dirs inc fs p rel) \<longleftrightarrow> (\<exists>s. reported inc fs p s \<and> r = ref_of fs (p @ s) (rel @ s))"
  using assms
proof (induction inc fs p rel rule: walk_dirs.induct)
  case (1 inc fs p rel)
  have fn: "BUNDLE_MANIFEST \<in> set (file_names fs p) \<longleftrightarrow> has_meta fs p"
    using file_names_iff [OF 1(2)] by (simp add: has_meta_def)
  show ?case
  proof (cases "has_file fs p")
    case True
    then have "file_names fs p \<noteq> []" using has_file_names [OF 1(2)] by simp
    then have "BUNDLE_MANIFEST \<in> set (file_names fs p) \<or> list_ex (\<lambda>f. f \<noteq> BUNDLE_MANIFEST) (file_names fs p)"
      by (auto simp: list_ex_iff) (metis list.set_intros(1) neq_Nil_conv)
    then have w: "set (walk_dirs inc fs p rel) = (if inc \<or> has_meta fs p then {ref_of fs p rel} else {})"
      using fn by (auto simp: walk_dirs.simps [of inc fs p rel] Let_def ref_of_def dir_mtime_def)
    show ?thesis unfolding w reported_file [OF True] by auto
  next
    case False
    then have n: "file_names fs p = []" using has_file_names [OF 1(2)] by simp
    have ih: "r \<in> set (walk_dirs inc fs (p @ [c]) (rel @ [c])) \<longleftrightarrow>
        (\<exists>s. reported inc fs (p @ [c]) s \<and> r = ref_of fs ((p @ [c]) @ s) ((rel @ [c]) @ s))"
      if "c \<in> set (subdirs fs p)" for c
      using 1(1) [OF refl refl _ _ that 1(2)] n by simp
    have "walk_dirs inc fs p rel
        = concat (map (\<lambda>c. walk_dirs inc fs (p @ [c]) (rel @ [c])) (subdirs fs p))"
      using n by (simp add: walk_dirs.simps [of inc fs p rel] Let_def)
    then have "r \<in> set (walk_dirs inc fs p rel) \<longleftrightarrow>
        (\<exists>c. entry_at fs (p @ [c]) = Some D \<and> (\<exists>s. reported inc fs (p @ [c]) s \<and> r = ref_of fs (p @ c # s) (rel @ c # s)))"
      using ih subdirs_iff [OF 1(2)] by auto
    then show ?thesis unfolding reported_descend [OF 1(2) False] by auto
  qed
qed

lemma list_bundles_iff:
  assumes wf: "fs_wf fs" and c: "clean root" and g: "good_key pre"
  shows "r \<in> set (list_bundles root pre inc fs) \<longleftrightarrow>
    entry_at fs (resolve root pre) = Some D \<and>
    (\<exists>x s. entry_at fs (resolve root pre @ [x]) = Some D \<and> reported inc fs (resolve root pre @ [x]) s
       \<and> r = ref_of fs (resolve root pre @ x # s) (path_parts pre @ x # s))"
proof -
  have base: "(if pre = [] then data_root root else join_parts (data_root root) pre) = resolve root pre"
    using g by (auto simp: resolve_def join_parts_def path_parts_def)
  have rel: "drop (length (data_root root)) (resolve root pre) = path_parts pre"
    by (simp add: resolve_good [OF g])
  have cl: "clean (resolve root pre)" using clean_resolve [OF c g] .
  show ?thesis
  proof (cases "is_dir fs (resolve root pre)")
    case True
    then have d: "entry_at fs (resolve root pre) = Some D" using is_dir_clean [OF wf cl] by simp
    then have "walk fs [] (resolve root pre) = Inr (resolve root pre)"
      using walk_clean_iff [OF wf cl] fs_wf_parent [OF wf d] by auto
    with True d show ?thesis
      by (auto simp: list_bundles_def Let_def base rel subdirs_iff [OF wf] walk_dirs_iff [OF wf])
  next
    case False
    then show ?thesis
      using is_dir_clean [OF wf cl] by (simp add: list_bundles_def Let_def base)
  qed
qed

subsection \<open>Collisions\<close>

lemma looks_like_committed:
  "fs_wf fs \<Longrightarrow> clean d \<Longrightarrow> has_meta fs d \<Longrightarrow> is_dir fs d \<and> looks_like_bundle_dir fs d"
  using is_file_clean [of fs "d @ [BUNDLE_MANIFEST]"] is_dir_clean [of fs d]
    fs_wf_prefix [of fs d "[BUNDLE_MANIFEST]"]
  by (auto simp: looks_like_bundle_dir_def has_meta_def)

lemma check_ancestors_None:
  "check_ancestors fs dd ns a = None \<Longrightarrow> prefix ns a \<Longrightarrow> prefix dd ns \<Longrightarrow> strict_prefix ns x \<Longrightarrow> prefix x a
   \<Longrightarrow> \<not> (is_dir fs x \<and> looks_like_bundle_dir fs x)"
proof (induction fs dd ns a rule: check_ancestors.induct)
  case (1 fs dd ns a)
  have an: "a \<noteq> ns" using 1(4-6) by (auto simp: strict_prefix_def)
  then have ad: "a \<noteq> dd" using 1(3,4) by (metis prefix_order.antisym)
  from 1(2) an ad have na: "\<not> (is_dir fs a \<and> looks_like_bundle_dir fs a)"
    by (auto simp: check_ancestors.simps [of fs dd ns a] split: if_splits)
  show ?case
  proof (cases "x = a")
    case True
    with na show ?thesis by simp
  next
    case False
    have "a \<noteq> []" using an 1(3) by auto
    with False 1(6) have "prefix x (butlast a)" by (simp add: prefix_butlast)
    moreover have "prefix ns (butlast a)" using calculation 1(5) by (auto simp: strict_prefix_def)
    moreover have "check_ancestors fs dd ns (butlast a) = None"
      using 1(2) an ad na \<open>a \<noteq> []\<close> by (simp add: check_ancestors.simps [of fs dd ns a])
    ultimately show ?thesis using 1 an ad na \<open>a \<noteq> []\<close> by blast
  qed
qed

text \<open>The namespace of a key: \<^verbatim>\<open>store\<close>, or \<^verbatim>\<open>inbox\<close> and the recipient.\<close>

definition namespace_depth :: "str list \<Rightarrow> nat" where
  "namespace_depth rel = (if hd rel = ''inbox'' then 2 else 1)"

lemma collision_check_ancestors:
  assumes wf: "fs_wf fs" and c: "clean root" and g: "good_key path"
    and chk: "check_bundle_path_collision root fs (resolve root path) = None"
    and x: "strict_prefix x (path_parts path)" and l: "namespace_depth (path_parts path) < length x"
  shows "\<not> has_meta fs (data_root root @ x)"
proof
  assume h: "has_meta fs (data_root root @ x)"
  let ?rel = "path_parts path" and ?dd = "data_root root"
  let ?ns = "?dd @ take (namespace_depth ?rel) ?rel"
  have rn: "?rel \<noteq> []" using x by auto
  have lr: "namespace_depth ?rel < length ?rel"
    using l prefix_length_less [OF x] by simp
  have ca: "check_ancestors fs ?dd ?ns (butlast (resolve root path)) = None"
    using chk rn lr
    by (auto simp: check_bundle_path_collision_def resolve_good [OF g] Let_def namespace_depth_def
        split: option.splits if_splits)
  have bl: "butlast (resolve root path) = ?dd @ butlast ?rel"
    using rn by (simp add: resolve_good [OF g] butlast_append)
  have px: "prefix x (butlast ?rel)" using x rn by (auto simp: prefix_butlast strict_prefix_def)
  have "take (namespace_depth ?rel) ?rel = take (namespace_depth ?rel) x"
    using x l by (auto simp: strict_prefix_def elim!: prefixE)
  then have sx: "strict_prefix ?ns (?dd @ x)" using l take_is_prefix [of "namespace_depth ?rel" x]
    by (auto simp: strict_prefix_def)
  have nb: "prefix ?ns (?dd @ butlast ?rel)"
    using sx px by (meson prefix_order.less_imp_le prefix_order.trans same_prefix_prefix)
  have cl: "clean (?dd @ x)"
    using clean_resolve [OF c g] x by (auto simp: resolve_good [OF g] strict_prefix_def elim!: prefixE)
  from check_ancestors_None [OF ca [unfolded bl] nb _ sx] px looks_like_committed [OF wf cl h]
  show False by simp
qed

end
