(* ===== verification/Gc.thy ===== *)
theory Gc
  imports Listing Claims_Laws
begin

text \<open>
  The reaper, \<^verbatim>\<open>gc.py\<close>: \<open>sweep\<close> deletes orphan bundle directories, \<open>sweep_claims\<close> drops
  expired claims and finishes the deletion of completely fetched inbox bundles, and
  \<open>reaper_loop\<close> runs both at each wake-up. Times are microseconds, ages in the settings
  seconds.
\<close>

definition NAMESPACES :: "str list" where
  "NAMESPACES = [''inbox/'', ''store/'']"

fun sweep_refs :: "str list \<Rightarrow> int \<Rightarrow> int \<Rightarrow> bundle_ref list \<Rightarrow> fs \<Rightarrow> fs" where
  "sweep_refs root now min_age_s [] fs = fs"
| "sweep_refs root now min_age_s (ref # refs) fs =
     (if br_has_meta ref then sweep_refs root now min_age_s refs fs
      else if now - br_mtime ref < min_age_s * 1000000 then sweep_refs root now min_age_s refs fs
      else sweep_refs root now min_age_s refs (snd (delete_bundle root now (br_path ref) fs)))"

fun sweep_namespaces :: "str list \<Rightarrow> int \<Rightarrow> int \<Rightarrow> str list \<Rightarrow> fs \<Rightarrow> fs" where
  "sweep_namespaces root now min_age_s [] fs = fs"
| "sweep_namespaces root now min_age_s (pre # rest) fs =
     sweep_namespaces root now min_age_s rest
       (sweep_refs root now min_age_s (list_bundles root pre True fs) fs)"

definition sweep :: "str list \<Rightarrow> int \<Rightarrow> int \<Rightarrow> fs \<Rightarrow> fs" where
  "sweep root now min_age_s fs = sweep_namespaces root now min_age_s NAMESPACES fs"

text \<open>The body of the loop over the claims.\<close>

definition sweep_claim ::
  "(str \<Rightarrow> str) \<Rightarrow> str list \<Rightarrow> str list \<Rightarrow> int \<Rightarrow> int \<Rightarrow> claim_record \<Rightarrow> fs \<Rightarrow> unit io" where
  "sweep_claim digest base root now ttl_s claim fs =
     (case iso_to_epoch (cr_created_at claim) of
        None \<Rightarrow> delete_claim digest base now (cr_jti claim) fs
      | Some created \<Rightarrow>
         if now - created < ttl_s * 1000000 then (Inr (), fs)
         else case read_bundle_meta root (cr_bundle_path claim) fs of
           Inl e \<Rightarrow>
             if e = FileNotFoundError then delete_claim digest base now (cr_jti claim) fs
             else (Inr (), fs)
         | Inr m \<Rightarrow>
            (let manifest_names = set (map mf_name (bm_files m));
                 fetched = set (cr_files_fetched claim);
                 complete = manifest_names \<noteq> {} \<and> manifest_names \<subseteq> fetched;
                 is_inbox = startswith (cr_bundle_path claim) ''inbox/''
             in if complete \<and> is_inbox
                then delete_claim digest base now (cr_jti claim)
                       (snd (delete_bundle root now (cr_bundle_path claim) fs))
                else delete_claim digest base now (cr_jti claim) fs))"

fun sweep_claim_list ::
  "(str \<Rightarrow> str) \<Rightarrow> str list \<Rightarrow> str list \<Rightarrow> int \<Rightarrow> int \<Rightarrow> claim_record list \<Rightarrow> fs \<Rightarrow> unit io" where
  "sweep_claim_list digest base root now ttl_s [] fs = (Inr (), fs)"
| "sweep_claim_list digest base root now ttl_s (c # cs) fs =
     (case sweep_claim digest base root now ttl_s c fs of
        (Inl e, fs') \<Rightarrow> (Inl e, fs')
      | (Inr u, fs') \<Rightarrow> sweep_claim_list digest base root now ttl_s cs fs')"

definition sweep_claims :: "(str \<Rightarrow> str) \<Rightarrow> str list \<Rightarrow> str list \<Rightarrow> int \<Rightarrow> int \<Rightarrow> fs \<Rightarrow> unit io" where
  "sweep_claims digest base root now ttl_s fs =
     (case iter_all base fs of
        Inl e \<Rightarrow> (Inr (), fs)
      | Inr claims \<Rightarrow> sweep_claim_list digest base root now ttl_s claims fs)"

text \<open>
  One pass per wake-up time; an exception of a pass is logged and the loop goes on. The loop
  itself ends only when its task is cancelled, here when the wake-ups do.
\<close>

fun reaper_loop :: "(str \<Rightarrow> str) \<Rightarrow> str list option \<Rightarrow> str list \<Rightarrow> int \<Rightarrow> int \<Rightarrow> int list \<Rightarrow> fs \<Rightarrow> fs" where
  "reaper_loop digest claim_store root min_age_s ttl_s [] fs = fs"
| "reaper_loop digest claim_store root min_age_s ttl_s (now # wakes) fs =
     (let fs1 = sweep root now min_age_s fs;
          fs2 = (case claim_store of None \<Rightarrow> fs1
                 | Some base \<Rightarrow> snd (sweep_claims digest base root now ttl_s fs1))
      in reaper_loop digest claim_store root min_age_s ttl_s wakes fs2)"

subsection \<open>Paths of references\<close>

text \<open>The names a POSIX directory entry can have, apart from its own and its parent's.\<close>

definition name_ok :: "str \<Rightarrow> bool" where
  "name_ok c = (c \<noteq> [] \<and> c \<noteq> ''.'' \<and> c \<noteq> ''..'' \<and> CHR ''/'' \<notin> set c)"

definition fs_names :: "fs \<Rightarrow> bool" where
  "fs_names fs = list_all (\<lambda>(p, n). list_all name_ok p) fs"

lemma fs_names_entry: "fs_names fs \<Longrightarrow> entry_at fs p \<noteq> None \<Longrightarrow> list_all name_ok p"
  by (auto simp: fs_names_def list_all_iff entry_at_def dest!: map_of_SomeD)

lemma fs_names_delete: "fs_names fs \<Longrightarrow> fs_names (snd (delete_bundle root t p fs))"
  by (auto simp: fs_names_def delete_bundle_def lift_fs_def rmtree_def Let_def touch_def list_all_iff
      split: sum.splits option.splits node.splits)

lemma path_parts_as_posix: "list_all name_ok rel \<Longrightarrow> path_parts (as_posix rel) = rel"
proof (induction "''/''" rel rule: join_with.induct)
  case 1
  show ?case by (simp add: as_posix_def path_parts_def)
next
  case (2 x)
  then show ?case by (simp add: as_posix_def path_parts_single name_ok_def)
next
  case (3 x y ys)
  have "path_parts (as_posix (x # y # ys)) = path_parts x @ path_parts (as_posix (y # ys))"
    using path_parts_join [of x "as_posix (y # ys)"] by (simp add: as_posix_def)
  also have "path_parts x = [x]" using 3 by (simp add: path_parts_single name_ok_def)
  finally show ?case using 3 by (simp add: as_posix_def)
qed

lemma good_key_as_posix:
  assumes "list_all name_ok rel"
  shows "good_key (as_posix rel)"
proof -
  have "\<not> startswith (as_posix rel) ''/''"
    using assms
  proof (induction "''/''" rel rule: join_with.induct)
    case (3 x y ys)
    then show ?case by (cases x) (auto simp: as_posix_def name_ok_def)
  qed (auto simp: as_posix_def name_ok_def prefix_def)
  moreover have "clean rel" using assms by (auto simp: clean_def list_all_iff name_ok_def)
  ultimately show ?thesis using path_parts_as_posix [OF assms] by (simp add: good_key_def)
qed

text \<open>The directory a listed reference stands for.\<close>

lemma listed_ref:
  assumes wf: "fs_wf fs" and c: "clean root" and nm: "fs_names fs"
    and pre: "good_key pre" and r: "r \<in> set (list_bundles root pre inc fs)"
  obtains x s where "br_path r = as_posix (path_parts pre @ x # s)" "good_key (br_path r)"
    "resolve root (br_path r) = resolve root pre @ x # s" "entry_at fs (resolve root (br_path r)) = Some D"
    "reported inc fs (resolve root pre @ [x]) s" "br_has_meta r = has_meta fs (resolve root (br_path r))"
    "br_mtime r = dir_mtime fs (resolve root (br_path r))"
proof -
  let ?b = "resolve root pre"
  from r list_bundles_iff [OF wf c pre] obtain x s where
    x: "reported inc fs (?b @ [x]) s" and rr: "r = ref_of fs (?b @ x # s) (path_parts pre @ x # s)" by blast
  have "has_file fs (?b @ x # s)" using x by (simp add: reported_def)
  then obtain n b where f: "entry_at fs ((?b @ x # s) @ [n]) = Some (F b)" by (auto simp: has_file_def)
  have d: "entry_at fs (?b @ x # s) = Some D" using fs_wf_prefix [OF wf f] by simp
  then have "list_all name_ok (path_parts pre @ x # s)"
    using fs_names_entry [OF nm, of "?b @ x # s"] by (simp add: resolve_good [OF pre])
  note g = good_key_as_posix [OF this] path_parts_as_posix [OF this]
  have p: "br_path r = as_posix (path_parts pre @ x # s)" using rr by (simp add: ref_of_def)
  have "resolve root (br_path r) = ?b @ x # s"
    using g p by (simp add: resolve_good [OF g(1)] resolve_good [OF pre])
  with that p g(1) d x rr file_names_iff [OF wf] show ?thesis
    by (auto simp: ref_of_def has_meta_def)
qed

subsection \<open>What a sweep keeps\<close>

definition gc_invar :: "str list \<Rightarrow> fs \<Rightarrow> bool" where
  "gc_invar root fs = (store_invar root fs \<and> fs_names fs)"

lemma gc_invarD: "gc_invar root fs \<Longrightarrow> fs_wf fs \<and> clean root \<and> fs_names fs \<and> store_invar root fs"
  by (simp add: gc_invar_def store_invar_def)

lemma gc_invar_delete: "gc_invar root fs \<Longrightarrow> good_key p \<Longrightarrow> gc_invar root (snd (delete_bundle root t p fs))"
  by (simp add: gc_invar_def fs_names_delete delete_invar)

lemma delete_entries:
  "gc_invar root fs \<Longrightarrow> good_key p \<Longrightarrow> \<not> prefix (resolve root p) q
   \<Longrightarrow> entry_at (snd (delete_bundle root t p fs)) q = entry_at fs q"
  using delete_any [of root fs p t] by (auto simp: gc_invar_def prod_eq_iff)

lemma delete_entries_le:
  assumes "gc_invar root fs" "good_key p"
  shows "entry_at (snd (delete_bundle root t p fs)) q \<in> {None, entry_at fs q}"
proof -
  note w = gc_invarD [OF assms(1)]
  obtain r fs' where o: "delete_bundle root t p fs = (r, fs')" by (cases "delete_bundle root t p fs")
  show ?thesis
  proof (cases r)
    case (Inl e)
    with o have "fs' = fs" by (auto simp: delete_bundle_def Let_def lift_fs_def split: if_splits sum.splits)
    with o show ?thesis by simp
  next
    case (Inr u)
    from delete_bundle_Inr(3) [of fs root p t u fs'] w assms(2) o Inr show ?thesis by simp
  qed
qed

lemma sweep_refs_invar:
  "gc_invar root fs \<Longrightarrow> \<forall>r \<in> set refs. good_key (br_path r) \<Longrightarrow> gc_invar root (sweep_refs root now a refs fs)"
  by (induction refs arbitrary: fs) (auto simp: gc_invar_delete)

lemma sweep_refs_entries:
  "gc_invar root fs \<Longrightarrow> \<forall>r \<in> set refs. good_key (br_path r)
   \<Longrightarrow> \<forall>r \<in> set refs. \<not> br_has_meta r \<longrightarrow> \<not> prefix (resolve root (br_path r)) q
   \<Longrightarrow> entry_at (sweep_refs root now a refs fs) q = entry_at fs q"
  by (induction refs arbitrary: fs) (auto simp: gc_invar_delete delete_entries)

lemma sweep_refs_entries_le:
  "gc_invar root fs \<Longrightarrow> \<forall>r \<in> set refs. good_key (br_path r)
   \<Longrightarrow> entry_at (sweep_refs root now a refs fs) q \<in> {None, entry_at fs q}"
proof (induction refs arbitrary: fs)
  case Nil
  then show ?case by simp
next
  case (Cons r refs)
  let ?f = "snd (delete_bundle root now (br_path r) fs)"
  have "entry_at (sweep_refs root now a refs ?f) q \<in> {None, entry_at ?f q}"
    using Cons gc_invar_delete [of root fs "br_path r" now] by auto
  with Cons delete_entries_le [of root fs "br_path r" now q] show ?case by auto
qed

text \<open>No directory between the namespace and the bundle holds files of its own.\<close>

definition unshadowed :: "str list \<Rightarrow> fs \<Rightarrow> str \<Rightarrow> bool" where
  "unshadowed root fs p \<longleftrightarrow>
     (\<forall>a. strict_prefix a (path_parts p) \<longrightarrow> 2 \<le> length a \<longrightarrow> \<not> has_file fs (data_root root @ a))"

lemma listed_orphan_apart:
  assumes i: "gc_invar root fs" and pre: "good_key pre" "path_parts pre = [ns']"
    and r: "r \<in> set (list_bundles root pre True fs)" and o: "\<not> br_has_meta r"
    and p: "good_key p" "path_parts p = ns # y # l" and m: "has_meta fs (resolve root p)"
    and u: "unshadowed root fs p" and q: "prefix (resolve root p) q"
  shows "\<not> prefix (resolve root (br_path r)) q"
proof
  assume pq: "prefix (resolve root (br_path r)) q"
  note w = gc_invarD [OF i]
  obtain x s where r': "resolve root (br_path r) = resolve root pre @ x # s"
    "reported True fs (resolve root pre @ [x]) s" "br_has_meta r = has_meta fs (resolve root (br_path r))"
    using listed_ref [OF _ _ _ pre(1) r] w by blast
  have d': "resolve root (br_path r) = data_root root @ ns' # x # s"
    using r'(1) by (simp add: resolve_good [OF pre(1)] pre(2))
  have d: "resolve root p = data_root root @ ns # y # l" using p by (simp add: resolve_good)
  from pq q have "prefix (resolve root (br_path r)) (resolve root p) \<or> prefix (resolve root p) (resolve root (br_path r))"
    using prefix_same_cases by blast
  then consider "resolve root p = resolve root (br_path r)"
    | "strict_prefix (ns' # x # s) (ns # y # l)" | "strict_prefix l s" "ns = ns'" "x = y"
    unfolding d d' by (auto simp: strict_prefix_def)
  then show False
  proof cases
    case 1
    then show False using m o r'(3) by simp
  next
    case 2
    moreover have "has_file fs (data_root root @ ns' # x # s)"
      using r'(2) pre by (simp add: reported_def resolve_good)
    ultimately show False using u p(2) by (auto simp: unshadowed_def)
  next
    case 3
    have "\<not> has_file fs (resolve root pre @ x # l)" using r'(2) 3(1) by (simp add: reported_def)
    then show False using has_meta_file [OF m] 3 d pre by (simp add: resolve_good)
  qed
qed

lemma namespaces_good: "pre \<in> set NAMESPACES \<Longrightarrow> good_key pre \<and> (\<exists>ns. path_parts pre = [ns])"
  by (auto simp: NAMESPACES_def good_key_def path_parts_def)

lemma listed_good:
  "gc_invar root fs \<Longrightarrow> good_key pre \<Longrightarrow> \<forall>r \<in> set (list_bundles root pre inc fs). good_key (br_path r)"
  using listed_ref gc_invarD by (metis (no_types))

lemma sweep_pass:
  fixes now a :: int
  assumes i: "gc_invar root fs" and pre: "pre \<in> set NAMESPACES"
    and p: "good_key p" "path_parts p = ns # y # l" and m: "has_meta fs (resolve root p)"
    and u: "unshadowed root fs p"
  defines "fs' \<equiv> sweep_refs root now a (list_bundles root pre True fs) fs"
  shows "gc_invar root fs'" and "\<And>q. prefix (resolve root p) q \<Longrightarrow> entry_at fs' q = entry_at fs q"
    and "has_meta fs' (resolve root p)" and "unshadowed root fs' p"
proof -
  from namespaces_good [OF pre] obtain ns' where g: "good_key pre" "path_parts pre = [ns']" by blast
  note gs = listed_good [OF i g(1)]
  show "gc_invar root fs'" using sweep_refs_invar [OF i gs] by (simp add: fs'_def)
  show e: "entry_at fs' q = entry_at fs q" if "prefix (resolve root p) q" for q
    unfolding fs'_def using listed_orphan_apart [OF i g _ _ p m u that]
    by (intro sweep_refs_entries [OF i gs]) blast
  show "has_meta fs' (resolve root p)" using m e by (auto simp: has_meta_def)
  have "entry_at fs' q \<in> {None, entry_at fs q}" for q
    unfolding fs'_def by (rule sweep_refs_entries_le [OF i gs])
  then have "has_file fs' d \<Longrightarrow> has_file fs d" for d
    unfolding has_file_def by (metis insertE option.distinct(1) singletonD)
  then show "unshadowed root fs' p" using u by (auto simp: unshadowed_def)
qed

lemma sweep_namespaces_keeps:
  "gc_invar root fs \<Longrightarrow> set pres \<subseteq> set NAMESPACES \<Longrightarrow> good_key p \<Longrightarrow> path_parts p = ns # y # l
   \<Longrightarrow> has_meta fs (resolve root p) \<Longrightarrow> unshadowed root fs p
   \<Longrightarrow> gc_invar root (sweep_namespaces root now a pres fs)
     \<and> (\<forall>q. prefix (resolve root p) q \<longrightarrow> entry_at (sweep_namespaces root now a pres fs) q = entry_at fs q)"
proof (induction pres arbitrary: fs)
  case Nil
  then show ?case by simp
next
  case (Cons pre pres)
  note sp = sweep_pass [OF Cons.prems(1) _ Cons.prems(3-6), where pre = pre and now = now and a = a]
  from Cons.prems(2) have pre: "pre \<in> set NAMESPACES" by simp
  from Cons.IH [OF sp(1) [OF pre] _ Cons.prems(3,4) sp(3) [OF pre] sp(4) [OF pre]] Cons.prems(2) sp(2) [OF pre]
  show ?case by simp
qed

subsection \<open>What a sweep removes\<close>

lemma sweep_refs_removes:
  "gc_invar root fs \<Longrightarrow> \<forall>r \<in> set refs. good_key (br_path r) \<Longrightarrow> r \<in> set refs \<Longrightarrow> \<not> br_has_meta r
   \<Longrightarrow> a * 1000000 \<le> now - br_mtime r \<Longrightarrow> entry_at fs (resolve root (br_path r)) \<in> {None, Some D}
   \<Longrightarrow> entry_at (sweep_refs root now a refs fs) (resolve root (br_path r)) = None"
proof (induction refs arbitrary: fs)
  case Nil
  then show ?case by simp
next
  case (Cons x refs)
  let ?f = "snd (delete_bundle root now (br_path x) fs)" and ?d = "resolve root (br_path r)"
  have gi: "gc_invar root ?f" using gc_invar_delete Cons.prems by simp
  have gs: "\<forall>r \<in> set refs. good_key (br_path r)" using Cons.prems by simp
  show ?case
  proof (cases "x = r")
    case True
    note w = gc_invarD [OF Cons.prems(1)]
    have "entry_at ?f ?d = None"
    proof (cases "entry_at fs ?d")
      case None
      then show ?thesis using delete_entries_le [of root fs "br_path x" now ?d] Cons.prems by auto
    next
      case (Some e)
      then have "entry_at fs ?d = Some D" using Cons.prems by auto
      with delete_bundle_ok [of fs root "br_path r" now] obtain fs' where
        o: "delete_bundle root now (br_path r) fs = (Inr (), fs')" using w Cons.prems True by auto
      from delete_bundle_Inr(3) [of fs root "br_path r" now "()" fs'] o w Cons.prems True show ?thesis by simp
    qed
    with sweep_refs_entries_le [OF gi gs, of now a ?d] True Cons.prems show ?thesis by simp
  next
    case False
    then have "r \<in> set refs" using Cons.prems by simp
    moreover have "entry_at ?f ?d \<in> {None, Some D}"
      using delete_entries_le [of root fs "br_path x" now ?d] Cons.prems by auto
    ultimately show ?thesis using Cons gi gs by simp
  qed
qed

lemma delete_map_of:
  assumes i: "gc_invar root fs" and g: "good_key p" and q: "\<not> prefix (resolve root p) q" "q \<noteq> butlast (resolve root p)"
  shows "map_of (snd (delete_bundle root t p fs)) q = map_of fs q"
proof -
  note w = gc_invarD [OF i]
  have c: "clean (resolve root p)" using clean_resolve w g by simp
  have "map_of fs' q = map_of fs q" if "rmtree t (resolve root p) fs = Inr fs'" for fs'
  proof -
    from that obtain d where d: "walk fs [] (resolve root p) = Inr d"
      and fs': "fs' = touch t (butlast d) (filter (\<lambda>(x, n). \<not> prefix d x) fs)"
      by (auto simp: rmtree_def split: sum.splits option.splits node.splits)
    have "d = resolve root p" using d walk_clean_iff [OF _ c, of fs d] w by simp
    with fs' q show ?thesis by (simp add: map_of_touch map_of_filter_key option.map_ident)
  qed
  then show ?thesis by (auto simp: delete_bundle_def lift_fs_def Let_def split: sum.splits)
qed

lemma sweep_refs_map_of:
  "gc_invar root fs \<Longrightarrow> \<forall>r \<in> set refs. good_key (br_path r)
   \<Longrightarrow> \<forall>r \<in> set refs. \<not> prefix (resolve root (br_path r)) q \<and> q \<noteq> butlast (resolve root (br_path r))
   \<Longrightarrow> map_of (sweep_refs root now a refs fs) q = map_of fs q"
  by (induction refs arbitrary: fs) (auto simp: gc_invar_delete delete_map_of)

lemma list_bundles_cong:
  assumes i: "gc_invar root fs" "gc_invar root fs'" and g: "good_key pre"
    and e: "\<And>q. prefix (resolve root pre) q \<Longrightarrow> map_of fs' q = map_of fs q"
  shows "set (list_bundles root pre inc fs') = set (list_bundles root pre inc fs)"
proof -
  note w = gc_invarD [OF i(1)] gc_invarD [OF i(2)]
  let ?b = "resolve root pre"
  have en: "entry_at fs' (?b @ x) = entry_at fs (?b @ x)" for x using e by (simp add: entry_at_def)
  have hf: "has_file fs' (?b @ x) = has_file fs (?b @ x)" "has_meta fs' (?b @ x) = has_meta fs (?b @ x)" for x
    using en by (simp_all add: has_file_def has_meta_def)
  have rp: "reported inc fs' (?b @ [x]) s = reported inc fs (?b @ [x]) s" for x s
    using hf by (simp add: reported_def)
  have rf: "ref_of fs' (?b @ x) rel = ref_of fs (?b @ x) rel" for x rel
    using e en file_names_iff [of fs] file_names_iff [of fs'] w by (simp add: ref_of_def dir_mtime_def)
  show ?thesis
    using list_bundles_iff [of fs root pre _ inc] list_bundles_iff [of fs' root pre _ inc] w g
      en [of "[]"] en [of "[_]"] rp rf by (auto simp: set_eq_iff)
qed

lemma listed_under:
  assumes "gc_invar root fs" "good_key pre" "path_parts pre = [ns]" "r \<in> set (list_bundles root pre inc fs)"
  shows "\<exists>x s. resolve root (br_path r) = data_root root @ ns # x # s"
  using listed_ref [of fs root pre r inc] gc_invarD [OF assms(1)] assms(2-4)
  by (metis append.assoc append_Cons append_Nil resolve_good)

text \<open>The pass over the first namespace does not change the listing of the second.\<close>

lemma sweep_other_namespace:
  fixes now age :: int
  assumes i: "gc_invar root fs" and ns: "path_parts p1 = [a1]" "path_parts p2 = [a2]" "a1 \<noteq> a2"
    and g: "good_key p1" "good_key p2"
  defines "fs' \<equiv> sweep_refs root now age (list_bundles root p1 True fs) fs"
  shows "gc_invar root fs'"
    and "prefix (resolve root p2) q \<Longrightarrow> entry_at fs' q = entry_at fs q"
    and "set (list_bundles root p2 inc fs') = set (list_bundles root p2 inc fs)"
proof -
  note gs = listed_good [OF i g(1)]
  show i': "gc_invar root fs'" using sweep_refs_invar [OF i gs] by (simp add: fs'_def)
  have e: "map_of fs' q = map_of fs q" if q: "prefix (resolve root p2) q" for q
  proof -
    obtain x where x: "q = data_root root @ a2 # x" using q by (auto simp: resolve_good [OF g(2)] ns elim!: prefixE)
    have "\<not> prefix (resolve root (br_path r)) q \<and> q \<noteq> butlast (resolve root (br_path r))"
      if "r \<in> set (list_bundles root p1 True fs)" for r
      using listed_under [OF i g(1) ns(1) that] x ns(3) by (auto simp: butlast_append)
    then show ?thesis unfolding fs'_def by (intro sweep_refs_map_of [OF i gs]) blast
  qed
  then show "prefix (resolve root p2) q \<Longrightarrow> entry_at fs' q = entry_at fs q" by (simp add: entry_at_def)
  show "set (list_bundles root p2 inc fs') = set (list_bundles root p2 inc fs)"
    by (rule list_bundles_cong [OF i i' g(2) e])
qed

subsection \<open>Claims\<close>

text \<open>The claim store (\<^verbatim>\<open>.claims\<close>) lies beside the data directory.\<close>

definition separate :: "str list \<Rightarrow> str list \<Rightarrow> bool" where
  "separate root base = (\<not> prefix (data_root root) base \<and> \<not> prefix base (data_root root))"

lemma separate_below:
  assumes "separate root base" "good_key p" "prefix (resolve root p) q"
  shows "\<not> prefix base q"
proof
  assume "prefix base q"
  moreover have "prefix (data_root root) q"
    using assms(2,3) by (auto simp: resolve_good elim!: prefixE)
  ultimately show False using assms(1) prefix_same_cases by (auto simp: separate_def)
qed

definition claimed :: "(str \<Rightarrow> str) \<Rightarrow> str list \<Rightarrow> str list \<Rightarrow> claim_record \<Rightarrow> fs \<Rightarrow> bool" where
  "claimed digest base root c fs \<longleftrightarrow> store_invar root fs \<and> claims_invar digest base fs \<and> separate root base
     \<and> claim_ok c \<and> good_key (cr_bundle_path c) \<and> record_of base fs (cr_jti c) = Some c"

lemma delete_claim_view:
  assumes c: "claimed digest base root c fs" and n: "good_key n" and p: "good_key p"
  shows "meta_at root (snd (delete_claim digest base t (cr_jti c) fs)) p = meta_at root fs p
    \<and> file_at root (snd (delete_claim digest base t (cr_jti c) fs)) p n = file_at root fs p n"
proof -
  have inv: "store_invar root fs" "claims_invar digest base fs" "separate root base" "jti_ok (cr_jti c)"
    "record_of base fs (cr_jti c) = Some c" using c by (auto simp: claimed_def claim_ok_def)
  obtain fs' where d: "delete_claim digest base t (cr_jti c) fs = (Inr (), fs')" "claims_invar digest base fs'"
    and e: "entry_at fs' = (entry_at fs)(base @ [lock_name digest (cr_bundle_path c)] := None,
      base @ [cr_jti c @ ''.json''] := None)"
    using delete_claim_record [OF inv(2,4,5), of t] by blast
  have i': "store_invar root fs'" using d(2) inv(1) by (simp add: claims_invar_def store_invar_def)
  have "entry_at fs' q = entry_at fs q" if "prefix (resolve root p) q" for q
    using separate_below [OF inv(3) p that] e by auto
  with view_cong [OF inv(1) i' p n] d(1) show ?thesis by simp
qed

lemma delete_bundle_claimed:
  assumes c: "claimed digest base root c fs"
  shows "claimed digest base root c (snd (delete_bundle root t (cr_bundle_path c) fs))"
proof -
  let ?f = "snd (delete_bundle root t (cr_bundle_path c) fs)"
  have inv: "store_invar root fs" "claims_invar digest base fs" "separate root base" "jti_ok (cr_jti c)"
    "good_key (cr_bundle_path c)" "record_of base fs (cr_jti c) = Some c"
    using c by (auto simp: claimed_def claim_ok_def)
  have si: "store_invar root ?f" by (rule delete_invar [OF inv(1,5)])
  have "\<not> prefix (resolve root (cr_bundle_path c)) (base @ [n])" for n
    using separate_below [OF inv(3,5), of "base @ [n]"] by auto
  then have e: "entry_at ?f (base @ [n]) = entry_at fs (base @ [n])" for n
    using delete_any [OF inv(1,5)] by (metis prod.collapse)
  then have ci: "claims_invar digest base ?f" using inv(2) si by (simp add: claims_invar_def store_invar_def)
  have "record_of base ?f (cr_jti c) = Some c"
    using inv(6) e by (simp add: record_of_iff [OF ci inv(4)] record_of_iff [OF inv(2,4)])
  with si ci c show ?thesis by (simp add: claimed_def)
qed

lemma delete_claim_done:
  assumes "claimed digest base root c fs"
  shows "fst (delete_claim digest base t (cr_jti c) fs) = Inr ()"
    and "record_of base (snd (delete_claim digest base t (cr_jti c) fs)) (cr_jti c) = None"
    and "\<not> locked digest base (snd (delete_claim digest base t (cr_jti c) fs)) (cr_bundle_path c)"
  using assms delete_claim_releases [of digest base fs "cr_jti c" c t] by (auto simp: claimed_def claim_ok_def)

lemma read_bundle_meta_at: "read_bundle_meta root p fs = Inr m \<longleftrightarrow> meta_at root fs p = Some m"
  by (auto simp: meta_at_def split: sum.splits)

end
