(* ===== verification/Downloads_Laws.thy ===== *)
theory Downloads_Laws
  imports Gc Downloads
begin

text \<open>
  Facts about the download path: a URL built by the transport is taken apart into the path and
  the name it was built from, the credential minted for a bundle opens exactly its files, and
  the accounting after a stream keeps the bundle until the last file has been fetched.
\<close>

subsection \<open>Envelopes and URLs\<close>

definition decode_entry :: "inline_file \<Rightarrow> (str \<times> bytes) option" where
  "decode_entry f =
     (case if_encoding f of
        Utf8 \<Rightarrow> Some (if_name f, if_content f)
      | Base64 \<Rightarrow> map_option (\<lambda>b. (if_name f, b)) (b64decode (if_content f)))"

lemma decode_inline_entry: "decode_entry (inline_entry f) = Some f"
  by (cases f) (simp add: inline_entry_def decode_entry_def b64decode_b64encode)

lemma takeWhile_rev_last:
  "c \<notin> set n \<Longrightarrow> rev (takeWhile (\<lambda>x. x \<noteq> c) (rev (p @ c # n))) = n"
proof -
  assume "c \<notin> set n"
  then have "takeWhile (\<lambda>x. x \<noteq> c) (rev n @ c # rev p) = rev n"
    by (subst takeWhile_append2) auto
  then show ?thesis by simp
qed

lemma split_raw_path_url: "split_raw_path (''/download/'' @ url_quote p @ ''/'' @ url_quote n) = Inr (p, n)"
proof -
  let ?r = "url_quote p @ CHR ''/'' # url_quote n"
  have q: "takeWhile (\<lambda>c. c \<noteq> CHR ''?'') (''/download/'' @ ?r) = ''/download/'' @ ?r"
    using url_quote_no_slash(2) by (auto simp: takeWhile_eq_all_conv)
  have n: "rev (takeWhile (\<lambda>c. c \<noteq> CHR ''/'') (rev ?r)) = url_quote n"
    by (rule takeWhile_rev_last) (rule url_quote_no_slash(1))
  have "split_raw_path (''/download/'' @ ?r)
      = Inr (url_unquote (url_quote p), url_unquote (url_quote n))"
    unfolding split_raw_path_def Let_def q using n by simp
  then show ?thesis by (simp add: url_unquote_quote)
qed

subsection \<open>The credential of a bundle\<close>

lemma build_claims_lookup:
  "map_of (with_jti uuid (build_claims bp m rec ttl iat)) k =
    (if k = ''jti'' then Some (JStr uuid) else map_of (build_claims bp m rec ttl iat) k)"
  by (simp add: with_jti_def build_claims_def truthy_def)

lemma check_build_claims:
  assumes "iat \<le> now" "now < iat + ttl"
  shows "check_claims (with_jti uuid (build_claims bp m rec ttl iat)) now
    = Inr (with_jti uuid (build_claims bp m rec ttl iat))"
  unfolding check_claims_def REQUIRED_CLAIMS_def claim_int_def build_claims_lookup
  using assms by (simp add: build_claims_def)

lemma claim_names_build:
  "claim_names (with_jti uuid (build_claims bp m rec ttl iat)) = Inr (map mf_name (bm_files m))"
  by (simp add: claim_names_def build_claims_lookup)
    (auto simp: build_claims_def truthy_def py_list_def py_str_def comp_def)

lemma extract_bearer_token: "strip_ws tok = tok \<Longrightarrow> extract_bearer (''Bearer '' @ tok) = Some tok"
proof -
  have l: "to_lower (a @ b) = to_lower a @ to_lower b" for a b by (simp add: to_lower_def)
  have "to_lower ''Bearer '' = ''bearer ''" by code_simp
  then have "startswith (to_lower (''Bearer '' @ tok)) ''bearer ''" unfolding l by simp
  moreover assume "strip_ws tok = tok"
  ultimately show ?thesis by (simp add: extract_bearer_def)
qed

lemma claims_ok_build: "claims_ok (with_jti uuid (build_claims bp m rec ttl iat))"
  by (rule claims_ok_with_jti) (simp add: build_claims_def list_all_iff)

lemma jti_of_payload:
  "lib_laws lib \<Longrightarrow> extract_jti (jl_peek lib) (sign (jl_encode lib) uuid (build_claims bp m rec ttl iat) key) = uuid"
  using claims_ok_build [of uuid bp m rec ttl iat]
  by (simp add: extract_jti_def sign_def lib_laws_def claim_str_JStr build_claims_lookup del: json_ok.simps)

lemma authorize_signed:
  assumes lib: "lib_laws lib" and t: "iat \<le> now" "now < iat + ttl" and r: "chk uuid = None"
    and slots: "js_primary slots = key" and n: "n \<in> mf_name ` set (bm_files m)"
    and i: "dev \<or> (sender = Some rec \<and> rec \<noteq> [])"
    and tok: "tok = sign (jl_encode lib) uuid (build_claims bp m rec ttl iat) key"
  shows "authorize_download (jl_decode lib) chk dev now mono_t slots
      \<lparr>dr_authorization = ''Bearer '' @ tok,
       dr_raw_path = ''/download/'' @ url_quote bp @ ''/'' @ url_quote n, dr_x_sender = sender\<rparr>
    = Inr (with_jti uuid (build_claims bp m rec ttl iat), bp, n)"
proof -
  let ?c = "with_jti uuid (build_claims bp m rec ttl iat)"
  have b: "extract_bearer (''Bearer '' @ tok) = Some tok"
    using lib tok by (intro extract_bearer_token) (simp add: lib_laws_def sign_def)
  have j: "claim_str ?c ''jti'' = uuid" by (simp add: claim_str_JStr build_claims_lookup)
  have "verify (jl_decode lib) chk now tok key sec = Inr ?c" for sec
    unfolding tok sign_def
    by (rule verify_primary) (use lib r j check_build_claims [OF t] claims_ok_build in \<open>simp_all add: lib_laws_def\<close>)
  then have v: "fst (verify_slots (jl_decode lib) chk now mono_t tok slots) = Inr ?c"
    using slots by (simp add: verify_slots_def split: prod.splits)
  have f: "find (\<lambda>k. map_of ?c k = None) [''bundle_path'', ''bundle_id'', ''recipient'', ''file_names''] = None"
    unfolding find.simps build_claims_lookup by (simp add: build_claims_def)
  have p: "py_str (the (map_of ?c ''bundle_path'')) = bp" "py_str (the (map_of ?c ''recipient'')) = rec"
    unfolding build_claims_lookup by (simp_all add: build_claims_def py_str_def)
  have s: "split_raw_path (''/download/'' @ url_quote bp @ ''/'' @ url_quote n) = Inr (bp, n)"
    by (rule split_raw_path_url)
  show ?thesis
    unfolding authorize_download_def download_request.simps b option.case v sum.case f s prod.case p Let_def
      claim_names_build
    using n i by (auto simp: resolve_identity_label_def)
qed

lemma serve_file_ok:
  assumes "meta_at root fs bp = Some m" "file_at root fs bp n = Some b"
    and "find_file n (bm_files m) = Some f"
  shows "serve_file root bp n fs = Inr (m, \<lparr>ds_media_type = mime_or_default (mf_mime f),
    ds_content_length = mf_size f, ds_body = b\<rparr>)"
  using assms by (auto simp: serve_file_def meta_at_def file_at_def split: sum.splits)

subsection \<open>Accounting\<close>

lemma claimed_get: "claimed digest base root c fs \<Longrightarrow> get_claim base (cr_jti c) fs = Inr (Some c)"
  by (auto simp: claimed_def record_of_def split: sum.splits option.splits)

lemma mark_fetched_claimed:
  assumes c: "claimed digest base root c fs"
  obtains fs' c' where "mark_fetched base t (cr_jti c) n fs = (Inr c', fs')" "claimed digest base root c' fs'"
    "cr_jti c' = cr_jti c" "cr_bundle_path c' = cr_bundle_path c"
    "set (cr_files_fetched c') = insert n (set (cr_files_fetched c))"
    "\<And>p. locked digest base fs' p = locked digest base fs p"
    "\<And>p f. good_key p \<Longrightarrow> good_key f \<Longrightarrow>
       meta_at root fs' p = meta_at root fs p \<and> file_at root fs' p f = file_at root fs p f"
proof -
  have inv: "store_invar root fs" "claims_invar digest base fs" "separate root base" "jti_ok (cr_jti c)"
    "cr_schema_version c = 1" "record_of base fs (cr_jti c) = Some c"
    using c by (auto simp: claimed_def claim_ok_def)
  obtain fs' c' where m: "mark_fetched base t (cr_jti c) n fs = (Inr c', fs')" "claims_invar digest base fs'"
    "record_of base fs' (cr_jti c) = Some c'" "c' = c\<lparr>cr_files_fetched := cr_files_fetched c'\<rparr>"
    "set (cr_files_fetched c') = insert n (set (cr_files_fetched c))"
    "\<And>p. locked digest base fs' p = locked digest base fs p"
    "\<And>q. \<not> prefix base q \<Longrightarrow> entry_at fs' q = entry_at fs q"
    using mark_fetched_ok [OF inv(2,4,6) refl inv(5), of t n] by blast
  have j: "cr_jti c' = cr_jti c" "cr_bundle_path c' = cr_bundle_path c" "cr_schema_version c' = cr_schema_version c"
    using m(4) by (metis claim_record.select_convs(2) claim_record.select_convs(3)
        claim_record.select_convs(1) claim_record.update_convs(7) claim_record.surjective)+
  have si: "store_invar root fs'" using inv(1) m(2) by (simp add: store_invar_def claims_invar_def)
  have cl: "claimed digest base root c' fs'" using c si m(2,3) j by (simp add: claimed_def claim_ok_def)
  have "meta_at root fs' p = meta_at root fs p \<and> file_at root fs' p f = file_at root fs p f"
    if "good_key p" "good_key f" for p f
    using view_cong [OF inv(1) si that] m(7) separate_below [OF inv(3) that(1)] by blast
  with that m(1,5,6) cl j show ?thesis by blast
qed

lemma accounting_partial:
  assumes c: "claimed digest base root c fs"
    and i: "\<not> mf_name ` set files \<subseteq> insert n (set (cr_files_fetched c))"
  shows "\<exists>fs' c'. post_stream_claim_accounting digest base root t (cr_jti c) (cr_bundle_path c) n files fs = (Inr (), fs')
    \<and> claimed digest base root c' fs' \<and> cr_jti c' = cr_jti c \<and> cr_bundle_path c' = cr_bundle_path c
    \<and> set (cr_files_fetched c') = insert n (set (cr_files_fetched c))
    \<and> locked digest base fs' (cr_bundle_path c) = locked digest base fs (cr_bundle_path c)
    \<and> (\<forall>p f. good_key p \<longrightarrow> good_key f \<longrightarrow>
         meta_at root fs' p = meta_at root fs p \<and> file_at root fs' p f = file_at root fs p f)"
proof -
  obtain fs' c' where m: "mark_fetched base t (cr_jti c) n fs = (Inr c', fs')" "claimed digest base root c' fs'"
    "cr_jti c' = cr_jti c" "cr_bundle_path c' = cr_bundle_path c"
    "set (cr_files_fetched c') = insert n (set (cr_files_fetched c))"
    "\<And>p. locked digest base fs' p = locked digest base fs p"
    "\<And>p f. good_key p \<Longrightarrow> good_key f \<Longrightarrow>
       meta_at root fs' p = meta_at root fs p \<and> file_at root fs' p f = file_at root fs p f"
    using mark_fetched_claimed [OF c] by metis
  have "post_stream_claim_accounting digest base root t (cr_jti c) (cr_bundle_path c) n files fs = (Inr (), fs')"
    using m(1,5) i claimed_get [OF c] by (simp add: post_stream_claim_accounting_def)
  with m show ?thesis by blast
qed

lemma accounting_complete:
  assumes c: "claimed digest base root c fs" and m: "meta_at root fs (cr_bundle_path c) = Some x"
    and i: "mf_name ` set files \<subseteq> insert n (set (cr_files_fetched c))"
  shows "\<exists>fs'. post_stream_claim_accounting digest base root t (cr_jti c) (cr_bundle_path c) n files fs = (Inr (), fs')
    \<and> meta_at root fs' (cr_bundle_path c) = None
    \<and> record_of base fs' (cr_jti c) = None \<and> \<not> locked digest base fs' (cr_bundle_path c)"
proof -
  have g: "good_key (cr_bundle_path c)" and gx: "good_key ''x''"
    using c by (simp_all add: claimed_def good_key_def path_parts_def)
  obtain fs1 c' where k: "mark_fetched base t (cr_jti c) n fs = (Inr c', fs1)" "claimed digest base root c' fs1"
    "cr_jti c' = cr_jti c" "cr_bundle_path c' = cr_bundle_path c"
    "set (cr_files_fetched c') = insert n (set (cr_files_fetched c))"
    "\<And>p f. good_key p \<Longrightarrow> good_key f \<Longrightarrow>
       meta_at root fs1 p = meta_at root fs p \<and> file_at root fs1 p f = file_at root fs p f"
    using mark_fetched_claimed [OF c] by metis
  have si: "store_invar root fs1" using k(2) by (simp add: claimed_def)
  have m1: "meta_at root fs1 (cr_bundle_path c) = Some x" using k(6) [OF g gx] m by simp
  obtain fs2 where d: "delete_bundle root t (cr_bundle_path c) fs1 = (Inr (), fs2)"
    "meta_at root fs2 (cr_bundle_path c) = None"
    using delete_committed [OF si g m1, of t] by (cases "delete_bundle root t (cr_bundle_path c) fs1") auto
  have cd: "claimed digest base root c' fs2" using delete_bundle_claimed [OF k(2), of t] k(4) d(1) by simp
  note dc = delete_claim_done [OF cd, of t, unfolded k(3,4)]
  have v: "meta_at root (snd (delete_claim digest base t (cr_jti c) fs2)) (cr_bundle_path c) = None"
    using delete_claim_view [OF cd gx g, of t] d(2) k(3) by simp
  have "post_stream_claim_accounting digest base root t (cr_jti c) (cr_bundle_path c) n files fs
      = delete_claim digest base t (cr_jti c) fs2"
    using k(1,5) i d(1) claimed_get [OF c] by (simp add: post_stream_claim_accounting_def)
  with dc v show ?thesis by (metis prod.collapse)
qed

end
