(* ===== verification/Inbox_Laws.thy ===== *)
theory Inbox_Laws
  imports Inbox Downloads_Laws
begin

text \<open>
  Facts about the inbox handlers: what a handler reads of a bundle that is present, and what is
  left once the bundle has been deleted or claimed.
\<close>

lemma collect_bundle_files_ok:
  "\<forall>f \<in> set files. file_at root fs bp (mf_name f) = Some (content (mf_name f))
   \<Longrightarrow> collect_bundle_files root bp files fs = Inr (map (\<lambda>f. (mf_name f, content (mf_name f))) files)"
  by (induction files) (auto simp: file_at_def split: sum.splits)

lemma read_bundle_meta_absent:
  assumes "store_invar root fs" "good_key p" "entry_at fs (resolve root p @ [BUNDLE_MANIFEST]) = None"
  shows "read_bundle_meta root p fs = Inl FileNotFoundError"
proof -
  have "fs_wf fs" "clean (resolve root p @ [BUNDLE_MANIFEST])"
    using assms(1) clean_resolve [OF _ assms(2)] by (auto simp: store_invar_def)
  then have "\<not> is_file fs (resolve root p @ [BUNDLE_MANIFEST])" using assms(3) by (simp add: is_file_clean)
  then show ?thesis by (simp add: read_bundle_meta_def Let_def)
qed

lemma delete_present:
  assumes i: "store_invar root fs" and g: "good_key p" and m: "meta_at root fs p = Some m"
  shows "\<exists>fs'. delete_bundle root t p fs = (Inr (), fs') \<and> store_invar root fs'
    \<and> read_bundle_meta root p fs' = Inl FileNotFoundError"
proof -
  obtain fs' where d: "delete_bundle root t p fs = (Inr (), fs')"
    using delete_committed [OF i g m, of t] by (cases "delete_bundle root t p fs") auto
  have si: "store_invar root fs'" using delete_invar [OF i g, of t] d by simp
  have "entry_at fs' (resolve root p @ [BUNDLE_MANIFEST]) = None"
    using delete_bundle_Inr(3) [OF _ _ g d] i by (simp add: store_invar_def)
  with d si read_bundle_meta_absent [OF si g] show ?thesis by blast
qed

lemma live_meta_fresh:
  assumes "meta_at root fs bp = Some m" "rt_root env = root"
    and "is_expired_by_meta t (bm_created_at m) (rt_default_ttl env) = Inr False"
  shows "live_meta env t bp path fs = (Inr m, fs)"
  using assms by (auto simp: live_meta_def meta_at_def split: sum.splits)

lemma live_meta_absent:
  "read_bundle_meta (rt_root env) bp fs = Inl FileNotFoundError
   \<Longrightarrow> live_meta env t bp path fs = (Inl (HttpError 404 (''File not found: '' @ path)), fs)"
  by (simp add: live_meta_def raised_def)

lemma pick_absent:
  assumes "read_bundle_meta (rt_root env) (inbox_path agent path) fs = Inl FileNotFoundError"
    and "rt_access env ident (''inbox:'' @ agent) ''pick''" and "path \<noteq> ''latest''"
  shows "pick_inbox_file env uuid t ident agent path fs = (Inl (HttpError 404 (''File not found: '' @ path)), fs)"
  using assms by (simp add: pick_inbox_file_def enforce_def select_pick_def live_meta_absent)

lemma pick_inline:
  assumes i: "store_invar (rt_root env) fs" and g: "good_key (inbox_path agent path)" and p: "path \<noteq> ''latest''"
    and a: "rt_access env ident (''inbox:'' @ agent) ''pick''"
    and m: "meta_at (rt_root env) fs (inbox_path agent path) = Some m"
    and f: "is_expired_by_meta t (bm_created_at m) (rt_default_ttl env) = Inr False"
    and e: "evaluate_download (rt_limits env) (total_size (bm_files m)) = DownloadInline"
    and c: "\<forall>f \<in> set (bm_files m). file_at (rt_root env) fs (inbox_path agent path) (mf_name f) = Some (content (mf_name f))"
  shows "\<exists>fs'. pick_inbox_file env uuid t ident agent path fs =
      (Inr \<lparr>rr_body = InlineBody (build_inline_envelope m (map (\<lambda>f. (mf_name f, content (mf_name f))) (bm_files m))),
            rr_sender = sender_header m, rr_file_count = bm_file_count m, rr_path = Some path\<rparr>, fs')
    \<and> store_invar (rt_root env) fs'
    \<and> read_bundle_meta (rt_root env) (inbox_path agent path) fs' = Inl FileNotFoundError"
proof -
  obtain fs' where d: "delete_bundle (rt_root env) t (inbox_path agent path) fs = (Inr (), fs')"
    "store_invar (rt_root env) fs'" "read_bundle_meta (rt_root env) (inbox_path agent path) fs' = Inl FileNotFoundError"
    using delete_present [OF i g m] by blast
  then show ?thesis
    using a p e live_meta_fresh [OF m refl f] collect_bundle_files_ok [OF c]
    by (simp add: pick_inbox_file_def enforce_def select_pick_def)
qed

text \<open>The claim \<^verbatim>\<open>pick\<close> issues when it answers with references.\<close>

definition pick_claim :: "str \<Rightarrow> int \<Rightarrow> str \<Rightarrow> bundle_meta \<Rightarrow> str \<Rightarrow> claim_record" where
  "pick_claim uuid t bundle_path m recipient =
     \<lparr>cr_schema_version = 1, cr_jti = uuid, cr_bundle_path = bundle_path, cr_bundle_id = bm_bundle_id m,
      cr_recipient = recipient, cr_created_at = isoformat (utcfromtimestamp t), cr_files_fetched = []\<rparr>"

text \<open>The credential and the envelope it answers with.\<close>

definition pick_token :: "route_env \<Rightarrow> str \<Rightarrow> int \<Rightarrow> str \<Rightarrow> bundle_meta \<Rightarrow> str \<Rightarrow> str" where
  "pick_token env uuid t bundle_path m recipient =
     sign (jl_encode (rt_lib env)) uuid
       (build_claims bundle_path m recipient (download_ttl (rt_limits env)) (epoch t)) (rt_jwt_primary_key env)"

definition pick_envelope :: "route_env \<Rightarrow> str \<Rightarrow> int \<Rightarrow> str \<Rightarrow> bundle_meta \<Rightarrow> str \<Rightarrow> reference_envelope" where
  "pick_envelope env uuid t bundle_path m recipient =
     build_reference_envelope_with_path m bundle_path (build_download_url (rt_public_base_url env))
       (pick_token env uuid t bundle_path m recipient) (expires_iso (epoch t) (download_ttl (rt_limits env)))"

lemma inbox_reference_claim:
  assumes "lib_laws (rt_lib env)"
  shows "inbox_reference env uuid t bp m agent True fs =
    (case issue (rt_digest env) (rt_claims_base env) t (pick_claim uuid t bp m agent) fs of
       (Inl e, fs') \<Rightarrow> (Inl e, fs') | (Inr u, fs') \<Rightarrow> (Inr (pick_envelope env uuid t bp m agent), fs'))"
  using jti_of_payload [OF assms]
  by (simp add: inbox_reference_def build_reference_payload_for_inbox_def Let_def pick_claim_def pick_envelope_def
      pick_token_def split: prod.splits sum.splits)

lemma pick_reference:
  assumes i: "store_invar (rt_root env) fs" and g: "good_key (inbox_path agent path)" and p: "path \<noteq> ''latest''"
    and a: "rt_access env ident (''inbox:'' @ agent) ''pick''"
    and m: "meta_at (rt_root env) fs (inbox_path agent path) = Some m"
    and f: "is_expired_by_meta t (bm_created_at m) (rt_default_ttl env) = Inr False"
    and e: "evaluate_download (rt_limits env) (total_size (bm_files m)) = DownloadReference"
    and lib: "lib_laws (rt_lib env)"
  shows "pick_inbox_file env uuid t ident agent path fs =
    (case issue (rt_digest env) (rt_claims_base env) t (pick_claim uuid t (inbox_path agent path) m agent) fs of
       (Inl e, fs') \<Rightarrow>
         (Inl (case e of BundleClaimedError p \<Rightarrow> HttpError 404 (''File not found: '' @ path) | _ \<Rightarrow> HttpRaised e), fs')
     | (Inr u, fs') \<Rightarrow>
         (Inr \<lparr>rr_body = ReferenceBody (pick_envelope env uuid t (inbox_path agent path) m agent),
               rr_sender = sender_header m, rr_file_count = bm_file_count m, rr_path = Some path\<rparr>, fs'))"
  using a p e live_meta_fresh [OF m refl f] inbox_reference_claim [OF lib]
  by (simp add: pick_inbox_file_def enforce_def select_pick_def split: prod.splits sum.splits)

text \<open>What a successful pick by reference leaves behind.\<close>

lemma pick_reference_claimed:
  assumes i: "store_invar root fs" and ci: "claims_invar digest base fs" and s: "separate root base"
    and j: "jti_ok uuid" and g: "good_key bp" and m: "meta_at root fs bp = Some m"
    and o: "issue digest base t (pick_claim uuid t bp m agent) fs = (Inr u, fs')"
  shows "claimed digest base root (pick_claim uuid t bp m agent) fs' \<and> locked digest base fs' bp
    \<and> (\<forall>p n. good_key p \<longrightarrow> good_key n \<longrightarrow>
         meta_at root fs' p = meta_at root fs p \<and> file_at root fs' p n = file_at root fs p n)"
proof -
  let ?c = "pick_claim uuid t bp m agent"
  have c: "jti_ok (cr_jti ?c)" "cr_schema_version ?c = 1" "cr_bundle_path ?c = bp" "cr_jti ?c = uuid"
    using j by (simp_all add: pick_claim_def)
  note iss = issue_Inr [OF ci c(1,2) o]
  have si: "store_invar root fs'" using i iss(1) by (simp add: store_invar_def claims_invar_def)
  have pb: "\<not> prefix q base" if "good_key p" "prefix (resolve root p) q" for p q
    using s that unfolding separate_def resolve_good [OF that(1)] by (metis append_prefixD prefix_order.trans)
  have e: "entry_at fs' q = entry_at fs q" if "good_key p" "prefix (resolve root p) q" for p q
    using iss(5) pb [OF that] separate_below [OF s that] by auto
  have "meta_at root fs' p = meta_at root fs p \<and> file_at root fs' p n = file_at root fs p n"
    if "good_key p" "good_key n" for p n
    using view_cong [OF i si that] e [OF that(1)] by blast
  moreover have "claimed digest base root ?c fs'"
    using si iss(1,4) s c g by (simp add: claimed_def claim_ok_def)
  moreover have "locked digest base fs' bp" using iss(3) c(3) by simp
  ultimately show ?thesis by blast
qed

text \<open>No claim on the bundle, no sidecar of the identifier, and a place for the store.\<close>

definition claim_free :: "(str \<Rightarrow> str) \<Rightarrow> str list \<Rightarrow> fs \<Rightarrow> str \<Rightarrow> str \<Rightarrow> bool" where
  "claim_free digest base fs jti bp \<longleftrightarrow> \<not> locked digest base fs bp \<and> entry_at fs (base @ [jti @ ''.json'']) = None
     \<and> (\<forall>q. prefix q base \<longrightarrow> entry_at fs q \<in> {None, Some D})"

lemma pick_reference_ok:
  assumes store: "store_invar (rt_root env) fs" "claims_invar (rt_digest env) (rt_claims_base env) fs"
      "separate (rt_root env) (rt_claims_base env)" "good_key (inbox_path agent path)" "path \<noteq> ''latest''"
    and m: "meta_at (rt_root env) fs (inbox_path agent path) = Some m"
    and pick: "rt_access env ident (''inbox:'' @ agent) ''pick''"
      "is_expired_by_meta t (bm_created_at m) (rt_default_ttl env) = Inr False"
      "evaluate_download (rt_limits env) (total_size (bm_files m)) = DownloadReference"
      "jti_ok uuid" "claim_free (rt_digest env) (rt_claims_base env) fs uuid (inbox_path agent path)"
      "lib_laws (rt_lib env)"
  shows "\<exists>r fs1. pick_inbox_file env uuid t ident agent path fs = (Inr r, fs1)
    \<and> rr_body r = ReferenceBody (pick_envelope env uuid t (inbox_path agent path) m agent)
    \<and> claimed (rt_digest env) (rt_claims_base env) (rt_root env) (pick_claim uuid t (inbox_path agent path) m agent) fs1
    \<and> locked (rt_digest env) (rt_claims_base env) fs1 (inbox_path agent path)
    \<and> (\<forall>p n. good_key p \<longrightarrow> good_key n \<longrightarrow> meta_at (rt_root env) fs1 p = meta_at (rt_root env) fs p
         \<and> file_at (rt_root env) fs1 p n = file_at (rt_root env) fs p n)"
proof -
  let ?p = "inbox_path agent path" and ?c = "pick_claim uuid t (inbox_path agent path) m agent"
  have c: "cr_jti ?c = uuid" "cr_bundle_path ?c = ?p" by (simp_all add: pick_claim_def)
  obtain fs1 where iss: "issue (rt_digest env) (rt_claims_base env) t ?c fs = (Inr (), fs1)"
    using issue_ok [OF store(2), of ?c t] pick(4,5) by (auto simp: claim_free_def c)
  show ?thesis
    using pick_reference [OF store(1,4,5) pick(1) m(1) pick(2,3,6), of uuid] iss
      pick_reference_claimed [OF store(1-3) pick(4) store(4) m iss] by auto
qed

lemma pick_claimed:
  assumes ci: "claims_invar (rt_digest env) (rt_claims_base env) fs"
    and i: "store_invar (rt_root env) fs" and g: "good_key (inbox_path agent path)" and p: "path \<noteq> ''latest''"
    and a: "rt_access env ident (''inbox:'' @ agent) ''pick''"
    and m: "meta_at (rt_root env) fs (inbox_path agent path) = Some m"
    and f: "is_expired_by_meta t (bm_created_at m) (rt_default_ttl env) = Inr False"
    and e: "evaluate_download (rt_limits env) (total_size (bm_files m)) = DownloadReference"
    and lib: "lib_laws (rt_lib env)"
    and l: "locked (rt_digest env) (rt_claims_base env) fs (inbox_path agent path)"
  shows "pick_inbox_file env uuid t ident agent path fs = (Inl (HttpError 404 (''File not found: '' @ path)), fs)"
  using pick_reference [OF i g p a m f e lib, of uuid]
    issue_locked [OF ci, of "pick_claim uuid t (inbox_path agent path) m agent" t] l
  by (simp add: pick_claim_def)

end
