(* ===== verification/Upload.thy ===== *)
theory Upload
  imports Send_Init
begin

text \<open>
  Phase two of a send: \<^verbatim>\<open>POST /upload/{bundle_path}\<close> of \<^verbatim>\<open>routes/upload.py\<close>. The archive is what
  \<^verbatim>\<open>tarfile\<close> reads from the body: a sequence of members, ended by a \<^verbatim>\<open>TarError\<close> when the stream
  breaks. The wall clock stands still during a request.
\<close>

datatype tar_event =
    TarMember (tm_name: str) (tm_isreg: bool) (tm_size: int) (tm_data: "bytes option")
  | TarFailure str

datatype stream_error =
    ManifestViolation str str
  | TarParseError str
  | StreamLimits limits_rejection
  | StreamRaised exc

definition effective_per_file_max :: "limits_config \<Rightarrow> int" where
  "effective_per_file_max cfg = (case per_file_max cfg of Some n \<Rightarrow> n | None \<Rightarrow> DEFAULT_PER_FILE_MAX)"

text \<open>The dictionary \<^verbatim>\<open>by_name\<close>: the last entry of a name counts.\<close>

definition declared_size :: "manifest_file list \<Rightarrow> str \<Rightarrow> int option" where
  "declared_size files name = map_of (rev (map (\<lambda>f. (mf_name f, mf_size f)) files)) name"

definition cap_rejection :: "int \<Rightarrow> int \<Rightarrow> limits_rejection" where
  "cap_rejection cap observed =
     \<lparr>lr_error = CapExceeded, lr_constraint = PerFileMax, lr_limit = Some cap, lr_observed = observed,
      lr_reason = ''per_file_max: max_bytes='' @ show_int cap @ '' actual_bytes='' @ show_int observed\<rparr>"

text \<open>The checks on one member before its bytes are written; on success, the bytes.\<close>

definition check_member :: "limits_config \<Rightarrow> manifest_file list \<Rightarrow> tar_event \<Rightarrow> stream_error + str \<times> bytes" where
  "check_member cfg manifest_files ev =
     (case ev of
        TarFailure msg \<Rightarrow> Inl (TarParseError msg)
      | TarMember name isreg tsize tdata \<Rightarrow>
         if \<not> isreg then Inl (ManifestViolation ''non_regular_entry'' name)
         else case declared_size manifest_files name of
           None \<Rightarrow> Inl (ManifestViolation ''extra_file'' name)
         | Some declared \<Rightarrow>
            if tsize \<noteq> declared then Inl (ManifestViolation ''wrong_size'' name)
            else if tsize > effective_per_file_max cfg
            then Inl (StreamLimits (cap_rejection (effective_per_file_max cfg) tsize))
            else case tdata of
              None \<Rightarrow> Inl (ManifestViolation ''non_regular_entry'' name)
            | Some data \<Rightarrow>
               if int (length data) \<noteq> declared then Inl (ManifestViolation ''wrong_size'' name)
               else Inr (name, data))"

fun stream_members ::
  "int \<Rightarrow> limits_config \<Rightarrow> manifest_file list \<Rightarrow> tar_event list \<Rightarrow> str list \<Rightarrow> bundle_writer \<Rightarrow> fs
   \<Rightarrow> (stream_error + str list \<times> bundle_writer) \<times> fs" where
  "stream_members t cfg manifest_files [] seen w fs = (Inr (seen, w), fs)"
| "stream_members t cfg manifest_files (ev # rest) seen w fs =
     (case check_member cfg manifest_files ev of
        Inl e \<Rightarrow> (Inl e, fs)
      | Inr (name, data) \<Rightarrow>
         (case write_file t name data w fs of
            (Inl e, fs') \<Rightarrow> (Inl (StreamRaised e), fs')
          | (Inr w', fs') \<Rightarrow> stream_members t cfg manifest_files rest (seen @ [name]) w' fs'))"

definition stream_tar_into_writer ::
  "int \<Rightarrow> limits_config \<Rightarrow> manifest_file list \<Rightarrow> tar_event list \<Rightarrow> bundle_writer \<Rightarrow> fs
   \<Rightarrow> (stream_error + bundle_writer) \<times> fs" where
  "stream_tar_into_writer t cfg manifest_files archive w fs =
     (case stream_members t cfg manifest_files archive [] w fs of
        (Inl e, fs') \<Rightarrow> (Inl e, fs')
      | (Inr (seen, w'), fs') \<Rightarrow>
         (case sort (filter (\<lambda>n. n \<notin> set seen) (remdups (map mf_name manifest_files))) of
            [] \<Rightarrow> (Inr w', fs')
          | first # _ \<Rightarrow> (Inl (ManifestViolation ''missing_file'' first), fs')))"

subsection \<open>The route\<close>

datatype upload_error =
    UploadHttp nat str str
  | UploadLimits limits_rejection
  | UploadRaised exc

fun map_upload_jwt_error :: "token_error \<Rightarrow> upload_error" where
  "map_upload_jwt_error TokenExpired = UploadHttp 401 ''unauthenticated'' ''expired''"
| "map_upload_jwt_error TokenNotYetValid = UploadHttp 401 ''unauthenticated'' ''immature''"
| "map_upload_jwt_error TokenInvalidSignature = UploadHttp 401 ''unauthenticated'' ''bad_signature''"
| "map_upload_jwt_error (TokenMissingClaim c) = UploadHttp 401 ''unauthenticated'' ''missing_claim''"
| "map_upload_jwt_error (RevokedTokenError j) = UploadHttp 401 ''unauthenticated'' ''revoked''"
| "map_upload_jwt_error TokenDecodeError = UploadHttp 401 ''unauthenticated'' ''invalid''"

text \<open>
  The manifest inside the claims; one that \<^verbatim>\<open>send_init\<close> did not write raises when its fields
  are used.
\<close>

definition claims_manifest :: "claims \<Rightarrow> exc + manifest_file list" where
  "claims_manifest c =
     (if \<not> truthy (map_of c ''manifest'') then Inr []
      else case the (map_of c ''manifest'') of
        JObj ms \<Rightarrow>
          (case map_of ms ''files'' of
             None \<Rightarrow> Inr []
           | Some (JArr js) \<Rightarrow> (case files_of_json js of None \<Rightarrow> Inl (KeyError ''name'') | Some fs \<Rightarrow> Inr fs)
           | Some _ \<Rightarrow> Inl TypeError)
      | _ \<Rightarrow> Inl TypeError)"

text \<open>Everything up to the opening of the bundle: the path, the identifier, the sender, the files.\<close>

definition authorize_upload ::
  "jwt_decode \<Rightarrow> (str \<Rightarrow> token_error option) \<Rightarrow> int \<Rightarrow> int \<Rightarrow> jwt_slots \<Rightarrow> str \<Rightarrow> str
   \<Rightarrow> upload_error + str \<times> str \<times> str option \<times> manifest_file list" where
  "authorize_upload decode revocation_check now monotonic slots authorization bundle_path =
     (case extract_bearer authorization of
        None \<Rightarrow> Inl (UploadHttp 401 ''unauthenticated'' ''missing_bearer'')
      | Some token \<Rightarrow>
     (case fst (verify_slots decode revocation_check now monotonic token slots) of
        Inl e \<Rightarrow> Inl (map_upload_jwt_error e)
      | Inr claims \<Rightarrow>
          if map_of claims ''mode'' \<noteq> Some (JStr ''batch'')
          then Inl (UploadHttp 422 ''unauthenticated'' ''wrong_mode'')
          else let claim_bundle_path =
                 (case map_of claims ''bundle_path'' of None \<Rightarrow> [] | Some v \<Rightarrow> py_str v) in
          if url_unquote bundle_path \<noteq> claim_bundle_path
          then Inl (UploadHttp 401 ''unauthenticated'' ''bundle_path_mismatch'')
          else case claims_manifest claims of
            Inl e \<Rightarrow> Inl (UploadRaised e)
          | Inr manifest_files \<Rightarrow>
             (case map_of claims ''bundle_id'' of
                None \<Rightarrow> Inl (UploadRaised (KeyError ''bundle_id''))
              | Some v \<Rightarrow>
                 Inr (claim_bundle_path, py_str v,
                      (case map_of claims ''sender'' of Some (JStr s) \<Rightarrow> Some s | _ \<Rightarrow> None),
                      manifest_files))))"

definition upload_meta :: "int \<Rightarrow> str \<Rightarrow> str option \<Rightarrow> manifest_file list \<Rightarrow> bundle_meta" where
  "upload_meta t bundle_id sender manifest_files =
     \<lparr>bm_schema_version = 1, bm_bundle_id = bundle_id, bm_sender = sender,
      bm_created_at = isoformat (utcfromtimestamp t),
      bm_content_type = (if length manifest_files > 1 then ''bundle'' else ''file''),
      bm_file_count = int (length manifest_files), bm_files = manifest_files\<rparr>"

fun map_stream_error :: "stream_error \<Rightarrow> upload_error" where
  "map_stream_error (ManifestViolation reason name) = UploadHttp 400 ''manifest_violation'' reason"
| "map_stream_error (TarParseError msg) = UploadHttp 400 ''tar_parse_error'' msg"
| "map_stream_error (StreamLimits r) = UploadLimits r"
| "map_stream_error (StreamRaised e) = UploadRaised e"

definition map_open_error :: "exc \<Rightarrow> upload_error" where
  "map_open_error e =
     (case e of
        BundlePathConflictError p k \<Rightarrow>
          UploadHttp 409 ''bundle_path_conflict''
            (case k of ShadowParent \<Rightarrow> ''shadow_parent'' | ShadowChild \<Rightarrow> ''shadow_child'')
      | FileExistsError \<Rightarrow> UploadHttp 409 ''bundle_path_conflict'' ''occupied''
      | _ \<Rightarrow> UploadRaised e)"

text \<open>Opening, streaming, committing; every failure after the opening aborts.\<close>

definition receive_bundle ::
  "str list \<Rightarrow> int \<Rightarrow> limits_config \<Rightarrow> str \<Rightarrow> bundle_meta \<Rightarrow> tar_event list \<Rightarrow> fs \<Rightarrow> (upload_error + unit) \<times> fs" where
  "receive_bundle root t cfg path m archive fs =
     (case open_bundle_write root t path fs of
        (Inl e, fs1) \<Rightarrow> (Inl (map_open_error e), fs1)
      | (Inr w, fs1) \<Rightarrow>
         (case stream_tar_into_writer t cfg (bm_files m) archive w fs1 of
            (Inl e, fs2) \<Rightarrow> (Inl (map_stream_error e), abort t w fs2)
          | (Inr w2, fs2) \<Rightarrow>
             (case commit t m w2 fs2 of
                (Inl e, fs3) \<Rightarrow> (Inl (UploadRaised e), abort t w2 fs3)
              | (Inr w3, fs3) \<Rightarrow> (Inr (), fs3))))"

definition upload_bundle ::
  "jwt_decode \<Rightarrow> (str \<Rightarrow> token_error option) \<Rightarrow> str list \<Rightarrow> int \<Rightarrow> int \<Rightarrow> limits_config \<Rightarrow> jwt_slots
   \<Rightarrow> str \<Rightarrow> str \<Rightarrow> tar_event list \<Rightarrow> fs \<Rightarrow> (upload_error + str) \<times> fs" where
  "upload_bundle decode revocation_check root t monotonic cfg slots authorization bundle_path archive fs =
     (case authorize_upload decode revocation_check (epoch t) monotonic slots authorization bundle_path of
        Inl e \<Rightarrow> (Inl e, fs)
      | Inr (path, bundle_id, sender, manifest_files) \<Rightarrow>
         (case receive_bundle root t cfg path (upload_meta t bundle_id sender manifest_files) archive fs of
            (Inl e, fs') \<Rightarrow> (Inl e, fs')
          | (Inr u, fs') \<Rightarrow> (Inr bundle_id, fs')))"

subsection \<open>Streaming is publishing\<close>

text \<open>The files of an archive whose members all pass.\<close>

fun members :: "limits_config \<Rightarrow> manifest_file list \<Rightarrow> tar_event list \<Rightarrow> (str \<times> bytes) list" where
  "members cfg files [] = []"
| "members cfg files (ev # rest) =
     (case check_member cfg files ev of Inl e \<Rightarrow> [] | Inr f \<Rightarrow> f # members cfg files rest)"

lemma check_member_Inr:
  "check_member cfg files ev = Inr (n, b) \<Longrightarrow>
     \<exists>f \<in> set files. mf_name f = n \<and> mf_size f = int (length b) \<and> int (length b) \<le> effective_per_file_max cfg"
  by (auto simp: check_member_def declared_size_def split: tar_event.splits if_splits option.splits
      dest!: map_of_SomeD) blast

lemma members_declared: "(n, b) \<in> set (members cfg files archive) \<Longrightarrow>
     \<exists>f \<in> set files. mf_name f = n \<and> mf_size f = int (length b) \<and> int (length b) \<le> effective_per_file_max cfg"
  by (induction archive) (auto split: sum.splits dest: check_member_Inr check_member_Inr [OF sym])

lemma stream_members_Inr:
  "stream_members t cfg files archive seen w fs = (Inr (seen', w'), fs') \<Longrightarrow>
     write_files t (members cfg files archive) w fs = (Inr w', fs')
     \<and> seen' = seen @ map fst (members cfg files archive)"
  by (induction archive arbitrary: seen w fs) (fastforce split: sum.splits prod.splits)+

lemma stream_members_any:
  "stream_members t cfg files archive seen w fs = (r, fs') \<Longrightarrow>
     \<exists>fl r'. write_files t fl w fs = (r', fs') \<and> set fl \<subseteq> set (members cfg files archive)"
proof (induction archive arbitrary: seen w fs)
  case Nil
  then show ?case by (auto intro: exI [of _ "[]"])
next
  case (Cons ev rest)
  show ?case
  proof (cases "check_member cfg files ev")
    case (Inl e)
    with Cons.prems show ?thesis by (auto intro: exI [of _ "[]"])
  next
    case (Inr f)
    obtain n b where f: "f = (n, b)" by (cases f)
    obtain r1 fs1 where w: "write_file t n b w fs = (r1, fs1)" by (cases "write_file t n b w fs")
    show ?thesis
    proof (cases r1)
      case (Inl e)
      then show ?thesis using Cons.prems Inr f w by (intro exI [of _ "[f]"]) auto
    next
      case i: (Inr w1)
      obtain fl r' where "write_files t fl w1 fs1 = (r', fs')" "set fl \<subseteq> set (members cfg files rest)"
        using Cons.IH [of "seen @ [n]" w1 fs1] Cons.prems Inr f w i by auto
      then show ?thesis using Inr f w i by (intro exI [of _ "f # fl"]) auto
    qed
  qed
qed

lemma receive_publish:
  assumes "receive_bundle root t cfg path m archive fs = (Inr u, fs')"
  shows "publish root t path (members cfg (bm_files m) archive) m fs = (Inr (), fs')"
    and "set (map mf_name (bm_files m)) \<subseteq> fst ` set (members cfg (bm_files m) archive)"
proof -
  from assms obtain w fs1 w2 fs2 w3 where o: "open_bundle_write root t path fs = (Inr w, fs1)"
    and s: "stream_tar_into_writer t cfg (bm_files m) archive w fs1 = (Inr w2, fs2)"
    and c: "commit t m w2 fs2 = (Inr w3, fs')"
    by (auto simp: receive_bundle_def split: prod.splits sum.splits)
  from s obtain seen where sm: "stream_members t cfg (bm_files m) archive [] w fs1 = (Inr (seen, w2), fs2)"
    and ms: "sort (filter (\<lambda>n. n \<notin> set seen) (remdups (map mf_name (bm_files m)))) = []"
    by (auto simp: stream_tar_into_writer_def split: prod.splits sum.splits list.splits)
  from stream_members_Inr [OF sm] have wf: "write_files t (members cfg (bm_files m) archive) w fs1 = (Inr w2, fs2)"
    "seen = map fst (members cfg (bm_files m) archive)" by auto
  show "publish root t path (members cfg (bm_files m) archive) m fs = (Inr (), fs')"
    using o wf(1) c by (simp add: publish_def)
  from ms have "set (filter (\<lambda>n. n \<notin> set seen) (remdups (map mf_name (bm_files m)))) = {}"
    by (metis set_empty set_sort)
  then show "set (map mf_name (bm_files m)) \<subseteq> fst ` set (members cfg (bm_files m) archive)"
    using wf(2) by auto
qed

lemma stream_tar_any:
  assumes "stream_tar_into_writer t cfg files archive w fs = (r, fs')"
  shows "\<exists>fl r'. write_files t fl w fs = (r', fs') \<and> fst ` set fl \<subseteq> mf_name ` set files
    \<and> (\<forall>w'. r = Inr w' \<longrightarrow> r' = Inr w')"
proof -
  obtain r1 fs1 where sm: "stream_members t cfg files archive [] w fs = (r1, fs1)"
    by (cases "stream_members t cfg files archive [] w fs")
  have mem: "fst ` set fl \<subseteq> mf_name ` set files" if "set fl \<subseteq> set (members cfg files archive)" for fl
    using that members_declared by fastforce
  show ?thesis
  proof (cases r1)
    case (Inl e)
    with assms sm have "r = Inl e" "fs' = fs1" by (auto simp: stream_tar_into_writer_def)
    with stream_members_any [OF sm] mem show ?thesis by blast
  next
    case (Inr x)
    obtain seen w1 where x: "x = (seen, w1)" by (cases x)
    from assms sm Inr x have "fs' = fs1" "r = Inr w' \<Longrightarrow> w' = w1" for w'
      by (auto simp: stream_tar_into_writer_def split: list.splits)
    with stream_members_Inr [OF sm [unfolded Inr x]] mem [OF subset_refl] show ?thesis by blast
  qed
qed

lemma receive_Inl:
  assumes wf: "fs_wf fs" and c: "clean root" and g: "good_key path"
    and gn: "\<forall>f \<in> set (bm_files m). good_key (mf_name f)"
    and o: "open_bundle_write root t path fs = (Inr w, fs1)"
    and p: "receive_bundle root t cfg path m archive fs = (Inl e, fs')"
  defines "d \<equiv> resolve root path"
  shows "fs_wf fs'"
    and "entry_at fs' q = (if prefix d q then None else if prefix q d then Some D else entry_at fs q)"
proof -
  note op = open_bundle_write_Inr [OF wf c g o]
  have wd: "bw_dir w = d" "\<not> bw_committed w" using op(1) by (auto simp: new_writer_def d_def)
  have cd: "clean d" "d \<noteq> []" using clean_resolve [OF c g] by (auto simp: d_def resolve_good [OF g] data_root_def)
  have dd: "entry_at fs1 d = Some D" using op(3) by (simp add: d_def)
  obtain r2 fs2 where st: "stream_tar_into_writer t cfg (bm_files m) archive w fs1 = (r2, fs2)"
    by (cases "stream_tar_into_writer t cfg (bm_files m) archive w fs1")
  from stream_tar_any [OF st] obtain fl r' where f1: "write_files t fl w fs1 = (r', fs2)"
    "fst ` set fl \<subseteq> mf_name ` set (bm_files m)" and r': "\<And>w'. r2 = Inr w' \<Longrightarrow> r' = Inr w'" by blast
  have fl: "write_files t fl w fs1 = (r', fs2)" "\<forall>n \<in> fst ` set fl. good_key n" using f1 gn by auto
  obtain W where ws: "fs_wf fs2" "writer_frame d W fs1 fs2"
    using write_files_any [OF op(4) _ fl(2) _ fl(1)] wd cd dd by auto
  obtain w' fs3 V where a: "fs' = abort t w' fs3" "fs_wf fs3" "writer_frame d V fs1 fs3"
    "bw_dir w' = d" "\<not> bw_committed w'"
  proof (cases r2)
    case (Inl e2)
    with p o st have "fs' = abort t w fs2" by (simp add: receive_bundle_def)
    with that ws wd show ?thesis by blast
  next
    case (Inr w2)
    have w2: "bw_dir w2 = d" "\<not> bw_committed w2"
      using write_files_Inr [OF op(4) _ fl(2) _ fl(1) [unfolded r' [OF Inr]]] wd cd dd by auto
    obtain e3 fs3 where cm: "commit t m w2 fs2 = (Inl e3, fs3)" "fs' = abort t w2 fs3"
      using p o st Inr by (auto simp: receive_bundle_def split: prod.splits sum.splits)
    have "entry_at fs2 d = Some D" using ws(2) dd by (simp add: writer_frame_def)
    with commit_any [OF ws(1) _ _ cm(1)] w2 cd obtain V where "fs_wf fs3" "writer_frame d V fs2 fs3" by auto
    with that cm w2 writer_frame_trans [OF ws(2)] show ?thesis by blast
  qed
  from abort_frame [OF op(4) cd dd a(2,3,4,5), of t] a(1) op(3)
  show "fs_wf fs'" "entry_at fs' q = (if prefix d q then None else if prefix q d then Some D else entry_at fs q)"
    by (auto simp: d_def)
qed

end
