(* ===== verification/Publishing.thy ===== *)
theory Publishing
  imports Bundle_Store
begin

text \<open>
  When a bundle can be published: a free path whose ancestors are directories or absent and
  hold no bundle, files whose places do not overlap each other or the manifest's, and a
  manifest that declares exactly those files and sizes. Under these conditions opening, writing
  and committing all succeed.
\<close>

definition layout_ok :: "(str \<times> bytes) list \<Rightarrow> bool" where
  "layout_ok files =
     (distinct (map fst files)
      \<and> list_all (\<lambda>(n, b). hd (path_parts n) \<notin> {BUNDLE_MANIFEST, BUNDLE_MANIFEST_TMP}) files
      \<and> list_all (\<lambda>(n, b). list_all (\<lambda>(n', b'). n' = n \<or> \<not> prefix (path_parts n) (path_parts n')) files) files)"

text \<open>The places below \<open>d\<close> on the way to a file are free or directories, and the file is new.\<close>

definition placeable :: "fs \<Rightarrow> fpath \<Rightarrow> str \<Rightarrow> bool" where
  "placeable fs d n \<longleftrightarrow> entry_at fs (d @ path_parts n) = None
     \<and> (\<forall>q. prefix q (d @ path_parts n) \<longrightarrow> entry_at fs q \<in> {None, Some D})"

lemma write_file_ok:
  assumes wf: "fs_wf fs" and c: "clean (bw_dir w)" and g: "bundle_name n"
    and new: "map_of (bw_written w) n = None" and p: "placeable fs (bw_dir w) n"
  shows "\<exists>w' fs'. write_file t n b w fs = (Inr w', fs')"
proof -
  let ?p = "bw_dir w @ path_parts n"
  have gn: "good_key n" "path_parts n \<noteq> []" "n \<noteq> []" using g by (auto simp: bundle_name_def path_parts_def)
  have cp: "clean ?p" using c gn by (simp add: good_key_def)
  have "\<And>q. prefix q (butlast ?p) \<Longrightarrow> entry_at fs q \<in> {None, Some D}"
    using p gn(2) by (simp add: placeable_def prefix_butlast)
  then obtain fs1 where m: "mkdir_p t (butlast ?p) fs = Inr fs1"
    using mkdir_p_ok [OF wf clean_butlast [OF cp]] by blast
  note mk = mkdir_p_clean [OF wf clean_butlast [OF cp] m]
  have "\<not> prefix ?p (butlast ?p)" using gn(2) by (metis append_is_Nil_conv length_butlast
        diff_less length_greater_0_conv leD prefix_length_le zero_less_one)
  with mk p have "entry_at fs1 ?p \<noteq> Some D" "entry_at fs1 (butlast ?p) = Some D" "fs_wf fs1"
    by (auto simp: placeable_def)
  then obtain fs2 where "write_bytes t ?p b fs1 = Inr fs2" using write_bytes_ok [OF _ cp] by blast
  with m new gn show ?thesis by (simp add: write_file_def Let_def join_parts_good)
qed

lemma placeable_write:
  assumes wf: "fs_wf fs" and c: "clean (bw_dir w)" and g: "good_key n"
    and o: "write_file t n b w fs = (Inr w', fs')" and p: "placeable fs (bw_dir w) n'"
    and i: "\<not> prefix (path_parts n) (path_parts n')" "\<not> prefix (path_parts n') (path_parts n)"
  shows "placeable fs' (bw_dir w) n'"
proof -
  note wr = write_file_Inr(2) [OF wf c g o]
  have "\<not> prefix (bw_dir w @ path_parts n) q" if "prefix q (bw_dir w @ path_parts n')" for q
    using i(1) that by (metis prefix_order.trans same_prefix_prefix)
  then show ?thesis using p i wr by (auto simp: placeable_def)
qed

lemma layout_ok_Cons:
  assumes "layout_ok ((n, b) # files)"
  shows "layout_ok files"
    and "n' \<in> fst ` set files \<Longrightarrow>
      n' \<noteq> n \<and> \<not> prefix (path_parts n) (path_parts n') \<and> \<not> prefix (path_parts n') (path_parts n)"
proof -
  show "layout_ok files" using assms by (auto simp: layout_ok_def list_all_iff)
  assume "n' \<in> fst ` set files"
  then obtain b' where m: "(n', b') \<in> set files" by auto
  have "n \<notin> fst ` set files" using assms by (simp add: layout_ok_def)
  with m have "n' \<noteq> n" by force
  moreover have "\<forall>(x, y) \<in> set ((n, b) # files). \<forall>(x', y') \<in> set ((n, b) # files). x' = x \<or> \<not> prefix (path_parts x) (path_parts x')"
    using assms unfolding layout_ok_def list_all_iff by blast
  ultimately show "n' \<noteq> n \<and> \<not> prefix (path_parts n) (path_parts n') \<and> \<not> prefix (path_parts n') (path_parts n)"
    using m by auto
qed

lemma write_files_ok:
  assumes "fs_wf fs" "clean (bw_dir w)" "list_all (\<lambda>(n, b). bundle_name n) files" "layout_ok files"
    and "\<forall>n \<in> fst ` set files. map_of (bw_written w) n = None \<and> placeable fs (bw_dir w) n"
  shows "\<exists>w' fs'. write_files t files w fs = (Inr w', fs')"
  using assms
proof (induction files arbitrary: w fs)
  case Nil
  then show ?case by simp
next
  case (Cons f files)
  obtain n b where f: "f = (n, b)" by (cases f)
  have g: "bundle_name n" "good_key n" using Cons.prems(3) f by (auto simp: bundle_name_def)
  obtain w1 fs1 where o: "write_file t n b w fs = (Inr w1, fs1)"
    using write_file_ok [OF Cons.prems(1,2) g(1)] Cons.prems(5) f by fastforce
  note wr = write_file_Inr [OF Cons.prems(1,2) g(2) o]
  note ap = layout_ok_Cons [OF Cons.prems(4) [unfolded f]]
  have "\<forall>n' \<in> fst ` set files. map_of (bw_written w1) n' = None \<and> placeable fs1 (bw_dir w1) n'"
    using Cons.prems(5) ap(2) wr(1) placeable_write [OF Cons.prems(1,2) g(2) o] by auto
  then obtain w' fs' where "write_files t files w1 fs1 = (Inr w', fs')"
    using Cons.IH [of fs1 w1] ap(1) wr(1,4) Cons.prems(2,3) by auto
  then show ?case using f o by simp
qed

lemma write_files_untouched:
  assumes "fs_wf fs" "clean (bw_dir w)" "\<forall>n \<in> fst ` set files. good_key n"
    and "write_files t files w fs = (Inr w', fs')"
    and "\<forall>n \<in> fst ` set files. \<not> prefix q (bw_dir w @ path_parts n)"
  shows "entry_at fs' q = entry_at fs q"
  using assms
proof (induction files arbitrary: w fs)
  case Nil
  then show ?case by simp
next
  case (Cons f files)
  obtain n b where f: "f = (n, b)" by (cases f)
  have g: "good_key n" using Cons.prems(3) f by simp
  obtain w1 fs1 where o: "write_file t n b w fs = (Inr w1, fs1)" "write_files t files w1 fs1 = (Inr w', fs')"
    using Cons.prems(4) f by (auto split: prod.splits sum.splits)
  note wr = write_file_Inr [OF Cons.prems(1,2) g o(1)]
  have "entry_at fs' q = entry_at fs1 q"
    using Cons.IH [OF wr(4) _ _ o(2)] wr(1) Cons.prems(2,3,5) by simp
  also have "\<dots> = entry_at fs q" using Cons.prems(5) f wr(2) by auto
  finally show ?case .
qed

lemma open_bundle_write_ok:
  assumes wf: "fs_wf fs" and c: "clean root" and g: "good_key path" "path_parts path \<noteq> []"
    and n: "entry_at fs (resolve root path) = None"
    and p: "\<And>q. prefix q (resolve root path) \<Longrightarrow> entry_at fs q \<in> {None, Some D}"
    and chk: "check_bundle_path_collision root fs (resolve root path) = None"
  shows "\<exists>fs'. open_bundle_write root t path fs = (Inr (new_writer (resolve root path)), fs')"
proof -
  let ?d = "resolve root path"
  have d: "?d \<noteq> []" by (simp add: resolve_good [OF g(1)] data_root_def)
  have cd: "clean ?d" using clean_resolve [OF c g(1)] .
  obtain fs1 where m: "mkdir_p t (butlast ?d) fs = Inr fs1"
    using mkdir_p_ok [OF wf clean_butlast [OF cd]] p d prefix_butlast by metis
  note mk = mkdir_p_clean [OF wf clean_butlast [OF cd] m]
  have "\<not> prefix ?d (butlast ?d)"
    using d by (metis length_butlast diff_less length_greater_0_conv leD prefix_length_le zero_less_one)
  with mk n have "entry_at fs1 ?d = None" "entry_at fs1 (butlast ?d) = Some D" "fs_wf fs1" by auto
  then obtain fs2 where "os_mkdir t ?d fs1 = Inr fs2" using os_mkdir_ok [OF _ cd] by blast
  with m chk show ?thesis by (simp add: open_bundle_write_def Let_def)
qed

lemma commit_ok:
  assumes wf: "fs_wf fs" and c: "clean (bw_dir w)" and d: "entry_at fs (bw_dir w) = Some D"
    and k: "commit_check w m = None"
    and t: "entry_at fs (bw_dir w @ [BUNDLE_MANIFEST_TMP]) \<noteq> Some D" "entry_at fs (bw_dir w @ [BUNDLE_MANIFEST]) \<noteq> Some D"
  shows "\<exists>w' fs'. commit t m w fs = (Inr w', fs')"
proof -
  let ?t = "bw_dir w @ [BUNDLE_MANIFEST_TMP]" and ?m = "bw_dir w @ [BUNDLE_MANIFEST]"
  have cl: "clean ?t" "clean ?m" using c by auto
  obtain fs1 where w: "write_bytes t ?t (meta_bytes m) fs = Inr fs1"
    using write_bytes_ok [OF wf cl(1) t(1)] d by auto
  note wb = write_bytes_clean [OF wf cl(1) w]
  have "\<exists>fs2. rename t ?t ?m fs1 = Inr fs2"
    using rename_clean [of fs1 ?t ?m "meta_bytes m" t] wb cl t(2) d by auto
  with k w show ?thesis by (auto simp: commit_def Let_def)
qed

definition declares :: "bundle_meta \<Rightarrow> (str \<times> bytes) list \<Rightarrow> bool" where
  "declares m files = (map (\<lambda>f. (mf_name f, mf_size f)) (bm_files m) = map (\<lambda>(n, b). (n, int (length b))) files)"

lemma commit_check_declares:
  assumes "declares m files" "files \<noteq> []" "distinct (map fst files)"
    and "bw_written w = map (\<lambda>(n, b). (n, int (length b))) files"
  shows "commit_check w m = None"
proof -
  let ?ms = "map (\<lambda>(n, b). (n, int (length b))) files"
  have n: "map mf_name (bm_files m) = map fst files"
  proof -
    have "map fst (map (\<lambda>f. (mf_name f, mf_size f)) (bm_files m)) = map fst ?ms"
      using assms(1) by (simp only: declares_def)
    then show ?thesis by (simp add: comp_def split_def)
  qed
  have k: "map fst ?ms = map fst files" by (simp add: comp_def split_def)
  have d: "distinct (map fst ?ms)" unfolding k by (rule assms(3))
  have "check_sizes ms fs = None"
    if "distinct (map fst ms)" "(\<lambda>f. (mf_name f, mf_size f)) ` set fs \<subseteq> set ms" for ms fs
    using that by (induction fs) (auto simp: map_of_eq_Some_iff)
  note cs = this [OF d]
  have "(\<lambda>f. (mf_name f, mf_size f)) ` set (bm_files m) = set ?ms"
    using assms(1) unfolding declares_def by (metis list.set_map)
  then have "check_sizes ?ms (bm_files m) = None" using cs by blast
  moreover have "bm_files m \<noteq> []" using n assms(2) by auto
  ultimately show ?thesis
    using assms(2,3,4) n k by (simp add: commit_check_def Let_def) 
qed

lemma fresh_placeable:
  assumes below: "\<And>x. x \<noteq> [] \<Longrightarrow> entry_at fs (d @ x) = None"
    and above: "\<And>q. prefix q d \<Longrightarrow> entry_at fs q = Some D" and n: "path_parts n \<noteq> []"
  shows "placeable fs d n"
proof -
  have "entry_at fs q \<in> {None, Some D}" if pq: "prefix q (d @ path_parts n)" for q
  proof (cases "prefix q d")
    case False
    then obtain x where "q = d @ x" "x \<noteq> []" using pq by (auto simp: prefix_append)
    then show ?thesis using below by simp
  qed (simp add: above)
  then show ?thesis using below n by (simp add: placeable_def)
qed

lemma publish_ok:
  assumes i: "store_invar root fs" and g: "good_key path" "path_parts path \<noteq> []"
    and p: "\<And>q. prefix q (resolve root path) \<Longrightarrow> entry_at fs q \<in> {None, Some D}"
    and n: "entry_at fs (resolve root path) = None"
    and chk: "check_bundle_path_collision root fs (resolve root path) = None"
    and f: "bundle_files_ok files" "layout_ok files" "files \<noteq> []" and d: "declares m files"
  shows "\<exists>fs'. publish root t path files m fs = (Inr (), fs')"
proof -
  let ?d = "resolve root path"
  have wf: "fs_wf fs" "clean root" using i by (auto simp: store_invar_def)
  obtain fs1 where o: "open_bundle_write root t path fs = (Inr (new_writer ?d), fs1)"
    using open_bundle_write_ok [OF wf g n p chk] by blast
  note op = open_bundle_write_Inr [OF wf g(1) o]
  have cd: "clean ?d" using clean_resolve [OF wf(2) g(1)] .
  have below: "entry_at fs1 (?d @ x) = None" if "x \<noteq> []" for x
  proof -
    have "entry_at fs (?d @ x) = None" using n fs_wf_prefix [OF wf(1) _ that] by (cases "entry_at fs (?d @ x)") auto
    then show ?thesis using op(3) that by (simp add: prefix_def)
  qed
  have nm: "list_all (\<lambda>(n, b). bundle_name n) files" "\<forall>n \<in> fst ` set files. good_key n"
    using f(1) by (auto simp: bundle_files_ok_def list_all_iff bundle_name_def)
  have pl: "placeable fs1 ?d nm" if "nm \<in> fst ` set files" for nm
    using fresh_placeable [OF below] op(3) that nm(1) by (auto simp: list_all_iff bundle_name_def)
  obtain w2 fs2 where w: "write_files t files (new_writer ?d) fs1 = (Inr w2, fs2)"
    using write_files_ok [OF op(4) _ nm(1) f(2), of "new_writer ?d" t] pl cd by (auto simp: new_writer_def)
  note ws = write_files_Inr [OF op(4) _ nm(2) _ w]
  have w2: "fs_wf fs2" "bw_dir w2 = ?d" "bw_written w2 = map (\<lambda>(n, b). (n, int (length b))) files"
    "entry_at fs2 ?d = Some D"
    using ws op(3) cd by (auto simp: new_writer_def writer_frame_def)
  have "entry_at fs2 (?d @ [x]) \<noteq> Some D" if "x \<in> {BUNDLE_MANIFEST, BUNDLE_MANIFEST_TMP}" for x
  proof -
    have "\<forall>nm \<in> fst ` set files. \<not> prefix [x] (path_parts nm)"
      using f(2) that by (auto simp: layout_ok_def list_all_iff prefix_def)
    then have "entry_at fs2 (?d @ [x]) = entry_at fs1 (?d @ [x])"
      using write_files_untouched [OF op(4) _ nm(2) w] cd by (simp add: new_writer_def)
    then show ?thesis using below by simp
  qed
  then obtain w3 fs3 where "commit t m w2 fs2 = (Inr w3, fs3)"
    using commit_ok [OF w2(1) _ _ commit_check_declares [OF d f(3) _ w2(3)], where t = t] w2 cd f(2)
    by (auto simp: layout_ok_def)
  with o w show ?thesis by (simp add: publish_def)
qed

text \<open>A path where a bundle can be opened, and a payload that fits into a bundle.\<close>

definition free_path :: "str list \<Rightarrow> fs \<Rightarrow> str \<Rightarrow> bool" where
  "free_path root fs path \<longleftrightarrow> good_key path \<and> path_parts path \<noteq> []
     \<and> (\<forall>q. prefix q (resolve root path) \<longrightarrow> entry_at fs q \<in> {None, Some D})
     \<and> entry_at fs (resolve root path) = None
     \<and> check_bundle_path_collision root fs (resolve root path) = None"

definition payload_ok :: "(str \<times> bytes) list \<Rightarrow> bool" where
  "payload_ok files = (bundle_files_ok files \<and> layout_ok files \<and> files \<noteq> [])"

lemma publish_free:
  assumes "store_invar root fs" "free_path root fs path" "payload_ok files" "declares m files"
  shows "\<exists>fs'. publish root t path files m fs = (Inr (), fs') \<and> store_invar root fs' \<and> meta_at root fs' path = Some m
    \<and> (\<forall>(n, b) \<in> set files. file_at root fs' path n = Some b)"
proof -
  have g: "good_key path" "bundle_files_ok files" using assms(2,3) by (auto simp: free_path_def payload_ok_def)
  obtain fs' where p: "publish root t path files m fs = (Inr (), fs')"
    using publish_ok [OF assms(1), of path files m t] assms(2-4) by (auto simp: free_path_def payload_ok_def)
  with publish_view [OF assms(1) g p] publish_invar [OF assms(1) g, of t m] show ?thesis by auto
qed

end
