(* ===== verification/Transfers.thy ===== *)
theory Transfers
  imports Inbox_Laws Upload Publishing
begin

text \<open>
  A transfer across the components: the credential \<^verbatim>\<open>send_init\<close> mints opens the upload route for
  the declared manifest, an archive of the declared files is published whole, and the credential
  of a pick by reference serves each file, the last one retiring the bundle and its claim.
\<close>

subsection \<open>From the session to the upload route\<close>

lemma upload_claims_lookup:
  "map_of (with_jti jti (upload_claims bp bid sender rec mode man now ttl)) k =
    (if k = ''jti'' then Some (JStr jti) else map_of (upload_claims bp bid sender rec mode man now ttl) k)"
  by (simp add: with_jti_def upload_claims_def truthy_def)

lemma json_ok_manifest: "json_ok (manifest_json m)"
  by (auto simp: manifest_json_def file_json_def json_opt_def list_all_iff split: option.splits)

lemma claims_ok_upload: "claims_ok (with_jti jti (upload_claims bp bid sender rec mode man now ttl))"
  by (rule claims_ok_with_jti) (use json_ok_manifest [of man] in \<open>simp add: upload_claims_def list_all_iff\<close>)

lemma check_upload_claims:
  assumes "iat \<le> now" "now < iat + ttl"
  shows "check_claims (with_jti jti (upload_claims bp bid sender rec mode man iat ttl)) now
    = Inr (with_jti jti (upload_claims bp bid sender rec mode man iat ttl))"
  unfolding check_claims_def REQUIRED_CLAIMS_def claim_int_def upload_claims_lookup
  using assms by (simp add: upload_claims_def manifest_json_def)

lemma claims_manifest_upload:
  "claims_manifest (with_jti jti (upload_claims bp bid sender rec mode man now ttl)) = Inr (um_files man)"
  unfolding claims_manifest_def upload_claims_lookup
  by (simp add: upload_claims_def truthy_def manifest_json_def)

lemma authorize_upload_minted:
  assumes lib: "lib_laws lib" and t: "iat \<le> now" "now < iat + ttl" and r: "chk jti = None"
    and slots: "js_primary slots = key"
    and tok: "tok = sign (jl_encode lib) jti (upload_claims bp bid sender rec BatchMode man iat ttl) key"
    and u: "url_unquote param = bp"
  shows "authorize_upload (jl_decode lib) chk now mono_t slots (''Bearer '' @ tok) param
    = Inr (bp, bid, Some sender, um_files man)"
proof -
  let ?c = "with_jti jti (upload_claims bp bid sender rec BatchMode man iat ttl)"
  have b: "extract_bearer (''Bearer '' @ tok) = Some tok"
    using lib tok by (intro extract_bearer_token) (simp add: lib_laws_def sign_def)
  have j: "claim_str ?c ''jti'' = jti" by (simp add: claim_str_JStr upload_claims_lookup)
  have "verify (jl_decode lib) chk now tok key sec = Inr ?c" for sec
    unfolding tok sign_def
    by (rule verify_primary) (use lib r j check_upload_claims [OF t] claims_ok_upload in \<open>simp_all add: lib_laws_def\<close>)
  then have v: "fst (verify_slots (jl_decode lib) chk now mono_t tok slots) = Inr ?c"
    using slots by (simp add: verify_slots_def split: prod.splits)
  have l: "map_of ?c ''mode'' = Some (JStr ''batch'')" "map_of ?c ''bundle_path'' = Some (JStr bp)"
    "map_of ?c ''bundle_id'' = Some (JStr bid)" "map_of ?c ''sender'' = Some (JStr sender)"
    unfolding upload_claims_lookup by (simp_all add: upload_claims_def mode_name_def)
  show ?thesis
    unfolding authorize_upload_def b option.case v sum.case l claims_manifest_upload Let_def
    by (simp add: u py_str_def)
qed

subsection \<open>An archive of the declared files\<close>

definition tar_of :: "(str \<times> bytes) list \<Rightarrow> tar_event list" where
  "tar_of files = map (\<lambda>(n, b). TarMember n True (int (length b)) (Some b)) files"

lemma check_member_declared:
  assumes "distinct (map mf_name fs)" "f \<in> set fs" "mf_name f = n" "mf_size f = int (length b)"
    and "int (length b) \<le> effective_per_file_max cfg"
  shows "check_member cfg fs (TarMember n True (int (length b)) (Some b)) = Inr (n, b)"
proof -
  have "distinct (map fst (rev (map (\<lambda>f. (mf_name f, mf_size f)) fs)))"
    using assms(1) by (simp add: comp_def distinct_rev flip: rev_map)
  then have "declared_size fs n = Some (int (length b))"
    unfolding declared_size_def using assms(2-4) by (auto simp: map_of_eq_Some_iff intro!: image_eqI)
  then show ?thesis using assms(5) by (simp add: check_member_def)
qed

lemma stream_members_ok:
  assumes "\<forall>(n, b) \<in> set files. check_member cfg fs (TarMember n True (int (length b)) (Some b)) = Inr (n, b)"
    and "write_files t files w fl = (Inr w', fl')"
  shows "stream_members t cfg fs (tar_of files) seen w fl = (Inr (seen @ map fst files, w'), fl')"
  using assms
proof (induction files arbitrary: seen w fl)
  case Nil
  then show ?case by (simp add: tar_of_def)
next
  case (Cons f files)
  obtain n b where f: "f = (n, b)" by (cases f)
  obtain w1 fl1 where "write_file t n b w fl = (Inr w1, fl1)" "write_files t files w1 fl1 = (Inr w', fl')"
    using Cons.prems(2) f by (auto split: prod.splits sum.splits)
  with Cons.IH [of w1 fl1 "seen @ [n]"] Cons.prems(1) f show ?case by (simp add: tar_of_def)
qed

lemma receive_ok:
  assumes chk: "\<forall>(n, b) \<in> set files. check_member cfg (bm_files m) (TarMember n True (int (length b)) (Some b)) = Inr (n, b)"
    and all: "mf_name ` set (bm_files m) \<subseteq> fst ` set files"
    and p: "publish root t path files m fs = (Inr (), fs')"
  shows "receive_bundle root t cfg path m (tar_of files) fs = (Inr (), fs')"
proof -
  from p obtain w fs1 w2 fs2 w3 where o: "open_bundle_write root t path fs = (Inr w, fs1)"
    and w: "write_files t files w fs1 = (Inr w2, fs2)" and c: "commit t m w2 fs2 = (Inr w3, fs')"
    by (auto simp: publish_def split: prod.splits sum.splits)
  have "filter (\<lambda>n. n \<notin> set (map fst files)) (remdups (map mf_name (bm_files m))) = []"
    using all by (auto simp: filter_empty_conv)
  then have "stream_tar_into_writer t cfg (bm_files m) (tar_of files) w fs1 = (Inr w2, fs2)"
    using stream_members_ok [OF chk w, of "[]"] by (simp add: stream_tar_into_writer_def)
  with o c show ?thesis by (simp add: receive_bundle_def)
qed

lemma declares_files:
  assumes "declares m files" "distinct (map fst files)"
  shows "distinct (map mf_name (bm_files m))" and "mf_name ` set (bm_files m) = fst ` set files"
    and "(n, b) \<in> set files \<Longrightarrow> \<exists>f \<in> set (bm_files m). mf_name f = n \<and> mf_size f = int (length b)"
proof -
  have eq: "map (\<lambda>f. (mf_name f, mf_size f)) (bm_files m) = map (\<lambda>(n, b). (n, int (length b))) files"
    using assms(1) by (simp only: declares_def)
  then have "map fst (map (\<lambda>f. (mf_name f, mf_size f)) (bm_files m)) = map fst (map (\<lambda>(n, b). (n, int (length b))) files)"
    by (rule arg_cong)
  then have names: "map mf_name (bm_files m) = map fst files" by (simp add: comp_def split_def)
  then show "distinct (map mf_name (bm_files m))" using assms(2) by simp
  from arg_cong [OF names, of set] show "mf_name ` set (bm_files m) = fst ` set files" by simp
  assume "(n, b) \<in> set files"
  then have "(n, int (length b)) \<in> set (map (\<lambda>(n, b). (n, int (length b))) files)" by force
  then show "\<exists>f \<in> set (bm_files m). mf_name f = n \<and> mf_size f = int (length b)"
    unfolding eq [symmetric] by auto
qed

lemma receive_declared:
  assumes d: "declares m files" "distinct (map fst files)"
    and cap: "\<forall>(n, b) \<in> set files. int (length b) \<le> effective_per_file_max cfg"
    and p: "publish root t path files m fs = (Inr (), fs')"
  shows "receive_bundle root t cfg path m (tar_of files) fs = (Inr (), fs')"
proof (rule receive_ok [OF _ _ p])
  show "mf_name ` set (bm_files m) \<subseteq> fst ` set files" using declares_files(2) [OF d] by simp
  show "\<forall>(n, b) \<in> set files. check_member cfg (bm_files m) (TarMember n True (int (length b)) (Some b)) = Inr (n, b)"
    using check_member_declared [OF declares_files(1) [OF d]] declares_files(3) [OF d] cap by fastforce
qed

subsection \<open>The session\<close>

definition session_manifest :: "send_env \<Rightarrow> send_manifest \<Rightarrow> upload_manifest" where
  "session_manifest env raw =
     enrich_manifest_mimes (se_guess env) \<lparr>um_file_count = int (length (sm_files raw)), um_files = sm_files raw\<rparr>"

lemma create_upload_session_Inr:
  assumes c: "create_upload_session env jti bid key t dest path raw ident = Inr s"
    and r: "resolve_recipient (se_alias env) dest (Some (id_label ident)) = Inr rec"
  shows "us_batch_token s = sign (jl_encode (se_lib env)) jti
      (upload_claims (inbox_path rec path) bid (id_label ident) rec BatchMode (session_manifest env raw) (epoch t)
        (ts_upload_token_ttl (ttls (se_limits env)))) key"
    and "us_bundle_id s = bid"
    and "us_upload_url s = rstrip (CHR ''/'') (se_public_base_url env) @ ''/upload/'' @ url_quote (inbox_path rec path)"
    and "se_access env ident (''inbox:'' @ rec) ''write''"
    and "validate_path path (se_allowed_path_chars env) = Inr ()"
    and "validate_manifest \<lparr>um_file_count = int (length (sm_files raw)), um_files = sm_files raw\<rparr> = Inr ()"
proof -
  from c obtain res where p: "prepare_send_init env jti bid key t dest path raw ident (Some (id_label ident)) False = Inr res"
    and s: "s = \<lparr>us_bundle_id = sr_bundle_id res, us_upload_url = the (sr_upload_url res),
      us_batch_token = sr_token res, us_expires_at = sr_expires_at res\<rparr>"
    by (auto simp: create_upload_session_def split: sum.splits)
  obtain parsed where mf: "manifest_from_input raw = Inr parsed"
    using p by (auto simp: prepare_send_init_def split: sum.splits)
  then have parsed: "parsed = \<lparr>um_file_count = int (length (sm_files raw)), um_files = sm_files raw\<rparr>"
    by (auto simp: manifest_from_input_def Let_def split: if_splits)
  have "or_label (Some (id_label ident)) (id_label ident) = id_label ident" by (simp add: or_label_def)
  with p mf r have k: "validate_manifest parsed = Inr ()" "validate_path path (se_allowed_path_chars env) = Inr ()"
    "se_access env ident (''inbox:'' @ rec) ''write''"
    "res = mint_upload env jti bid key t rec path (id_label ident) BatchMode parsed"
    by (auto simp: prepare_send_init_def split: sum.splits if_splits upload_decision.splits)
  show "us_batch_token s = sign (jl_encode (se_lib env)) jti
      (upload_claims (inbox_path rec path) bid (id_label ident) rec BatchMode (session_manifest env raw) (epoch t)
        (ts_upload_token_ttl (ttls (se_limits env)))) key"
    "us_bundle_id s = bid"
    "us_upload_url s = rstrip (CHR ''/'') (se_public_base_url env) @ ''/upload/'' @ url_quote (inbox_path rec path)"
    by (simp_all add: s k(4) mint_upload_def Let_def inbox_path_def session_manifest_def parsed)
  show "se_access env ident (''inbox:'' @ rec) ''write''" "validate_path path (se_allowed_path_chars env) = Inr ()"
    "validate_manifest \<lparr>um_file_count = int (length (sm_files raw)), um_files = sm_files raw\<rparr> = Inr ()"
    using k parsed by simp_all
qed

lemma session_upload:
  assumes c: "create_upload_session env jti bid key t dest path raw ident = Inr s"
    and r: "resolve_recipient (se_alias env) dest (Some (id_label ident)) = Inr rec"
    and lib: "lib_laws (se_lib env)" and rv: "chk jti = None" and slots: "js_primary slots = key"
    and tm: "epoch t \<le> epoch t'" "epoch t' < epoch t + ts_upload_token_ttl (ttls (se_limits env))"
    and u: "url_unquote param = inbox_path rec path"
  shows "upload_bundle (jl_decode (se_lib env)) chk root t' mono_t cfg slots (''Bearer '' @ us_batch_token s)
      param archive fs =
    (case receive_bundle root t' cfg (inbox_path rec path)
            (upload_meta t' bid (Some (id_label ident)) (um_files (session_manifest env raw))) archive fs of
       (Inl e, fs') \<Rightarrow> (Inl e, fs') | (Inr u, fs') \<Rightarrow> (Inr bid, fs'))"
  using authorize_upload_minted [where chk = chk and jti = jti, OF lib tm rv slots create_upload_session_Inr(1) [OF c r] u]
  by (simp add: upload_bundle_def)

subsection \<open>Fetching every file of a claimed bundle\<close>

text \<open>One complete download request per file, each at its own time.\<close>

definition file_request :: "str \<Rightarrow> str \<Rightarrow> str \<Rightarrow> str option \<Rightarrow> download_request" where
  "file_request tok bp n sender =
     \<lparr>dr_authorization = ''Bearer '' @ tok,
      dr_raw_path = ''/download/'' @ url_quote bp @ ''/'' @ url_quote n, dr_x_sender = sender\<rparr>"

fun download_all ::
  "(int \<Rightarrow> download_request \<Rightarrow> fs \<Rightarrow> (download_error + download_response) \<times> fs) \<Rightarrow> (int \<times> download_request) list \<Rightarrow> fs
   \<Rightarrow> (download_error + download_response) list \<times> fs" where
  "download_all dl [] fs = ([], fs)"
| "download_all dl ((t, req) # reqs) fs =
     (let (r, fs1) = dl t req fs; (rs, fs2) = download_all dl reqs fs1 in (r # rs, fs2))"

lemma find_file_name: "n \<in> mf_name ` set files \<Longrightarrow> \<exists>f. find_file n files = Some f \<and> mf_name f = n \<and> f \<in> set files"
  by (induction files) (auto simp: find_file_def)

text \<open>What one complete request does, before the last file and at the last file.\<close>

definition fetch_env ::
  "jwt_lib \<Rightarrow> (str \<Rightarrow> token_error option) \<Rightarrow> str \<Rightarrow> bool \<Rightarrow> str option \<Rightarrow> str \<Rightarrow> bytes \<Rightarrow> jwt_slots \<Rightarrow> bool" where
  "fetch_env lib chk uuid dev sender rec key slots \<longleftrightarrow>
     lib_laws lib \<and> chk uuid = None \<and> js_primary slots = key \<and> (dev \<or> (sender = Some rec \<and> rec \<noteq> []))"

lemma download_signed:
  assumes e: "fetch_env lib chk uuid dev sender rec key slots"
    and t: "iat \<le> epoch t" "epoch t < iat + ttl"
    and tok: "tok = sign (jl_encode lib) uuid (build_claims bp m rec ttl iat) key"
    and n: "n \<in> mf_name ` set (bm_files m)" and i: "startswith bp ''inbox/''"
    and v: "meta_at root fs bp = Some m" "file_at root fs bp n = Some b"
  shows "\<exists>resp. download_file (jl_decode lib) chk dev digest base root t mono_t True slots (file_request tok bp n sender) fs
      = (Inr resp, snd (post_stream_claim_accounting digest base root t uuid bp n (bm_files m) fs))
    \<and> ds_body resp = b"
proof -
  obtain f where f: "find_file n (bm_files m) = Some f" using find_file_name [OF n] by blast
  have a: "authorize_download (jl_decode lib) chk dev (epoch t) mono_t slots (file_request tok bp n sender)
      = Inr (with_jti uuid (build_claims bp m rec ttl iat), bp, n)"
    unfolding file_request_def using e by (intro authorize_signed [OF _ t _ _ n _ tok]) (auto simp: fetch_env_def)
  have j: "claim_str (with_jti uuid (build_claims bp m rec ttl iat)) ''jti'' = uuid"
    by (simp add: claim_str_JStr build_claims_lookup)
  show ?thesis using a i j serve_file_ok [OF v f] by (simp add: download_file_def)
qed

lemma fetch_all:
  assumes e: "fetch_env lib chk uuid dev sender rec key slots"
    and tok: "tok = sign (jl_encode lib) uuid (build_claims bp m rec ttl iat) key"
    and i: "startswith bp ''inbox/''"
  shows "\<lbrakk>claimed digest base root c fs; cr_jti c = uuid; cr_bundle_path c = bp; meta_at root fs bp = Some m;
      \<forall>f \<in> set (bm_files m). good_key (mf_name f) \<and> file_at root fs bp (mf_name f) = Some (content (mf_name f));
      \<forall>(t, n) \<in> set rest. iat \<le> epoch t \<and> epoch t < iat + ttl;
      mf_name ` set (bm_files m) = set (cr_files_fetched c) \<union> snd ` set rest; distinct (map snd rest);
      set (cr_files_fetched c) \<inter> snd ` set rest = {}; rest \<noteq> []\<rbrakk>
    \<Longrightarrow> \<exists>rs fs'. download_all (\<lambda>t. download_file (jl_decode lib) chk dev digest base root t mono_t True slots)
          (map (\<lambda>(t, n). (t, file_request tok bp n sender)) rest) fs = (rs, fs')
        \<and> list_all2 (\<lambda>(t, n) r. \<exists>resp. r = Inr resp \<and> ds_body resp = content n) rest rs
        \<and> meta_at root fs' bp = None \<and> record_of base fs' uuid = None \<and> \<not> locked digest base fs' bp"
proof (induction rest arbitrary: c fs)
  case Nil
  then show ?case by simp
next
  case (Cons x rest)
  obtain t n where x: "x = (t, n)" by (cases x)
  have n: "n \<in> mf_name ` set (bm_files m)" using Cons.prems(7) x by simp
  have w: "iat \<le> epoch t" "epoch t < iat + ttl" using Cons.prems(6) x by auto
  obtain resp where d: "download_file (jl_decode lib) chk dev digest base root t mono_t True slots (file_request tok bp n sender) fs
      = (Inr resp, snd (post_stream_claim_accounting digest base root t uuid bp n (bm_files m) fs))"
    and b: "ds_body resp = content n"
    using download_signed [OF e w tok n i Cons.prems(4)] Cons.prems(5) n by blast
  show ?case
  proof (cases "rest = []")
    case True
    have "mf_name ` set (bm_files m) \<subseteq> insert n (set (cr_files_fetched c))" using Cons.prems(7) True x by auto
    from accounting_complete [OF Cons.prems(1) _ this, where t = t] Cons.prems(2-4)
    show ?thesis using d b x True by auto
  next
    case False
    then obtain y where y: "y \<in> snd ` set rest" by fastforce
    have "y \<noteq> n" using y Cons.prems(8) x by auto
    moreover have "y \<in> mf_name ` set (bm_files m)" "y \<notin> set (cr_files_fetched c)"
      using y Cons.prems(7,9) by auto
    ultimately have sub: "\<not> mf_name ` set (bm_files m) \<subseteq> insert n (set (cr_files_fetched c))" by blast
    obtain fs1 c1 where p: "post_stream_claim_accounting digest base root t uuid bp n (bm_files m) fs = (Inr (), fs1)"
      "claimed digest base root c1 fs1" "cr_jti c1 = uuid" "cr_bundle_path c1 = bp"
      "set (cr_files_fetched c1) = insert n (set (cr_files_fetched c))"
      "\<forall>p f. good_key p \<longrightarrow> good_key f \<longrightarrow> meta_at root fs1 p = meta_at root fs p \<and> file_at root fs1 p f = file_at root fs p f"
      using accounting_partial [OF Cons.prems(1) sub, where t = t] Cons.prems(2,3) by blast
    have g: "good_key bp" "good_key ''x''"
      using Cons.prems(1,3) by (simp_all add: claimed_def good_key_def path_parts_def)
    have v: "meta_at root fs1 bp = Some m"
      "\<forall>f \<in> set (bm_files m). good_key (mf_name f) \<and> file_at root fs1 bp (mf_name f) = Some (content (mf_name f))"
      using p(6) g Cons.prems(4,5) by auto
    have "\<exists>rs fs'. download_all (\<lambda>t. download_file (jl_decode lib) chk dev digest base root t mono_t True slots)
          (map (\<lambda>(t, n). (t, file_request tok bp n sender)) rest) fs1 = (rs, fs')
        \<and> list_all2 (\<lambda>(t, n) r. \<exists>resp. r = Inr resp \<and> ds_body resp = content n) rest rs
        \<and> meta_at root fs' bp = None \<and> record_of base fs' uuid = None \<and> \<not> locked digest base fs' bp"
      using Cons.prems(6-9) p(5) x by (intro Cons.IH [OF p(2-4) v _ _ _ _ False]) auto
    with d b x p(1) show ?thesis by auto
  qed
qed

subsection \<open>A declared payload, uploaded and picked\<close>

lemma session_declares:
  assumes "map (\<lambda>f. (mf_name f, mf_size f)) (sm_files raw) = map (\<lambda>(n, b). (n, int (length b))) files"
  shows "declares (upload_meta t bid sender (um_files (session_manifest env raw))) files"
    and "total_size (bm_files (upload_meta t bid sender (um_files (session_manifest env raw)))) = total_size (sm_files raw)"
  using assms by (simp_all add: declares_def upload_meta_def session_manifest_def enrich_manifest_mimes_def
      total_size_def comp_def)

lemma declared_content:
  assumes "map (\<lambda>f. (mf_name f, mf_size f)) fs = map (\<lambda>(n, b). (n, int (length b))) files"
    and "distinct (map fst files)"
  shows "map (\<lambda>f. (mf_name f, the (map_of files (mf_name f)))) fs = files"
proof -
  have "map fst (map (\<lambda>f. (mf_name f, mf_size f)) fs) = map fst (map (\<lambda>(n, b). (n, int (length b))) files)"
    using assms(1) by (rule arg_cong)
  then have names: "map mf_name fs = map fst files" by (simp add: comp_def split_def)
  have "map (\<lambda>f. (mf_name f, the (map_of files (mf_name f)))) fs = map (\<lambda>n. (n, the (map_of files n))) (map mf_name fs)"
    by simp
  also have "\<dots> = map (\<lambda>(n, b). (n, the (map_of files n))) files" unfolding names by (simp add: comp_def split_def)
  also have "\<dots> = map (\<lambda>x. x) files" using assms(2) by (intro map_cong) auto
  finally show ?thesis by simp
qed

lemma pick_payload:
  assumes i: "store_invar (rt_root env) fs" and g: "good_key (inbox_path agent path)" and p: "path \<noteq> ''latest''"
    and a: "rt_access env ident (''inbox:'' @ agent) ''pick''"
    and m: "meta_at (rt_root env) fs (inbox_path agent path) = Some m"
    and f: "is_expired_by_meta t (bm_created_at m) (rt_default_ttl env) = Inr False"
    and e: "evaluate_download (rt_limits env) (total_size (bm_files m)) = DownloadInline"
    and d: "declares m files" "distinct (map fst files)"
    and c: "\<forall>(n, b) \<in> set files. file_at (rt_root env) fs (inbox_path agent path) n = Some b"
  shows "\<exists>r e fs'. pick_inbox_file env uuid t ident agent path fs = (Inr r, fs')
    \<and> rr_body r = InlineBody e \<and> ie_bundle e = m \<and> map decode_entry (ie_files e) = map Some files
    \<and> rr_sender r = sender_header m \<and> rr_path r = Some path
    \<and> read_bundle_meta (rt_root env) (inbox_path agent path) fs' = Inl FileNotFoundError"
proof -
  let ?content = "\<lambda>n. the (map_of files n)"
  have content: "map (\<lambda>f. (mf_name f, ?content (mf_name f))) (bm_files m) = files"
    using d by (intro declared_content) (auto simp only: declares_def)
  have "\<forall>f \<in> set (bm_files m). file_at (rt_root env) fs (inbox_path agent path) (mf_name f) = Some (?content (mf_name f))"
    using c arg_cong [OF content, of set] by auto
  from pick_inline [where content = ?content, OF i g p a m f e this] obtain fs' where
    "pick_inbox_file env uuid t ident agent path fs =
      (Inr \<lparr>rr_body = InlineBody (build_inline_envelope m files), rr_sender = sender_header m,
            rr_file_count = bm_file_count m, rr_path = Some path\<rparr>, fs')"
    "read_bundle_meta (rt_root env) (inbox_path agent path) fs' = Inl FileNotFoundError"
    unfolding content by blast
  moreover have "map decode_entry (ie_files (build_inline_envelope m files)) = map Some files"
    "ie_bundle (build_inline_envelope m files) = m"
    by (simp_all add: build_inline_envelope_def decode_inline_entry)
  ultimately show ?thesis by fastforce
qed

lemma upload_declared:
  assumes session: "create_upload_session env jti bid key t dest path raw ident = Inr s"
    and rec: "resolve_recipient (se_alias env) dest (Some (id_label ident)) = Inr rec"
    and lib: "lib_laws (se_lib env)" "chk jti = None" "js_primary slots = key"
    and tm: "epoch t \<le> epoch t'" "epoch t' < epoch t + ts_upload_token_ttl (ttls (se_limits env))"
    and files: "map (\<lambda>f. (mf_name f, mf_size f)) (sm_files raw) = map (\<lambda>(n, b). (n, int (length b))) files"
      "payload_ok files" "\<forall>(n, b) \<in> set files. int (length b) \<le> effective_per_file_max cfg"
    and fs: "store_invar root fs" "free_path root fs (inbox_path rec path)"
    and u: "url_unquote param = inbox_path rec path"
  shows "\<exists>fs'. upload_bundle (jl_decode (se_lib env)) chk root t' mono_t cfg slots (''Bearer '' @ us_batch_token s)
        param (tar_of files) fs = (Inr bid, fs') \<and> store_invar root fs'
      \<and> meta_at root fs' (inbox_path rec path)
          = Some (upload_meta t' bid (Some (id_label ident)) (um_files (session_manifest env raw)))
      \<and> (\<forall>(n, b) \<in> set files. file_at root fs' (inbox_path rec path) n = Some b)"
proof -
  let ?m = "upload_meta t' bid (Some (id_label ident)) (um_files (session_manifest env raw))"
  have d: "declares ?m files" by (rule session_declares [OF files(1)])
  obtain fs' where p: "publish root t' (inbox_path rec path) files ?m fs = (Inr (), fs')" "store_invar root fs'"
    "meta_at root fs' (inbox_path rec path) = Some ?m" "\<forall>(n, b) \<in> set files. file_at root fs' (inbox_path rec path) n = Some b"
    using publish_free [OF fs files(2) d] by blast
  have "distinct (map fst files)" using files(2) by (simp add: payload_ok_def layout_ok_def)
  from receive_declared [OF d this files(3) p(1)] p(2-4)
    session_upload [where chk = chk and jti = jti, OF session rec lib(1) lib(2,3) tm u]
  show ?thesis by simp
qed

subsection \<open>Uploads that fail\<close>

lemma open_bundle_write_Inl:
  assumes wf: "fs_wf fs" and c: "clean root" and g: "good_key path"
    and o: "open_bundle_write root t path fs = (Inl e, fs')"
  shows "fs_wf fs' \<and> (\<forall>q. if entry_at fs q \<noteq> None then entry_at fs' q = entry_at fs q
      else entry_at fs' q = None \<or> strict_prefix q (resolve root path) \<and> entry_at fs' q = Some D)"
proof -
  let ?d = "resolve root path"
  have d: "?d \<noteq> []" "clean (butlast ?d)"
    using clean_butlast [OF clean_resolve [OF c g]] by (simp_all add: resolve_good [OF g] data_root_def)
  from o consider "fs' = fs" | "mkdir_p t (butlast ?d) fs = Inr fs'"
    by (auto simp: open_bundle_write_def Let_def split: option.splits sum.splits if_splits)
  then show ?thesis
  proof cases
    case 2
    note mk = mkdir_p_clean [OF wf d(2) this]
    have "strict_prefix q ?d" if "prefix q (butlast ?d)" for q
      using that d(1) by (metis append_butlast_last_id prefix_order.le_less_trans prefix_snocD prefix_order.refl)
    with mk show ?thesis by (auto split: if_splits)
  qed (simp add: wf)
qed

text \<open>A bundle that was opened and aborted leaves at most directories on the way to its path.\<close>

definition no_trace :: "str list \<Rightarrow> str \<Rightarrow> fs \<Rightarrow> fs \<Rightarrow> bool" where
  "no_trace root path fs fs' =
     (store_invar root fs' \<and> (\<forall>q. if entry_at fs q \<noteq> None then entry_at fs' q = entry_at fs q
      else entry_at fs' q = None \<or> strict_prefix q (resolve root path) \<and> entry_at fs' q = Some D))"

lemma open_no_trace:
  assumes i: "store_invar root fs" and g: "good_key path" and o: "open_bundle_write root t path fs = (Inl e, fs')"
  shows "no_trace root path fs fs'"
proof -
  have wf: "fs_wf fs" "clean root" using i by (auto simp: store_invar_def)
  from open_bundle_write_Inl [OF wf g o] wf(2) show ?thesis by (auto simp: store_invar_def no_trace_def)
qed

lemma aborted_no_trace:
  assumes i: "store_invar root fs" and g: "good_key path" and o: "open_bundle_write root t path fs = (Inr w, fs1)"
    and a: "fs_wf fs'" "\<And>q. entry_at fs' q
      = (if prefix (resolve root path) q then None else if prefix q (resolve root path) then Some D else entry_at fs q)"
  shows "no_trace root path fs fs'"
proof -
  let ?d = "resolve root path"
  have wf: "fs_wf fs" "clean root" using i by (auto simp: store_invar_def)
  note op = open_bundle_write_Inr [OF wf g o]
  have "entry_at fs q = None" if "prefix ?d q" for q
    using that op(2) fs_wf_prefix [OF wf(1), of ?d] by (cases "entry_at fs q"; cases "q = ?d") (auto simp: prefix_def)
  moreover have "entry_at fs q \<in> {None, Some D}" if "prefix q ?d" for q
    using open_bundle_write_any [OF wf g o] op(3) that by (cases "entry_at fs q") fastforce+
  then have "entry_at fs q = Some y \<Longrightarrow> prefix q ?d \<Longrightarrow> D = y" for q y by fastforce
  ultimately show ?thesis using a wf(2) by (auto simp: store_invar_def strict_prefix_def no_trace_def)
qed

lemma receive_no_trace:
  assumes i: "store_invar root fs" and g: "good_key path" "\<forall>f \<in> set (bm_files m). good_key (mf_name f)"
    and f: "fst (receive_bundle root t cfg path m archive fs) = Inl e"
    and s: "fs' = snd (receive_bundle root t cfg path m archive fs)"
  shows "no_trace root path fs fs'"
proof -
  have r: "receive_bundle root t cfg path m archive fs = (Inl e, fs')" using f s by (simp add: prod_eq_iff)
  have wf: "fs_wf fs" "clean root" using i by (auto simp: store_invar_def)
  obtain r1 fs1 where o: "open_bundle_write root t path fs = (r1, fs1)" by (cases "open_bundle_write root t path fs")
  show ?thesis
  proof (cases r1)
    case (Inl e1)
    with r o have "fs' = fs1" by (simp add: receive_bundle_def)
    with open_no_trace [OF i g(1)] o Inl show ?thesis by blast
  next
    case (Inr w)
    from aborted_no_trace [OF i g(1) o [unfolded Inr]] receive_Inl [OF wf g o [unfolded Inr] r] show ?thesis by blast
  qed
qed

lemma publish_no_trace:
  assumes i: "store_invar root fs" and g: "good_key path" "\<forall>n \<in> fst ` set files. good_key n"
    and p: "publish root t path files m fs = (Inl e, fs')"
  shows "no_trace root path fs fs'"
proof -
  have wf: "fs_wf fs" "clean root" using i by (auto simp: store_invar_def)
  obtain r1 fs1 where o: "open_bundle_write root t path fs = (r1, fs1)" by (cases "open_bundle_write root t path fs")
  show ?thesis
  proof (cases r1)
    case (Inl e1)
    with p o have "fs' = fs1" by (simp add: publish_def)
    with open_no_trace [OF i g(1)] o Inl show ?thesis by blast
  next
    case (Inr w)
    from aborted_no_trace [OF i g(1) o [unfolded Inr]] publish_Inl [OF wf g o [unfolded Inr] p] show ?thesis by blast
  qed
qed

lemma write_files_fresh:
  "write_files t files w fs = (Inr w', fs') \<Longrightarrow>
     distinct (map fst files) \<and> fst ` set files \<inter> dom (map_of (bw_written w)) = {}"
proof (induction files arbitrary: w fs)
  case (Cons f rest)
  obtain n b where f: "f = (n, b)" by force
  from Cons.prems obtain w1 fs1 where o: "write_file t n b w fs = (Inr w1, fs1)"
    and r: "write_files t rest w1 fs1 = (Inr w', fs')" by (auto simp: f split: prod.splits sum.splits)
  from o have "map_of (bw_written w) n = None" "bw_written w1 = AList.update n (int (length b)) (bw_written w)"
    by (auto simp: write_file_def Let_def split: if_splits prod.splits sum.splits)
  then show ?case using Cons.IH [OF r] by (auto simp: f update_conv' dom_def split: if_splits)
qed simp

lemma publish_distinct:
  assumes "publish root t path files m fs = (Inr u, fs')"
  shows "distinct (map fst files)"
  using assms by (auto simp: publish_def dest: write_files_fresh split: prod.splits sum.splits)

end
