(* ===== verification/Examples.thy ===== *)
theory Examples
  imports Files Claims_Race Transfers
begin

text \<open>
  Concrete values the witnesses of the properties are evaluated on: an empty file system, a
  bundle of two files published in an inbox, a claim on it, and a JWT library and a digest that
  satisfy the laws the development assumes of the real ones.
\<close>

definition ex_root :: "str list" where
  "ex_root = [''srv'']"

definition ex_base :: "str list" where
  "ex_base = [''srv'', ''claims'']"

definition ex_fs0 :: fs where
  "ex_fs0 = [([], DirNode 0)]"

definition ex_path :: str where
  "ex_path = ''inbox/h:p/x''"

definition ex_files :: "(str \<times> bytes) list" where
  "ex_files = [(''f'', ''hi''), (''d/g'', ''you'')]"

definition ex_manifest :: "manifest_file list" where
  "ex_manifest = [\<lparr>mf_name = ''f'', mf_size = 2, mf_mime = Some ''text/plain''\<rparr>,
     \<lparr>mf_name = ''d/g'', mf_size = 3, mf_mime = None\<rparr>]"

definition ex_meta :: bundle_meta where
  "ex_meta = \<lparr>bm_schema_version = 1, bm_bundle_id = ''b1'', bm_sender = Some ''h:q'',
     bm_created_at = isoformat (utcfromtimestamp 0), bm_content_type = ''bundle'', bm_file_count = 2,
     bm_files = ex_manifest\<rparr>"

definition ex_fs1 :: fs where
  "ex_fs1 = snd (publish ex_root 0 ex_path ex_files ex_meta ex_fs0)"

lemma ex_created: "bm_created_at ex_meta = isoformat (utcfromtimestamp 0)"
  "iso_to_epoch (isoformat (utcfromtimestamp 0)) = Some 0" "bm_files ex_meta = ex_manifest"
  using utcfromtimestamp_ok [of 0] iso_to_epoch_isoformat [of "utcfromtimestamp 0"]
  by (simp_all add: ex_meta_def epoch_end_def)

lemma ex_ok: "store_invar ex_root ex_fs0" "good_key ex_path" "bundle_files_ok ex_files"
  "layout_ok ex_files" "ex_files \<noteq> []" "path_parts ex_path \<noteq> []"
  "check_bundle_path_collision ex_root ex_fs0 (resolve ex_root ex_path) = None"
  "entry_at ex_fs0 (resolve ex_root ex_path) = None"
  by code_simp+

lemma ex_empty: "entry_at ex_fs0 q = (if q = [] then Some D else None)"
  by (simp add: entry_at_def ex_fs0_def)

lemma ex_declares: "declares ex_meta ex_files"
  by (simp add: declares_def ex_meta_def ex_manifest_def ex_files_def)

lemma ex_free: "free_path ex_root ex_fs0 ex_path" "payload_ok ex_files"
  using ex_ok by (auto simp: free_path_def payload_ok_def ex_empty)

lemma ex_publish: "publish ex_root 0 ex_path ex_files ex_meta ex_fs0 = (Inr (), ex_fs1)"
  using publish_free [OF ex_ok(1) ex_free ex_declares, of 0] by (auto simp: ex_fs1_def)

lemma ex_view: "store_invar ex_root ex_fs1" "meta_at ex_root ex_fs1 ex_path = Some ex_meta"
  "file_at ex_root ex_fs1 ex_path ''f'' = Some ''hi''" "file_at ex_root ex_fs1 ex_path ''d/g'' = Some ''you''"
  using publish_invar [OF ex_ok(1-3), of 0 ex_meta] publish_view [OF ex_ok(1-3) ex_publish] ex_publish
  by (simp_all add: ex_files_def)

subsection \<open>A JWT library\<close>

definition ex_encode :: jwt_encode where
  "ex_encode c k = dumps (JObj [(''claims'', JObj c), (''key'', JStr k)])"

definition ex_payload :: "str \<Rightarrow> (claims \<times> bytes) option" where
  "ex_payload tok =
     (case loads tok of
        Some (JObj ms) \<Rightarrow>
          (case (map_of ms ''claims'', map_of ms ''key'') of
             (Some (JObj c), Some (JStr k)) \<Rightarrow> Some (c, k) | _ \<Rightarrow> None)
      | _ \<Rightarrow> None)"

definition ex_lib :: jwt_lib where
  "ex_lib =
     \<lparr>jl_encode = ex_encode,
      jl_decode = (\<lambda>tok key now. case ex_payload tok of
          None \<Rightarrow> Inl (InvalidTokenError ''DecodeError'')
        | Some (c, k) \<Rightarrow> if key = k then check_claims c now else Inl InvalidSignatureError),
      jl_peek = (\<lambda>tok. case ex_payload tok of None \<Rightarrow> [] | Some (c, k) \<Rightarrow> c)\<rparr>"

lemma ex_payload: "claims_ok c \<Longrightarrow> ex_payload (ex_encode c k) = Some (c, k)"
  by (simp add: ex_payload_def ex_encode_def loads_dumps del: dumps.simps)

lemma dumps_members_last: "dumps_members ms \<noteq> [] \<and> last (dumps_members ms) = CHR ''}''"
proof (induction ms)
  case (Cons m ms)
  then show ?case by (cases m; cases ms) auto
qed simp

lemma strip_ws_dumps: "strip_ws (dumps (JObj ms)) = dumps (JObj ms)"
  using dumps_members_last [of ms] by (intro strip_ws_id) (simp_all add: is_space_def)

lemma ex_lib_laws: "lib_laws ex_lib"
  by (simp add: lib_laws_def jwt_laws_def ex_lib_def ex_payload del: json_ok.simps)
    (simp add: ex_encode_def strip_ws_dumps del: dumps.simps)

definition ex_digest :: "str \<Rightarrow> str" where
  "ex_digest p = filter (\<lambda>c. c \<noteq> CHR ''/'') p"

subsection \<open>A sender, a recipient and their environments\<close>

definition ex_limits :: "int option \<Rightarrow> limits_config" where
  "ex_limits inline_max = default_limits_config\<lparr>max_inline_size := inline_max\<rparr>"

definition ex_send_env :: send_env where
  "ex_send_env = \<lparr>se_lib = ex_lib, se_guess = (\<lambda>n. None), se_limits = ex_limits (Some 100),
     se_allowed_path_chars = None, se_public_base_url = ''http://h'', se_access = (\<lambda>i r a. True), se_alias = None\<rparr>"

definition ex_raw :: send_manifest where
  "ex_raw = \<lparr>sm_files = ex_manifest, sm_file_count = None\<rparr>"

definition ex_key :: bytes where
  "ex_key = ''k''"

definition ex_slots :: jwt_slots where
  "ex_slots = init_jwt_key_slots ex_key None 600"

definition ex_session :: upload_session where
  "ex_session =
     (case create_upload_session ex_send_env ''j1'' ''b1'' ex_key 0 ''h:p'' ''x'' ex_raw (KeyIdentity ''h:q'') of Inr s \<Rightarrow> s)"

definition ex_env :: "int option \<Rightarrow> route_env" where
  "ex_env inline_max = \<lparr>rt_root = ex_root, rt_claims_base = ex_base, rt_digest = ex_digest, rt_lib = ex_lib,
     rt_jwt_primary_key = ex_key, rt_limits = ex_limits inline_max, rt_default_ttl = 60,
     rt_public_base_url = ''http://h'', rt_access = (\<lambda>i r a. True)\<rparr>"

lemma ex_session_ok:
  "create_upload_session ex_send_env ''j1'' ''b1'' ex_key 0 ''h:p'' ''x'' ex_raw (KeyIdentity ''h:q'') = Inr ex_session"
proof -
  have "validate_manifest \<lparr>um_file_count = 2, um_files = ex_manifest\<rparr> = Inr ()" "validate_path ''x'' None = Inr ()"
    "evaluate_upload (ex_limits (Some 100)) \<lparr>um_file_count = 2, um_files = ex_manifest\<rparr> = Accept InlineMode"
    by code_simp+
  moreover have "manifest_from_input ex_raw = Inr \<lparr>um_file_count = 2, um_files = ex_manifest\<rparr>"
    by (simp add: manifest_from_input_def ex_raw_def ex_manifest_def)
  ultimately have "\<exists>s. create_upload_session ex_send_env ''j1'' ''b1'' ex_key 0 ''h:p'' ''x'' ex_raw (KeyIdentity ''h:q'') = Inr s"
    by (simp add: create_upload_session_def prepare_send_init_def ex_send_env_def resolve_recipient_def)
  then show ?thesis by (auto simp: ex_session_def)
qed

lemma ex_inbox_path: "inbox_path ''h:p'' ''x'' = ex_path"
  by (simp add: inbox_path_def ex_path_def)

lemma ex_env_simps:
  "rt_root (ex_env i) = ex_root" "rt_claims_base (ex_env i) = ex_base" "rt_digest (ex_env i) = ex_digest"
  "rt_lib (ex_env i) = ex_lib" "rt_jwt_primary_key (ex_env i) = ex_key" "rt_limits (ex_env i) = ex_limits i"
  "rt_default_ttl (ex_env i) = 60" "rt_access (ex_env i) = (\<lambda>i r a. True)"
  "se_lib ex_send_env = ex_lib" "se_alias ex_send_env = None" "se_limits ex_send_env = ex_limits (Some 100)"
  "sm_files ex_raw = ex_manifest" "js_primary ex_slots = ex_key"
  by (simp_all add: ex_env_def ex_send_env_def ex_raw_def ex_slots_def init_jwt_key_slots_def)

lemma ex_fresh: "is_expired_by_meta 5000000 (isoformat (utcfromtimestamp 0)) 60 = Inr False"
  by (simp add: is_expired_by_meta_def ex_created)

lemma ex_limits_facts:
  "evaluate_download (ex_limits (Some 100)) (total_size ex_manifest) = DownloadInline"
  "evaluate_download (ex_limits (Some 1)) (total_size ex_manifest) = DownloadReference"
  "ts_upload_token_ttl (ttls (ex_limits i)) = 300" "download_ttl (ex_limits i) = 300"
  "effective_per_file_max (ex_limits i) = 104857600"
  by (simp_all add: ex_limits_def default_limits_config_def evaluate_download_def ex_manifest_def total_size_def
      ttls_def download_ttl_def effective_per_file_max_def DEFAULT_PER_FILE_MAX_def)

lemma ex_epoch: "epoch 0 = 0" "epoch 5000000 = 5" "epoch 6000000 = 6"
  by (simp_all add: epoch_def)

lemma ex_outside: "\<not> prefix (resolve ex_root ex_path) q \<Longrightarrow>
    entry_at ex_fs1 q = (if prefix q (resolve ex_root ex_path) then Some D else entry_at ex_fs0 q)"
  using publish_Inr(5) [OF _ _ ex_ok(2,3) ex_publish] ex_ok(1) by (simp add: store_invar_def)

lemma ex_dir: "resolve ex_root ex_path = [''srv'', ''data'', ''inbox'', ''h:p'', ''x'']"
  by code_simp

lemma ex_base_entries: "entry_at ex_fs1 (ex_base @ x) = None" "prefix q ex_base \<Longrightarrow> entry_at ex_fs1 q \<in> {None, Some D}"
proof -
  have n: "\<not> prefix (resolve ex_root ex_path) (ex_base @ x)" "\<not> prefix (ex_base @ x) (resolve ex_root ex_path)" for x
    by (simp_all add: ex_dir ex_base_def)
  show "entry_at ex_fs1 (ex_base @ x) = None"
    using ex_outside [OF n(1)] n(2) by (simp add: ex_empty) (simp add: ex_base_def)
  assume q: "prefix q ex_base"
  then have "\<not> prefix (resolve ex_root ex_path) q"
    using n(1) [of "[]"] by (metis append_Nil2 prefix_order.trans)
  then show "entry_at ex_fs1 q \<in> {None, Some D}" using ex_outside [of q] by (simp add: ex_empty)
qed

lemma ex_claims: "claims_invar ex_digest ex_base ex_fs1" "separate ex_root ex_base" "claim_free ex_digest ex_base ex_fs1 j p"
proof -
  show "claims_invar ex_digest ex_base ex_fs1"
    using ex_view(1) ex_base_entries(1) by (simp add: claims_invar_def store_invar_def ex_digest_def) (simp add: ex_base_def)
  show "separate ex_root ex_base" by code_simp
  show "claim_free ex_digest ex_base ex_fs1 j p"
    using ex_base_entries by (auto simp: claim_free_def locked_def)
qed

definition ex_content :: "str \<Rightarrow> bytes" where
  "ex_content n = the (map_of ex_files n)"

lemma ex_contents: "\<forall>f \<in> set (bm_files ex_meta). good_key (mf_name f)
    \<and> file_at ex_root ex_fs1 ex_path (mf_name f) = Some (ex_content (mf_name f))"
proof -
  have "good_key ''f''" "good_key ''d/g''" by code_simp+
  then show ?thesis using ex_view by (simp add: ex_created ex_manifest_def ex_content_def ex_files_def)
qed

lemma ex_fetch: "fetch_env ex_lib noop_revocation_check ''u'' False (Some ''h:p'') ''h:p'' ex_key ex_slots"
  by (simp add: fetch_env_def ex_lib_laws noop_revocation_check_def ex_env_simps)

end
