(* ===== verification/Store_Properties.thy ===== *)
theory Store_Properties
  imports Examples
begin

text \<open>
  Properties of the storage backend, the listing and the reaper, each stated over the
  definitions of those theories and proved from their lemmas.
\<close>

section \<open>Publishing\<close>

text \<open>
  C4. A published bundle stays. After a publication that succeeded, any sequence of publications
  and deletions at unrelated paths leaves the manifest and every file readable as published,
  and a second publication at the path is refused.
\<close>

theorem published_bundle_survives:
  assumes "store_invar root fs" "good_key p" "bundle_files_ok files" "fst (publish root t p files m fs) = Inr ()"
    and "\<forall>x \<in> set ops. good_key (op_path x) \<and> op_files_ok x \<and> unrelated (op_path x) p" and "(n, b) \<in> set files"
  shows "meta_at root (run_ops (publish root) (delete_bundle root) ops (snd (publish root t p files m fs))) p = Some m
    \<and> file_at root (run_ops (publish root) (delete_bundle root) ops (snd (publish root t p files m fs))) p n = Some b
    \<and> (\<exists>e. fst (publish root t' p files' m'
             (run_ops (publish root) (delete_bundle root) ops (snd (publish root t p files m fs)))) = Inl e)"
  using filesystem.published_survives [OF assms(1-3), of t m "()" "snd (publish root t p files m fs)" ops n b] assms(4-6)
  by (simp add: prod_eq_iff)

definition ex_ops :: "store_op list" where
  "ex_ops = [OpDelete 7 ''inbox/h:p/y'', OpPublish 8 ''store/z'' ex_files ex_meta]"

theorem published_bundle_survives_witness:
  "meta_at ex_root (run_ops (publish ex_root) (delete_bundle ex_root) ex_ops
      (snd (publish ex_root 0 ex_path ex_files ex_meta ex_fs0))) ex_path = Some ex_meta"
proof -
  have "good_key ''inbox/h:p/y''" "good_key ''store/z''" "unrelated ''inbox/h:p/y'' ex_path" "unrelated ''store/z'' ex_path"
    by code_simp+
  then have "\<forall>x \<in> set ex_ops. good_key (op_path x) \<and> op_files_ok x \<and> unrelated (op_path x) ex_path"
    using ex_ok(3) by (simp add: ex_ops_def)
  moreover have "(''f'', ''hi'') \<in> set ex_files" by (simp add: ex_files_def)
  ultimately show ?thesis
    using published_bundle_survives [OF ex_ok(1-3), of 0 ex_meta ex_ops "''f''" "''hi''"] ex_publish by simp
qed

text \<open>
  C32. A bundle that declares its files can always be published at a free path, and is then
  visible with its manifest and contents.
\<close>

theorem publish_at_free_path:
  assumes "store_invar root fs" "free_path root fs path" "payload_ok files" "declares m files"
  shows "\<exists>fs'. publish root t path files m fs = (Inr (), fs') \<and> meta_at root fs' path = Some m
    \<and> (\<forall>(n, b) \<in> set files. file_at root fs' path n = Some b)"
  using publish_free [OF assms] by blast

theorem publish_at_free_path_witness:
  "\<exists>fs'. publish ex_root 9 ex_path ex_files ex_meta ex_fs0 = (Inr (), fs') \<and> meta_at ex_root fs' ex_path = Some ex_meta"
  using publish_at_free_path [OF ex_ok(1) ex_free ex_declares] by blast

text \<open>
  A committed bundle can not be shadowed from below: opening a bundle under a directory that
  holds a manifest, below the namespace root, is refused and changes nothing.
\<close>

theorem nested_bundle_refused:
  assumes "store_invar root fs" "good_key path" "strict_prefix x (path_parts path)"
    and "namespace_depth (path_parts path) < length x" "has_meta fs (data_root root @ x)"
  shows "\<exists>e. publish root t path files m fs = (Inl e, fs)"
proof -
  have "check_bundle_path_collision root fs (resolve root path) \<noteq> None"
    using collision_check_ancestors [OF _ _ assms(2) _ assms(3,4)] assms(1,5) by (auto simp: store_invar_def)
  then show ?thesis by (auto simp: publish_def open_bundle_write_def Let_def)
qed

lemma ex_has_meta: "has_meta ex_fs1 (data_root ex_root @ [''inbox'', ''h:p'', ''x''])"
proof -
  have "data_root ex_root @ [''inbox'', ''h:p'', ''x''] = resolve ex_root ex_path" by code_simp
  then show ?thesis using ex_view(2) meta_at_Some [OF ex_view(1) ex_ok(2)] by (auto simp: has_meta_def)
qed

theorem nested_bundle_refused_witness:
  "\<exists>e. publish ex_root 9 ''inbox/h:p/x/y'' ex_files ex_meta ex_fs1 = (Inl e, ex_fs1)"
proof -
  have "good_key ''inbox/h:p/x/y''" "strict_prefix [''inbox'', ''h:p'', ''x''] (path_parts ''inbox/h:p/x/y'')"
    "namespace_depth (path_parts ''inbox/h:p/x/y'') < length [''inbox'', ''h:p'', ''x'']" by code_simp+
  then show ?thesis using nested_bundle_refused [OF ex_view(1) _ _ _ ex_has_meta] by blast
qed

text \<open>
  C11. An upload that fails, at the opening, in the stream or at the commit, leaves no trace:
  whatever was in the file system is unchanged, and what is new are at most the empty parent
  directories of the bundle.
\<close>

theorem failed_upload_no_trace:
  assumes i: "store_invar root fs" and g: "good_key path" "\<forall>f \<in> set (bm_files m). good_key (mf_name f)"
    and f: "fst (receive_bundle root t cfg path m archive fs) = Inl e"
    and s: "fs' = snd (receive_bundle root t cfg path m archive fs)"
  shows "store_invar root fs' \<and> (\<forall>q. if entry_at fs q \<noteq> None then entry_at fs' q = entry_at fs q
      else entry_at fs' q = None \<or> strict_prefix q (resolve root path) \<and> entry_at fs' q = Some D)"
  using receive_no_trace [OF assms] by (simp add: no_trace_def)

theorem failed_upload_no_trace_witness:
  "store_invar ex_root (snd (receive_bundle ex_root 0 (ex_limits None) ex_path ex_meta [TarFailure ''bad''] ex_fs0))"
proof -
  have g: "\<forall>f \<in> set (bm_files ex_meta). good_key (mf_name f)" using ex_contents by blast
  have "\<exists>e. fst (receive_bundle ex_root 0 (ex_limits None) ex_path ex_meta [TarFailure ''bad''] ex_fs0) = Inl e"
    by (auto simp: receive_bundle_def stream_tar_into_writer_def check_member_def split: prod.splits sum.splits)
  with failed_upload_no_trace [OF ex_ok(1,2) g] show ?thesis by blast
qed

section \<open>Listing and containment\<close>

text \<open>
  C29. What a listing under a prefix returns: exactly the directories strictly below the prefix
  that hold a file, have no directory with a file between them and the prefix, and hold a
  manifest (or any file, when orphans are asked for); each with its own path, flag and time.
\<close>

theorem listing_exact:
  assumes "store_invar root fs" "good_key pre"
  shows "r \<in> set (list_bundles root pre inc fs) \<longleftrightarrow>
    entry_at fs (resolve root pre) = Some D \<and>
    (\<exists>x s. entry_at fs (resolve root pre @ [x]) = Some D \<and> reported inc fs (resolve root pre @ [x]) s
       \<and> r = ref_of fs (resolve root pre @ x # s) (path_parts pre @ x # s))"
  using list_bundles_iff assms by (auto simp: store_invar_def)

theorem listing_exact_witness:
  "ref_of ex_fs1 (resolve ex_root ''inbox/h:p/'' @ [''x'']) (path_parts ''inbox/h:p/'' @ [''x''])
     \<in> set (list_bundles ex_root ''inbox/h:p/'' False ex_fs1)"
proof -
  have g: "good_key ''inbox/h:p/''" and d: "resolve ex_root ''inbox/h:p/'' @ [''x''] = resolve ex_root ex_path"
    "data_root ex_root @ [''inbox'', ''h:p'', ''x''] = resolve ex_root ex_path" by code_simp+
  have m: "has_meta ex_fs1 (resolve ex_root ex_path)" using ex_has_meta d(2) by simp
  then have r: "reported False ex_fs1 (resolve ex_root ''inbox/h:p/'' @ [''x'']) []"
    unfolding d(1) by (simp add: reported_def has_meta_file)
  from m obtain b where "entry_at ex_fs1 (resolve ex_root ''inbox/h:p/'' @ [''x''] @ [BUNDLE_MANIFEST]) = Some (F b)"
    using d(1) by (metis append_assoc has_meta_def)
  then have "entry_at ex_fs1 (resolve ex_root ''inbox/h:p/'') = Some D"
    "entry_at ex_fs1 (resolve ex_root ''inbox/h:p/'' @ [''x'']) = Some D"
    using ex_view(1) fs_wf_prefix [of ex_fs1 "resolve ex_root ''inbox/h:p/''" "[''x''] @ [BUNDLE_MANIFEST]"]
      fs_wf_prefix [of ex_fs1 "resolve ex_root ''inbox/h:p/'' @ [''x'']" "[BUNDLE_MANIFEST]"]
    by (simp_all add: store_invar_def)
  with listing_exact [OF ex_view(1) g] r show ?thesis by blast
qed

text \<open>
  C33. A path the validation accepts stays inside the store: the directory it names is the
  namespace directory of the data root or lies below it, and no component leads upwards.
\<close>

theorem validated_path_contained:
  assumes "validate_path path allowed = Inr ()"
  shows "prefix (data_root root @ [''store'']) (resolve root (store_path path)) \<and> clean (path_parts (store_path path))"
proof -
  have g: "good_key path" by (rule validate_path_good_key [OF assms])
  have pp: "path_parts (store_path path) = ''store'' # path_parts path"
    using path_parts_join [of "''store''" path] by (simp add: store_path_def path_parts_single)
  have "good_key (store_path path)" using g pp by (simp add: good_key_def store_path_def)
  then show ?thesis using g pp by (simp add: resolve_good good_key_def)
qed

theorem validated_path_contained_witness:
  "prefix (data_root ex_root @ [''store'']) (resolve ex_root (store_path ''a/b.txt''))"
proof -
  have "validate_path ''a/b.txt'' None = Inr ()" by code_simp
  from validated_path_contained [OF this] show ?thesis by blast
qed

section \<open>The reaper\<close>

text \<open>
  C25. A sweep never touches a committed bundle: when no directory above it (below its namespace)
  holds a file of its own, its manifest and files read the same after the sweep.
\<close>

theorem sweep_keeps_committed:
  assumes "gc_invar root fs" "good_key p" "path_parts p = ns # y # l" "has_meta fs (resolve root p)"
    and "unshadowed root fs p" "good_key n"
  shows "meta_at root (sweep root now min_age fs) p = meta_at root fs p
    \<and> file_at root (sweep root now min_age fs) p n = file_at root fs p n"
proof -
  have k: "gc_invar root (sweep root now min_age fs)"
    "\<And>q. prefix (resolve root p) q \<Longrightarrow> entry_at (sweep root now min_age fs) q = entry_at fs q"
    using sweep_namespaces_keeps [OF assms(1) _ assms(2-5), of NAMESPACES] by (auto simp: sweep_def)
  show ?thesis using view_cong [OF _ _ assms(2,6) k(2)] assms(1) k(1) by (simp add: gc_invar_def)
qed

text \<open>A store with a committed bundle and an orphan.\<close>

definition ex_gc :: fs where
  "ex_gc =
     [([], DirNode 0), ([''srv''], DirNode 0), ([''srv'', ''data''], DirNode 0), ([''srv'', ''data'', ''store''], DirNode 0),
      ([''srv'', ''data'', ''store'', ''a''], DirNode 0), ([''srv'', ''data'', ''store'', ''a'', ''meta.json''], FileNode ''{}'' 0),
      ([''srv'', ''data'', ''store'', ''b''], DirNode 0), ([''srv'', ''data'', ''store'', ''b'', ''f''], FileNode ''x'' 0)]"

lemma ex_gc_ok: "gc_invar ex_root ex_gc" "good_key ''store/a''" "path_parts ''store/a'' = [''store'', ''a'']"
  "entry_at ex_gc (resolve ex_root ''store/a'' @ [BUNDLE_MANIFEST]) = Some (F ''{}'')"
  "\<lparr>br_path = ''store/b'', br_has_meta = False, br_mtime = 0\<rparr> \<in> set (list_bundles ex_root ''store/'' True ex_gc)"
  "''store/'' \<in> set NAMESPACES" "good_key ''f''"
  by code_simp+

theorem sweep_keeps_committed_witness:
  "meta_at ex_root (sweep ex_root 9000000 3 ex_gc) ''store/a'' = meta_at ex_root ex_gc ''store/a''"
proof -
  have "has_meta ex_gc (resolve ex_root ''store/a'')" using ex_gc_ok(4) by (auto simp: has_meta_def)
  moreover have "unshadowed ex_root ex_gc ''store/a''"
    unfolding unshadowed_def ex_gc_ok(3) by (auto dest: prefix_length_less)
  ultimately show ?thesis using sweep_keeps_committed [OF ex_gc_ok(1-3) _ _ ex_gc_ok(7)] by blast
qed

text \<open>
  C26. A sweep removes what crashed writers left: a directory with files but no manifest that
  the listing of a namespace reports and that is older than the minimum age is gone after it.
\<close>

theorem sweep_reaps_orphan:
  assumes i: "gc_invar root fs" and ns: "pre \<in> set NAMESPACES" "r \<in> set (list_bundles root pre True fs)"
    and o: "\<not> br_has_meta r" "min_age * 1000000 \<le> now - br_mtime r"
  shows "entry_at (sweep root now min_age fs) (resolve root (br_path r)) = None"
proof -
  have g: "good_key ''inbox/''" "good_key ''store/''" "path_parts ''inbox/'' = [''inbox'']" "path_parts ''store/'' = [''store'']"
    by code_simp+
  let ?fs1 = "sweep_refs root now min_age (list_bundles root ''inbox/'' True fs) fs"
  have swp: "sweep root now min_age fs = sweep_refs root now min_age (list_bundles root ''store/'' True ?fs1) ?fs1"
    by (simp add: sweep_def NAMESPACES_def)
  have d: "entry_at fs (resolve root (br_path r)) \<in> {None, Some D}"
    using listed_ref [of fs root pre r True] ns gc_invarD [OF i] namespaces_good by blast
  note oth = sweep_other_namespace [OF i g(3,4) _ g(1,2), where now = now and age = min_age]
  have gi: "gc_invar root ?fs1" using oth(1) by simp
  show ?thesis
  proof (cases "pre = ''inbox/''")
    case True
    have "entry_at ?fs1 (resolve root (br_path r)) = None"
      using sweep_refs_removes [OF i listed_good [OF i g(1)] _ o d] ns(2) True by simp
    then show ?thesis
      unfolding swp using sweep_refs_entries_le [OF gi listed_good [OF gi g(2)], of now min_age True] by fastforce
  next
    case False
    then have p: "pre = ''store/''" using ns(1) by (simp add: NAMESPACES_def)
    have m: "r \<in> set (list_bundles root ''store/'' True ?fs1)" using oth(3) ns(2) p by simp
    have "prefix (resolve root ''store/'') (resolve root (br_path r))"
      using listed_under [OF i g(2,4), of r True] ns(2) p by (auto simp: resolve_good [OF g(2)] g(4))
    then have "entry_at ?fs1 (resolve root (br_path r)) \<in> {None, Some D}" using oth(2) d by simp
    then show ?thesis
      unfolding swp using sweep_refs_removes [OF gi listed_good [OF gi g(2)] m o] by blast
  qed
qed

theorem sweep_reaps_orphan_witness:
  "entry_at (sweep ex_root 9000000 3 ex_gc) (resolve ex_root ''store/b'') = None"
  using sweep_reaps_orphan [OF ex_gc_ok(1,6,5), of 3 9000000] by simp

subsection \<open>What an upload commits\<close>

lemma create_upload_session_accepted:
  assumes "create_upload_session env jti bid key t dest path raw ident = Inr s"
  shows "\<exists>mode. evaluate_upload (se_limits env) \<lparr>um_file_count = int (length (sm_files raw)), um_files = sm_files raw\<rparr> = Accept mode"
  using assms by (auto simp: create_upload_session_def prepare_send_init_def manifest_from_input_def Let_def
      split: sum.splits option.splits if_splits upload_decision.splits)



end
