(* ===== verification/Claim_Properties.thy ===== *)
theory Claim_Properties
  imports Examples
begin

text \<open>
  Properties of the claim storage: concurrent issuers, the life of a claim, and what the reaper
  does with an expired one.
\<close>

section \<open>Concurrent issuers\<close>

text \<open>
  C7. Mutual exclusion. However the exclusive creations of any number of concurrent issuers
  interleave, of two issuers for the same bundle at most one has won, and the sidecar of a
  winner is on disk with the claim it issued.
\<close>

theorem issue_race_one_winner:
  assumes "claims_invar digest base fs" "\<forall>c \<in> set cs. jti_ok (cr_jti c)"
    and "(issue_step digest base cs)\<^sup>*\<^sup>* (replicate (length cs) Starting, fs) (pcs, fs')"
    and "i < length cs" "j < length cs" "pcs ! i = Issued" "pcs ! j = Issued"
    and "cr_bundle_path (cs ! i) = cr_bundle_path (cs ! j)"
  shows "i = j \<and> entry_at fs' (base @ [cr_jti (cs ! i) @ ''.json'']) = Some (F (claim_bytes (cs ! i)))"
proof -
  have r: "race_inv digest base cs pcs fs'"
    using race_inv_reachable [OF assms(3) race_inv_init [OF assms(1)] assms(2)] .
  from race_invD(4) [OF r, of i j] race_invD(5) [OF r, of i] assms(4-8) show ?thesis by auto
qed

text \<open>The claims of the witnesses: two issuers for one bundle.\<close>

definition ex_claim :: "str \<Rightarrow> claim_record" where
  "ex_claim j = pick_claim j 0 ex_path ex_meta ''h:p''"

definition ex_rivals :: "claim_record list" where
  "ex_rivals = [ex_claim ''u'', ex_claim ''v'']"

lemma ex_rivals_ok: "\<forall>c \<in> set ex_rivals. jti_ok (cr_jti c)" "distinct (map cr_jti ex_rivals)" "length ex_rivals = 2"
  "\<forall>c \<in> set ex_rivals. cr_bundle_path c = ex_path"
  by (simp_all add: ex_rivals_def ex_claim_def pick_claim_def jti_ok_def)

text \<open>A run in which the first issuer wins and the second is refused.\<close>

lemma ex_race:
  "\<exists>fs'. (issue_step ex_digest ex_base ex_rivals)\<^sup>*\<^sup>* ([Starting, Starting], ex_fs1)
      ([Issued, Refused (BundleClaimedError ex_path)], fs')"
proof -
  let ?c = "ex_claim ''u''" and ?R = "issue_step ex_digest ex_base ex_rivals"
  have c: "jti_ok (cr_jti ?c)" "cr_bundle_path ?c = ex_path" "cr_jti ?c = ''u''" "cr_bundle_path (ex_claim ''v'') = ex_path"
    by (simp_all add: ex_claim_def pick_claim_def jti_ok_def)
  have "\<exists>fs'. issue ex_digest ex_base 0 ?c ex_fs1 = (Inr (), fs')"
    using ex_claims(3) [of "''u''" ex_path] by (intro issue_ok [OF ex_claims(1) c(1)]) (auto simp: claim_free_def c)
  then obtain fs1 fs2 where l: "issue_lock ex_digest ex_base 0 ?c ex_fs1 = (Inr (), fs1)"
    and s: "issue_sidecar ex_digest ex_base 0 ?c fs1 = (Inr (), fs2)"
    by (auto simp: issue_def split: prod.splits sum.splits)
  note L = issue_lock_Inr [OF ex_claims(1) l]
  note S = issue_sidecar_Inr [OF L(1) c(1) s]
  have "locked ex_digest ex_base fs2 ex_path" using L(4) S(3) c by (simp add: locked_def)
  then have v: "issue_lock ex_digest ex_base 0 (ex_claim ''v'') fs2 = (Inl (BundleClaimedError ex_path), fs2)"
    using issue_lock_locked [OF S(1), of "ex_claim ''v''" 0] c(4) by simp
  have "?R ([Starting, Starting], ex_fs1) ([Locked, Starting], fs1)"
    using lock_won [of 0 ex_rivals "[Starting, Starting]" ex_digest ex_base 0 ex_fs1] l by (simp add: ex_rivals_def)
  moreover have "?R ([Locked, Starting], fs1) ([Issued, Starting], fs2)"
    using sidecar_won [of 0 ex_rivals "[Locked, Starting]" ex_digest ex_base 0 fs1] s by (simp add: ex_rivals_def)
  moreover have "?R ([Issued, Starting], fs2) ([Issued, Refused (BundleClaimedError ex_path)], fs2)"
    using lock_lost [of 1 ex_rivals "[Issued, Starting]" ex_digest ex_base 0 fs2] v by (simp add: ex_rivals_def)
  ultimately show ?thesis by (blast intro: rtranclp.rtrancl_into_rtrancl rtranclp.rtrancl_refl)
qed

theorem issue_race_one_winner_witness:
  "\<exists>fs'. (issue_step ex_digest ex_base ex_rivals)\<^sup>*\<^sup>* ([Starting, Starting], ex_fs1)
      ([Issued, Refused (BundleClaimedError ex_path)], fs')
    \<and> entry_at fs' (ex_base @ [cr_jti (ex_rivals ! 0) @ ''.json'']) = Some (F (claim_bytes (ex_rivals ! 0)))"
  using ex_race issue_race_one_winner [OF ex_claims(1) ex_rivals_ok(1), of _ _ 0 0]
  by (auto simp: ex_rivals_ok(3) numeral_2_eq_2)

text \<open>
  C8. Somebody wins. When the store held no lock on the bundle and no sidecar of the issuers,
  their identifiers differ and all of them are done, exactly one has won.
\<close>

theorem issue_race_somebody_wins:
  assumes i: "claims_invar digest base fs" "\<forall>c \<in> set cs. jti_ok (cr_jti c)" "distinct (map cr_jti cs)"
    and free: "\<forall>c \<in> set cs. claim_free digest base fs (cr_jti c) p" "\<forall>c \<in> set cs. cr_bundle_path c = p" "cs \<noteq> []"
    and run: "(issue_step digest base cs)\<^sup>*\<^sup>* (replicate (length cs) Starting, fs) (pcs, fs')"
    and don: "\<forall>k < length cs. pcs ! k = Issued \<or> (\<exists>e. pcs ! k = Refused e)"
  shows "\<exists>!k. k < length cs \<and> pcs ! k = Issued"
proof -
  obtain c where c: "c \<in> set cs" using free(3) by (cases cs) auto
  have "live_inv digest base cs (replicate (length cs) Starting) fs"
    using free c by (auto simp: live_inv_def claim_free_def locked_def)
  from live_inv_reachable [OF run race_inv_init [OF i(1)] this i(2,3)]
  have r: "race_inv digest base cs pcs fs'" and v: "live_inv digest base cs pcs fs'" by auto
  have "\<exists>k < length cs. pcs ! k = Issued"
  proof (cases "pcs ! 0 = Issued")
    case False
    with don free(3) have "has_holder digest cs pcs 0" using v by (fastforce simp: live_inv_def)
    then show ?thesis using don unfolding has_holder_def by (metis holds_simps(4))
  qed (use free(3) in auto)
  moreover have "k = l" if "k < length cs" "l < length cs" "pcs ! k = Issued" "pcs ! l = Issued" for k l
    using race_invD(4) [OF r that(1,2)] that free(2) by auto
  ultimately show ?thesis by blast
qed

theorem issue_race_somebody_wins_witness:
  "\<exists>fs'. (issue_step ex_digest ex_base ex_rivals)\<^sup>*\<^sup>* ([Starting, Starting], ex_fs1) ([Issued, Refused (BundleClaimedError ex_path)], fs')
    \<and> (\<exists>!k. k < length ex_rivals \<and> [Issued, Refused (BundleClaimedError ex_path)] ! k = Issued)"
proof -
  obtain fs' where r: "(issue_step ex_digest ex_base ex_rivals)\<^sup>*\<^sup>* (replicate (length ex_rivals) Starting, ex_fs1)
      ([Issued, Refused (BundleClaimedError ex_path)], fs')"
    using ex_race by (auto simp: ex_rivals_ok(3) numeral_2_eq_2)
  have "\<exists>!k. k < length ex_rivals \<and> [Issued, Refused (BundleClaimedError ex_path)] ! k = Issued"
    using ex_claims(3)
    by (intro issue_race_somebody_wins [OF ex_claims(1) ex_rivals_ok(1,2) _ ex_rivals_ok(4) _ r])
      (auto simp: ex_rivals_ok(3) less_Suc_eq numeral_2_eq_2 simp flip: length_greater_0_conv)
  then show ?thesis using r by (auto simp: ex_rivals_ok(3) numeral_2_eq_2)
qed

text \<open>The steps an issuer has left.\<close>

definition pc_work :: "issue_pc \<Rightarrow> nat" where
  "pc_work pc = (case pc of Starting \<Rightarrow> 2 | Locked \<Rightarrow> 1 | _ \<Rightarrow> 0)"

lemma issue_step_work:
  assumes "issue_step digest base cs (pcs, fs) (pcs', fs')" "length pcs = length cs"
  shows "length pcs' = length cs \<and> sum_list (map pc_work pcs') < sum_list (map pc_work pcs)"
proof -
  have less: "sum_list (map pc_work (pcs[i := pc])) < sum_list (map pc_work pcs)"
    if "i < length pcs" "pc_work pc < pc_work (pcs ! i)" for i pc
    using that sum_list_update [of i "map pc_work pcs" "pc_work pc"] elem_le_sum_list [of i "map pc_work pcs"]
    by (simp add: map_update)
  from assms(1) show ?thesis
    by (rule issue_stepE) (use assms(2) in \<open>auto intro!: less simp: pc_work_def\<close>)
qed

lemma issue_runs_work:
  "(issue_step digest base cs ^^ n) s s' \<Longrightarrow> length (fst s) = length cs
   \<Longrightarrow> length (fst s') = length cs \<and> n + sum_list (map pc_work (fst s')) \<le> sum_list (map pc_work (fst s))"
proof (induction n arbitrary: s')
  case (Suc n)
  then obtain s1 where "(issue_step digest base cs ^^ n) s s1" "issue_step digest base cs s1 s'" by auto
  with Suc.IH [of s1] Suc.prems(2) issue_step_work [of digest base cs "fst s1" "snd s1" "fst s'" "snd s'"]
  show ?case by auto
qed simp



section \<open>The life of a claim\<close>

text \<open>
  C23. A claim that was issued can be read back, keeps every other claim off the bundle without
  changing anything, and frees the bundle when it is deleted.
\<close>

theorem claim_exclusive_until_deleted:
  assumes "claims_invar digest base fs" "claim_ok c" "fst (issue digest base t c fs) = Inr ()"
    and "fs' = snd (issue digest base t c fs)" "cr_bundle_path d = cr_bundle_path c"
  shows "record_of base fs' (cr_jti c) = Some c
    \<and> issue digest base t' d fs' = (Inl (BundleClaimedError (cr_bundle_path d)), fs')
    \<and> \<not> locked digest base (snd (delete_claim digest base t'' (cr_jti c) fs')) (cr_bundle_path c)
    \<and> record_of base (snd (delete_claim digest base t'' (cr_jti c) fs')) (cr_jti c) = None"
proof -
  have o: "issue digest base t c fs = (Inr (), fs')" using assms(3,4) by (simp add: prod_eq_iff)
  have i: "claims_invar digest base fs'" using fs_claims.iss_invar [OF assms(1,2), of t] assms(4) by simp
  note r = fs_claims.issued_then_released [OF assms(1,2) o, of t'']
  have j: "jti_ok (cr_jti c)" using assms(2) by (simp add: claim_ok_def)
  show ?thesis
    using r fs_claims.iss_locked [OF i, of d t'] assms(5) delete_claim_releases [OF i j, of c t''] by simp
qed

theorem claim_exclusive_until_deleted_witness:
  "record_of ex_base (snd (issue ex_digest ex_base 0 (ex_claim ''u'') ex_fs1)) ''u'' = Some (ex_claim ''u'')"
proof -
  have c: "claim_ok (ex_claim ''u'')" "jti_ok (cr_jti (ex_claim ''u''))" "cr_jti (ex_claim ''u'') = ''u''"
    "cr_bundle_path (ex_claim ''u'') = ex_path"
    by (simp_all add: claim_ok_def ex_claim_def pick_claim_def jti_ok_def)
  have "\<exists>fs'. issue ex_digest ex_base 0 (ex_claim ''u'') ex_fs1 = (Inr (), fs')"
    using ex_claims(3) [of "''u''" ex_path] by (intro issue_ok [OF ex_claims(1) c(2)]) (auto simp: claim_free_def c)
  then have "fst (issue ex_digest ex_base 0 (ex_claim ''u'') ex_fs1) = Inr ()" by auto
  from claim_exclusive_until_deleted [OF ex_claims(1) c(1) this refl refl] show ?thesis by (simp add: c(3))
qed



end
