(* ===== verification/Access_Properties.thy ===== *)
theory Access_Properties
  imports Examples
begin

text \<open>
  Properties of the key store, of the credentials and of the two routes that accept them.
\<close>

section \<open>Keys\<close>

definition empty_store :: key_store where
  "empty_store = \<lparr>ks_keys = [], ks_setup_done = False, ks_file = None\<rparr>"

text \<open>
  C19. Whatever sequence of setups, creations, revocations and rotations has run, no label has two
  active keys, and looking a key up never raises.
\<close>

theorem reachable_keys_unambiguous:
  assumes "(ks_step h)\<^sup>*\<^sup>* empty_store s"
  shows "distinct (map kr_label (filter kr_is_active (ks_keys s))) \<and> (\<exists>r. validate h raw s = Inr r)"
proof -
  have i: "ks_invar s"
    by (rule ks_reachable_invar [OF assms]) (simp add: ks_invar_def empty_store_def active_keys_def)
  then show ?thesis using validate_Some(2) [OF i] by (simp add: ks_invar_def active_keys_def)
qed

lemma ex_clock: "clock_ok 0"
  using utcfromtimestamp_ok [of 0] by (simp add: clock_ok_def epoch_end_def)

definition ex_store :: key_store where
  "ex_store = snd (create_key id ''t'' 0 ''h:p'' empty_store)"

lemma ex_store: "create_key id ''t'' 0 ''h:p'' empty_store =
    (Inr (''cst_t'', \<lparr>ki_label = ''h:p'', ki_key_prefix = ''cst_t'', ki_created_at = 0, ki_is_active = True\<rparr>), ex_store)"
  "ks_keys ex_store = [\<lparr>kr_label = ''h:p'', kr_key_hash = ''cst_t'', kr_key_prefix = ''cst_t'',
     kr_created_at = isoformat (utcfromtimestamp 0), kr_is_active = True\<rparr>]"
  by (simp_all add: ex_store_def create_key_def empty_store_def has_active_def generate_key_def KEY_PREFIX_def Let_def
      save_def KEY_PREFIX_LEN_def)

lemma ex_store_step: "(ks_step id)\<^sup>*\<^sup>* empty_store ex_store"
  using step_create [OF ex_clock, of id empty_store "''t''" "''h:p''"] by (simp add: ex_store_def r_into_rtranclp)

lemma ex_store_invar: "ks_invar ex_store"
  by (rule ks_reachable_invar [OF ex_store_step]) (simp add: ks_invar_def empty_store_def active_keys_def)

theorem reachable_keys_unambiguous_witness:
  "distinct (map kr_label (filter kr_is_active (ks_keys ex_store))) \<and> (\<exists>r. validate id ''cst_t'' ex_store = Inr r)"
  using reachable_keys_unambiguous [OF ex_store_step] by blast

lemma json_ok_store: "json_ok (store_json s)"
  by (auto simp: store_json_def key_json_def list_all_iff)



text \<open>
  C34. After a label has been revoked no bearer credential authenticates as it, in a server that
  is not in development mode.
\<close>

theorem revoked_label_locked_out:
  assumes "ks_invar s" "\<not> ac_dev_mode cfg"
    and "get_current_identity (\<lambda>raw. validate h raw (snd (revoke_key l s))) cfg tok cred = Inr (KeyIdentity l')"
  shows "l' \<noteq> l"
  using file_keys.revoked_label_rejected [OF assms(1,2)] assms(3) by blast

theorem revoked_label_locked_out_witness:
  "\<exists>l'. get_current_identity (\<lambda>raw. validate id raw (snd (revoke_key ''h:q'' ex_store)))
       \<lparr>ac_dev_mode = False, ac_setup_token = ''s''\<rparr> None (Some ''cst_t'') = Inr (KeyIdentity l') \<and> l' \<noteq> ''h:q''"
proof -
  have "get_current_identity (\<lambda>raw. validate id raw (snd (revoke_key ''h:q'' ex_store)))
       \<lparr>ac_dev_mode = False, ac_setup_token = ''s''\<rparr> None (Some ''cst_t'') = Inr (KeyIdentity ''h:p'')"
    by (simp add: get_current_identity_def revoke_key_def ex_store validate_def info_of_def ex_created resolve_identity_def)
  with revoked_label_locked_out [OF ex_store_invar _ this] show ?thesis by simp
qed

text \<open>
  A rotation switches keys: the new key opens the store as the label, and any key with
  another hash no longer does.
\<close>

theorem rotation_switches_key:
  assumes i: "ks_invar s" "clock_ok now" and r: "rotate_key h tok now l s = (Inr (raw, info), s')"
    and fresh: "\<forall>k \<in> set (active_keys (ks_keys s)). kr_key_hash k \<noteq> h (generate_key tok)"
  shows "(\<exists>i. validate h raw s' = Inr (Some i) \<and> ki_label i = l)
    \<and> (\<forall>raw' i. h raw' \<noteq> h raw \<longrightarrow> validate h raw' s' = Inr (Some i) \<longrightarrow> ki_label i \<noteq> l)"
proof -
  from r obtain ks where d: "deactivate l (ks_keys s) = Some ks"
    and c: "create_key h tok now l (s\<lparr>ks_keys := ks\<rparr>) = (Inr (raw, info), s')"
    by (auto simp: rotate_key_def split: option.splits)
  note cr = create_key_Inr [OF c]
  have i': "ks_invar s'" using create_key_invar [OF deactivate_invar [OF i(1) d] i(2), of h tok l] c by simp
  have a: "active_keys ks = filter (\<lambda>k. kr_label k \<noteq> l) (active_keys (ks_keys s))"
    using deactivate_active [OF d] i(1) by (simp add: ks_invar_def)
  let ?n = "last (ks_keys s')"
  have act: "active_keys (ks_keys s') = active_keys ks @ [?n]" "kr_label ?n = l" "kr_key_hash ?n = h raw"
    using cr(6) by (simp_all add: active_keys_def)
  have "\<exists>i. validate h raw s' = Inr (Some i) \<and> ki_label i = kr_label ?n"
    using fresh a act cr(2) by (intro validate_unique [OF i', of ?n]) auto
  moreover have "ki_label i \<noteq> l" if "h raw' \<noteq> h raw" "validate h raw' s' = Inr (Some i)" for raw' i
    using validate_Some(1) [OF i' that(2)] act a that(1) by auto
  ultimately show ?thesis using act(2) by auto
qed

theorem rotation_switches_key_witness:
  "\<exists>s' i. validate id ''cst_n'' s' = Inr (Some i) \<and> ki_label i = ''h:p''"
proof -
  obtain info s' where r: "rotate_key id ''n'' 0 ''h:p'' ex_store = (Inr (''cst_n'', info), s')"
    by (auto simp: rotate_key_def create_key_def has_active_def ex_store generate_key_def KEY_PREFIX_def Let_def)
  have "\<forall>k \<in> set (active_keys (ks_keys ex_store)). kr_key_hash k \<noteq> id (generate_key ''n'')"
    by (simp add: active_keys_def ex_store generate_key_def KEY_PREFIX_def)
  from rotation_switches_key [OF ex_store_invar ex_clock r this] show ?thesis by blast
qed

section \<open>Credentials\<close>

text \<open>
  C22. The overlap window of a rotation. A credential signed with the key in force before the
  rotation is accepted until the overlap has passed and refused from then on; one signed with
  the new key is accepted throughout.
\<close>

theorem rotation_overlap:
  assumes lib: "jwt_laws enc dec" "claims_ok c" "check_claims c now = Inr c" "chk (claim_str c ''jti'') = None"
    and rot: "handle_rotation ov t0 path content slots = (KeyRotated, slots')"
  shows "fst (verify_slots dec chk now t (enc c (js_primary slots)) slots')
      = (if t - t0 < ov * 1000000 then Inr c else Inl TokenInvalidSignature)
    \<and> fst (verify_slots dec chk now t (enc c (js_primary slots')) slots') = Inr c"
proof -
  obtain k where k: "k \<noteq> js_primary slots" and s: "slots' = \<lparr>js_primary = k, js_secondary = Some (js_primary slots),
      js_last_rotation_ts = Some t0, js_overlap_ttl_seconds = ov\<rparr>"
    using handle_rotation_cases [OF rot] by auto
  have old: "verify dec chk now (enc c (js_primary slots)) k None = Inl TokenInvalidSignature"
    "verify dec chk now (enc c (js_primary slots)) k (Some (js_primary slots)) = Inr c"
    using verify_other_primary [OF lib(1,2) k, of chk now] verify_primary [where chk = chk, OF lib] by auto
  show ?thesis
    using old verify_primary [where chk = chk, OF lib] by (simp add: verify_slots_def resolve_secondary_def s not_less split: if_splits)
qed

lemma b64_no_space: "list_all (\<lambda>c. \<not> is_space c) (b64encode k)"
proof -
  have "\<not> is_space (b64_digit n)" if "n < 64" for n
    using byte_b64_digit [OF that] by (auto simp: is_space_def split: if_splits)
  moreover have "\<not> is_space (CHR ''='')" by (simp add: is_space_def)
  ultimately show ?thesis by (induction k rule: b64encode.induct) (simp_all add: byte_halves byte_split)
qed

lemma decode_key_material_b64: "length k \<ge> MIN_HS256_KEY_BYTES \<Longrightarrow> decode_key_material (b64encode k) = Some k"
proof -
  assume k: "length k \<ge> MIN_HS256_KEY_BYTES"
  then have n: "b64encode k \<noteq> []" by (cases k rule: b64encode.cases) (auto simp: MIN_HS256_KEY_BYTES_def)
  then have "hd (b64encode k) \<in> set (b64encode k)" "last (b64encode k) \<in> set (b64encode k)" by simp_all
  then have "strip_ws (b64encode k) = b64encode k"
    using n b64_no_space [of k] by (intro strip_ws_id) (auto simp: list_all_iff)
  then show ?thesis using k n by (simp add: decode_key_material_def b64decode_b64encode)
qed

definition ex_rotated :: jwt_slots where
  "ex_rotated = \<lparr>js_primary = replicate 32 (CHR ''n''), js_secondary = Some ex_key, js_last_rotation_ts = Some 1000000,
     js_overlap_ttl_seconds = 600\<rparr>"

lemma handle_rotation_fresh:
  "length k \<ge> MIN_HS256_KEY_BYTES \<Longrightarrow> k \<noteq> js_primary s \<Longrightarrow> strip_ws path \<noteq> [] \<Longrightarrow>
   handle_rotation ov t path (KeyFileContent (b64encode k)) s
     = (KeyRotated, \<lparr>js_primary = k, js_secondary = Some (js_primary s), js_last_rotation_ts = Some t,
          js_overlap_ttl_seconds = ov\<rparr>)"
  by (simp add: handle_rotation_def decode_key_material_b64)

lemma ex_rotation:
  "handle_rotation 600 1000000 ''key'' (KeyFileContent (b64encode (replicate 32 (CHR ''n'')))) ex_slots = (KeyRotated, ex_rotated)"
proof -
  have "strip_ws ''key'' \<noteq> []" by (simp add: strip_ws_def is_space_def)
  moreover have "length (replicate 32 (CHR ''n'')) \<noteq> length ex_key" by (simp add: ex_key_def)
  then have "replicate 32 (CHR ''n'') \<noteq> js_primary ex_slots" unfolding ex_env_simps by metis
  ultimately show ?thesis
    using handle_rotation_fresh [of "replicate 32 (CHR ''n'')" ex_slots "''key''" 600 1000000]
    unfolding ex_rotated_def ex_env_simps by (simp only: MIN_HS256_KEY_BYTES_def length_replicate order_refl simp_thms)
qed

definition ex_claims_of_token :: claims where
  "ex_claims_of_token = [(''exp'', JInt 9), (''nbf'', JInt 0), (''iat'', JInt 0), (''jti'', JStr ''j'')]"

theorem rotation_overlap_witness:
  "fst (verify_slots (jl_decode ex_lib) noop_revocation_check 5 600999999 (ex_encode ex_claims_of_token ex_key) ex_rotated)
     = Inr ex_claims_of_token
   \<and> fst (verify_slots (jl_decode ex_lib) noop_revocation_check 5 601000000 (ex_encode ex_claims_of_token ex_key) ex_rotated)
     = Inl TokenInvalidSignature"
proof -
  have l: "jwt_laws ex_encode (jl_decode ex_lib)" using ex_lib_laws by (simp add: lib_laws_def) (simp add: ex_lib_def)
  have c: "claims_ok ex_claims_of_token" "check_claims ex_claims_of_token 5 = Inr ex_claims_of_token"
    by (simp_all add: ex_claims_of_token_def check_claims_def REQUIRED_CLAIMS_def claim_int_def)
  note w = rotation_overlap [where chk = noop_revocation_check, OF l c _ ex_rotation, unfolded ex_env_simps]
  show ?thesis using w [of 600999999] w [of 601000000] by (simp add: noop_revocation_check_def)
qed

text \<open>
  C21. What a download credential opens. Whatever the request, the credential minted for a bundle
  is accepted only within its lifetime, under a key in force, not revoked, for the path
  it was minted for, for a file its manifest declares, and, outside development mode, for a
  caller that names the identity it was minted for or gives the name \<^verbatim>\<open>*\<close>.
\<close>

theorem download_credential_confined:
  assumes lib: "lib_laws lib" and tok: "extract_bearer (dr_authorization req) = Some (sign (jl_encode lib) uuid (build_claims bp m rec ttl iat) key)"
    and ok: "authorize_download (jl_decode lib) chk dev now mono_t slots req = Inr (c, p, n)"
  shows "p = bp \<and> n \<in> mf_name ` set (bm_files m) \<and> iat \<le> now \<and> now < iat + ttl \<and> chk uuid = None
    \<and> (key = js_primary slots \<or> fst (resolve_secondary mono_t slots) = Some key)
    \<and> (dev \<or> dr_x_sender req \<in> {Some rec, Some ''*''})"
proof -
  let ?c = "with_jti uuid (build_claims bp m rec ttl iat)"
  let ?sec = "fst (resolve_secondary mono_t slots)"
  have l: "jwt_laws (jl_encode lib) (jl_decode lib)" using lib by (simp add: lib_laws_def)
  obtain c' where v: "verify (jl_decode lib) chk now (jl_encode lib ?c key) (js_primary slots) ?sec = Inr c'"
    using ok tok by (auto simp: authorize_download_def sign_def verify_slots_def split: prod.splits sum.splits)
  note cv = verify_InrD [OF l claims_ok_build v]
  have p: "map_of ?c ''bundle_path'' = Some (JStr bp)" "map_of ?c ''recipient'' = Some (JStr rec)"
    unfolding build_claims_lookup by (simp_all add: build_claims_def)
  have t: "iat \<le> now \<and> now < iat + ttl"
    using cv unfolding check_claims_def REQUIRED_CLAIMS_def claim_int_def build_claims_lookup
    by (simp add: build_claims_def split: if_splits)
  have chk: "chk uuid = None"
    using v cv by (auto simp: verify_def Let_def claim_str_JStr build_claims_lookup split: sum.splits option.splits if_splits)
  have a: "fst (verify_slots (jl_decode lib) chk now mono_t (jl_encode lib ?c key) slots) = Inr ?c"
    using v cv by (simp add: verify_slots_def case_prod_beta)
  have "p = bp \<and> n \<in> mf_name ` set (bm_files m) \<and> (dev \<or> dr_x_sender req \<in> {Some rec, Some ''*''})"
    using ok unfolding authorize_download_def tok option.case sign_def a sum.case p claim_names_build
    by (auto simp: Let_def py_str_def resolve_identity_label_def split: option.splits sum.splits if_splits)
  with t chk cv show ?thesis by auto
qed

lemma signed_bearer:
  "lib_laws lib \<Longrightarrow> extract_bearer (''Bearer '' @ sign (jl_encode lib) uuid c key) = Some (sign (jl_encode lib) uuid c key)"
  by (rule extract_bearer_token) (simp add: lib_laws_def sign_def)

theorem download_credential_confined_witness:
  "\<exists>c. authorize_download (jl_decode ex_lib) noop_revocation_check False 5 0 ex_slots
      (file_request (sign (jl_encode ex_lib) ''u'' (build_claims ex_path ex_meta ''h:p'' 300 0) ex_key) ex_path ''f'' (Some ''h:p''))
      = Inr (c, ex_path, ''f'') \<and> ''f'' \<in> mf_name ` set (bm_files ex_meta)"
proof -
  let ?tok = "sign (jl_encode ex_lib) ''u'' (build_claims ex_path ex_meta ''h:p'' 300 0) ex_key"
  have n: "''f'' \<in> mf_name ` set (bm_files ex_meta)" by (simp add: ex_created ex_manifest_def)
  have r: "noop_revocation_check ''u'' = None" by (simp add: noop_revocation_check_def)
  have b: "extract_bearer (dr_authorization (file_request ?tok ex_path ''f'' (Some ''h:p''))) = Some ?tok"
    unfolding file_request_def download_request.simps by (rule signed_bearer [OF ex_lib_laws])
  note a = authorize_signed [where chk = noop_revocation_check and dev = False and sender = "Some ''h:p''" and mono_t = 0,
      OF ex_lib_laws _ _ r ex_env_simps(13) n _ refl, of 0 5 300 "''h:p''" ex_path, folded file_request_def]
  show ?thesis using download_credential_confined [OF ex_lib_laws b a] a by simp
qed

text \<open>
  C20. The two kinds of credential are not interchangeable: the upload route answers every live
  download credential with 422, and the download route every live upload credential with 401, the
  claim \<^verbatim>\<open>file_names\<close> missing.
\<close>

theorem credentials_not_interchangeable:
  assumes lib: "lib_laws lib" and t: "iat \<le> now" "now < iat + ttl" and r: "chk jti = None" and s: "js_primary slots = key"
    and d: "extract_bearer auth = Some (sign (jl_encode lib) jti (build_claims bp m rec ttl iat) key)"
    and u: "extract_bearer (dr_authorization req)
        = Some (sign (jl_encode lib) jti (upload_claims bp' bid sender rec' mode man iat ttl) key)"
  shows "authorize_upload (jl_decode lib) chk now mono_t slots auth path
      = Inl (UploadHttp 422 ''unauthenticated'' ''wrong_mode'')
    \<and> authorize_download (jl_decode lib) chk dev now mono_t slots req
      = Inl (DownloadError 401 ''missing_claim'' (Some ''file_names''))"
proof -
  have l: "jwt_laws (jl_encode lib) (jl_decode lib)" using lib by (simp add: lib_laws_def)
  let ?d = "with_jti jti (build_claims bp m rec ttl iat)"
  let ?u = "with_jti jti (upload_claims bp' bid sender rec' mode man iat ttl)"
  have "claim_str ?d ''jti'' = jti" "claim_str ?u ''jti'' = jti"
    by (simp_all add: claim_str_JStr build_claims_lookup upload_claims_lookup)
  then have v: "fst (verify_slots (jl_decode lib) chk now mono_t (jl_encode lib ?d key) slots) = Inr ?d"
    "fst (verify_slots (jl_decode lib) chk now mono_t (jl_encode lib ?u key) slots) = Inr ?u"
    using verify_primary [where chk = chk, OF l claims_ok_build check_build_claims [OF t]]
      verify_primary [where chk = chk, OF l claims_ok_upload check_upload_claims [OF t]] r s
    by (simp_all add: verify_slots_def case_prod_beta)
  have m: "map_of ?d ''mode'' = None" unfolding build_claims_lookup by (simp add: build_claims_def)
  have f: "find (\<lambda>k. map_of ?u k = None) [''bundle_path'', ''bundle_id'', ''recipient'', ''file_names''] = Some ''file_names''"
    unfolding find.simps upload_claims_lookup by (simp add: upload_claims_def)
  show ?thesis
    unfolding authorize_upload_def authorize_download_def d u option.case sign_def v sum.case m f by simp
qed

theorem credentials_not_interchangeable_witness:
  "authorize_upload (jl_decode ex_lib) noop_revocation_check 5 0 ex_slots
      (''Bearer '' @ sign (jl_encode ex_lib) ''u'' (build_claims ex_path ex_meta ''h:p'' 300 0) ex_key) ''x''
      = Inl (UploadHttp 422 ''unauthenticated'' ''wrong_mode'')"
proof -
  have u: "extract_bearer (dr_authorization (file_request (sign (jl_encode ex_lib) ''u'' c ex_key) p n s))
      = Some (sign (jl_encode ex_lib) ''u'' c ex_key)" for c p n s
    unfolding file_request_def download_request.simps by (rule signed_bearer [OF ex_lib_laws])
  have r: "noop_revocation_check ''u'' = None" by (simp add: noop_revocation_check_def)
  note w = credentials_not_interchangeable [where chk = noop_revocation_check,
      OF ex_lib_laws _ _ r ex_env_simps(13) signed_bearer [OF ex_lib_laws] u, of 0 5 300]
  show ?thesis by (rule w [THEN conjunct1]) simp_all
qed

text \<open>
  The sentinel of development mode is also a value of the header: with \<^verbatim>\<open>X-Sender: *\<close> a credential
  opens its bundle for a caller that does not name the recipient.
\<close>

lemma star_sender_passes:
  "authorize_download decode chk False now mono_t slots (file_request tok bp n (Some ''*''))
    = authorize_download decode chk True now mono_t slots (file_request tok bp n sender)"
proof -
  have i: "resolve_identity_label False (Some ''*'') = resolve_identity_label True sender"
    by (simp add: resolve_identity_label_def)
  show ?thesis unfolding authorize_download_def file_request_def download_request.simps i ..
qed

end
