(* ===== verification/Agents.thy ===== *)
theory Agents
  imports Files Publishing
begin

text \<open>
  Discovery and broadcast: \<^verbatim>\<open>routes/agents.py\<close>, the default access policy
  (\<^verbatim>\<open>defaults/default_access.py\<close>) and the limits on a broadcast (\<^verbatim>\<open>rate_limit/limiter.py\<close>). The
  rate limiter is a library: its \<^verbatim>\<open>hit\<close> on a bucket is an argument, with its own state. The two
  questions of an access policy may raise, and a broadcast answers for it.
\<close>

record access_policy =
  ap_check :: "identity \<Rightarrow> str \<Rightarrow> str \<Rightarrow> exc + bool"
  ap_visible_agents :: "identity \<Rightarrow> str list \<Rightarrow> exc + str list"

definition default_access_policy :: access_policy where
  "default_access_policy = \<lparr>ap_check = (\<lambda>ident resource action. Inr True), ap_visible_agents = (\<lambda>ident labels. Inr labels)\<rparr>"

subsection \<open>rate\_limit/limiter.py\<close>

datatype rate_limit_route = Onboard | Broadcast

text \<open>The route a request has recorded, and the one a rejection is counted for.\<close>

definition recorded_rate_limit_route :: "rate_limit_route option \<Rightarrow> rate_limit_route" where
  "recorded_rate_limit_route recorded = (case recorded of None \<Rightarrow> Broadcast | Some r \<Rightarrow> r)"

type_synonym 'l rate_limiter = "str \<Rightarrow> str \<Rightarrow> 'l \<Rightarrow> bool \<times> 'l"

text \<open>
  The route is recorded before the bucket is consulted: the second component is the state of
  the request afterwards, the third the one of the limiter.
\<close>

definition check_rate_limit_imperative ::
  "'l rate_limiter \<Rightarrow> str \<Rightarrow> str \<Rightarrow> rate_limit_route \<Rightarrow> 'l \<Rightarrow> bool \<times> rate_limit_route option \<times> 'l" where
  "check_rate_limit_imperative hit remote_address rate_string route ls =
     (let (ok, ls') = hit rate_string remote_address ls in (ok, Some route, ls'))"

definition check_fanout_cap :: "nat \<Rightarrow> int \<Rightarrow> bool" where
  "check_fanout_cap target_count max_targets = (\<not> int target_count > max_targets)"

subsection \<open>GET /agents\<close>

record agent_entry =
  ag_label :: str
  ag_created_at :: str

definition visible_or_none :: "access_policy \<Rightarrow> identity \<Rightarrow> str list \<Rightarrow> str list" where
  "visible_or_none policy ident labels =
     (case ap_visible_agents policy ident labels of Inl e \<Rightarrow> [] | Inr ls \<Rightarrow> ls)"

definition list_agents :: "access_policy \<Rightarrow> key_store \<Rightarrow> identity \<Rightarrow> exc + agent_entry list" where
  "list_agents policy ks ident =
     (case list_keys ks of
        Inl e \<Rightarrow> Inl e
      | Inr keys \<Rightarrow>
         (let active = filter ki_is_active keys;
              visible_set = set (visible_or_none policy ident (map ki_label active))
          in Inr (map (\<lambda>k. \<lparr>ag_label = ki_label k, ag_created_at = isoformat (utcfromtimestamp (ki_created_at k))\<rparr>)
                    (filter (\<lambda>k. ki_label k \<in> visible_set) active))))"

subsection \<open>POST /broadcast/\{path\}\<close>

definition sender_from_identity :: "identity \<Rightarrow> str option" where
  "sender_from_identity ident = (case ident of KeyIdentity l \<Rightarrow> Some l | _ \<Rightarrow> None)"

definition inbox_meta :: "(str \<Rightarrow> str option) \<Rightarrow> int \<Rightarrow> str option \<Rightarrow> str \<Rightarrow> file_part list \<Rightarrow> bundle_meta" where
  "inbox_meta guess t sender bundle_id files =
     (let records = map (\<lambda>(n, d, ct). \<lparr>mf_name = n, mf_size = int (length d), mf_mime = Some (pick_mime guess n ct)\<rparr>) files
      in \<lparr>bm_schema_version = 1, bm_bundle_id = bundle_id, bm_sender = sender,
          bm_created_at = isoformat (utcfromtimestamp t), bm_content_type = ''application/octet-stream'',
          bm_file_count = int (length records), bm_files = records\<rparr>)"

definition write_inbox_bundle ::
  "(str \<Rightarrow> str option) \<Rightarrow> str list \<Rightarrow> int \<Rightarrow> str \<Rightarrow> file_part list \<Rightarrow> str option \<Rightarrow> str \<Rightarrow> fs \<Rightarrow> unit io" where
  "write_inbox_bundle guess root t bundle_path files sender bundle_id fs =
     (case open_bundle_write root t bundle_path fs of
        (Inl e, fs1) \<Rightarrow> (Inl e, fs1)
      | (Inr w, fs1) \<Rightarrow>
         (case write_files t (map (\<lambda>(n, d, ct). (n, d)) files) w fs1 of
            (Inl e, fs2) \<Rightarrow> (Inl e, abort t w fs2)
          | (Inr w2, fs2) \<Rightarrow>
             (case commit t (inbox_meta guess t sender bundle_id files) w2 fs2 of
                (Inl e, fs3) \<Rightarrow> (Inl e, abort t w2 fs3)
              | (Inr w3, fs3) \<Rightarrow> (Inr (), fs3))))"

type_synonym bundle_sink = "str \<Rightarrow> str \<Rightarrow> fs \<Rightarrow> unit io"

record broadcast_env =
  bc_root :: "str list"
  bc_guess :: "str \<Rightarrow> str option"
  bc_allowed_path_chars :: "str option"
  bc_limits :: limits_config
  bc_rate_limit_broadcast :: str
  bc_max_targets :: int
  bc_policy :: access_policy
  bc_alias :: alias_resolver

text \<open>
  The inner loop over the inboxes of one recipient: each is cleared and written. \<open>write\<close> writes
  the payload as the bundle of a path and an identifier; \<open>new_id\<close> gives the identifiers in the
  order they are drawn, and \<open>k\<close> counts them.
\<close>

fun deliver_targets ::
  "broadcast_env \<Rightarrow> bundle_sink \<Rightarrow> (nat \<Rightarrow> str) \<Rightarrow> int \<Rightarrow> str \<Rightarrow> str list \<Rightarrow> nat \<Rightarrow> fs
   \<Rightarrow> exc option \<times> nat \<times> fs" where
  "deliver_targets env write new_id t path [] k fs = (None, k, fs)"
| "deliver_targets env write new_id t path (target # targets) k fs =
     (let bundle_path = rstrip (CHR ''/'') target @ ''/'' @ path in
      case delete_bundle (bc_root env) t bundle_path fs of
        (r, fs1) \<Rightarrow>
          if r \<noteq> Inr () \<and> r \<noteq> Inl FileNotFoundError then (Some (projl r), k, fs1)
          else
            (case write bundle_path (new_id k) fs1 of
               (Inl e, fs2) \<Rightarrow> (Some e, Suc k, fs2)
             | (Inr u, fs2) \<Rightarrow> deliver_targets env write new_id t path targets (Suc k) fs2))"

datatype denial = CheckError | DeniedByPolicy
datatype delivery_failure = ResolverError exc | ResolverUnknown | WriteError exc
datatype outcome = Delivered | Denied denial | Failed delivery_failure

text \<open>Steps 4 to 6 for one visible label.\<close>

definition deliver_one ::
  "broadcast_env \<Rightarrow> bundle_sink \<Rightarrow> (nat \<Rightarrow> str) \<Rightarrow> int \<Rightarrow> str \<Rightarrow> str option \<Rightarrow> identity \<Rightarrow> str \<Rightarrow> nat \<Rightarrow> fs
   \<Rightarrow> outcome \<times> nat \<times> fs" where
  "deliver_one env write new_id t path sender ident label k fs =
     (case bc_alias env label sender of
        Inl e \<Rightarrow> (Failed (ResolverError e), k, fs)
      | Inr None \<Rightarrow> (Failed ResolverUnknown, k, fs)
      | Inr (Some inbox_targets) \<Rightarrow>
         (case ap_check (bc_policy env) ident (''inbox:'' @ label) ''write'' of
            Inl e \<Rightarrow> (Denied CheckError, k, fs)
          | Inr False \<Rightarrow> (Denied DeniedByPolicy, k, fs)
          | Inr True \<Rightarrow>
             (case deliver_targets env write new_id t path inbox_targets k fs of
                (None, k', fs') \<Rightarrow> (Delivered, k', fs')
              | (Some e, k', fs') \<Rightarrow> (Failed (WriteError e), k', fs'))))"

fun deliver_all ::
  "broadcast_env \<Rightarrow> bundle_sink \<Rightarrow> (nat \<Rightarrow> str) \<Rightarrow> int \<Rightarrow> str \<Rightarrow> str option \<Rightarrow> identity \<Rightarrow> str list \<Rightarrow> nat \<Rightarrow> fs
   \<Rightarrow> (str \<times> outcome) list \<times> fs" where
  "deliver_all env write new_id t path sender ident [] k fs = ([], fs)"
| "deliver_all env write new_id t path sender ident (label # labels) k fs =
     (let (r, k1, fs1) = deliver_one env write new_id t path sender ident label k fs;
          (rs, fs2) = deliver_all env write new_id t path sender ident labels k1 fs1
      in ((label, r) # rs, fs2))"

datatype broadcast_tag = TagError | TagNoop | TagPartial | TagSuccess

text \<open>Step 7: the tag of the log line and of the counter.\<close>

definition broadcast_tag :: "bool \<Rightarrow> (str \<times> outcome) list \<Rightarrow> broadcast_tag" where
  "broadcast_tag visibility_failed rs =
     (let delivered = list_ex (\<lambda>(l, r). r = Delivered) rs;
          others = list_ex (\<lambda>(l, r). r \<noteq> Delivered) rs
      in if visibility_failed then TagError
         else if rs = [] then TagNoop
         else if delivered \<and> others then TagPartial
         else if delivered then TagSuccess
         else TagError)"

record broadcast_response =
  br_delivered_to :: "str list"
  br_denied :: "(str \<times> denial) list"
  br_failed :: "(str \<times> delivery_failure) list"
  br_tag :: broadcast_tag

definition delivered_of :: "(str \<times> outcome) list \<Rightarrow> str list" where
  "delivered_of rs = map fst (filter (\<lambda>(l, r). r = Delivered) rs)"

definition denied_of :: "(str \<times> outcome) list \<Rightarrow> (str \<times> denial) list" where
  "denied_of rs = List.map_filter (\<lambda>(l, r). case r of Denied d \<Rightarrow> Some (l, d) | _ \<Rightarrow> None) rs"

definition failed_of :: "(str \<times> outcome) list \<Rightarrow> (str \<times> delivery_failure) list" where
  "failed_of rs = List.map_filter (\<lambda>(l, r). case r of Failed f \<Rightarrow> Some (l, f) | _ \<Rightarrow> None) rs"

datatype broadcast_error =
    RateLimited rate_limit_route
  | FanoutCapExceeded int
  | BroadcastHttp http_error
  | BroadcastLimits limits_rejection

definition candidate_labels :: "str option \<Rightarrow> key_info list \<Rightarrow> str list" where
  "candidate_labels sender keys = map ki_label (filter (\<lambda>k. ki_is_active k \<and> Some (ki_label k) \<noteq> sender) keys)"

text \<open>Steps 2 to 7, once the payload is accepted.\<close>

definition fan_out ::
  "broadcast_env \<Rightarrow> bundle_sink \<Rightarrow> (nat \<Rightarrow> str) \<Rightarrow> int \<Rightarrow> key_store \<Rightarrow> identity \<Rightarrow> str option \<Rightarrow> str \<Rightarrow> fs
   \<Rightarrow> (broadcast_error + broadcast_response) \<times> fs" where
  "fan_out env write new_id t ks ident sender path fs =
     (case list_keys ks of Inl e \<Rightarrow> (Inl (BroadcastHttp (HttpRaised e)), fs) | Inr keys \<Rightarrow>
      (let candidates = candidate_labels sender keys in
       if \<not> check_fanout_cap (length candidates) (bc_max_targets env)
       then (Inl (FanoutCapExceeded (bc_max_targets env)), fs)
       else
         (let visibility = ap_visible_agents (bc_policy env) ident candidates;
              visible_labels = (case visibility of Inl e \<Rightarrow> [] | Inr ls \<Rightarrow> ls);
              (rs, fs') = deliver_all env write new_id t path sender ident visible_labels 0 fs
          in (Inr \<lparr>br_delivered_to = delivered_of rs, br_denied = denied_of rs, br_failed = failed_of rs,
                   br_tag = broadcast_tag (case visibility of Inl e \<Rightarrow> True | Inr ls \<Rightarrow> False) rs\<rparr>, fs'))))"

definition broadcast ::
  "broadcast_env \<Rightarrow> 'l rate_limiter \<Rightarrow> (nat \<Rightarrow> str) \<Rightarrow> int \<Rightarrow> str \<Rightarrow> key_store \<Rightarrow> identity \<Rightarrow> str \<Rightarrow> upload_body \<Rightarrow> 'l \<Rightarrow> fs
   \<Rightarrow> (broadcast_error + broadcast_response) \<times> 'l \<times> fs" where
  "broadcast env hit new_id t remote_address ks ident path body ls fs =
     (let (ok, recorded, ls') =
            check_rate_limit_imperative hit remote_address (bc_rate_limit_broadcast env) Broadcast ls in
      if \<not> ok then (Inl (RateLimited (recorded_rate_limit_route recorded)), ls', fs)
      else
        (case validate_path path (bc_allowed_path_chars env) of
           Inl e \<Rightarrow> (Inl (BroadcastHttp (HttpError 400 ''invalid path'')), ls', fs)
         | Inr u \<Rightarrow>
            (let file_parts = body_parts path body;
                 entries = map part_entry file_parts
             in case evaluate_upload (bc_limits env) \<lparr>um_file_count = int (length entries), um_files = entries\<rparr> of
                  Reject err constraint limit observed \<Rightarrow>
                    (Inl (BroadcastLimits (rejection_of err constraint limit observed [])), ls', fs)
                | Accept mode \<Rightarrow>
                    (let sender = sender_from_identity ident;
                         write = (\<lambda>p bid. write_inbox_bundle (bc_guess env) (bc_root env) t p file_parts sender bid);
                         (r, fs') = fan_out env write new_id t ks ident sender path fs
                     in (r, ls', fs')))))"

subsection \<open>Lemmas\<close>

lemma write_inbox_bundle_publish:
  "write_inbox_bundle guess root t p files sender bid fs
     = publish root t p (map (\<lambda>(n, d, ct). (n, d)) files) (inbox_meta guess t sender bid files) fs"
  by (auto simp: write_inbox_bundle_def publish_def split: prod.splits sum.splits)

lemma list_keys_Inr:
  "list_keys s = Inr keys \<Longrightarrow>
    map (\<lambda>k. (ki_label k, ki_is_active k)) keys = map (\<lambda>k. (kr_label k, kr_is_active k)) (ks_keys s)"
proof -
  have "infos_of ks = Inr keys \<Longrightarrow>
      map (\<lambda>k. (ki_label k, ki_is_active k)) keys = map (\<lambda>k. (kr_label k, kr_is_active k)) ks" for ks
    by (induction ks arbitrary: keys) (auto simp: info_of_def split: sum.splits option.splits)
  then show "list_keys s = Inr keys \<Longrightarrow> ?thesis" by (simp add: list_keys_def)
qed

lemma active_labels:
  assumes "list_keys s = Inr keys"
  shows "map ki_label (filter ki_is_active keys) = map kr_label (active_keys (ks_keys s))"
proof -
  have "map fst (filter snd (map (\<lambda>k. (ki_label k, ki_is_active k)) keys))
      = map fst (filter snd (map (\<lambda>k. (kr_label k, kr_is_active k)) (ks_keys s)))"
    by (simp only: list_keys_Inr [OF assms])
  then show ?thesis by (simp add: active_keys_def filter_map comp_def)
qed

lemma candidate_labels_eq:
  "candidate_labels sender keys = filter (\<lambda>l. Some l \<noteq> sender) (map ki_label (filter ki_is_active keys))"
  by (induction keys) (auto simp: candidate_labels_def)

subsubsection \<open>Replacing a bundle\<close>

text \<open>Clearing a path and publishing there touches no other path.\<close>

lemma replace_bundle:
  assumes i: "store_invar root fs" and g: "good_key p" "bundle_files_ok files"
    and d: "delete_bundle root t p fs = (r, fs1)" and p: "publish root t p files m fs1 = (r2, fs2)"
  shows "store_invar root fs2"
    and "r2 = Inr u \<Longrightarrow> meta_at root fs2 p = Some m \<and> (\<forall>(n, b) \<in> set files. file_at root fs2 p n = Some b)"
    and "good_key q \<Longrightarrow> good_key n \<Longrightarrow> unrelated p q
      \<Longrightarrow> meta_at root fs2 q = meta_at root fs q \<and> file_at root fs2 q n = file_at root fs q n"
proof -
  have i1: "store_invar root fs1" using filesystem.del_invar [OF i g(1), of t] d by simp
  show "store_invar root fs2" using filesystem.pub_invar [OF i1 g, of t m] p by simp
  show "meta_at root fs2 p = Some m \<and> (\<forall>(n, b) \<in> set files. file_at root fs2 p n = Some b)" if "r2 = Inr u"
    using filesystem.pub_meta [OF i1 g] filesystem.pub_file [OF i1 g] p that by auto
  show "meta_at root fs2 q = meta_at root fs q \<and> file_at root fs2 q n = file_at root fs q n"
    if "good_key q" "good_key n" "unrelated p q"
    using filesystem.pub_frame [OF i1 g that(1,2,3), of t m] filesystem.del_frame [OF i g(1) that(1,2,3), of t] d p by simp
qed

subsubsection \<open>Inboxes of different labels\<close>

lemma rstrip_inbox: "CHR ''/'' \<notin> set l \<Longrightarrow> l \<noteq> [] \<Longrightarrow> rstrip (CHR ''/'') (''inbox/'' @ l @ ''/'') = ''inbox/'' @ l"
  by (cases l rule: rev_cases) (auto simp: rstrip_def)

lemma inbox_path_parts:
  "CHR ''/'' \<notin> set l \<Longrightarrow> CHR '':'' \<in> set l \<Longrightarrow> path_parts (inbox_path l p) = [''inbox'', l] @ path_parts p"
  using path_parts_join [of "''inbox''" "l @ ''/'' @ p"] path_parts_join [of l p] path_parts_single [of l]
    path_parts_single [of "''inbox''"]
  by (auto simp: inbox_path_def)

lemma inbox_path_good:
  "CHR ''/'' \<notin> set l \<Longrightarrow> CHR '':'' \<in> set l \<Longrightarrow> good_key p \<Longrightarrow> good_key (inbox_path l p)"
  using inbox_path_parts [of l p] by (auto simp: good_key_def inbox_path_def clean_def)

lemma inbox_path_unrelated:
  "\<lbrakk>CHR ''/'' \<notin> set l; CHR '':'' \<in> set l; CHR ''/'' \<notin> set l'; CHR '':'' \<in> set l'; l \<noteq> l'\<rbrakk>
   \<Longrightarrow> unrelated (inbox_path l p) (inbox_path l' p)"
  by (simp add: unrelated_def inbox_path_parts)

subsubsection \<open>Delivery\<close>

definition part_files :: "file_part list \<Rightarrow> (str \<times> bytes) list" where
  "part_files files = map (\<lambda>(n, d, ct). (n, d)) files"

text \<open>The writer of a broadcast.\<close>

definition inbox_writer :: "broadcast_env \<Rightarrow> int \<Rightarrow> file_part list \<Rightarrow> str option \<Rightarrow> bundle_sink" where
  "inbox_writer env t files sender = (\<lambda>p bid. write_inbox_bundle (bc_guess env) (bc_root env) t p files sender bid)"

text \<open>What a recipient finds: the payload under the path, with the sender's label.\<close>

definition received :: "broadcast_env \<Rightarrow> int \<Rightarrow> str \<Rightarrow> file_part list \<Rightarrow> str option \<Rightarrow> fs \<Rightarrow> str \<Rightarrow> bool" where
  "received env t path files sender fs label \<longleftrightarrow>
     (\<exists>bid. meta_at (bc_root env) fs (inbox_path label path) = Some (inbox_meta (bc_guess env) t sender bid files))
     \<and> (\<forall>(n, b) \<in> set (part_files files). file_at (bc_root env) fs (inbox_path label path) n = Some b)"

lemma deliver_one_default:
  assumes a: "bc_alias env = default_alias_resolve ks" and i: "store_invar (bc_root env) fs"
    and g: "good_key path" "bundle_files_ok (part_files files)" and l: "CHR ''/'' \<notin> set label"
    and d: "deliver_one env (inbox_writer env t files sender) new_id t path sender ident label k fs = (r, k', fs')"
  shows "store_invar (bc_root env) fs'"
    and "r = Delivered \<Longrightarrow> CHR '':'' \<in> set label \<and> received env t path files sender fs' label"
    and "good_key q \<Longrightarrow> good_key n \<Longrightarrow> (CHR '':'' \<in> set label \<Longrightarrow> unrelated (inbox_path label path) q)
      \<Longrightarrow> meta_at (bc_root env) fs' q = meta_at (bc_root env) fs q \<and> file_at (bc_root env) fs' q n = file_at (bc_root env) fs q n"
proof -
  let ?root = "bc_root env" and ?p = "inbox_path label path"
  have "store_invar ?root fs' \<and> (r = Delivered \<longrightarrow> CHR '':'' \<in> set label \<and> received env t path files sender fs' label)
    \<and> (\<forall>q n. good_key q \<longrightarrow> good_key n \<longrightarrow> (CHR '':'' \<in> set label \<longrightarrow> unrelated ?p q)
         \<longrightarrow> meta_at ?root fs' q = meta_at ?root fs q \<and> file_at ?root fs' q n = file_at ?root fs q n)"
  proof (cases "bc_alias env label sender = Inr (Some [''inbox/'' @ label @ ''/'']) \<and> r \<notin> range Denied")
    case False
    then have "fs' = fs" "r \<noteq> Delivered"
      using d a by (auto simp: deliver_one_def default_alias_resolve_def split: sum.splits option.splits if_splits bool.splits prod.splits)
    then show ?thesis using i by simp
  next
    case True
    then have c: "CHR '':'' \<in> set label" using a by (auto simp: default_alias_resolve_def split: sum.splits if_splits)
    have p: "rstrip (CHR ''/'') (''inbox/'' @ label @ ''/'') @ ''/'' @ path = ?p"
      using rstrip_inbox [OF l] c by (cases label) (auto simp: inbox_path_def)
    have gp: "good_key ?p" by (rule inbox_path_good [OF l c g(1)])
    obtain r1 fs1 where del: "delete_bundle ?root t ?p fs = (r1, fs1)" by (cases "delete_bundle ?root t ?p fs")
    obtain r2 fs2 where pub: "publish ?root t ?p (part_files files) (inbox_meta (bc_guess env) t sender (new_id k) files) fs1 = (r2, fs2)"
      by (cases "publish ?root t ?p (part_files files) (inbox_meta (bc_guess env) t sender (new_id k) files) fs1")
    note rb = replace_bundle [OF i gp g(2) del pub]
    have i1: "store_invar ?root fs1"
      "\<forall>q n. good_key q \<longrightarrow> good_key n \<longrightarrow> unrelated ?p q
         \<longrightarrow> meta_at ?root fs1 q = meta_at ?root fs q \<and> file_at ?root fs1 q n = file_at ?root fs q n"
      using filesystem.del_invar [OF i gp, of t] filesystem.del_frame [OF i gp, of _ _ t] del by auto
    have w: "inbox_writer env t files sender ?p (new_id k) fs1 = (r2, fs2)"
      using pub by (simp add: inbox_writer_def write_inbox_bundle_publish part_files_def)
    have dt: "deliver_targets env (inbox_writer env t files sender) new_id t path [''inbox/'' @ label @ ''/''] k fs
        = (if r1 \<noteq> Inr () \<and> r1 \<noteq> Inl FileNotFoundError then (Some (projl r1), k, fs1)
           else case r2 of Inl e \<Rightarrow> (Some e, Suc k, fs2) | Inr u \<Rightarrow> (None, Suc k, fs2))"
      unfolding deliver_targets.simps p Let_def del prod.case w by (auto split: sum.splits)
    from True have al: "bc_alias env label sender = Inr (Some [''inbox/'' @ label @ ''/''])" by blast
    have "(fs' = fs1 \<and> r \<noteq> Delivered) \<or> (fs' = fs2 \<and> (r = Delivered \<longrightarrow> r2 = Inr ()))"
      using d True unfolding deliver_one_def al sum.case option.case dt
      by (auto split: sum.splits if_splits bool.splits)
    then show ?thesis using i1 rb c by (auto simp: received_def)
  qed
  then show "store_invar ?root fs'" "r = Delivered \<Longrightarrow> CHR '':'' \<in> set label \<and> received env t path files sender fs' label"
    "good_key q \<Longrightarrow> good_key n \<Longrightarrow> (CHR '':'' \<in> set label \<Longrightarrow> unrelated ?p q)
      \<Longrightarrow> meta_at ?root fs' q = meta_at ?root fs q \<and> file_at ?root fs' q n = file_at ?root fs q n" by auto
qed

lemma deliver_all_labels: "map fst (fst (deliver_all env write new_id t path sender ident labels k fs)) = labels"
  by (induction labels arbitrary: k fs) (simp_all add: case_prod_beta)

lemma received_cong:
  assumes "\<forall>n. good_key n \<longrightarrow> meta_at (bc_root env) fs' (inbox_path l path) = meta_at (bc_root env) fs (inbox_path l path)
      \<and> file_at (bc_root env) fs' (inbox_path l path) n = file_at (bc_root env) fs (inbox_path l path) n"
    and "bundle_files_ok (part_files files)" "good_key ''x''"
  shows "received env t path files sender fs' l \<longleftrightarrow> received env t path files sender fs l"
proof -
  have "good_key n" if "(n, b) \<in> set (part_files files)" for n b
    using assms(2) that by (auto simp: bundle_files_ok_def bundle_name_def list_all_iff)
  with assms(1,3) show ?thesis by (fastforce simp: received_def)
qed

lemma deliver_all_default:
  assumes a: "bc_alias env = default_alias_resolve ks" and g: "good_key path" "bundle_files_ok (part_files files)"
  shows "\<lbrakk>store_invar (bc_root env) fs; \<forall>l \<in> set labels. CHR ''/'' \<notin> set l; distinct labels;
      deliver_all env (inbox_writer env t files sender) new_id t path sender ident labels k fs = (rs, fs')\<rbrakk>
    \<Longrightarrow> store_invar (bc_root env) fs' \<and> (\<forall>l \<in> set (delivered_of rs). received env t path files sender fs' l)
      \<and> (\<forall>q n. good_key q \<longrightarrow> good_key n \<longrightarrow> (\<forall>l \<in> set labels. CHR '':'' \<in> set l \<longrightarrow> unrelated (inbox_path l path) q)
         \<longrightarrow> meta_at (bc_root env) fs' q = meta_at (bc_root env) fs q \<and> file_at (bc_root env) fs' q n = file_at (bc_root env) fs q n)"
proof (induction labels arbitrary: k fs rs)
  case Nil
  then show ?case by (simp add: delivered_of_def)
next
  case (Cons l labels)
  obtain r k1 fs1 where d: "deliver_one env (inbox_writer env t files sender) new_id t path sender ident l k fs = (r, k1, fs1)"
    by (cases "deliver_one env (inbox_writer env t files sender) new_id t path sender ident l k fs") auto
  obtain rs' where e: "deliver_all env (inbox_writer env t files sender) new_id t path sender ident labels k1 fs1 = (rs', fs')" "rs = (l, r) # rs'"
    using Cons.prems(4) d by (auto split: prod.splits)
  have l: "CHR ''/'' \<notin> set l" using Cons.prems(2) by simp
  note o = deliver_one_default [OF a Cons.prems(1) g l d]
  note ih = Cons.IH [OF o(1) _ _ e(1)]
  have keep: "received env t path files sender fs' l" if "r = Delivered"
  proof -
    have c: "CHR '':'' \<in> set l" using o(2) that by simp
    have "\<forall>l' \<in> set labels. CHR '':'' \<in> set l' \<longrightarrow> unrelated (inbox_path l' path) (inbox_path l path)"
      using Cons.prems(2,3) c by (auto intro!: inbox_path_unrelated)
    then show ?thesis
      using ih o(2) [OF that] Cons.prems(2,3) inbox_path_good [OF l c g(1)]
      by (subst received_cong [of env fs' l path fs1, OF _ g(2)]) (auto simp: good_key_def path_parts_def)
  qed
  show ?case using ih o(3) keep Cons.prems(2,3) e(2) by (auto simp: delivered_of_def)
qed

end
