(* ===== verification/Settings.thy ===== *)
theory Settings
  imports Downloads
begin

text \<open>
  The configuration the server starts from: the rest of \<^verbatim>\<open>config.py\<close>. The environment is a
  dictionary of texts, the files the key variables name are a function from paths to contents
  (none when reading fails), and \<open>SystemExit\<close> is the left injection.
\<close>

record app_config =
  cfg_setup_token :: str
  cfg_dev_mode :: bool
  cfg_storage_path :: str
  cfg_keys_file :: str
  cfg_default_ttl :: int
  cfg_allowed_path_chars :: str
  cfg_mcp_allowed_hosts :: "str list"
  cfg_jwt_primary_key :: bytes
  cfg_public_base_url :: str
  cfg_jwt_secondary_key :: "bytes option"
  cfg_jwt_primary_key_source :: str
  cfg_log_format :: str
  cfg_limits :: limits_config
  cfg_rate_limit_broadcast :: str
  cfg_broadcast_max_targets :: int
  cfg_jwt_key_overlap_ttl :: int

subsection \<open>Rates and counts\<close>

definition rate_unit_normalise :: "(str \<times> str) list" where
  "rate_unit_normalise =
     [(''sec'', ''second''), (''second'', ''second''), (''min'', ''minute''), (''minute'', ''minute''),
      (''hour'', ''hour''), (''hourly'', ''hour'')]"

text \<open>The pattern, on the text without surrounding white space: its two groups.\<close>

definition match_rate :: "str \<Rightarrow> (str \<times> str) option" where
  "match_rate s =
     (let count = takeWhile is_digit s; rest = dropWhile is_digit s in
      case (count, rest) of
        (d # ds, c # unit) \<Rightarrow>
          if d \<noteq> CHR ''0'' \<and> c = CHR ''/'' \<and> to_lower unit \<in> fst ` set rate_unit_normalise
          then Some (count, unit) else None
      | _ \<Rightarrow> None)"

definition parse_rate_limit :: "str \<Rightarrow> sys_exit + str" where
  "parse_rate_limit raw =
     (case match_rate (strip_ws raw) of
        None \<Rightarrow> Inl (SystemExit 1)
      | Some (count, unit) \<Rightarrow> Inr (count @ ''/'' @ the (map_of rate_unit_normalise (to_lower unit))))"

definition parse_positive_int :: "str \<Rightarrow> sys_exit + int" where
  "parse_positive_int raw =
     (case py_int raw of
        None \<Rightarrow> Inl (SystemExit 1)
      | Some v \<Rightarrow> if v \<le> 0 then Inl (SystemExit 1) else Inr v)"

subsection \<open>Signing keys\<close>

definition decode_jwt_key :: "str \<Rightarrow> sys_exit + bytes" where
  "decode_jwt_key raw =
     (case b64decode (strip_ws raw) of
        None \<Rightarrow> Inl (SystemExit 1)
      | Some decoded \<Rightarrow> if length decoded < MIN_HS256_KEY_BYTES then Inl (SystemExit 1) else Inr decoded)"

definition env_get :: "environ \<Rightarrow> str \<Rightarrow> str \<Rightarrow> str" where
  "env_get env var dflt = (case map_of env var of None \<Rightarrow> dflt | Some v \<Rightarrow> v)"

text \<open>The key and where it comes from: a file wins over a value.\<close>

definition load_jwt_key_pair ::
  "(str \<Rightarrow> str option) \<Rightarrow> environ \<Rightarrow> str \<Rightarrow> str \<Rightarrow> bool \<Rightarrow> sys_exit + (bytes \<times> str) option" where
  "load_jwt_key_pair read_file env value_var file_var required =
     (let file_path = strip_ws (env_get env file_var []) in
      if file_path \<noteq> [] then
        (case read_file file_path of
           None \<Rightarrow> Inl (SystemExit 1)
         | Some content \<Rightarrow>
            (let raw = strip_ws content in
             if raw = [] then Inl (SystemExit 1)
             else case decode_jwt_key raw of Inl e \<Rightarrow> Inl e | Inr k \<Rightarrow> Inr (Some (k, ''file''))))
      else
        (let env_value = strip_ws (env_get env value_var []) in
         if env_value \<noteq> [] then
           (case decode_jwt_key env_value of Inl e \<Rightarrow> Inl e | Inr k \<Rightarrow> Inr (Some (k, ''env'')))
         else if required then Inl (SystemExit 1) else Inr None))"

subsection \<open>The public address\<close>

text \<open>
  The scheme and the host part \<^verbatim>\<open>urlsplit\<close> finds. A host in brackets is taken as it is: whether
  it is an address is not checked here.
\<close>

definition scheme_chars :: str where
  "scheme_chars = ''abcdefghijklmnopqrstuvwxyzABCDEFGHIJKLMNOPQRSTUVWXYZ0123456789+-.''"

definition url_parts :: "str \<Rightarrow> str \<times> str" where
  "url_parts url =
     (let u = filter (\<lambda>c. c \<notin> {CHR 0x09, CHR 0x0A, CHR 0x0D}) url;
          before = takeWhile (\<lambda>c. c \<noteq> CHR '':'') u;
          after = dropWhile (\<lambda>c. c \<noteq> CHR '':'') u;
          has_scheme = (after \<noteq> [] \<and> before \<noteq> [] \<and> hd before \<in> set (take 52 scheme_chars) \<and> set before \<subseteq> set scheme_chars);
          rest = (if has_scheme then tl after else u)
      in (if has_scheme then to_lower before else [],
          if startswith rest ''//'' then takeWhile (\<lambda>c. c \<notin> set ''/?#'') (drop 2 rest) else []))"

definition load_public_base_url :: "environ \<Rightarrow> str \<Rightarrow> sys_exit + str" where
  "load_public_base_url env var =
     (let raw = strip_ws (env_get env var []) in
      if raw = [] then Inl (SystemExit 1)
      else let (scheme, netloc) = url_parts raw in
        if scheme \<notin> {''http'', ''https''} \<or> netloc = [] then Inl (SystemExit 1)
        else Inr (rstrip (CHR ''/'') raw))"

subsection \<open>load\_config\<close>

definition parse_default_ttl :: "environ \<Rightarrow> sys_exit + int" where
  "parse_default_ttl env =
     (case py_int (env_get env ''CASSETTA_DEFAULT_TTL'' ''0'') of
        None \<Rightarrow> Inl (SystemExit 1)
      | Some v \<Rightarrow> if v < 0 then Inl (SystemExit 1) else Inr v)"

definition parse_hosts :: "str \<Rightarrow> str list" where
  "parse_hosts raw = filter (\<lambda>h. h \<noteq> []) (map strip_ws (split_on (CHR '','') raw))"

definition parse_log_format :: "str \<Rightarrow> str" where
  "parse_log_format raw = (if to_lower raw \<in> {''text'', ''json''} then to_lower raw else ''text'')"

definition default_keys_file :: "str \<Rightarrow> str" where
  "default_keys_file storage_path = rstrip (CHR ''/'') storage_path @ ''.keys/.cassetta-keys.json''"

text \<open>The default of the setting: unlike the one of \<^verbatim>\<open>path_validation.py\<close> it has no apostrophe.\<close>

definition CONFIG_ALLOWED_CHARS :: str where
  "CONFIG_ALLOWED_CHARS = ''a-zA-Z0-9'' @ [CHR 0x5C] @ ''-_./''"

definition load_config :: "(str \<Rightarrow> str option) \<Rightarrow> environ \<Rightarrow> sys_exit + app_config" where
  "load_config read_file env =
     (case map_of env ''CASSETTA_SETUP_TOKEN'' of None \<Rightarrow> Inl (SystemExit 1) | Some setup_token_raw \<Rightarrow>
      (let storage_path = env_get env ''CASSETTA_STORAGE_PATH'' ''./data'' in
      case parse_default_ttl env of Inl e \<Rightarrow> Inl e | Inr default_ttl \<Rightarrow>
      (case load_limits_config env of Inl e \<Rightarrow> Inl e | Inr limits \<Rightarrow>
      (case load_jwt_key_pair read_file env ''CASSETTA_JWT_KEY'' ''CASSETTA_JWT_KEY_FILE'' True of
         Inl e \<Rightarrow> Inl e | Inr None \<Rightarrow> Inl (SystemExit 1) | Inr (Some (primary_key, primary_source)) \<Rightarrow>
      (case load_jwt_key_pair read_file env ''CASSETTA_JWT_KEY_SECONDARY'' ''CASSETTA_JWT_KEY_SECONDARY_FILE'' False of
         Inl e \<Rightarrow> Inl e | Inr secondary \<Rightarrow>
      (case load_public_base_url env ''CASSETTA_PUBLIC_BASE_URL'' of Inl e \<Rightarrow> Inl e | Inr public_base_url \<Rightarrow>
      (case parse_rate_limit (env_get env ''CASSETTA_RATE_LIMIT_BROADCAST'' ''10/minute'') of Inl e \<Rightarrow> Inl e | Inr rate \<Rightarrow>
      (case parse_positive_int (env_get env ''CASSETTA_BROADCAST_MAX_TARGETS'' ''1000'') of Inl e \<Rightarrow> Inl e | Inr max_targets \<Rightarrow>
      (case parse_positive_int (env_get env ''CASSETTA_JWT_KEY_OVERLAP_TTL'' ''600'') of Inl e \<Rightarrow> Inl e | Inr overlap \<Rightarrow>
        Inr \<lparr>cfg_setup_token = setup_token_raw, cfg_dev_mode = (setup_token_raw = []), cfg_storage_path = storage_path,
             cfg_keys_file = env_get env ''CASSETTA_KEYS_FILE'' (default_keys_file storage_path),
             cfg_default_ttl = default_ttl,
             cfg_allowed_path_chars = env_get env ''CASSETTA_ALLOWED_PATH_CHARS'' CONFIG_ALLOWED_CHARS,
             cfg_mcp_allowed_hosts = parse_hosts (env_get env ''CASSETTA_MCP_ALLOWED_HOSTS'' []),
             cfg_jwt_primary_key = primary_key, cfg_public_base_url = public_base_url,
             cfg_jwt_secondary_key = map_option fst secondary, cfg_jwt_primary_key_source = primary_source,
             cfg_log_format = parse_log_format (env_get env ''CASSETTA_LOG_FORMAT'' ''text''),
             cfg_limits = limits, cfg_rate_limit_broadcast = rate, cfg_broadcast_max_targets = max_targets,
             cfg_jwt_key_overlap_ttl = overlap\<rparr>)))))))))"

subsection \<open>Lemmas\<close>

lemma load_jwt_key_pair_length:
  "load_jwt_key_pair read_file env v f req = Inr (Some (k, s)) \<Longrightarrow> length k \<ge> MIN_HS256_KEY_BYTES \<and> s \<in> {''file'', ''env''}"
  by (auto simp: load_jwt_key_pair_def decode_jwt_key_def Let_def split: if_splits option.splits sum.splits)

lemma load_cap_nonneg:
  "load_cap env v d = Inr cap \<Longrightarrow> pred_option ((\<le>) 0) d \<Longrightarrow> pred_option ((\<le>) 0) cap"
  by (auto simp: load_cap_def parse_cap_def split: option.splits if_splits)
    (metis option.pred_inject(2) not_less)

lemma load_ttl_pos: "load_ttl env v d = Inr ttl \<Longrightarrow> 0 < d \<Longrightarrow> 0 < ttl"
  by (auto simp: load_ttl_def parse_ttl_def split: option.splits if_splits)

lemma load_limits_config_ok:
  assumes "load_limits_config env = Inr c"
  shows "\<forall>cap \<in> {per_file_max c, per_bundle_total_max c, per_bundle_file_count_max c, max_inline_size c}. pred_option ((\<le>) 0) cap"
    and "\<forall>ttl \<in> {upload_token_ttl c, download_claim_ttl c, passive_gc_min_age c, passive_gc_interval c}. 0 < ttl"
proof -
  let ?d = default_limits_config
  from assms have caps: "load_cap env ''CASSETTA_PER_FILE_MAX'' (per_file_max ?d) = Inr (per_file_max c)"
    "load_cap env ''CASSETTA_PER_BUNDLE_TOTAL_MAX'' (per_bundle_total_max ?d) = Inr (per_bundle_total_max c)"
    "load_cap env ''CASSETTA_PER_BUNDLE_FILE_COUNT_MAX'' (per_bundle_file_count_max ?d) = Inr (per_bundle_file_count_max c)"
    "load_cap env ''CASSETTA_MAX_INLINE_SIZE'' (max_inline_size ?d) = Inr (max_inline_size c)"
    and ttl: "load_ttl env ''CASSETTA_UPLOAD_TOKEN_TTL'' (upload_token_ttl ?d) = Inr (upload_token_ttl c)"
    "load_ttl env ''CASSETTA_DOWNLOAD_CLAIM_TTL'' (download_claim_ttl ?d) = Inr (download_claim_ttl c)"
    "load_ttl env ''CASSETTA_PASSIVE_GC_MIN_AGE'' (passive_gc_min_age ?d) = Inr (passive_gc_min_age c)"
    "load_ttl env ''CASSETTA_PASSIVE_GC_INTERVAL'' (passive_gc_interval ?d) = Inr (passive_gc_interval c)"
    unfolding load_limits_config_def Let_def by (auto split: sum.splits)
  have d: "per_file_max ?d = None" "per_bundle_total_max ?d = None" "per_bundle_file_count_max ?d = Some 25"
    "max_inline_size ?d = Some 102400" "upload_token_ttl ?d = 300" "download_claim_ttl ?d = 300"
    "passive_gc_min_age ?d = 3600" "passive_gc_interval ?d = 600"
    by (simp_all add: default_limits_config_def)
  show "\<forall>cap \<in> {per_file_max c, per_bundle_total_max c, per_bundle_file_count_max c, max_inline_size c}. pred_option ((\<le>) 0) cap"
    using caps [THEN load_cap_nonneg] d by simp
  show "\<forall>ttl \<in> {upload_token_ttl c, download_claim_ttl c, passive_gc_min_age c, passive_gc_interval c}. 0 < ttl"
    using ttl [THEN load_ttl_pos] d by simp
qed

text \<open>A rate that is accepted is a positive count of a canonical unit.\<close>

lemma rate_units: "to_lower u \<in> fst ` set rate_unit_normalise \<Longrightarrow>
    the (map_of rate_unit_normalise (to_lower u)) \<in> {''second'', ''minute'', ''hour''}"
  by (auto simp: rate_unit_normalise_def)

lemma parse_rate_limit_Inr:
  assumes "parse_rate_limit raw = Inr r"
  shows "\<exists>d ds u. r = (d # ds) @ ''/'' @ u \<and> is_digit d \<and> d \<noteq> CHR ''0'' \<and> list_all is_digit ds \<and> u \<in> {''second'', ''minute'', ''hour''}"
proof -
  from assms obtain count unit where m: "match_rate (strip_ws raw) = Some (count, unit)"
    and r: "r = count @ ''/'' @ the (map_of rate_unit_normalise (to_lower unit))"
    by (auto simp: parse_rate_limit_def split: option.splits)
  from m obtain d ds where c: "count = d # ds" "takeWhile is_digit (strip_ws raw) = d # ds" "d \<noteq> CHR ''0''"
    "to_lower unit \<in> fst ` set rate_unit_normalise"
    by (auto simp: match_rate_def Let_def split: list.splits if_splits) metis
  have "set (takeWhile is_digit (strip_ws raw)) \<subseteq> Collect is_digit" by (auto dest: set_takeWhileD)
  with c have "is_digit d" "list_all is_digit ds" by (auto simp: list_all_iff)
  then show ?thesis using r c(1,3) rate_units [OF c(4)] by blast
qed

end
