(* ===== verification/Expiry.thy ===== *)
theory Expiry
  imports Inbox_Laws
begin

text \<open>
  The retention loop of \<^verbatim>\<open>app.py\<close>: at each wake-up it takes a lease, deletes the bundles of both
  namespaces that are older than the time to live, and gives the lease back. The task that
  renews the lease meanwhile only asks the backend whether the lease is still held.
\<close>

definition BUNDLE_NAMESPACES :: "str list" where
  "BUNDLE_NAMESPACES = [''store/'', ''inbox/'']"

text \<open>The inner loop: the exception that ends the sweep, the number of deletions, the files.\<close>

fun ttl_refs :: "str list \<Rightarrow> int \<Rightarrow> int \<Rightarrow> bundle_ref list \<Rightarrow> nat \<Rightarrow> fs \<Rightarrow> exc option \<times> nat \<times> fs" where
  "ttl_refs root now ttl [] deleted fs = (None, deleted, fs)"
| "ttl_refs root now ttl (ref # refs) deleted fs =
     (case read_bundle_meta root (br_path ref) fs of
        Inl e \<Rightarrow> if e = FileNotFoundError then ttl_refs root now ttl refs deleted fs else (Some e, deleted, fs)
      | Inr m \<Rightarrow>
         (case iso_to_epoch (bm_created_at m) of
            None \<Rightarrow> ttl_refs root now ttl refs deleted fs
          | Some created \<Rightarrow>
             if now - created > ttl * 1000000 then
               (case delete_bundle root now (br_path ref) fs of
                  (Inl e, fs') \<Rightarrow> ttl_refs root now ttl refs deleted fs'
                | (Inr u, fs') \<Rightarrow> ttl_refs root now ttl refs (Suc deleted) fs')
             else ttl_refs root now ttl refs deleted fs))"

fun ttl_namespaces :: "str list \<Rightarrow> int \<Rightarrow> int \<Rightarrow> str list \<Rightarrow> nat \<Rightarrow> fs \<Rightarrow> nat \<times> fs" where
  "ttl_namespaces root now ttl [] deleted fs = (deleted, fs)"
| "ttl_namespaces root now ttl (pre # rest) deleted fs =
     (case ttl_refs root now ttl (list_bundles root pre False fs) deleted fs of
        (Some e, deleted', fs') \<Rightarrow> (deleted', fs')
      | (None, deleted', fs') \<Rightarrow> ttl_namespaces root now ttl rest deleted' fs')"

definition ttl_sweep :: "str list \<Rightarrow> int \<Rightarrow> int \<Rightarrow> fs \<Rightarrow> nat \<times> fs" where
  "ttl_sweep root now ttl fs = ttl_namespaces root now ttl BUNDLE_NAMESPACES 0 fs"

definition LEASE_KEY :: str where
  "LEASE_KEY = ''ttl-cleanup''"

record wake_up =
  wu_now :: int
  wu_open_ok :: bool
  wu_flock_free :: bool
  wu_fresh_id :: str

definition ttl_wake :: "str list \<Rightarrow> int \<Rightarrow> wake_up \<Rightarrow> leases \<Rightarrow> fs \<Rightarrow> leases \<times> fs" where
  "ttl_wake root default_ttl w ls fs =
     (if default_ttl \<le> 0 then (ls, fs)
      else case acquire_lease (wu_open_ok w) (wu_flock_free w) (wu_fresh_id w) LEASE_KEY ls of
        (None, ls1) \<Rightarrow> (ls1, fs)
      | (Some lease_id, ls1) \<Rightarrow>
         (let fs' = snd (ttl_sweep root (wu_now w) default_ttl fs);
              ls2 = snd (release_lease LEASE_KEY lease_id ls1)
          in (ls2, fs')))"

fun ttl_cleanup_loop :: "str list \<Rightarrow> int \<Rightarrow> wake_up list \<Rightarrow> leases \<Rightarrow> fs \<Rightarrow> leases \<times> fs" where
  "ttl_cleanup_loop root default_ttl [] ls fs = (ls, fs)"
| "ttl_cleanup_loop root default_ttl (w # ws) ls fs =
     (let (ls', fs') = ttl_wake root default_ttl w ls fs in ttl_cleanup_loop root default_ttl ws ls' fs')"

text \<open>
  The renewal task: it asks at each interval and stops at the first refusal; the value is the
  number of renewals.
\<close>

fun lease_renewal_task :: "str \<Rightarrow> str \<Rightarrow> leases list \<Rightarrow> nat" where
  "lease_renewal_task key lease_id [] = 0"
| "lease_renewal_task key lease_id (ls # rest) =
     (if renew_lease key lease_id ls then Suc (lease_renewal_task key lease_id rest) else 0)"

subsection \<open>Leases\<close>

lemma lease_returned:
  "map_of (fst (ttl_wake root ttl w ls fs)) k = map_of ls k"
  by (auto simp: ttl_wake_def acquire_lease_def release_lease_def Let_def delete_conv' update_conv' split: if_splits)

lemma acquire_exclusive:
  "fst (acquire_lease o1 f1 i1 key ls) = Some l \<Longrightarrow> fst (acquire_lease o2 f2 i2 key (snd (acquire_lease o1 f1 i1 key ls))) = None"
  by (auto simp: acquire_lease_def update_conv' split: if_splits)

lemma renewal_while_held:
  "\<forall>ls \<in> set lss. map_of ls key = Some l \<Longrightarrow> lease_renewal_task key l lss = length lss"
  by (induction lss) (auto simp: renew_lease_def)

subsection \<open>The sweep\<close>

lemma read_bundle_meta_error:
  assumes "store_invar root fs" "good_key p" "read_bundle_meta root p fs = Inl e"
  shows "e = FileNotFoundError"
proof -
  have c: "fs_wf fs" "clean (resolve root p @ [BUNDLE_MANIFEST])"
    using assms(1) clean_resolve [OF _ assms(2)] by (auto simp: store_invar_def)
  show ?thesis
    using assms(3) is_file_clean [OF c] read_bytes_clean [OF c]
    by (auto simp: read_bundle_meta_def Let_def split: if_splits option.splits sum.splits)
qed

text \<open>A sweep deletes some of the paths it was given, one after the other.\<close>

fun delete_paths :: "str list \<Rightarrow> int \<Rightarrow> str list \<Rightarrow> fs \<Rightarrow> fs" where
  "delete_paths root now [] fs = fs"
| "delete_paths root now (p # ps) fs = delete_paths root now ps (snd (delete_bundle root now p fs))"

lemma ttl_refs_deletes:
  "\<exists>ps. snd (snd (ttl_refs root now ttl refs n fs)) = delete_paths root now ps fs \<and> set ps \<subseteq> br_path ` set refs"
proof (induction refs arbitrary: n fs)
  case Nil
  have "fs = delete_paths root now [] fs" by simp
  then show ?case by fastforce
next
  case (Cons r refs)
  have here: "\<exists>ps. delete_paths root now qs (snd (delete_bundle root now (br_path r) fs)) = delete_paths root now ps fs
      \<and> set ps \<subseteq> br_path ` set (r # refs)" if "set qs \<subseteq> br_path ` set refs" for qs
    using that by (intro exI [of _ "br_path r # qs"]) auto
  have skip: "\<exists>ps. snd (snd (ttl_refs root now ttl refs n' fs)) = delete_paths root now ps fs
      \<and> set ps \<subseteq> br_path ` set (r # refs)" for n'
    using Cons [of n' fs] by auto
  obtain d fs' where d: "delete_bundle root now (br_path r) fs = (d, fs')" by (cases "delete_bundle root now (br_path r) fs")
  have del: "\<exists>ps. snd (snd (ttl_refs root now ttl refs n' fs')) = delete_paths root now ps fs
      \<and> set ps \<subseteq> br_path ` set (r # refs)" for n'
    using Cons [of n' fs'] here d by auto
  have stop: "\<exists>ps. fs = delete_paths root now ps fs \<and> set ps \<subseteq> br_path ` set (r # refs)"
    by (rule exI [of _ "[]"]) simp
  show ?case using skip del d stop by (auto split: sum.splits option.splits)
qed

lemma delete_paths_invar:
  "gc_invar root fs \<Longrightarrow> \<forall>p \<in> set ps. good_key p \<Longrightarrow> gc_invar root (delete_paths root now ps fs)"
  by (induction ps arbitrary: fs) (auto simp: gc_invar_delete)

lemma delete_paths_map_of:
  "gc_invar root fs \<Longrightarrow> \<forall>p \<in> set ps. good_key p \<and> \<not> prefix (resolve root p) q \<and> q \<noteq> butlast (resolve root p)
   \<Longrightarrow> map_of (delete_paths root now ps fs) q = map_of fs q"
  by (induction ps arbitrary: fs) (auto simp: gc_invar_delete delete_map_of)

lemma delete_paths_le:
  assumes "gc_invar root fs" "\<forall>p \<in> set ps. good_key p"
  shows "entry_at (delete_paths root now ps fs) q \<in> {None, entry_at fs q}"
  using assms
proof (induction ps arbitrary: fs)
  case (Cons p ps)
  have "gc_invar root (snd (delete_bundle root now p fs))" using Cons.prems gc_invar_delete by simp
  from Cons.IH [OF this] Cons.prems delete_entries_le [of root fs p now q] show ?case by auto
qed simp

lemma ttl_refs_total:
  "gc_invar root fs \<Longrightarrow> \<forall>r \<in> set refs. good_key (br_path r) \<Longrightarrow> fst (ttl_refs root now ttl refs n fs) = None"
proof (induction refs arbitrary: n fs)
  case (Cons r refs)
  have g: "good_key (br_path r)" "\<forall>r \<in> set refs. good_key (br_path r)" using Cons.prems(2) by auto
  have e: "read_bundle_meta root (br_path r) fs = Inl e \<Longrightarrow> e = FileNotFoundError" for e
    using read_bundle_meta_error [OF _ g(1)] gc_invarD [OF Cons.prems(1)] by blast
  have i: "gc_invar root (snd (delete_bundle root now (br_path r) fs))" using gc_invar_delete Cons.prems by simp
  show ?case using Cons.IH [OF Cons.prems(1) g(2)] Cons.IH [OF i g(2)] e
    by (cases "delete_bundle root now (br_path r) fs") (auto split: sum.splits option.splits)
qed simp

lemma meta_gone:
  assumes i: "gc_invar root fs" "\<forall>r \<in> set refs. good_key (br_path r)" and p: "good_key p" "meta_at root fs p = None"
  shows "meta_at root (snd (snd (ttl_refs root now ttl refs n fs))) p = None"
proof -
  obtain ps where ps: "snd (snd (ttl_refs root now ttl refs n fs)) = delete_paths root now ps fs" "set ps \<subseteq> br_path ` set refs"
    using ttl_refs_deletes by metis
  have g: "\<forall>p \<in> set ps. good_key p" using ps(2) i(2) by auto
  have s: "store_invar root fs" "store_invar root (delete_paths root now ps fs)"
    using i(1) delete_paths_invar [OF i(1) g, of now] by (auto simp: gc_invar_def)
  have "meta_at root (delete_paths root now ps fs) p \<noteq> Some m" for m
    using p(2) meta_at_Some [OF s(1) p(1), of m] meta_at_Some [OF s(2) p(1), of m]
      delete_paths_le [OF i(1) g, of now "resolve root p @ [BUNDLE_MANIFEST]"] by auto
  then show ?thesis using ps(1) by (cases "meta_at root (delete_paths root now ps fs) p") auto
qed

text \<open>One pass decides each listed bundle by its own age, whatever the others are.\<close>

lemma ttl_refs_exact:
  assumes p: "good_key p"
  shows "\<lbrakk>gc_invar root fs; \<forall>r \<in> set refs. good_key (br_path r) \<and> (br_path r = p \<or> unrelated (br_path r) p);
      meta_at root fs p = Some m; iso_to_epoch (bm_created_at m) = Some c\<rbrakk>
    \<Longrightarrow> meta_at root (snd (snd (ttl_refs root now ttl refs n fs))) p
        = (if p \<in> br_path ` set refs \<and> now - c > ttl * 1000000 then None else Some m)"
proof (induction refs arbitrary: n fs)
  case (Cons r refs)
  let ?del = "snd (delete_bundle root now (br_path r) fs)"
  have s: "store_invar root fs" using Cons.prems(1) by (simp add: gc_invar_def)
  have g: "good_key (br_path r)" "\<forall>r \<in> set refs. good_key (br_path r)"
    "\<forall>r \<in> set refs. good_key (br_path r) \<and> (br_path r = p \<or> unrelated (br_path r) p)" using Cons.prems(2) by auto
  have e: "read_bundle_meta root (br_path r) fs = Inl e \<Longrightarrow> e = FileNotFoundError" for e
    using read_bundle_meta_error [OF s g(1)] by blast
  have i: "gc_invar root ?del" using gc_invar_delete Cons.prems g by simp
  have rm: "read_bundle_meta root p fs = Inr m" using Cons.prems(3) by (auto simp: meta_at_def split: sum.splits)
  note skip = Cons.IH [OF Cons.prems(1) g(3) Cons.prems(3,4)]
  show ?case
  proof (cases "br_path r = p")
    case True
    have "meta_at root ?del p = None" using delete_committed [OF s p Cons.prems(3), of now] True by simp
    note gone = meta_gone [OF i g(2) p this]
    show ?thesis
      using rm Cons.prems(4) True skip gone
      by (cases "delete_bundle root now (br_path r) fs") (auto split: sum.splits)
  next
    case False
    then have u: "unrelated (br_path r) p" using Cons.prems(2) by simp
    have gx: "good_key ''x''" by (simp add: good_key_def path_parts_def)
    have "meta_at root ?del p = Some m" using filesystem.del_frame [OF s g(1) p gx u] Cons.prems(3) by simp
    note del = Cons.IH [OF i g(3) this Cons.prems(4)]
    show ?thesis using e skip del False
      by (cases "delete_bundle root now (br_path r) fs") (auto split: sum.splits option.splits)
  qed
qed simp

text \<open>Two bundles of one listing lie apart.\<close>

lemma listed_apart:
  assumes i: "gc_invar root fs" and g: "good_key pre"
    and r: "r \<in> set (list_bundles root pre inc fs)" "r' \<in> set (list_bundles root pre inc fs)"
    and n: "br_path r \<noteq> br_path r'"
  shows "unrelated (br_path r) (br_path r')"
proof -
  note w = gc_invarD [OF i]
  obtain x s where a: "br_path r = as_posix (path_parts pre @ x # s)" "good_key (br_path r)"
    "resolve root (br_path r) = resolve root pre @ x # s" "reported inc fs (resolve root pre @ [x]) s"
    using listed_ref [OF _ _ _ g r(1)] w by blast
  obtain y u where b: "br_path r' = as_posix (path_parts pre @ y # u)" "good_key (br_path r')"
    "resolve root (br_path r') = resolve root pre @ y # u" "reported inc fs (resolve root pre @ [y]) u"
    using listed_ref [OF _ _ _ g r(2)] w by blast
  have "\<not> strict_prefix s u" "\<not> strict_prefix u s" if "x = y"
    using a(4) b(4) that by (auto simp: reported_def)
  moreover have "\<not> (x = y \<and> s = u)" using a(1) b(1) n by auto
  ultimately have "\<not> prefix (x # s) (y # u)" "\<not> prefix (y # u) (x # s)" by (auto simp: strict_prefix_def)
  then have "\<not> prefix (resolve root (br_path r)) (resolve root (br_path r'))"
    "\<not> prefix (resolve root (br_path r')) (resolve root (br_path r))" unfolding a(3) b(3) by simp_all
  then show ?thesis unfolding unrelated_def resolve_good [OF a(2)] resolve_good [OF b(2)] by simp
qed


lemma namespaces_apart:
  assumes "gc_invar root fs" "gc_invar root fs'" and "good_key p1" "path_parts p1 = [a1]" "good_key p2" "path_parts p2 = [a2]" "a1 \<noteq> a2"
    and "r \<in> set (list_bundles root p1 inc fs)" "r' \<in> set (list_bundles root p2 inc fs')"
  shows "unrelated (br_path r) (br_path r')"
proof -
  have g: "good_key (br_path r)" "good_key (br_path r')"
    using listed_good [OF assms(1,3)] listed_good [OF assms(2,5)] assms(8,9) by blast+
  obtain x s y u where "resolve root (br_path r) = data_root root @ a1 # x # s"
    "resolve root (br_path r') = data_root root @ a2 # y # u"
    using listed_under [OF assms(1,3,4,8)] listed_under [OF assms(2,5,6,9)] by blast
  then have "path_parts (br_path r) = a1 # x # s" "path_parts (br_path r') = a2 # y # u"
    by (simp_all add: resolve_good [OF g(1)] resolve_good [OF g(2)])
  with assms(7) show ?thesis by (simp add: unrelated_def)
qed

text \<open>A pass over one namespace does not change the listing of the other.\<close>

lemma ttl_pass_other:
  fixes now ttl :: int and n :: nat
  assumes i: "gc_invar root fs" and ns: "path_parts p1 = [a1]" "path_parts p2 = [a2]" "a1 \<noteq> a2"
    and g: "good_key p1" "good_key p2"
  defines "fs' \<equiv> snd (snd (ttl_refs root now ttl (list_bundles root p1 False fs) n fs))"
  shows "gc_invar root fs'" and "set (list_bundles root p2 inc fs') = set (list_bundles root p2 inc fs)"
proof -
  let ?refs = "list_bundles root p1 False fs"
  obtain ps where ps: "fs' = delete_paths root now ps fs" "set ps \<subseteq> br_path ` set ?refs"
    unfolding fs'_def using ttl_refs_deletes by metis
  have gp: "\<forall>p \<in> set ps. good_key p" using ps(2) listed_good [OF i g(1), of False] by auto
  show i': "gc_invar root fs'" unfolding ps(1) by (rule delete_paths_invar [OF i gp])
  have "map_of fs' q = map_of fs q" if q: "prefix (resolve root p2) q" for q
  proof -
    obtain x where x: "q = data_root root @ a2 # x" using q by (auto simp: resolve_good [OF g(2)] ns elim!: prefixE)
    have "\<not> prefix (resolve root p) q \<and> q \<noteq> butlast (resolve root p)" if pin: "p \<in> set ps" for p
    proof -
      obtain r where "r \<in> set ?refs" "p = br_path r" using ps(2) pin by auto
      with listed_under [OF i g(1) ns(1), of r False] show ?thesis using x ns(3) by (auto simp: butlast_append)
    qed
    then show ?thesis unfolding ps(1) using gp by (intro delete_paths_map_of [OF i]) auto
  qed
  then show "set (list_bundles root p2 inc fs') = set (list_bundles root p2 inc fs)"
    by (rule list_bundles_cong [OF i i' g(2)])
qed

lemma ttl_sweep_passes:
  fixes now ttl :: int
  assumes i: "gc_invar root fs"
  defines "fs1 \<equiv> snd (snd (ttl_refs root now ttl (list_bundles root ''store/'' False fs) 0 fs))"
  shows "\<exists>n. snd (ttl_sweep root now ttl fs) = snd (snd (ttl_refs root now ttl (list_bundles root ''inbox/'' False fs1) n fs1))"
proof -
  have g: "good_key ''store/''" "good_key ''inbox/''" "path_parts ''store/'' = [''store'']" "path_parts ''inbox/'' = [''inbox'']"
    by code_simp+
  have i1: "gc_invar root fs1" unfolding fs1_def by (rule ttl_pass_other [OF i g(3,4) _ g(1,2)]) simp
  have t: "fst (ttl_refs root now ttl (list_bundles root ''store/'' False fs) 0 fs) = None"
    "fst (ttl_refs root now ttl (list_bundles root ''inbox/'' False fs1) n fs1) = None" for n
    using ttl_refs_total [OF i listed_good [OF i g(1)]] ttl_refs_total [OF i1 listed_good [OF i1 g(2)]] by auto
  obtain n where o: "ttl_refs root now ttl (list_bundles root ''store/'' False fs) 0 fs = (None, n, fs1)"
    using t(1) by (cases "ttl_refs root now ttl (list_bundles root ''store/'' False fs) 0 fs") (auto simp: fs1_def)
  show ?thesis
    using t(2) [of n] o by (intro exI [of _ n])
      (cases "ttl_refs root now ttl (list_bundles root ''inbox/'' False fs1) n fs1"; auto simp: ttl_sweep_def BUNDLE_NAMESPACES_def)
qed

lemma ttl_sweep_decides:
  assumes i: "gc_invar root fs" and pre: "pre \<in> set BUNDLE_NAMESPACES" and r: "r \<in> set (list_bundles root pre False fs)"
    and m: "meta_at root fs (br_path r) = Some m" "iso_to_epoch (bm_created_at m) = Some c"
  shows "meta_at root (snd (ttl_sweep root now ttl fs)) (br_path r) = (if now - c > ttl * 1000000 then None else Some m)"
proof -
  have g: "good_key ''store/''" "good_key ''inbox/''" "path_parts ''store/'' = [''store'']" "path_parts ''inbox/'' = [''inbox'']"
    by code_simp+
  let ?L1 = "list_bundles root ''store/'' False fs" and ?p = "br_path r"
  let ?fs1 = "snd (snd (ttl_refs root now ttl ?L1 0 fs))"
  let ?L2 = "list_bundles root ''inbox/'' False ?fs1"
  obtain n where sw: "snd (ttl_sweep root now ttl fs) = snd (snd (ttl_refs root now ttl ?L2 n ?fs1))"
    using ttl_sweep_passes [OF i] by blast
  note oth = ttl_pass_other [OF i g(3,4) _ g(1,2)]
  have i1: "gc_invar root ?fs1" by (rule oth(1)) simp
  have l2: "set ?L2 = set (list_bundles root ''inbox/'' False fs)" by (rule oth(2)) simp
  have gL: "\<forall>r \<in> set ?L1. good_key (br_path r)" "\<forall>r \<in> set ?L2. good_key (br_path r)"
    using listed_good [OF i g(1)] listed_good [OF i1 g(2)] by blast+
  have irr: "\<not> unrelated x x" for x by (simp add: unrelated_def)
  have pp: "unrelated (br_path a) (br_path b) \<and> unrelated (br_path b) (br_path a)" if "a \<in> set ?L1" "b \<in> set ?L2" for a b
    using namespaces_apart [OF i i1 g(1,3) g(2,4) _ that] by (auto simp: unrelated_def)
  show ?thesis
  proof (cases "pre = ''store/''")
    case True
    with r have r1: "r \<in> set ?L1" by simp
    have gp: "good_key ?p" using gL(1) r1 by blast
    have a: "\<forall>x \<in> set ?L1. good_key (br_path x) \<and> (br_path x = ?p \<or> unrelated (br_path x) ?p)"
      using gL(1) listed_apart [OF i g(1) _ r1] by blast
    have b: "\<forall>x \<in> set ?L2. good_key (br_path x) \<and> (br_path x = ?p \<or> unrelated (br_path x) ?p)" "?p \<notin> br_path ` set ?L2"
      using gL(2) pp [OF r1] irr by (blast, fastforce)
    show ?thesis
      using ttl_refs_exact [OF gp i a m, of now ttl 0] r1 ttl_refs_exact [OF gp i1 b(1) _ m(2), of now ttl n]
        meta_gone [OF i1 gL(2) gp, of now ttl n] b(2) sw by auto
  next
    case False
    with pre r have ri: "r \<in> set (list_bundles root ''inbox/'' False fs)" by (auto simp: BUNDLE_NAMESPACES_def)
    with l2 have r2: "r \<in> set ?L2" by simp
    have gp: "good_key ?p" using gL(2) r2 by blast
    have a: "\<forall>x \<in> set ?L1. good_key (br_path x) \<and> (br_path x = ?p \<or> unrelated (br_path x) ?p)" "?p \<notin> br_path ` set ?L1"
      using gL(1) pp [OF _ r2] irr by (blast, fastforce)
    have b: "\<forall>x \<in> set ?L2. good_key (br_path x) \<and> (br_path x = ?p \<or> unrelated (br_path x) ?p)"
      using gL(2) listed_apart [OF i1 g(2) _ r2] by blast
    show ?thesis
      using ttl_refs_exact [OF gp i a(1) m, of now ttl 0] ttl_refs_exact [OF gp i1 b _ m(2), of now ttl n] a(2) r2 sw by auto
  qed
qed

end
