(* ===== verification/Server.thy ===== *)
theory Server
  imports Agents Settings Expiry
begin

text \<open>
  The application around the routes: the capabilities document (\<^verbatim>\<open>capabilities.py\<close>,
  \<^verbatim>\<open>routes/capabilities.py\<close>), the exception handlers, the health answer and the assembly of
  \<^verbatim>\<open>app.py\<close>, and the core defaults of \<^verbatim>\<open>defaults/factory.py\<close> as the environments of the routes.
\<close>

subsection \<open>Capabilities\<close>

definition SERVER_VERSION :: str where
  "SERVER_VERSION = ''0.30.1''"

definition SUPPORTED_MODES :: "str list" where
  "SUPPORTED_MODES = [''inline'', ''batch'', ''reference'']"

definition json_int_opt :: "int option \<Rightarrow> json" where
  "json_int_opt v = (case v of None \<Rightarrow> JNull | Some n \<Rightarrow> JInt n)"

definition limits_json :: "limits_advertisement \<Rightarrow> json" where
  "limits_json l = JObj
     [(''per_file_max'', json_int_opt (la_per_file_max l)),
      (''per_bundle_total_max'', json_int_opt (la_per_bundle_total_max l)),
      (''per_bundle_file_count_max'', json_int_opt (la_per_bundle_file_count_max l)),
      (''max_inline_size'', json_int_opt (la_max_inline_size l))]"

definition ttls_json :: "ttl_settings \<Rightarrow> json" where
  "ttls_json s = JObj
     [(''upload_token_ttl'', JInt (ts_upload_token_ttl s)), (''download_claim_ttl'', JInt (ts_download_claim_ttl s)),
      (''passive_gc_min_age'', JInt (ts_passive_gc_min_age s)), (''passive_gc_interval'', JInt (ts_passive_gc_interval s))]"

definition build_capabilities_document :: "limits_config \<Rightarrow> json" where
  "build_capabilities_document cfg = JObj
     [(''schema_version'', JInt 1), (''server_version'', JStr SERVER_VERSION),
      (''supported_modes'', JArr (map JStr SUPPORTED_MODES)),
      (''limits'', limits_json (advertise_limits cfg)), (''ttls'', ttls_json (ttls cfg)),
      (''features'', JArr (map JStr (advertise_features cfg)))]"

text \<open>The limits a client reads back from the document.\<close>

definition json_field :: "json \<Rightarrow> str \<Rightarrow> json option" where
  "json_field j k = (case j of JObj ms \<Rightarrow> map_of ms k | _ \<Rightarrow> None)"

definition opt_int_of :: "json option \<Rightarrow> int option" where
  "opt_int_of j = (case j of Some (JInt n) \<Rightarrow> Some n | _ \<Rightarrow> None)"

subsection \<open>Exception handlers\<close>

record http_response =
  hr_status :: nat
  hr_body :: json
  hr_headers :: "(str \<times> str) list"

definition kind_name :: "conflict_kind \<Rightarrow> str" where
  "kind_name k = (case k of ShadowParent \<Rightarrow> ''shadow_parent'' | ShadowChild \<Rightarrow> ''shadow_child'')"

definition bundle_conflict_handler :: "str \<Rightarrow> conflict_kind \<Rightarrow> http_response" where
  "bundle_conflict_handler conflicting_path kind =
     \<lparr>hr_status = 409,
      hr_body = JObj [(''error'', JStr ''bundle_path_conflict''), (''conflicting_path'', JStr conflicting_path),
                      (''kind'', JStr (kind_name kind))],
      hr_headers = []\<rparr>"

definition error_name :: "limit_error \<Rightarrow> str" where
  "error_name e = (case e of CapExceeded \<Rightarrow> ''cap_exceeded'' | BatchRequired \<Rightarrow> ''batch_required'')"

definition limits_rejection_handler :: "limits_rejection \<Rightarrow> http_response" where
  "limits_rejection_handler r =
     \<lparr>hr_status = (if lr_error r = CapExceeded then 413 else 422),
      hr_body = JObj [(''error'', JStr (error_name (lr_error r))), (''constraint'', JStr (constraint_name (lr_constraint r))),
                      (''limit'', json_int_opt (lr_limit r)), (''observed'', JInt (lr_observed r))],
      hr_headers = []\<rparr>"

text \<open>The window of a bucket, as the limiter reports it, or a minute.\<close>

definition retry_after_seconds :: "int option \<Rightarrow> int" where
  "retry_after_seconds expiry = (case expiry of None \<Rightarrow> 60 | Some s \<Rightarrow> s)"

text \<open>The response and the tags of the counter that is incremented.\<close>

definition rate_limit_handler :: "rate_limit_route option \<Rightarrow> int option \<Rightarrow> http_response \<times> rate_limit_route \<times> str" where
  "rate_limit_handler recorded expiry =
     (let retry_after = retry_after_seconds expiry in
      (\<lparr>hr_status = 429, hr_body = JObj [(''error'', JStr ''rate_limit''), (''retry_after'', JInt retry_after)],
        hr_headers = [(''Retry-After'', show_int retry_after)]\<rparr>,
       recorded_rate_limit_route recorded, ''rate''))"

definition fanout_cap_handler :: "int \<Rightarrow> http_response \<times> rate_limit_route \<times> str" where
  "fanout_cap_handler max_targets =
     (\<lparr>hr_status = 429,
       hr_body = JObj [(''error'', JStr ''rate_limit''), (''reason'', JStr ''fanout_cap''), (''max_targets'', JInt max_targets)],
       hr_headers = [(''Retry-After'', ''0'')]\<rparr>, Broadcast, ''fanout_cap'')"

definition health :: "bool option \<Rightarrow> bool \<Rightarrow> http_response" where
  "health is_healthy dev_mode =
     (if is_healthy = Some False
      then \<lparr>hr_status = 503,
            hr_body = JObj [(''status'', JStr ''unhealthy''), (''reason'', JStr ''key_store_unreachable''), (''dev_mode'', JBool dev_mode)],
            hr_headers = []\<rparr>
      else \<lparr>hr_status = 200, hr_body = JObj [(''status'', JStr ''ok''), (''dev_mode'', JBool dev_mode)], hr_headers = []\<rparr>)"

subsection \<open>Assembly\<close>

text \<open>
  \<^verbatim>\<open>build_core_defaults\<close> and \<^verbatim>\<open>create_app\<close>: the environments every route reads, from the
  configuration, the working directory of the process, the JWT library, the digest of paths and
  the table of media types. The core access policy allows everything, and the alias resolver reads
  the key store the routes share.
\<close>

definition core_root :: "str list \<Rightarrow> app_config \<Rightarrow> str list" where
  "core_root cwd cfg = join_parts cwd (cfg_storage_path cfg)"

definition core_route_env :: "str list \<Rightarrow> jwt_lib \<Rightarrow> (str \<Rightarrow> str) \<Rightarrow> app_config \<Rightarrow> route_env" where
  "core_route_env cwd lib digest cfg =
     \<lparr>rt_root = core_root cwd cfg, rt_claims_base = core_root cwd cfg @ [''.claims''], rt_digest = digest,
      rt_lib = lib, rt_jwt_primary_key = cfg_jwt_primary_key cfg, rt_limits = cfg_limits cfg,
      rt_default_ttl = cfg_default_ttl cfg, rt_public_base_url = cfg_public_base_url cfg,
      rt_access = (\<lambda>ident resource action. True)\<rparr>"

definition core_send_env :: "(str \<Rightarrow> str option) \<Rightarrow> jwt_lib \<Rightarrow> key_store \<Rightarrow> app_config \<Rightarrow> send_env" where
  "core_send_env guess lib ks cfg =
     \<lparr>se_lib = lib, se_guess = guess, se_limits = cfg_limits cfg,
      se_allowed_path_chars = Some (cfg_allowed_path_chars cfg), se_public_base_url = cfg_public_base_url cfg,
      se_access = (\<lambda>ident resource action. True), se_alias = Some (default_alias_resolve ks)\<rparr>"

definition core_broadcast_env :: "str list \<Rightarrow> (str \<Rightarrow> str option) \<Rightarrow> key_store \<Rightarrow> app_config \<Rightarrow> broadcast_env" where
  "core_broadcast_env cwd guess ks cfg =
     \<lparr>bc_root = core_root cwd cfg, bc_guess = guess, bc_allowed_path_chars = Some (cfg_allowed_path_chars cfg),
      bc_limits = cfg_limits cfg, bc_rate_limit_broadcast = cfg_rate_limit_broadcast cfg,
      bc_max_targets = cfg_broadcast_max_targets cfg, bc_policy = default_access_policy,
      bc_alias = default_alias_resolve ks\<rparr>"

definition core_jwt_slots :: "app_config \<Rightarrow> jwt_slots" where
  "core_jwt_slots cfg =
     init_jwt_key_slots (cfg_jwt_primary_key cfg) (cfg_jwt_secondary_key cfg) (cfg_jwt_key_overlap_ttl cfg)"

text \<open>The warning at start: the least overlap that outlives every credential, if it is not met.\<close>

definition validate_overlap_ttl :: "app_config \<Rightarrow> int option" where
  "validate_overlap_ttl cfg =
     (let min_required = max (download_claim_ttl (cfg_limits cfg)) (upload_token_ttl (cfg_limits cfg))
      in if cfg_jwt_key_overlap_ttl cfg < min_required then Some min_required else None)"

subsection \<open>Lemmas\<close>

text \<open>The client-side check on the advertised limits is the server's decision.\<close>

lemma capabilities_limits:
  assumes "json_field (build_capabilities_document cfg) ''limits'' = Some l"
  shows "\<lparr>la_per_file_max = opt_int_of (json_field l ''per_file_max''),
      la_per_bundle_total_max = opt_int_of (json_field l ''per_bundle_total_max''),
      la_per_bundle_file_count_max = opt_int_of (json_field l ''per_bundle_file_count_max''),
      la_max_inline_size = opt_int_of (json_field l ''max_inline_size'')\<rparr> = advertise_limits cfg"
proof -
  have l: "l = limits_json (advertise_limits cfg)"
    using assms by (simp add: json_field_def build_capabilities_document_def)
  have o: "opt_int_of (Some (json_int_opt v)) = v" for v by (cases v) (simp_all add: opt_int_of_def json_int_opt_def)
  show ?thesis unfolding l by (simp add: json_field_def limits_json_def o)
qed

lemma json_ok_capabilities: "json_ok (build_capabilities_document cfg)"
  by (auto simp: build_capabilities_document_def limits_json_def ttls_json_def json_int_opt_def list_all_iff
      split: option.splits)

lemma core_separate: "separate (core_root cwd cfg) (core_root cwd cfg @ [''.claims''])"
  by (simp add: separate_def data_root_def)

end
