(* ===== verification/Mcp.thy ===== *)
theory Mcp
  imports Server Upload
begin

text \<open>
  The MCP server: the tools of \<^verbatim>\<open>mcp_server.py\<close> and the authentication of \<^verbatim>\<open>mcp_auth.py\<close>. A tool
  takes the environment, the identity and the sender label of its request, and its arguments; what
  it raises is the left injection. A tool that answers with \<^verbatim>\<open>json.dumps\<close> of a value
  returns the value.
\<close>

record mcp_env =
  mc_routes :: route_env
  mc_guess :: "str \<Rightarrow> str option"
  mc_allowed_path_chars :: "str option"
  mc_alias :: "alias_resolver option"
  mc_broadcast :: broadcast_env

text \<open>The two context variables of a request.\<close>

record mcp_ctx =
  mx_identity :: "identity option"
  mx_sender :: "str option"

definition or_dev :: "identity option \<Rightarrow> identity" where
  "or_dev i = (case i of None \<Rightarrow> DevIdentity | Some i \<Rightarrow> i)"

text \<open>What the routes answer as an HTTP error a tool raises as a \<^verbatim>\<open>ValueError\<close> with its text.\<close>

definition tool_exc :: "http_error \<Rightarrow> exc" where
  "tool_exc e = (case e of HttpError code msg \<Rightarrow> ValueError msg | HttpRaised e \<Rightarrow> e)"

definition mcp_enforce :: "mcp_env \<Rightarrow> mcp_ctx \<Rightarrow> str \<Rightarrow> str \<Rightarrow> exc + unit" where
  "mcp_enforce env ctx resource action =
     (if \<not> rt_access (mc_routes env) (or_dev (mx_identity ctx)) resource action then Inl (ValueError ''Forbidden'')
      else Inr ())"

text \<open>The text of a \<^verbatim>\<open>PathValidationError\<close>, for characters with no escape in their representation.\<close>

definition path_error_text :: "path_error \<Rightarrow> str" where
  "path_error_text e =
     (case e of
        EmptyPath \<Rightarrow> ''File path must not be empty''
      | AbsolutePath \<Rightarrow> ''File path must be relative, not absolute''
      | PathTraversal p \<Rightarrow>
          ''Path traversal not allowed: '' @ [CHR 0x27] @ p @ [CHR 0x27] @ '' contains '' @ [CHR 0x27] @ ''..'' @ [CHR 0x27]
      | DisallowedChars cs \<Rightarrow>
          ''Path contains disallowed characters: '' @ join_with '', '' (sort (map (\<lambda>c. repr_str [c]) cs)))"

definition mcp_validate :: "mcp_env \<Rightarrow> str \<Rightarrow> exc + unit" where
  "mcp_validate env path =
     (case validate_path path (mc_allowed_path_chars env) of
        Inl e \<Rightarrow> Inl (ValueError (''Invalid path: '' @ path_error_text e))
      | Inr u \<Rightarrow> Inr ())"

subsection \<open>mcp\_auth.py\<close>

datatype mcp_auth_result = McpPass mcp_ctx | McpUnauthorized str | McpAuthRaised exc

definition mcp_auth_middleware ::
  "(str \<Rightarrow> exc + key_info option) \<Rightarrow> bool \<Rightarrow> str \<Rightarrow> mcp_ctx \<Rightarrow> mcp_auth_result" where
  "mcp_auth_middleware validate_key dev_mode auth_value ctx =
     (if dev_mode then McpPass ctx
      else if \<not> startswith auth_value ''Bearer '' then McpUnauthorized ''Missing authentication credentials''
      else case validate_key (drop 7 auth_value) of
        Inl e \<Rightarrow> McpAuthRaised e
      | Inr None \<Rightarrow> McpUnauthorized ''Invalid or revoked API key''
      | Inr (Some info) \<Rightarrow>
         (let ident = resolve_identity info in McpPass \<lparr>mx_identity = Some ident, mx_sender = Some (id_label ident)\<rparr>))"

subsection \<open>Payloads\<close>

text \<open>
  A file of a tool call: the name is whatever JSON value the caller wrote. One that is not a text
  raises only when it is written.
\<close>

type_synonym mcp_file = "json \<times> bytes"

fun parse_entries :: "json list \<Rightarrow> exc + mcp_file list" where
  "parse_entries [] = Inr []"
| "parse_entries (JObj ms # rest) =
     (case map_of ms ''name'' of
        None \<Rightarrow> Inl (KeyError ''name'')
      | Some name \<Rightarrow>
         (case map_of ms ''content'' of
            None \<Rightarrow> Inl (KeyError ''content'')
          | Some (JStr content) \<Rightarrow>
             (case parse_entries rest of Inl e \<Rightarrow> Inl e | Inr fs \<Rightarrow> Inr ((name, content) # fs))
          | Some _ \<Rightarrow> Inl AttributeError))"
| "parse_entries (_ # rest) = Inl TypeError"

definition parse_files_arg :: "str \<Rightarrow> exc + mcp_file list" where
  "parse_files_arg files =
     (case loads files of
        None \<Rightarrow> Inl (ValueError ''JSONDecodeError'')
      | Some (JArr js) \<Rightarrow> parse_entries js
      | Some (JObj ms) \<Rightarrow> if ms = [] then Inr [] else Inl TypeError
      | Some (JStr s) \<Rightarrow> if s = [] then Inr [] else Inl TypeError
      | Some _ \<Rightarrow> Inl TypeError)"

text \<open>Exactly one of the two arguments of a payload.\<close>

definition payload_arg :: "str \<Rightarrow> str \<Rightarrow> str \<Rightarrow> exc + mcp_file list" where
  "payload_arg path content files =
     (if content \<noteq> [] \<and> files \<noteq> [] then Inl (ValueError (''Provide either '' @ [CHR 0x27] @ ''content'' @ [CHR 0x27] @ '' or '' @ [CHR 0x27] @ ''files'' @ [CHR 0x27] @ '', not both''))
      else if content = [] \<and> files = [] then Inl (ValueError (''Provide either '' @ [CHR 0x27] @ ''content'' @ [CHR 0x27] @ '' or '' @ [CHR 0x27] @ ''files'' @ [CHR 0x27]))
      else if files \<noteq> [] then parse_files_arg files
      else Inr [(JStr (last (split_on (CHR ''/'') path)), content)])"

definition mcp_entry :: "mcp_file \<Rightarrow> manifest_file" where
  "mcp_entry f = \<lparr>mf_name = py_str (fst f), mf_size = int (length (snd f)), mf_mime = None\<rparr>"

definition build_upload_manifest :: "mcp_file list \<Rightarrow> upload_manifest" where
  "build_upload_manifest files = \<lparr>um_file_count = int (length files), um_files = map mcp_entry files\<rparr>"

definition evaluate_upload_or_raise :: "limits_config \<Rightarrow> upload_manifest \<Rightarrow> limits_rejection + unit" where
  "evaluate_upload_or_raise cfg manifest =
     (case evaluate_upload cfg manifest of
        Reject err constraint limit observed \<Rightarrow> Inl (rejection_of err constraint limit observed (um_files manifest))
      | Accept mode \<Rightarrow>
         if mode \<noteq> InlineMode
         then Inl (rejection_of BatchRequired MaxInlineSize (la_max_inline_size (advertise_limits cfg))
                     (total_size (um_files manifest)) [])
         else Inr ())"

fun mcp_write_files :: "int \<Rightarrow> mcp_file list \<Rightarrow> bundle_writer \<Rightarrow> fs \<Rightarrow> bundle_writer io" where
  "mcp_write_files t [] w fs = (Inr w, fs)"
| "mcp_write_files t ((j, b) # rest) w fs =
     (if \<not> truthy (Some j) then (Inl (ValueError ''Bundle file name must not be empty''), fs)
      else case j of
        JStr n \<Rightarrow>
          (case write_file t n b w fs of
             (Inl e, fs') \<Rightarrow> (Inl e, fs')
           | (Inr w', fs') \<Rightarrow> mcp_write_files t rest w' fs')
      | _ \<Rightarrow> (Inl TypeError, fs))"

definition mcp_meta :: "(str \<Rightarrow> str option) \<Rightarrow> int \<Rightarrow> str option \<Rightarrow> str \<Rightarrow> str \<Rightarrow> mcp_file list \<Rightarrow> bundle_meta" where
  "mcp_meta guess t sender content_type bundle_id files =
     (let records = map (\<lambda>(j, b). \<lparr>mf_name = py_str j, mf_size = int (length b), mf_mime = Some (pick_mime guess (py_str j) None)\<rparr>) files
      in \<lparr>bm_schema_version = 1, bm_bundle_id = bundle_id, bm_sender = sender,
          bm_created_at = isoformat (utcfromtimestamp t), bm_content_type = content_type,
          bm_file_count = int (length records), bm_files = records\<rparr>)"

definition mcp_write_bundle ::
  "(str \<Rightarrow> str option) \<Rightarrow> str list \<Rightarrow> int \<Rightarrow> str \<Rightarrow> mcp_file list \<Rightarrow> str option \<Rightarrow> str \<Rightarrow> str \<Rightarrow> fs \<Rightarrow> unit io" where
  "mcp_write_bundle guess root t bundle_path files sender content_type bundle_id fs =
     (case open_bundle_write root t bundle_path fs of
        (Inl e, fs1) \<Rightarrow> (Inl e, fs1)
      | (Inr w, fs1) \<Rightarrow>
         (case mcp_write_files t files w fs1 of
            (Inl e, fs2) \<Rightarrow> (Inl e, abort t w fs2)
          | (Inr w2, fs2) \<Rightarrow>
             (case commit t (mcp_meta guess t sender content_type bundle_id files) w2 fs2 of
                (Inl e, fs3) \<Rightarrow> (Inl e, abort t w2 fs3)
              | (Inr w3, fs3) \<Rightarrow> (Inr (), fs3))))"

subsection \<open>cassetta\_put, cassetta\_get, cassetta\_delete\<close>

definition cassetta_put ::
  "mcp_env \<Rightarrow> mcp_ctx \<Rightarrow> str \<Rightarrow> int \<Rightarrow> str \<Rightarrow> str \<Rightarrow> str \<Rightarrow> fs \<Rightarrow> str io" where
  "cassetta_put env ctx bundle_id t path content files fs =
     (case mcp_validate env path of Inl e \<Rightarrow> (Inl e, fs) | Inr u \<Rightarrow>
      if startswith path ''inbox/'' \<or> startswith path ''store/''
      then (Inl (ValueError (''Invalid path: Reserved path prefix in '' @ repr_str path)), fs)
      else
     (case payload_arg path content files of Inl e \<Rightarrow> (Inl e, fs) | Inr parsed \<Rightarrow>
     (case evaluate_upload_or_raise (rt_limits (mc_routes env)) (build_upload_manifest parsed) of
        Inl r \<Rightarrow> (Inl (ValueError (limits_rejection_str r)), fs)
      | Inr u \<Rightarrow>
     (case mcp_enforce env ctx (''files:'' @ path) ''write'' of Inl e \<Rightarrow> (Inl e, fs) | Inr u \<Rightarrow>
      (let bundle_path = store_path path; root = rt_root (mc_routes env) in
       case delete_bundle root t bundle_path fs of
         (r, fs1) \<Rightarrow>
           if r \<noteq> Inr () \<and> r \<noteq> Inl FileNotFoundError then (Inl (projl r), fs1)
           else
             (case mcp_write_bundle (mc_guess env) root t bundle_path parsed None ''application/octet-stream'' bundle_id fs1 of
                (Inl (BundlePathConflictError p k), fs2) \<Rightarrow>
                  (Inl (ValueError (''bundle_path_conflict at '' @ p @ '' ('' @ kind_name k @ '')'')), fs2)
              | (Inl e, fs2) \<Rightarrow> (Inl e, fs2)
              | (Inr u, fs2) \<Rightarrow>
                 (let total = show_int (total_size (map mcp_entry parsed)) in
                  (Inr (if length parsed > 1
                        then ''Stored bundle '' @ [CHR 0x27] @ path @ [CHR 0x27] @ '' ('' @ show_int (int (length parsed))
                             @ '' files, '' @ total @ '' bytes)''
                        else ''Stored '' @ path @ '' ('' @ total @ '' bytes)''), fs2))))))))"

definition cassetta_get :: "mcp_env \<Rightarrow> mcp_ctx \<Rightarrow> str \<Rightarrow> int \<Rightarrow> str \<Rightarrow> fs \<Rightarrow> read_body io" where
  "cassetta_get env ctx uuid t path fs =
     (case mcp_validate env path of Inl e \<Rightarrow> (Inl e, fs) | Inr u \<Rightarrow>
     (case mcp_enforce env ctx (''files:'' @ path) ''read'' of Inl e \<Rightarrow> (Inl e, fs) | Inr u \<Rightarrow>
      (let renv = mc_routes env; ident = or_dev (mx_identity ctx) in
       case live_meta renv t (store_path path) path fs of
         (Inl e, fs1) \<Rightarrow> (Inl (tool_exc e), fs1)
       | (Inr m, fs1) \<Rightarrow>
          (case evaluate_download (rt_limits renv) (total_size (bm_files m)) of
             DownloadReference \<Rightarrow>
               (Inr (ReferenceBody
                  (build_reference_payload_for_store (rt_lib renv) uuid (rt_jwt_primary_key renv) (rt_limits renv)
                     (build_download_url (rt_public_base_url renv)) t (store_path path) m (id_label ident))), fs1)
           | DownloadInline \<Rightarrow>
               (case collect_bundle_files (rt_root renv) (store_path path) (bm_files m) fs1 of
                  Inl e \<Rightarrow> (Inl e, fs1)
                | Inr payloads \<Rightarrow> (Inr (InlineBody (build_inline_envelope m payloads)), fs1))))))"

definition cassetta_delete :: "mcp_env \<Rightarrow> mcp_ctx \<Rightarrow> int \<Rightarrow> str \<Rightarrow> fs \<Rightarrow> str io" where
  "cassetta_delete env ctx t path fs =
     (case mcp_validate env path of Inl e \<Rightarrow> (Inl e, fs) | Inr u \<Rightarrow>
     (case mcp_enforce env ctx (''files:'' @ path) ''delete'' of Inl e \<Rightarrow> (Inl e, fs) | Inr u \<Rightarrow>
     (case delete_bundle (rt_root (mc_routes env)) t (store_path path) fs of
        (Inl e, fs') \<Rightarrow> (Inl (tool_exc (raised path e)), fs')
      | (Inr u, fs') \<Rightarrow> (Inr (''Deleted '' @ path), fs'))))"

subsection \<open>Listings\<close>

text \<open>The loop over the references; \<open>hidden\<close> are the paths to leave out.\<close>

fun mcp_entries ::
  "route_env \<Rightarrow> int \<Rightarrow> str \<Rightarrow> bool \<Rightarrow> (str \<times> str) list \<Rightarrow> bundle_ref list \<Rightarrow> fs \<Rightarrow> exc + inbox_entry list" where
  "mcp_entries env t pre with_sender hidden [] fs = Inr []"
| "mcp_entries env t pre with_sender hidden (ref # refs) fs =
     (if map_of hidden (br_path ref) \<noteq> None then mcp_entries env t pre with_sender hidden refs fs
      else case read_bundle_meta (rt_root env) (br_path ref) fs of
        Inl e \<Rightarrow> if e = FileNotFoundError then mcp_entries env t pre with_sender hidden refs fs else Inl e
      | Inr m \<Rightarrow>
         (case is_expired_by_meta t (bm_created_at m) (rt_default_ttl env) of
            Inl e \<Rightarrow> Inl e
          | Inr True \<Rightarrow> mcp_entries env t pre with_sender hidden refs fs
          | Inr False \<Rightarrow>
             (case listing_entry t (removeprefix pre (br_path ref)) m (rt_default_ttl env) of
                Inl e \<Rightarrow> Inl e
              | Inr entry \<Rightarrow>
                 (case mcp_entries env t pre with_sender hidden refs fs of
                    Inl e \<Rightarrow> Inl e
                  | Inr es \<Rightarrow> Inr ((if with_sender then entry else entry\<lparr>ib_sender := None\<rparr>) # es)))))"

text \<open>No entry at all is reported as the text \<^verbatim>\<open>No files found.\<close>\<close>

definition cassetta_list :: "mcp_env \<Rightarrow> mcp_ctx \<Rightarrow> int \<Rightarrow> str \<Rightarrow> fs \<Rightarrow> exc + inbox_entry list" where
  "cassetta_list env ctx t pre fs =
     (case mcp_enforce env ctx ''files:*'' ''list'' of Inl e \<Rightarrow> Inl e | Inr u \<Rightarrow>
        mcp_entries (mc_routes env) t ''store/'' False []
          (list_bundles (rt_root (mc_routes env)) (''store/'' @ lstrip (CHR ''/'') pre) False fs) fs)"

definition inbox_target :: "mcp_ctx \<Rightarrow> str \<Rightarrow> str" where
  "inbox_target ctx agent =
     (if agent \<noteq> [] then agent else case mx_sender ctx of None \<Rightarrow> [] | Some l \<Rightarrow> l)"

definition cassetta_inbox :: "mcp_env \<Rightarrow> mcp_ctx \<Rightarrow> int \<Rightarrow> str \<Rightarrow> str \<Rightarrow> fs \<Rightarrow> exc + inbox_entry list" where
  "cassetta_inbox env ctx t agent pre fs =
     (let target = inbox_target ctx agent; renv = mc_routes env in
      if target = [] then Inl (ValueError ''No agent specified and no sender identity available'')
      else
        (case mcp_enforce env ctx (''inbox:'' @ target) ''list'' of Inl e \<Rightarrow> Inl e | Inr u \<Rightarrow>
        (case iter_active_by_bundle_path (rt_claims_base renv) t (ts_download_claim_ttl (ttls (rt_limits renv))) fs of
           Inl e \<Rightarrow> Inl e
         | Inr hidden \<Rightarrow>
            (case mcp_entries renv t (''inbox/'' @ target @ ''/'') True hidden
                    (list_bundles (rt_root renv) (''inbox/'' @ target @ ''/'' @ pre) False fs) fs of
               Inl e \<Rightarrow> Inl e
             | Inr entries \<Rightarrow> Inr (sort_desc ib_created_at entries)))))"

subsection \<open>cassetta\_pick\<close>

definition mcp_select_pick :: "mcp_env \<Rightarrow> int \<Rightarrow> str \<Rightarrow> str \<Rightarrow> fs \<Rightarrow> (str \<times> bundle_meta) io" where
  "mcp_select_pick env t target path fs =
     (let renv = mc_routes env in
      if path = ''latest'' then
        (case newest_bundle renv t (list_bundles (rt_root renv) (''inbox/'' @ target @ ''/'') False fs) [] None fs of
           Inl e \<Rightarrow> (Inl e, fs)
         | Inr None \<Rightarrow> (Inl (ValueError ''No files in inbox''), fs)
         | Inr (Some pm) \<Rightarrow> (Inr pm, fs))
      else
        (case mcp_validate env path of Inl e \<Rightarrow> (Inl e, fs) | Inr u \<Rightarrow>
        (case live_meta renv t (inbox_path target path) path fs of
           (Inl e, fs') \<Rightarrow> (Inl (tool_exc e), fs')
         | (Inr m, fs') \<Rightarrow> (Inr (inbox_path target path, m), fs'))))"

definition cassetta_pick :: "mcp_env \<Rightarrow> mcp_ctx \<Rightarrow> str \<Rightarrow> int \<Rightarrow> str \<Rightarrow> fs \<Rightarrow> read_body io" where
  "cassetta_pick env ctx uuid t path fs =
     (let target = (case mx_sender ctx of None \<Rightarrow> [] | Some l \<Rightarrow> l); renv = mc_routes env in
      if target = [] then (Inl (ValueError ''No sender identity available for inbox access''), fs)
      else
        (case mcp_enforce env ctx (''inbox:'' @ target) ''pick'' of Inl e \<Rightarrow> (Inl e, fs) | Inr u \<Rightarrow>
        (case mcp_select_pick env t target path fs of
           (Inl e, fs1) \<Rightarrow> (Inl e, fs1)
         | (Inr (bundle_path, m), fs1) \<Rightarrow>
            (case evaluate_download (rt_limits renv) (total_size (bm_files m)) of
               DownloadReference \<Rightarrow>
                 (case inbox_reference renv uuid t bundle_path m target True fs1 of
                    (Inl (BundleClaimedError p), fs2) \<Rightarrow> (Inl (ValueError (''File not found: '' @ path)), fs2)
                  | (Inl e, fs2) \<Rightarrow> (Inl e, fs2)
                  | (Inr r, fs2) \<Rightarrow> (Inr (ReferenceBody r), fs2))
             | DownloadInline \<Rightarrow>
                 (case collect_bundle_files (rt_root renv) bundle_path (bm_files m) fs1 of
                    Inl e \<Rightarrow> (Inl e, fs1)
                  | Inr payloads \<Rightarrow>
                     (case delete_bundle (rt_root renv) t bundle_path fs1 of
                        (r, fs2) \<Rightarrow>
                          if r \<noteq> Inr () \<and> r \<noteq> Inl FileNotFoundError then (Inl (projl r), fs2)
                          else (Inr (InlineBody (build_inline_envelope m payloads)), fs2)))))))"

subsection \<open>cassetta\_peek\<close>

text \<open>The bundle path and the resource of the three forms of the argument.\<close>

definition peek_target :: "mcp_env \<Rightarrow> str \<Rightarrow> exc + str \<times> str" where
  "peek_target env path =
     (if startswith path ''inbox/'' then
        (let remainder = removeprefix ''inbox/'' path in
         if CHR ''/'' \<notin> set remainder then Inl (ValueError (''Invalid path: '' @ path))
         else
           (let agent = takeWhile (\<lambda>c. c \<noteq> CHR ''/'') remainder;
                file_path = tl (dropWhile (\<lambda>c. c \<noteq> CHR ''/'') remainder)
            in case mcp_validate env file_path of Inl e \<Rightarrow> Inl e | Inr u \<Rightarrow> Inr (path, ''inbox:'' @ agent)))
      else if startswith path ''store/'' then
        (let file_path = removeprefix ''store/'' path
         in case mcp_validate env file_path of Inl e \<Rightarrow> Inl e | Inr u \<Rightarrow> Inr (path, ''files:'' @ file_path))
      else
        (case mcp_validate env path of Inl e \<Rightarrow> Inl e | Inr u \<Rightarrow> Inr (store_path path, ''files:'' @ path)))"

definition cassetta_peek :: "mcp_env \<Rightarrow> mcp_ctx \<Rightarrow> int \<Rightarrow> str \<Rightarrow> fs \<Rightarrow> exc + bundle_meta" where
  "cassetta_peek env ctx t path fs =
     (case peek_target env path of Inl e \<Rightarrow> Inl e | Inr (bundle_path, resource) \<Rightarrow>
     (case mcp_enforce env ctx resource ''peek'' of Inl e \<Rightarrow> Inl e | Inr u \<Rightarrow>
     (case read_bundle_meta (rt_root (mc_routes env)) bundle_path fs of
        Inl e \<Rightarrow> Inl (if e = FileNotFoundError then ValueError (''Not found: '' @ path) else e)
      | Inr m \<Rightarrow>
         (case is_expired_by_meta t (bm_created_at m) (rt_default_ttl (mc_routes env)) of
            Inl e \<Rightarrow> Inl e
          | Inr expired \<Rightarrow> if expired then Inl (ValueError (''Not found: '' @ path)) else Inr m))))"

subsection \<open>cassetta\_send\_init and cassetta\_send\_inline\<close>

datatype mcp_send_error = McpSend send_error | McpSendLimits str

definition mcp_send_env :: "mcp_env \<Rightarrow> send_env" where
  "mcp_send_env env =
     \<lparr>se_lib = rt_lib (mc_routes env), se_guess = mc_guess env, se_limits = rt_limits (mc_routes env),
      se_allowed_path_chars = mc_allowed_path_chars env, se_public_base_url = rt_public_base_url (mc_routes env),
      se_access = rt_access (mc_routes env), se_alias = mc_alias env\<rparr>"

definition cassetta_send_init ::
  "mcp_env \<Rightarrow> mcp_ctx \<Rightarrow> str \<Rightarrow> str \<Rightarrow> int \<Rightarrow> str \<Rightarrow> str \<Rightarrow> send_manifest \<Rightarrow> mcp_send_error + send_result" where
  "cassetta_send_init env ctx jti bundle_id t dest path manifest =
     (case prepare_send_init (mcp_send_env env) jti bundle_id (rt_jwt_primary_key (mc_routes env)) t dest path manifest
             (or_dev (mx_identity ctx)) (mx_sender ctx) True of
        Inr r \<Rightarrow> Inr r
      | Inl (SendLimits r) \<Rightarrow> Inl (McpSendLimits (limits_rejection_str r))
      | Inl e \<Rightarrow> Inl (McpSend e))"

datatype inline_encoding = EncUtf8 | EncBase64

record send_inline_file =
  si_name :: str
  si_content :: str
  si_encoding :: inline_encoding

definition violation :: "str \<Rightarrow> str \<Rightarrow> exc" where
  "violation reason name = ValueError (''manifest_violation: reason='' @ reason @ '', name='' @ repr_str name)"

definition decode_inline_content :: "send_inline_file \<Rightarrow> exc + bytes" where
  "decode_inline_content f =
     (case si_encoding f of
        EncUtf8 \<Rightarrow> Inr (si_content f)
      | EncBase64 \<Rightarrow>
         (case b64decode (si_content f) of
            None \<Rightarrow> Inl (violation ''missing_or_bad_encoding'' (si_name f))
          | Some b \<Rightarrow> Inr b))"

fun mcp_jwt_error :: "token_error \<Rightarrow> exc" where
  "mcp_jwt_error TokenExpired = ValueError ''unauthenticated: reason=expired''"
| "mcp_jwt_error TokenNotYetValid = ValueError ''unauthenticated: reason=immature''"
| "mcp_jwt_error TokenInvalidSignature = ValueError ''unauthenticated: reason=bad_signature''"
| "mcp_jwt_error (TokenMissingClaim c) = ValueError (''unauthenticated: reason=missing_claim, claim='' @ repr_str c)"
| "mcp_jwt_error (RevokedTokenError j) = ValueError ''unauthenticated: reason=revoked''"
| "mcp_jwt_error TokenDecodeError = ValueError ''unauthenticated: reason=invalid''"

text \<open>The loop over the files of the call: the dictionary of decoded contents.\<close>

fun decode_inline_files ::
  "manifest_file list \<Rightarrow> send_inline_file list \<Rightarrow> (str \<times> bytes) list \<Rightarrow> exc + (str \<times> bytes) list" where
  "decode_inline_files manifest_files [] decoded = Inr decoded"
| "decode_inline_files manifest_files (f # rest) decoded =
     (case declared_size manifest_files (si_name f) of
        None \<Rightarrow> Inl (violation ''extra_file'' (si_name f))
      | Some declared \<Rightarrow>
         (case decode_inline_content f of
            Inl e \<Rightarrow> Inl e
          | Inr b \<Rightarrow>
             if int (length b) \<noteq> declared then Inl (violation ''wrong_size'' (si_name f))
             else decode_inline_files manifest_files rest (AList.update (si_name f) b decoded)))"

text \<open>Everything before the bundle is opened.\<close>

definition check_send_inline ::
  "jwt_decode \<Rightarrow> int \<Rightarrow> int \<Rightarrow> jwt_slots \<Rightarrow> str \<Rightarrow> send_inline_file list
   \<Rightarrow> exc + str \<times> str \<times> str option \<times> manifest_file list \<times> (str \<times> bytes) list" where
  "check_send_inline decode now mono_t slots token files =
     (case fst (verify_slots decode noop_revocation_check now mono_t token slots) of
        Inl e \<Rightarrow> Inl (mcp_jwt_error e)
      | Inr claims \<Rightarrow>
         if map_of claims ''mode'' \<noteq> Some (JStr ''inline'') then Inl (ValueError ''unauthenticated: reason=wrong_mode'')
         else
     (case claims_manifest claims of Inl e \<Rightarrow> Inl e | Inr manifest_files \<Rightarrow>
     (case decode_inline_files manifest_files files [] of Inl e \<Rightarrow> Inl e | Inr decoded \<Rightarrow>
     (case sort (filter (\<lambda>n. map_of decoded n = None) (remdups (map mf_name manifest_files))) of
        first_missing # _ \<Rightarrow> Inl (violation ''missing_file'' first_missing)
      | [] \<Rightarrow>
     (case (map_of claims ''bundle_path'', map_of claims ''bundle_id'') of
        (None, _) \<Rightarrow> Inl (KeyError ''bundle_path'')
      | (_, None) \<Rightarrow> Inl (KeyError ''bundle_id'')
      | (Some bp, Some bid) \<Rightarrow>
         Inr (py_str bp, py_str bid, (case map_of claims ''sender'' of Some (JStr s) \<Rightarrow> Some s | _ \<Rightarrow> None),
              manifest_files, decoded))))))"

definition cassetta_send_inline ::
  "jwt_decode \<Rightarrow> str list \<Rightarrow> int \<Rightarrow> int \<Rightarrow> jwt_slots \<Rightarrow> str \<Rightarrow> send_inline_file list \<Rightarrow> fs \<Rightarrow> str io" where
  "cassetta_send_inline decode root t mono_t slots token files fs =
     (case check_send_inline decode (epoch t) mono_t slots token files of
        Inl e \<Rightarrow> (Inl e, fs)
      | Inr (bundle_path, bundle_id, sender, manifest_files, decoded) \<Rightarrow>
         (case open_bundle_write root t bundle_path fs of
            (Inl (BundlePathConflictError p k), fs1) \<Rightarrow> (Inl (ValueError (''bundle_path_conflict: kind='' @ kind_name k)), fs1)
          | (Inl FileExistsError, fs1) \<Rightarrow> (Inl (ValueError ''bundle_path_conflict: kind=occupied''), fs1)
          | (Inl e, fs1) \<Rightarrow> (Inl e, fs1)
          | (Inr w, fs1) \<Rightarrow>
             (case write_files t (map (\<lambda>f. (mf_name f, the (map_of decoded (mf_name f)))) manifest_files) w fs1 of
                (Inl e, fs2) \<Rightarrow> (Inl e, abort t w fs2)
              | (Inr w2, fs2) \<Rightarrow>
                 (case commit t (upload_meta t bundle_id sender manifest_files) w2 fs2 of
                    (Inl e, fs3) \<Rightarrow> (Inl e, abort t w2 fs3)
                  | (Inr w3, fs3) \<Rightarrow> (Inr bundle_id, fs3)))))"

subsection \<open>cassetta\_broadcast, cassetta\_agents, cassetta\_capabilities\<close>

definition broadcast_exc :: "broadcast_error \<Rightarrow> exc" where
  "broadcast_exc e =
     (case e of
        FanoutCapExceeded max_targets \<Rightarrow>
          ValueError (dumps (JObj [(''error'', JStr ''rate_limit''), (''reason'', JStr ''fanout_cap''),
                                   (''max_targets'', JInt max_targets)]))
      | BroadcastHttp h \<Rightarrow> tool_exc h
      | BroadcastLimits r \<Rightarrow> ValueError (limits_rejection_str r)
      | RateLimited route \<Rightarrow> ValueError ''rate_limit'')"

definition broadcast_text :: "str \<Rightarrow> broadcast_response \<Rightarrow> str" where
  "broadcast_text path r =
     (let q = [CHR 0x27] in
      if br_delivered_to r = [] \<and> br_denied r = [] \<and> br_failed r = []
      then ''Broadcast '' @ q @ path @ q @ '': no visible recipients''
      else ''Broadcast '' @ q @ path @ q @ '' to '' @ show_int (int (length (br_delivered_to r))) @ '' recipients (''
           @ show_int (int (length (br_denied r))) @ '' denied, '' @ show_int (int (length (br_failed r))) @ '' failed): ''
           @ join_with '', '' (br_delivered_to r))"

text \<open>
  \<open>remote\<close> is the address of the HTTP request behind the call, when there is one, and \<open>expiry\<close> the
  window of its bucket.
\<close>

definition cassetta_broadcast ::
  "mcp_env \<Rightarrow> mcp_ctx \<Rightarrow> 'l rate_limiter \<Rightarrow> (nat \<Rightarrow> str) \<Rightarrow> int \<Rightarrow> str option \<Rightarrow> int option \<Rightarrow> key_store \<Rightarrow> str \<Rightarrow> str \<Rightarrow> str
   \<Rightarrow> 'l \<Rightarrow> fs \<Rightarrow> (exc + str) \<times> 'l \<times> fs" where
  "cassetta_broadcast env ctx hit new_id t remote expiry ks path content files ls fs =
     (let benv = mc_broadcast env;
          (ok, ls') = (case remote of None \<Rightarrow> (True, ls)
             | Some addr \<Rightarrow>
                (case check_rate_limit_imperative hit addr (bc_rate_limit_broadcast benv) Broadcast ls of
                   (ok, recorded, ls1) \<Rightarrow> (ok, ls1)))
      in if \<not> ok
         then (Inl (ValueError (dumps (JObj [(''error'', JStr ''rate_limit''), (''retry_after'', JInt (retry_after_seconds expiry))]))), ls', fs)
         else
     (case mcp_validate env path of Inl e \<Rightarrow> (Inl e, ls', fs) | Inr u \<Rightarrow>
     (case payload_arg path content files of Inl e \<Rightarrow> (Inl e, ls', fs) | Inr parsed \<Rightarrow>
     (case evaluate_upload_or_raise (rt_limits (mc_routes env)) (build_upload_manifest parsed) of
        Inl r \<Rightarrow> (Inl (ValueError (limits_rejection_str r)), ls', fs)
      | Inr u \<Rightarrow>
         (let sender = mx_sender ctx;
              write = (\<lambda>p bid. mcp_write_bundle (bc_guess benv) (bc_root benv) t p parsed sender ''application/octet-stream'' bid)
          in case fan_out benv write new_id t ks (or_dev (mx_identity ctx)) sender path fs of
               (Inl e, fs') \<Rightarrow> (Inl (broadcast_exc e), ls', fs')
             | (Inr r, fs') \<Rightarrow> (Inr (broadcast_text path r), ls', fs'))))))"

definition cassetta_agents :: "mcp_env \<Rightarrow> mcp_ctx \<Rightarrow> key_store \<Rightarrow> exc + agent_entry list" where
  "cassetta_agents env ctx ks = list_agents (bc_policy (mc_broadcast env)) ks (or_dev (mx_identity ctx))"

definition cassetta_capabilities :: "mcp_env \<Rightarrow> json" where
  "cassetta_capabilities env = build_capabilities_document (rt_limits (mc_routes env))"

subsection \<open>The tools and the routes\<close>

definition as_tool :: "('a \<Rightarrow> 'b) \<Rightarrow> 'a http \<Rightarrow> 'b io" where
  "as_tool f r = (map_sum tool_exc f (fst r), snd r)"

lemma as_tool_simps [simp]:
  "as_tool f (Inl e, fs) = (Inl (tool_exc e), fs)" "as_tool f (Inr x, fs) = (Inr (f x), fs)"
  by (simp_all add: as_tool_def)

lemma tool_exc_simps [simp]: "tool_exc (HttpError n m) = ValueError m" "tool_exc (HttpRaised e) = e"
  by (simp_all add: tool_exc_def)

lemma mcp_enforce_route:
  "mcp_enforce env ctx r a = map_sum tool_exc id (enforce (mc_routes env) (or_dev (mx_identity ctx)) r a)"
  by (simp add: mcp_enforce_def enforce_def)

lemma mcp_select_route:
  assumes "path = ''latest'' \<or> mcp_validate env path = Inr ()"
  shows "mcp_select_pick env t target path fs = as_tool id (select_pick (mc_routes env) t target path fs)"
  using assms by (auto simp: mcp_select_pick_def select_pick_def split: sum.splits option.splits prod.splits)

lemma cassetta_pick_route:
  assumes s: "mx_sender ctx = Some a" "a \<noteq> []" and p: "path = ''latest'' \<or> mcp_validate env path = Inr ()"
  shows "cassetta_pick env ctx uuid t path fs
    = as_tool rr_body (pick_inbox_file (mc_routes env) uuid t (or_dev (mx_identity ctx)) a path fs)"
proof (cases "enforce (mc_routes env) (or_dev (mx_identity ctx)) (''inbox:'' @ a) ''pick''")
  case (Inl e)
  then show ?thesis using s by (simp add: cassetta_pick_def pick_inbox_file_def mcp_enforce_route)
next
  case (Inr u)
  obtain x fs1 where sel: "select_pick (mc_routes env) t a path fs = (x, fs1)" by (cases "select_pick (mc_routes env) t a path fs")
  have ms: "mcp_select_pick env t a path fs = (map_sum tool_exc id x, fs1)"
    by (simp add: mcp_select_route [OF p] sel as_tool_def)
  show ?thesis
  proof (cases x)
    case (Inl e)
    then show ?thesis using s Inr sel ms by (simp add: cassetta_pick_def pick_inbox_file_def mcp_enforce_route)
  next
    case (Inr bm)
    obtain bp m where bm: "bm = (bp, m)" by (cases bm)
    show ?thesis
      using s \<open>enforce _ _ _ _ = Inr u\<close> sel ms Inr bm
      by (auto simp: cassetta_pick_def pick_inbox_file_def mcp_enforce_route Let_def
          split: download_mode.splits sum.splits prod.splits exc.splits if_splits)
  qed
qed

lemma mcp_entries_route:
  "mcp_entries env t (''inbox/'' @ a @ ''/'') True hidden refs fs = inbox_entries env t a hidden refs fs"
  by (induction refs) (auto split: sum.splits bool.splits)

lemma cassetta_inbox_route:
  assumes "inbox_target ctx agent = a" "a \<noteq> []"
  shows "cassetta_inbox env ctx t agent pre fs
    = map_sum tool_exc id (list_inbox (mc_routes env) t (or_dev (mx_identity ctx)) a pre fs)"
  unfolding cassetta_inbox_def list_inbox_def assms(1) Let_def mcp_enforce_route mcp_entries_route
  using assms(2) by (auto split: sum.splits)

lemma cassetta_get_route:
  assumes "mcp_validate env path = Inr ()" "validated path = Inr ()"
  shows "cassetta_get env ctx uuid t path fs
    = as_tool rr_body (get_store_file (mc_routes env) uuid t (or_dev (mx_identity ctx)) path fs)"
  using assms unfolding cassetta_get_def get_store_file_def mcp_enforce_route Let_def
  by (auto split: sum.splits prod.splits download_mode.splits)

lemma cassetta_delete_route:
  assumes "mcp_validate env path = Inr ()" "validated path = Inr ()"
  shows "cassetta_delete env ctx t path fs
    = as_tool (\<lambda>p. ''Deleted '' @ p) (delete_file (mc_routes env) t (or_dev (mx_identity ctx)) path fs)"
  using assms unfolding cassetta_delete_def delete_file_def mcp_enforce_route
  by (auto split: sum.splits prod.splits)

subsection \<open>Writing\<close>

definition named_files :: "(str \<times> bytes) list \<Rightarrow> mcp_file list" where
  "named_files files = map (\<lambda>(n, b). (JStr n, b)) files"

lemma mcp_write_files_named: "mcp_write_files t (named_files files) w fs = write_files t files w fs"
proof (induction files arbitrary: w fs)
  case (Cons f files)
  then show ?case
    by (cases f) (auto simp: named_files_def truthy_def write_file_def split: sum.splits prod.splits)
qed (simp add: named_files_def)

lemma mcp_write_bundle_publish:
  "mcp_write_bundle guess root t p (named_files files) sender ct bid fs
    = publish root t p files (mcp_meta guess t sender ct bid (named_files files)) fs"
  by (auto simp: mcp_write_bundle_def publish_def mcp_write_files_named split: sum.splits prod.splits)

lemma mcp_meta_declares: "declares (mcp_meta guess t sender ct bid (named_files files)) files"
  by (auto simp: declares_def mcp_meta_def named_files_def py_str_def comp_def)

text \<open>Sending inline is publishing, once the files of the call are accepted.\<close>

lemma send_inline_publish:
  assumes "check_send_inline decode (epoch t) mono_t slots tok files = Inr (bp, bid, sender, mfs, decoded)"
    and "publish root t bp (map (\<lambda>f. (mf_name f, the (map_of decoded (mf_name f)))) mfs) (upload_meta t bid sender mfs) fs = (r, fs')"
  shows "snd (cassetta_send_inline decode root t mono_t slots tok files fs) = fs'"
    and "r = Inr () \<Longrightarrow> fst (cassetta_send_inline decode root t mono_t slots tok files fs) = Inr bid"
    and "r = Inl e \<Longrightarrow> \<exists>e'. fst (cassetta_send_inline decode root t mono_t slots tok files fs) = Inl e'"
  using assms by (auto simp: cassetta_send_inline_def publish_def split: sum.splits prod.splits exc.splits)

lemma mcp_validate_path: "mcp_validate env path = Inr () \<longleftrightarrow> (\<exists>u. validate_path path (mc_allowed_path_chars env) = Inr u)"
  by (auto simp: mcp_validate_def split: sum.splits)

lemma store_path_good: "mcp_validate env path = Inr () \<Longrightarrow> good_key (store_path path)"
proof -
  assume "mcp_validate env path = Inr ()"
  then have "good_key path" using validate_path_good_key by (auto simp: mcp_validate_path)
  then show ?thesis
    using good_key_join [of "''store''" path] by (simp add: store_path_def good_key_def) (simp add: path_parts_def)
qed

text \<open>What \<^verbatim>\<open>cassetta_put\<close> does to the store once its arguments are accepted.\<close>

lemma cassetta_put_accepted:
  assumes "mcp_validate env path = Inr ()" "\<not> startswith path ''inbox/''" "\<not> startswith path ''store/''"
    and "payload_arg path content files = Inr (named_files fl)"
    and "evaluate_upload_or_raise (rt_limits (mc_routes env)) (build_upload_manifest (named_files fl)) = Inr ()"
    and "rt_access (mc_routes env) (or_dev (mx_identity ctx)) (''files:'' @ path) ''write''"
    and d: "delete_bundle (rt_root (mc_routes env)) t (store_path path) fs = (r, fs1)" "r \<in> {Inr (), Inl FileNotFoundError}"
    and p: "publish (rt_root (mc_routes env)) t (store_path path) fl
        (mcp_meta (mc_guess env) t None ''application/octet-stream'' bid (named_files fl)) fs1 = (r2, fs2)"
  shows "snd (cassetta_put env ctx bid t path content files fs) = fs2"
    and "r2 = Inr () \<Longrightarrow> \<exists>msg. fst (cassetta_put env ctx bid t path content files fs) = Inr msg"
  using assms unfolding cassetta_put_def
  by (auto simp: mcp_write_bundle_publish mcp_enforce_def Let_def split: sum.splits exc.splits if_splits)

end
