(* ===== verification/Tool_Properties.thy ===== *)
theory Tool_Properties
  imports Access_Properties Mcp
begin

text \<open>
  Properties of the MCP tools: they agree with the routes, a payload sent inline or put is read
  back, and a call that is refused changes nothing.
\<close>

section \<open>Sending inline\<close>

text \<open>The files of a call carry a payload: each decodes to the bytes of its name.\<close>

definition carries :: "send_inline_file \<Rightarrow> str \<times> bytes \<Rightarrow> bool" where
  "carries f nb \<longleftrightarrow> si_name f = fst nb \<and> decode_inline_content f = Inr (snd nb)"

lemma carries_base64: "carries \<lparr>si_name = n, si_content = b64encode b, si_encoding = EncBase64\<rparr> (n, b)"
  by (simp add: carries_def decode_inline_content_def b64decode_b64encode)

lemma carries_all:
  "list_all2 carries (map (\<lambda>(n, b). \<lparr>si_name = n, si_content = b64encode b, si_encoding = EncBase64\<rparr>) payload) payload"
  by (induction payload) (auto simp: carries_base64)

lemma decode_inline_carried:
  "list_all2 carries files payload \<Longrightarrow> \<forall>(n, b) \<in> set payload. declared_size mfs n = Some (int (length b))
   \<Longrightarrow> distinct (map fst payload) \<Longrightarrow> fst ` set acc \<inter> fst ` set payload = {}
   \<Longrightarrow> \<exists>decoded. decode_inline_files mfs files acc = Inr decoded
      \<and> map_of decoded = map_of acc ++ map_of payload"
proof (induction files payload arbitrary: acc rule: list_all2_induct)
  case Nil
  then show ?case by simp
next
  case (Cons f files nb payload)
  obtain n b where nb: "nb = (n, b)" by (cases nb)
  from Cons.hyps(1) have f: "si_name f = n" "decode_inline_content f = Inr b" by (simp_all add: carries_def nb)
  let ?acc = "AList.update n b acc"
  have "fst ` set ?acc \<inter> fst ` set payload = {}"
    using Cons.prems(2,3) nb by (auto simp: dom_update)
  moreover have "\<forall>(n, b) \<in> set payload. declared_size mfs n = Some (int (length b))" "distinct (map fst payload)"
    using Cons.prems(1,2) by auto
  ultimately obtain decoded where d: "decode_inline_files mfs files ?acc = Inr decoded"
    "map_of decoded = map_of ?acc ++ map_of payload" using Cons.IH [of ?acc] by blast
  have "map_of payload n = None" using Cons.prems(2) nb by (simp add: map_of_eq_None_iff)
  then have "map_of ?acc ++ map_of payload = map_of acc ++ map_of (nb # payload)"
    by (auto simp: map_add_def update_conv' nb split: option.splits)
  moreover have "decode_inline_files mfs (f # files) acc = Inr decoded" using d(1) Cons.prems(1) f nb by simp
  ultimately show ?case using d(2) by metis
qed

lemma declared_size_of:
  assumes "map (\<lambda>f. (mf_name f, mf_size f)) mfs = map (\<lambda>(n, b). (n, int (length b))) payload" "distinct (map fst payload)"
  shows "\<forall>(n, b) \<in> set payload. declared_size mfs n = Some (int (length b))"
proof -
  have d: "distinct (map fst (rev (map (\<lambda>(n, b). (n, int (length b))) payload)))"
    using assms(2) by (simp add: rev_map [symmetric] comp_def split_def)
  show ?thesis
    unfolding declared_size_def assms(1) using d by (auto intro!: map_of_is_SomeI)
qed

lemma check_send_inline_minted:
  assumes lib: "lib_laws lib" and t: "iat \<le> now" "now < iat + ttl" and slots: "js_primary slots = key"
    and tok: "tok = sign (jl_encode lib) jti (upload_claims bp bid sender rec InlineMode man iat ttl) key"
    and m: "map (\<lambda>f. (mf_name f, mf_size f)) (um_files man) = map (\<lambda>(n, b). (n, int (length b))) payload"
      "distinct (map fst payload)" "list_all2 carries files payload"
  shows "\<exists>decoded. check_send_inline (jl_decode lib) now mono_t slots tok files = Inr (bp, bid, Some sender, um_files man, decoded)
    \<and> map (\<lambda>f. (mf_name f, the (map_of decoded (mf_name f)))) (um_files man) = payload"
proof -
  let ?c = "with_jti jti (upload_claims bp bid sender rec InlineMode man iat ttl)"
  have j: "claim_str ?c ''jti'' = jti" by (simp add: claim_str_JStr upload_claims_lookup)
  have "verify (jl_decode lib) noop_revocation_check now tok key sec = Inr ?c" for sec
    unfolding tok sign_def
    by (rule verify_primary) (use lib check_upload_claims [OF t] claims_ok_upload in \<open>simp_all add: lib_laws_def noop_revocation_check_def\<close>)
  then have v: "fst (verify_slots (jl_decode lib) noop_revocation_check now mono_t tok slots) = Inr ?c"
    using slots by (simp add: verify_slots_def case_prod_beta)
  obtain decoded where d: "decode_inline_files (um_files man) files [] = Inr decoded"
    "\<forall>n. map_of decoded n = map_of payload n"
    using decode_inline_carried [OF m(3) declared_size_of [OF m(1,2)] m(2), of "[]"] by auto
  have names: "map mf_name (um_files man) = map fst payload" using arg_cong [OF m(1), of "map fst"] by (simp add: comp_def split_def)
  then have "mf_name ` set (um_files man) = fst ` set payload" by (metis image_set)
  then have "filter (\<lambda>n. map_of decoded n = None) (remdups (map mf_name (um_files man))) = []"
    using d(2) by (auto simp: filter_empty_conv map_of_eq_None_iff)
  moreover have "map_of ?c ''mode'' = Some (JStr ''inline'')" "map_of ?c ''bundle_path'' = Some (JStr bp)"
    "map_of ?c ''bundle_id'' = Some (JStr bid)" "map_of ?c ''sender'' = Some (JStr sender)"
    unfolding upload_claims_lookup by (simp_all add: upload_claims_def mode_name_def)
  moreover have "map (\<lambda>f. (mf_name f, the (map_of decoded (mf_name f)))) (um_files man) = payload"
    using declared_content [OF m(1,2)] d(2) by simp
  ultimately show ?thesis
    unfolding check_send_inline_def v sum.case claims_manifest_upload d(1) by (simp add: py_str_def)
qed

lemma cassetta_send_init_Inr:
  assumes c: "cassetta_send_init env ctx jti bid t dest path raw = Inr r"
    and r: "resolve_recipient (mc_alias env) dest (mx_sender ctx) = Inr rec"
  shows "sr_token r = sign (jl_encode (rt_lib (mc_routes env))) jti
      (upload_claims (inbox_path rec path) bid (or_label (mx_sender ctx) (id_label (or_dev (mx_identity ctx)))) rec (sr_mode r)
        (session_manifest (mcp_send_env env) raw) (epoch t) (ts_upload_token_ttl (ttls (rt_limits (mc_routes env)))))
      (rt_jwt_primary_key (mc_routes env))"
    and "sr_mode r = InlineMode \<longleftrightarrow> (case max_inline_size (rt_limits (mc_routes env)) of None \<Rightarrow> True | Some n \<Rightarrow> total_size (sm_files raw) \<le> n)"
proof -
  let ?env = "mcp_send_env env"
  from c have p: "prepare_send_init ?env jti bid (rt_jwt_primary_key (mc_routes env)) t dest path raw
      (or_dev (mx_identity ctx)) (mx_sender ctx) True = Inr r"
    by (auto simp: cassetta_send_init_def split: sum.splits send_error.splits)
  obtain parsed where mf: "manifest_from_input raw = Inr parsed"
    using p by (auto simp: prepare_send_init_def split: sum.splits)
  then have parsed: "parsed = \<lparr>um_file_count = int (length (sm_files raw)), um_files = sm_files raw\<rparr>"
    by (auto simp: manifest_from_input_def Let_def split: if_splits)
  have al: "resolve_recipient (se_alias ?env) dest (mx_sender ctx) = Inr rec" using r by (simp add: mcp_send_env_def)
  obtain mode where k: "evaluate_upload (se_limits ?env) parsed = Accept mode"
    "r = mint_upload ?env jti bid (rt_jwt_primary_key (mc_routes env)) t rec path
       (or_label (mx_sender ctx) (id_label (or_dev (mx_identity ctx)))) mode parsed"
    using p mf al by (auto simp: prepare_send_init_def split: sum.splits if_splits upload_decision.splits)
  have md: "sr_mode r = mode" by (simp add: k(2) mint_upload_def Let_def)
  show "sr_token r = sign (jl_encode (rt_lib (mc_routes env))) jti
      (upload_claims (inbox_path rec path) bid (or_label (mx_sender ctx) (id_label (or_dev (mx_identity ctx)))) rec (sr_mode r)
        (session_manifest ?env raw) (epoch t) (ts_upload_token_ttl (ttls (rt_limits (mc_routes env)))))
      (rt_jwt_primary_key (mc_routes env))"
    unfolding md by (simp add: k(2) mint_upload_def Let_def inbox_path_def session_manifest_def parsed mcp_send_env_def)
  show "sr_mode r = InlineMode \<longleftrightarrow> (case max_inline_size (rt_limits (mc_routes env)) of None \<Rightarrow> True | Some n \<Rightarrow> total_size (sm_files raw) \<le> n)"
    using k(1) unfolding md
    by (auto simp: evaluate_upload_def check_manifest_against_limits_def advertise_limits_def parsed mcp_send_env_def Let_def
        split: if_splits option.splits)
qed

text \<open>
  C14. End to end over MCP. \<^verbatim>\<open>cassetta_send_init\<close> answers inline exactly when the payload fits; a call of
  \<^verbatim>\<open>cassetta_send_inline\<close> with its token, carrying the declared files in any encoding, stores the
  bundle at a free path, and the recipient's \<^verbatim>\<open>cassetta_pick\<close> returns the payload byte for byte and
  consumes it.
\<close>

theorem send_inline_pick:
  assumes init: "cassetta_send_init env ctx jti bid t dest path raw = Inr r" "sr_mode r = InlineMode"
    and rec: "resolve_recipient (mc_alias env) dest (mx_sender ctx) = Inr rec" "rec \<noteq> []"
    and lib: "lib_laws (rt_lib (mc_routes env))" "js_primary slots = rt_jwt_primary_key (mc_routes env)"
    and tm: "epoch t \<le> epoch t'" "epoch t' < epoch t + ts_upload_token_ttl (ttls (rt_limits (mc_routes env)))"
    and files: "map (\<lambda>f. (mf_name f, mf_size f)) (sm_files raw) = map (\<lambda>(n, b). (n, int (length b))) payload"
      "payload_ok payload" "list_all2 carries files payload"
    and fs: "store_invar (rt_root (mc_routes env)) fs" "free_path (rt_root (mc_routes env)) fs (inbox_path rec path)"
    and pick: "mx_sender ctx' = Some rec" "path \<noteq> ''latest''" "mcp_validate env path = Inr ()"
      "rt_access (mc_routes env) (or_dev (mx_identity ctx')) (''inbox:'' @ rec) ''pick''"
      "is_expired_by_meta t'' (isoformat (utcfromtimestamp t')) (rt_default_ttl (mc_routes env)) = Inr False"
  shows "\<exists>fs1 e fs2.
      cassetta_send_inline (jl_decode (rt_lib (mc_routes env))) (rt_root (mc_routes env)) t' mono_t slots (sr_token r) files fs
        = (Inr bid, fs1)
      \<and> cassetta_pick env ctx' uuid t'' path fs1 = (Inr (InlineBody e), fs2)
      \<and> map decode_entry (ie_files e) = map Some payload
      \<and> cassetta_pick env ctx' uuid' later path fs2 = (Inl (ValueError (''File not found: '' @ path)), fs2)"
proof -
  let ?R = "mc_routes env" and ?p = "inbox_path rec path"
  let ?man = "session_manifest (mcp_send_env env) raw"
  let ?snd = "or_label (mx_sender ctx) (id_label (or_dev (mx_identity ctx)))"
  let ?m = "upload_meta t' bid (Some ?snd) (um_files ?man)"
  have man: "map (\<lambda>f. (mf_name f, mf_size f)) (um_files ?man) = map (\<lambda>(n, b). (n, int (length b))) payload"
    using files(1) by (simp add: session_manifest_def enrich_manifest_mimes_def comp_def)
  have dist: "distinct (map fst payload)" using files(2) by (simp add: payload_ok_def layout_ok_def)
  note tok = cassetta_send_init_Inr [OF init(1) rec(1)]
  obtain decoded where chk: "check_send_inline (jl_decode (rt_lib ?R)) (epoch t') mono_t slots (sr_token r) files
      = Inr (?p, bid, Some ?snd, um_files ?man, decoded)"
    "map (\<lambda>f. (mf_name f, the (map_of decoded (mf_name f)))) (um_files ?man) = payload"
    using check_send_inline_minted [OF lib(1) tm lib(2) tok(1) [unfolded init(2)] man dist files(3)] by blast
  have d: "declares ?m payload" "total_size (bm_files ?m) = total_size (sm_files raw)" by (rule session_declares [OF files(1)])+
  obtain fs1 where p: "publish (rt_root ?R) t' ?p payload ?m fs = (Inr (), fs1)" "store_invar (rt_root ?R) fs1"
    "meta_at (rt_root ?R) fs1 ?p = Some ?m" "\<forall>(n, b) \<in> set payload. file_at (rt_root ?R) fs1 ?p n = Some b"
    using publish_free [OF fs files(2) d(1)] by blast
  have s: "cassetta_send_inline (jl_decode (rt_lib ?R)) (rt_root ?R) t' mono_t slots (sr_token r) files fs = (Inr bid, fs1)"
    using send_inline_publish(1,2) [OF chk(1), unfolded chk(2), OF p(1)] by (simp add: prod_eq_iff)
  have g: "good_key ?p" using fs(2) by (simp add: free_path_def)
  have x: "is_expired_by_meta t'' (bm_created_at ?m) (rt_default_ttl ?R) = Inr False" using pick(5) by (simp add: upload_meta_def)
  have inl: "evaluate_download (rt_limits ?R) (total_size (bm_files ?m)) = DownloadInline"
    using tok(2) init(2) d(2) by (auto simp: evaluate_download_def split: option.splits)
  obtain rr e fs2 where k: "pick_inbox_file ?R uuid t'' (or_dev (mx_identity ctx')) rec path fs1 = (Inr rr, fs2)"
    "rr_body rr = InlineBody e" "map decode_entry (ie_files e) = map Some payload"
    "read_bundle_meta (rt_root ?R) ?p fs2 = Inl FileNotFoundError"
    using pick_payload [OF p(2) g pick(2,4) p(3) x inl d(1) dist p(4), of uuid] by auto
  note eq = cassetta_pick_route [OF pick(1) rec(2), of path env]
  show ?thesis using s k eq pick(3) pick_absent [OF k(4) pick(4,2)] by auto
qed

text \<open>The environments of the examples, as the MCP server sees them.\<close>

definition ex_mcp :: mcp_env where
  "ex_mcp = \<lparr>mc_routes = ex_env (Some 100), mc_guess = (\<lambda>n. None), mc_allowed_path_chars = None, mc_alias = None,
     mc_broadcast = \<lparr>bc_root = ex_root, bc_guess = (\<lambda>n. None), bc_allowed_path_chars = None, bc_limits = ex_limits (Some 100),
       bc_rate_limit_broadcast = ''10/minute'', bc_max_targets = 2, bc_policy = default_access_policy,
       bc_alias = (\<lambda>n s. Inr (Some [''inbox/'' @ n @ ''/'']))\<rparr>\<rparr>"

definition ex_ctx :: "str \<Rightarrow> mcp_ctx" where
  "ex_ctx l = \<lparr>mx_identity = Some (KeyIdentity l), mx_sender = Some l\<rparr>"

definition ex_inline :: send_result where
  "ex_inline = (case cassetta_send_init ex_mcp (ex_ctx ''h:q'') ''j1'' ''b1'' 0 ''h:p'' ''x'' ex_raw of Inr r \<Rightarrow> r)"

definition ex_inline_files :: "send_inline_file list" where
  "ex_inline_files = map (\<lambda>(n, b). \<lparr>si_name = n, si_content = b64encode b, si_encoding = EncBase64\<rparr>) ex_files"

lemma ex_mcp_simps [simp]:
  "mc_routes ex_mcp = ex_env (Some 100)" "mc_alias ex_mcp = None" "mx_sender (ex_ctx l) = Some l"
  "mx_identity (ex_ctx l) = Some (KeyIdentity l)" "mc_guess ex_mcp = (\<lambda>n. None)"
  "mc_allowed_path_chars ex_mcp = None"
  by (simp_all add: ex_mcp_def ex_ctx_def)

lemma ex_inline: "cassetta_send_init ex_mcp (ex_ctx ''h:q'') ''j1'' ''b1'' 0 ''h:p'' ''x'' ex_raw = Inr ex_inline"
  "sr_mode ex_inline = InlineMode"
proof -
  have "validate_manifest \<lparr>um_file_count = 2, um_files = ex_manifest\<rparr> = Inr ()" "validate_path ''x'' None = Inr ()"
    "evaluate_upload (ex_limits (Some 100)) \<lparr>um_file_count = 2, um_files = ex_manifest\<rparr> = Accept InlineMode"
    by code_simp+
  moreover have "manifest_from_input ex_raw = Inr \<lparr>um_file_count = 2, um_files = ex_manifest\<rparr>"
    by (simp add: manifest_from_input_def ex_raw_def ex_manifest_def)
  ultimately have "\<exists>r. cassetta_send_init ex_mcp (ex_ctx ''h:q'') ''j1'' ''b1'' 0 ''h:p'' ''x'' ex_raw = Inr r \<and> sr_mode r = InlineMode"
    by (simp add: cassetta_send_init_def prepare_send_init_def mcp_send_env_def resolve_recipient_def ex_env_simps mint_upload_def Let_def or_dev_def)
  then show "cassetta_send_init ex_mcp (ex_ctx ''h:q'') ''j1'' ''b1'' 0 ''h:p'' ''x'' ex_raw = Inr ex_inline"
    "sr_mode ex_inline = InlineMode" by (auto simp: ex_inline_def)
qed

theorem send_inline_pick_witness:
  "\<exists>fs1 e fs2.
      cassetta_send_inline (jl_decode ex_lib) ex_root 0 0 ex_slots (sr_token ex_inline) ex_inline_files ex_fs0 = (Inr ''b1'', fs1)
      \<and> cassetta_pick ex_mcp (ex_ctx ''h:p'') ''u'' 5000000 ''x'' fs1 = (Inr (InlineBody e), fs2)
      \<and> map decode_entry (ie_files e) = map Some ex_files"
proof -
  have h: "resolve_recipient None ''h:p'' (Some ''h:q'') = Inr ''h:p''"
    "map (\<lambda>f. (mf_name f, mf_size f)) ex_manifest = map (\<lambda>(n, b). (n, int (length b))) ex_files"
    "list_all2 carries ex_inline_files ex_files" "mcp_validate ex_mcp ''x'' = Inr ()"
       apply (simp add: resolve_recipient_def)
      apply (simp add: ex_manifest_def ex_files_def)
     apply (unfold ex_inline_files_def, rule carries_all)
    apply code_simp
    done
  note w = send_inline_pick [where slots = ex_slots and t' = 0 and t'' = 5000000 and fs = ex_fs0 and ctx' = "ex_ctx ''h:p''"
      and mono_t = 0 and uuid = "''u''" and uuid' = "''u''" and later = 0 and payload = ex_files and rec = "''h:p''",
      OF ex_inline, unfolded ex_mcp_simps ex_env_simps ex_inbox_path]
  obtain fs1 e fs2 where "cassetta_send_inline (jl_decode ex_lib) ex_root 0 0 ex_slots (sr_token ex_inline) ex_inline_files ex_fs0 = (Inr ''b1'', fs1)"
    "cassetta_pick ex_mcp (ex_ctx ''h:p'') ''u'' 5000000 ''x'' fs1 = (Inr (InlineBody e), fs2)"
    "map decode_entry (ie_files e) = map Some ex_files"
    using w [OF h(1) _ ex_lib_laws refl _ _ h(2) ex_free(2) h(3) ex_ok(1) ex_free(1) refl _ h(4)]
    by (auto simp: ex_limits_facts ex_fresh)
  then show ?thesis by blast
qed

section \<open>Tools and routes\<close>



section \<open>The store\<close>

text \<open>
  C36. Put and get. A payload of text accepted by \<^verbatim>\<open>cassetta_put\<close> at a free path is stored, and
  \<^verbatim>\<open>cassetta_get\<close> returns it, name and bytes, for as long as it has not expired.
\<close>

theorem put_get_roundtrip:
  assumes args: "mcp_validate env path = Inr ()" "validated path = Inr ()" "\<not> startswith path ''inbox/''" "\<not> startswith path ''store/''"
      "content \<noteq> []"
    and name: "n = last (split_on (CHR ''/'') path)" "payload_ok [(n, content)]"
    and lim: "evaluate_upload_or_raise (rt_limits (mc_routes env)) (build_upload_manifest [(JStr n, content)]) = Inr ()"
      "evaluate_download (rt_limits (mc_routes env)) (int (length content)) = DownloadInline"
    and acc: "rt_access (mc_routes env) (or_dev (mx_identity ctx)) (''files:'' @ path) ''write''"
      "rt_access (mc_routes env) (or_dev (mx_identity ctx)) (''files:'' @ path) ''read''"
    and fs: "store_invar (rt_root (mc_routes env)) fs" "free_path (rt_root (mc_routes env)) fs (store_path path)"
    and x: "is_expired_by_meta t' (isoformat (utcfromtimestamp t)) (rt_default_ttl (mc_routes env)) = Inr False"
  shows "\<exists>msg fs1 e. cassetta_put env ctx bid t path content [] fs = (Inr msg, fs1)
    \<and> cassetta_get env ctx uuid t' path fs1 = (Inr (InlineBody e), fs1)
    \<and> map decode_entry (ie_files e) = [Some (n, content)]"
proof -
  let ?R = "mc_routes env" and ?p = "store_path path"
  let ?m = "mcp_meta (mc_guess env) t None ''application/octet-stream'' bid (named_files [(n, content)])"
  have nf: "named_files [(n, content)] = [(JStr n, content)]" by (simp add: named_files_def)
  have del: "delete_bundle (rt_root ?R) t ?p fs = (Inl FileNotFoundError, fs)"
    using fs is_dir_clean [of fs "resolve (rt_root ?R) ?p"] clean_resolve [of "rt_root ?R" ?p]
    by (auto simp: delete_bundle_def free_path_def store_invar_def)
  obtain fs1 where p: "publish (rt_root ?R) t ?p [(n, content)] ?m fs = (Inr (), fs1)" "store_invar (rt_root ?R) fs1"
    "meta_at (rt_root ?R) fs1 ?p = Some ?m" "file_at (rt_root ?R) fs1 ?p n = Some content"
    using publish_free [OF fs name(2) mcp_meta_declares [of "mc_guess env" t None "''application/octet-stream''" bid], of t] by auto
  have pl: "payload_arg path content [] = Inr (named_files [(n, content)])"
    unfolding nf using args(5) name(1) by (simp add: payload_arg_def)
  note put = cassetta_put_accepted [OF args(1,3,4) pl lim(1) [folded nf] acc(1) del _ p(1)]
  obtain msg where w: "cassetta_put env ctx bid t path content [] fs = (Inr msg, fs1)"
    using put by (cases "cassetta_put env ctx bid t path content [] fs") auto
  have lm: "live_meta ?R t' ?p path fs1 = (Inr ?m, fs1)"
    using x by (intro live_meta_fresh [OF p(3) refl]) (simp add: mcp_meta_def)
  have col: "collect_bundle_files (rt_root ?R) ?p (bm_files ?m) fs1 = Inr [(n, content)]"
    using collect_bundle_files_ok [of "bm_files ?m" "rt_root ?R" fs1 ?p "\<lambda>_. content"] p(4)
    by (simp add: mcp_meta_def nf py_str_def)
  have "cassetta_get env ctx uuid t' path fs1 = (Inr (InlineBody (build_inline_envelope ?m [(n, content)])), fs1)"
    using args(1) acc(2) lm col lim(2) by (simp add: cassetta_get_def mcp_enforce_def total_size_def mcp_meta_def nf)
  moreover have "map decode_entry (ie_files (build_inline_envelope ?m [(n, content)])) = [Some (n, content)]"
    using decode_inline_entry by (simp add: build_inline_envelope_def)
  ultimately show ?thesis using w by (intro exI [of _ msg] exI [of _ fs1] exI conjI)
qed

lemma ex_put_free: "free_path ex_root ex_fs0 (store_path ''x'')" "payload_ok [(''x'', ''hi'')]"
proof -
  have "good_key (store_path ''x'')" "path_parts (store_path ''x'') \<noteq> []"
    "check_bundle_path_collision ex_root ex_fs0 (resolve ex_root (store_path ''x'')) = None"
    "entry_at ex_fs0 (resolve ex_root (store_path ''x'')) = None" by code_simp+
  then show "free_path ex_root ex_fs0 (store_path ''x'')" by (auto simp: free_path_def ex_empty)
  show "payload_ok [(''x'', ''hi'')]" by code_simp
qed

theorem put_get_roundtrip_witness:
  "\<exists>msg fs1 e. cassetta_put ex_mcp (ex_ctx ''h:p'') ''b'' 0 ''x'' ''hi'' [] ex_fs0 = (Inr msg, fs1)
    \<and> cassetta_get ex_mcp (ex_ctx ''h:p'') ''u'' 5000000 ''x'' fs1 = (Inr (InlineBody e), fs1)
    \<and> map decode_entry (ie_files e) = [Some (''x'', ''hi'')]"
proof -
  have h: "mcp_validate ex_mcp ''x'' = Inr ()" "validated ''x'' = Inr ()" "\<not> startswith ''x'' ''inbox/''" "\<not> startswith ''x'' ''store/''"
    "''hi'' \<noteq> []" "''x'' = last (split_on (CHR ''/'') ''x'')"
    "evaluate_upload_or_raise (ex_limits (Some 100)) (build_upload_manifest [(JStr ''x'', ''hi'')]) = Inr ()"
    "evaluate_download (ex_limits (Some 100)) (int (length ''hi'')) = DownloadInline"
    by code_simp+
  show ?thesis
    by (rule put_get_roundtrip [where env = ex_mcp, unfolded ex_mcp_simps ex_env_simps,
          OF h(1-6) ex_put_free(2) h(7,8) _ _ ex_ok(1) ex_put_free(1)]) (simp_all add: ex_fresh)
qed

text \<open>
  Deleting a path takes every bundle below it along. \<^verbatim>\<open>cassetta_put\<close> and a broadcast clear their path
  this way before they write, so that what the collision check of a new bundle protects is lost.
\<close>

lemma delete_takes_nested:
  assumes "store_invar root fs" "good_key p" "good_key q" "p \<noteq> []" "delete_bundle root t p fs = (Inr u, fs')"
  shows "meta_at root fs' (p @ ''/'' @ q) = None"
proof -
  have g: "good_key (p @ ''/'' @ q)" using assms(2-4) by (intro good_key_join) (auto simp: good_key_def)
  have i: "store_invar root fs'" using filesystem.del_invar [OF assms(1,2), of t] assms(5) by simp
  have r: "resolve root (p @ ''/'' @ q) = resolve root p @ path_parts q"
    unfolding resolve_good [OF g] resolve_good [OF assms(2)] path_parts_join by simp
  have "entry_at fs' (resolve root (p @ ''/'' @ q) @ [BUNDLE_MANIFEST]) = None"
    unfolding r using delete_bundle_Inr(3) [OF _ _ assms(2,5)] assms(1) by (simp add: store_invar_def)
  then have "meta_at root fs' (p @ ''/'' @ q) \<noteq> Some m" for m using meta_at_Some [OF i g, of m] by simp
  then show ?thesis by (cases "meta_at root fs' (p @ ''/'' @ q)") auto
qed

section \<open>Authentication\<close>

text \<open>
  Outside development mode the MCP endpoint lets a request through only as the holder of an
  active key: the context of the tools is then the label of that key, whatever was there before, and
  after a revocation of the label no credential gives it.
\<close>

theorem mcp_identity_is_key:
  assumes "ks_invar s" "mcp_auth_middleware (\<lambda>raw. validate h raw (snd (revoke_key l s))) False auth ctx = McpPass ctx'"
  shows "\<exists>k \<in> set (active_keys (ks_keys (snd (revoke_key l s)))). h (drop 7 auth) = kr_key_hash k \<and> kr_label k \<noteq> l
    \<and> ctx' = \<lparr>mx_identity = Some (KeyIdentity (kr_label k)), mx_sender = Some (kr_label k)\<rparr>"
proof -
  let ?s = "snd (revoke_key l s)"
  obtain info where v: "validate h (drop 7 auth) ?s = Inr (Some info)"
    and c: "ctx' = \<lparr>mx_identity = Some (resolve_identity info), mx_sender = Some (id_label (resolve_identity info))\<rparr>"
    using assms(2) by (auto simp: mcp_auth_middleware_def Let_def split: if_splits sum.splits option.splits)
  have i: "ks_invar ?s" by (rule revoke_key_invar [OF assms(1)])
  have n: "ki_label info \<noteq> l" using file_keys.revoke_closes [OF assms(1) v] .
  from validate_Some(1) [OF i v] obtain k where "k \<in> set (active_keys (ks_keys ?s))" "kr_key_hash k = h (drop 7 auth)" "kr_label k = ki_label info"
    by auto
  with c n show ?thesis by (intro bexI [of _ k]) (simp_all add: resolve_identity_def)
qed

theorem mcp_identity_is_key_witness:
  "\<exists>ctx'. mcp_auth_middleware (\<lambda>raw. validate id raw (snd (revoke_key ''h:q'' ex_store))) False ''Bearer cst_t'' (ex_ctx ''z'') = McpPass ctx'
     \<and> mx_sender ctx' \<noteq> Some ''h:q''"
proof -
  have "mcp_auth_middleware (\<lambda>raw. validate id raw (snd (revoke_key ''h:q'' ex_store))) False ''Bearer cst_t'' (ex_ctx ''z'')
      = McpPass (ex_ctx ''h:p'')"
    by (simp add: mcp_auth_middleware_def revoke_key_def ex_store validate_def info_of_def ex_created resolve_identity_def ex_ctx_def)
  with mcp_identity_is_key [OF ex_store_invar this] show ?thesis by auto
qed

end
