(* ===== verification/Key_Routes.thy ===== *)
theory Key_Routes
  imports Agents
begin

text \<open>
  The administration of keys over HTTP, \<^verbatim>\<open>routes/keys.py\<close>, with the dependency that resolves the
  caller before a handler runs and the request bodies of \<^verbatim>\<open>models.py\<close>. After a change the
  handler lists the keys for a gauge, and an unreadable record makes that listing raise.
\<close>

type_synonym 'a key_http = "(http_error + 'a) \<times> key_store"

record key_create_response =
  kc_label :: str
  kc_api_key :: str
  kc_created_at :: int

definition enforce_keys :: "(identity \<Rightarrow> str \<Rightarrow> str \<Rightarrow> bool) \<Rightarrow> identity \<Rightarrow> str \<Rightarrow> str \<Rightarrow> http_error + unit" where
  "enforce_keys access ident resource action =
     (if \<not> access ident resource action then Inl (HttpError 403 ''Forbidden'') else Inr ())"

text \<open>The validated body of a creation: the label, or a 422.\<close>

definition key_create_request :: "str \<Rightarrow> str \<Rightarrow> http_error + str" where
  "key_create_request host project =
     (case validate_key_field host ''host'' of
        Inl e \<Rightarrow> Inl (HttpError 422 ''host'')
      | Inr h \<Rightarrow>
         (case validate_key_field project ''project'' of
            Inl e \<Rightarrow> Inl (HttpError 422 ''project'')
          | Inr p \<Rightarrow> Inr (key_label h p)))"

text \<open>\<^verbatim>\<open>str(e)\<close>: the text of a \<^verbatim>\<open>KeyError\<close> is the representation of its argument.\<close>

definition key_route_error :: "exc \<Rightarrow> http_error" where
  "key_route_error e =
     (case e of ValueError m \<Rightarrow> HttpError 409 m | _ \<Rightarrow> HttpRaised e)"

definition key_missing_error :: "exc \<Rightarrow> http_error" where
  "key_missing_error e =
     (case e of KeyError m \<Rightarrow> HttpError 404 (repr_str m) | _ \<Rightarrow> HttpRaised e)"

text \<open>The answer once the store has changed: the gauge needs every record.\<close>

definition after_change :: "(str \<times> key_info) \<Rightarrow> key_store \<Rightarrow> key_create_response key_http" where
  "after_change r s =
     (case list_keys s of
        Inl e \<Rightarrow> (Inl (HttpRaised e), s)
      | Inr keys \<Rightarrow>
         (Inr \<lparr>kc_label = ki_label (snd r), kc_api_key = fst r, kc_created_at = ki_created_at (snd r)\<rparr>, s))"

definition setup_route ::
  "(identity \<Rightarrow> str \<Rightarrow> str \<Rightarrow> bool) \<Rightarrow> (str \<Rightarrow> str) \<Rightarrow> str \<Rightarrow> int \<Rightarrow> identity \<Rightarrow> str \<Rightarrow> key_store \<Rightarrow> key_create_response key_http" where
  "setup_route access hash_key token now ident label s =
     (case enforce_keys access ident (''keys:'' @ label) ''create'' of Inl e \<Rightarrow> (Inl e, s) | Inr u \<Rightarrow>
     (case setup_first_key hash_key token now label s of
        (Inl e, s') \<Rightarrow> (Inl (key_route_error e), s')
      | (Inr r, s') \<Rightarrow> after_change r s'))"

definition create_key_route ::
  "(identity \<Rightarrow> str \<Rightarrow> str \<Rightarrow> bool) \<Rightarrow> (str \<Rightarrow> str) \<Rightarrow> str \<Rightarrow> int \<Rightarrow> identity \<Rightarrow> str \<Rightarrow> key_store \<Rightarrow> key_create_response key_http" where
  "create_key_route access hash_key token now ident label s =
     (case enforce_keys access ident (''keys:'' @ label) ''create'' of Inl e \<Rightarrow> (Inl e, s) | Inr u \<Rightarrow>
     (case create_key hash_key token now label s of
        (Inl e, s') \<Rightarrow> (Inl (key_route_error e), s')
      | (Inr r, s') \<Rightarrow> after_change r s'))"

definition list_keys_route ::
  "(identity \<Rightarrow> str \<Rightarrow> str \<Rightarrow> bool) \<Rightarrow> identity \<Rightarrow> key_store \<Rightarrow> http_error + key_info list" where
  "list_keys_route access ident s =
     (case enforce_keys access ident ''keys:*'' ''list'' of Inl e \<Rightarrow> Inl e | Inr u \<Rightarrow>
     (case list_keys s of Inl e \<Rightarrow> Inl (HttpRaised e) | Inr keys \<Rightarrow> Inr keys))"

definition rotate_key_route ::
  "(identity \<Rightarrow> str \<Rightarrow> str \<Rightarrow> bool) \<Rightarrow> (str \<Rightarrow> str) \<Rightarrow> str \<Rightarrow> int \<Rightarrow> identity \<Rightarrow> str \<Rightarrow> key_store \<Rightarrow> key_create_response key_http" where
  "rotate_key_route access hash_key token now ident label s =
     (case enforce_keys access ident (''keys:'' @ label) ''rotate'' of Inl e \<Rightarrow> (Inl e, s) | Inr u \<Rightarrow>
     (case rotate_key hash_key token now label s of
        (Inl e, s') \<Rightarrow> (Inl (key_missing_error e), s')
      | (Inr r, s') \<Rightarrow> after_change r s'))"

definition revoke_key_route ::
  "(identity \<Rightarrow> str \<Rightarrow> str \<Rightarrow> bool) \<Rightarrow> identity \<Rightarrow> str \<Rightarrow> key_store \<Rightarrow> str key_http" where
  "revoke_key_route access ident label s =
     (case enforce_keys access ident (''keys:'' @ label) ''revoke'' of Inl e \<Rightarrow> (Inl e, s) | Inr u \<Rightarrow>
     (case revoke_key label s of
        (Inl e, s') \<Rightarrow> (Inl (key_missing_error e), s')
      | (Inr u, s') \<Rightarrow>
         (case list_keys s' of Inl e \<Rightarrow> (Inl (HttpRaised e), s') | Inr keys \<Rightarrow> (Inr label, s'))))"

subsection \<open>A request\<close>

text \<open>The dependency every handler declares: no handler runs for a caller it cannot name.\<close>

definition with_identity ::
  "(str \<Rightarrow> str) \<Rightarrow> auth_config \<Rightarrow> str option \<Rightarrow> str option \<Rightarrow> (identity \<Rightarrow> key_store \<Rightarrow> 'a key_http) \<Rightarrow> key_store \<Rightarrow> 'a key_http" where
  "with_identity hash_key cfg x_setup_token credentials handler s =
     (case get_current_identity (\<lambda>raw. validate hash_key raw s) cfg x_setup_token credentials of
        Inl Unauthorized \<Rightarrow> (Inl (HttpError 401 ''unauthenticated''), s)
      | Inl (AuthRaised e) \<Rightarrow> (Inl (HttpRaised e), s)
      | Inr ident \<Rightarrow> handler ident s)"

subsection \<open>Lemmas\<close>

lemma list_keys_invar: "ks_invar s \<Longrightarrow> \<exists>keys. list_keys s = Inr keys"
proof -
  have "list_all (\<lambda>k. iso_to_epoch (kr_created_at k) \<noteq> None) ks \<Longrightarrow> \<exists>keys. infos_of ks = Inr keys" for ks
    by (induction ks) (auto simp: info_of_def)
  then show "ks_invar s \<Longrightarrow> \<exists>keys. list_keys s = Inr keys" by (simp add: ks_invar_def list_keys_def)
qed

lemma after_change_ok: "ks_invar s \<Longrightarrow> after_change r s
    = (Inr \<lparr>kc_label = ki_label (snd r), kc_api_key = fst r, kc_created_at = ki_created_at (snd r)\<rparr>, s)"
  using list_keys_invar [of s] by (auto simp: after_change_def)

lemma create_key_route_cases:
  assumes "ks_invar s" "clock_ok now" "access ident (''keys:'' @ label) ''create''"
  shows "create_key_route access h tok now ident label s =
    (if has_active label (ks_keys s)
     then (Inl (HttpError 409 (''Key with label '' @ label @ '' already exists'')), s)
     else (Inr \<lparr>kc_label = label, kc_api_key = generate_key tok, kc_created_at = now\<rparr>, snd (create_key h tok now label s)))"
  using assms create_key_invar [OF assms(1,2), of h tok label]
  by (auto simp: create_key_route_def enforce_keys_def create_key_def key_route_error_def Let_def after_change_ok)

lemma key_routes_invar:
  assumes "ks_invar s" "clock_ok now"
  shows "ks_invar (snd (setup_route access h tok now ident l s))"
    and "ks_invar (snd (create_key_route access h tok now ident l s))"
    and "ks_invar (snd (rotate_key_route access h tok now ident l s))"
    and "ks_invar (snd (revoke_key_route access ident l s))"
proof -
  have ac: "snd (after_change r s') = s'" for r s' by (auto simp: after_change_def split: sum.splits)
  show "ks_invar (snd (setup_route access h tok now ident l s))"
    using setup_invar [OF assms, of h tok l] assms(1)
    by (auto simp: setup_route_def ac split: sum.splits prod.splits)
  show "ks_invar (snd (create_key_route access h tok now ident l s))"
    using create_key_invar [OF assms, of h tok l] assms(1)
    by (auto simp: create_key_route_def ac split: sum.splits prod.splits)
  show "ks_invar (snd (rotate_key_route access h tok now ident l s))"
    using rotate_key_invar [OF assms, of h tok l] assms(1)
    by (auto simp: rotate_key_route_def ac split: sum.splits prod.splits)
  show "ks_invar (snd (revoke_key_route access ident l s))"
    using revoke_key_invar [OF assms(1), of l] assms(1)
    by (auto simp: revoke_key_route_def split: sum.splits prod.splits)
qed

lemma unauthenticated_refused:
  assumes "\<not> ac_dev_mode cfg" "x_setup_token \<noteq> Some (ac_setup_token cfg)"
    and "credentials = None \<or> (\<exists>c. credentials = Some c \<and> validate h c s = Inr None)"
  shows "with_identity h cfg x_setup_token credentials handler s = (Inl (HttpError 401 ''unauthenticated''), s)"
  using assms by (auto simp: with_identity_def get_current_identity_def)

end
