(* ===== verification/Admin_Properties.thy ===== *)
theory Admin_Properties
  imports Tool_Properties Key_Routes Server
begin

text \<open>
  Properties of the start of the server, of the retention of bundles, of broadcasts and of the
  administration of keys.
\<close>

section \<open>Start\<close>

text \<open>
  C38. A server that starts has a sane configuration: signing keys of at least 32 bytes, caps that are
  not negative, positive times to live, fan-out cap and overlap, a canonical rate, and development
  mode exactly when the setup token is the empty text.
\<close>

theorem started_config_sane:
  assumes "load_config read_file env = Inr cfg"
  shows "length (cfg_jwt_primary_key cfg) \<ge> 32 \<and> (\<forall>k. cfg_jwt_secondary_key cfg = Some k \<longrightarrow> length k \<ge> 32)
    \<and> (cfg_dev_mode cfg \<longleftrightarrow> map_of env ''CASSETTA_SETUP_TOKEN'' = Some [])
    \<and> cfg_default_ttl cfg \<ge> 0 \<and> cfg_broadcast_max_targets cfg > 0 \<and> cfg_jwt_key_overlap_ttl cfg > 0
    \<and> (\<forall>ttl \<in> {upload_token_ttl (cfg_limits cfg), download_claim_ttl (cfg_limits cfg), passive_gc_min_age (cfg_limits cfg),
           passive_gc_interval (cfg_limits cfg)}. 0 < ttl)
    \<and> (\<forall>cap \<in> {per_file_max (cfg_limits cfg), per_bundle_total_max (cfg_limits cfg), per_bundle_file_count_max (cfg_limits cfg),
           max_inline_size (cfg_limits cfg)}. pred_option ((\<le>) 0) cap)
    \<and> (\<exists>d ds u. cfg_rate_limit_broadcast cfg = (d # ds) @ ''/'' @ u \<and> is_digit d \<and> d \<noteq> CHR ''0'' \<and> list_all is_digit ds
         \<and> u \<in> {''second'', ''minute'', ''hour''})
    \<and> cfg_log_format cfg \<in> {''text'', ''json''}"
proof -
  from assms obtain tok k s sec where c: "map_of env ''CASSETTA_SETUP_TOKEN'' = Some tok" "cfg_dev_mode cfg = (tok = [])"
    "parse_default_ttl env = Inr (cfg_default_ttl cfg)" "load_limits_config env = Inr (cfg_limits cfg)"
    "load_jwt_key_pair read_file env ''CASSETTA_JWT_KEY'' ''CASSETTA_JWT_KEY_FILE'' True = Inr (Some (k, s))" "cfg_jwt_primary_key cfg = k"
    "load_jwt_key_pair read_file env ''CASSETTA_JWT_KEY_SECONDARY'' ''CASSETTA_JWT_KEY_SECONDARY_FILE'' False = Inr sec"
    "cfg_jwt_secondary_key cfg = map_option fst sec"
    "parse_rate_limit (env_get env ''CASSETTA_RATE_LIMIT_BROADCAST'' ''10/minute'') = Inr (cfg_rate_limit_broadcast cfg)"
    "parse_positive_int (env_get env ''CASSETTA_BROADCAST_MAX_TARGETS'' ''1000'') = Inr (cfg_broadcast_max_targets cfg)"
    "parse_positive_int (env_get env ''CASSETTA_JWT_KEY_OVERLAP_TTL'' ''600'') = Inr (cfg_jwt_key_overlap_ttl cfg)"
    "cfg_log_format cfg = parse_log_format (env_get env ''CASSETTA_LOG_FORMAT'' ''text'')"
    unfolding load_config_def Let_def by (auto split: option.splits sum.splits)
  have "cfg_default_ttl cfg \<ge> 0" using c(3) by (auto simp: parse_default_ttl_def split: option.splits if_splits)
  moreover have "cfg_broadcast_max_targets cfg > 0" "cfg_jwt_key_overlap_ttl cfg > 0"
    using c(10,11) by (auto simp: parse_positive_int_def split: option.splits if_splits)
  moreover have "length k \<ge> 32" "\<forall>k. map_option fst sec = Some k \<longrightarrow> length k \<ge> 32"
    using load_jwt_key_pair_length [OF c(5)] load_jwt_key_pair_length [of read_file env _ _ False] c(7)
    by (auto simp: MIN_HS256_KEY_BYTES_def)
  moreover have "cfg_log_format cfg \<in> {''text'', ''json''}" using c(12) by (simp add: parse_log_format_def)
  ultimately show ?thesis using c(1,2,6,8) load_limits_config_ok [OF c(4)] parse_rate_limit_Inr [OF c(9)] by simp
qed

definition ex_environ :: environ where
  "ex_environ = [(''CASSETTA_SETUP_TOKEN'', ''s''), (''CASSETTA_JWT_KEY'', b64encode (replicate 32 (CHR ''k''))),
     (''CASSETTA_PUBLIC_BASE_URL'', ''http://h/'')]"

lemma decode_jwt_key_b64: "length k \<ge> MIN_HS256_KEY_BYTES \<Longrightarrow> decode_jwt_key (strip_ws (b64encode k)) = Inr k \<and> strip_ws (b64encode k) \<noteq> []"
proof -
  assume k: "length k \<ge> MIN_HS256_KEY_BYTES"
  then have n: "b64encode k \<noteq> []" by (cases k rule: b64encode.cases) (auto simp: MIN_HS256_KEY_BYTES_def)
  then have "hd (b64encode k) \<in> set (b64encode k)" "last (b64encode k) \<in> set (b64encode k)" by simp_all
  then have "strip_ws (b64encode k) = b64encode k"
    using n b64_no_space [of k] by (intro strip_ws_id) (auto simp: list_all_iff)
  then show ?thesis using k n by (simp add: decode_jwt_key_def b64decode_b64encode)
qed

lemma ex_numerals: "py_int ''0'' = Some 0" "py_int ''1000'' = Some 1000" "py_int ''600'' = Some 600"
  by (simp_all add: py_int_def strip_ws_def is_space_def char_digit_def)

lemma ex_started: "\<exists>cfg. load_config (\<lambda>p. None) ex_environ = Inr cfg"
proof -
  let ?k = "replicate 32 (CHR ''k'')"
  have k: "decode_jwt_key (strip_ws (b64encode ?k)) = Inr ?k" "strip_ws (b64encode ?k) \<noteq> []"
    using decode_jwt_key_b64 [of ?k] by (simp_all only: MIN_HS256_KEY_BYTES_def length_replicate order_refl simp_thms)
  have g: "map_of ex_environ v = None" if "v \<notin> {''CASSETTA_SETUP_TOKEN'', ''CASSETTA_JWT_KEY'', ''CASSETTA_PUBLIC_BASE_URL''}" for v
    using that by (simp add: ex_environ_def del: b64encode.simps)
  have s: "strip_ws [] = []" by (simp add: strip_ws_def)
  have "load_limits_config ex_environ = Inr default_limits_config"
    by (simp add: load_limits_config_def load_cap_def load_ttl_def g)
  moreover have "parse_default_ttl ex_environ = Inr 0"
    by (simp add: parse_default_ttl_def env_get_def g ex_numerals)
  moreover have "load_jwt_key_pair (\<lambda>p. None) ex_environ ''CASSETTA_JWT_KEY'' ''CASSETTA_JWT_KEY_FILE'' True = Inr (Some (?k, ''env''))"
    using k by (simp add: load_jwt_key_pair_def env_get_def g s) (simp add: ex_environ_def del: b64encode.simps)
  moreover have "load_jwt_key_pair (\<lambda>p. None) ex_environ ''CASSETTA_JWT_KEY_SECONDARY'' ''CASSETTA_JWT_KEY_SECONDARY_FILE'' False = Inr None"
    by (simp add: load_jwt_key_pair_def env_get_def g s)
  moreover have "load_public_base_url ex_environ ''CASSETTA_PUBLIC_BASE_URL'' = Inr ''http://h''"
  proof -
    have "env_get ex_environ ''CASSETTA_PUBLIC_BASE_URL'' [] = ''http://h/''" by (simp add: env_get_def ex_environ_def del: b64encode.simps)
    then show ?thesis
      by (simp add: load_public_base_url_def strip_ws_def is_space_def url_parts_def scheme_chars_def to_lower_def rstrip_def)
  qed
  moreover have "parse_rate_limit (env_get ex_environ ''CASSETTA_RATE_LIMIT_BROADCAST'' ''10/minute'') = Inr ''10/minute''"
    by (simp add: env_get_def g parse_rate_limit_def strip_ws_def is_space_def match_rate_def char_digit_def to_lower_def rate_unit_normalise_def)
  moreover have "parse_positive_int (env_get ex_environ ''CASSETTA_BROADCAST_MAX_TARGETS'' ''1000'') = Inr 1000"
    by (simp add: env_get_def g parse_positive_int_def ex_numerals)
  moreover have "parse_positive_int (env_get ex_environ ''CASSETTA_JWT_KEY_OVERLAP_TTL'' ''600'') = Inr 600"
    by (simp add: env_get_def g parse_positive_int_def ex_numerals)
  moreover have "map_of ex_environ ''CASSETTA_SETUP_TOKEN'' = Some ''s''" by (simp add: ex_environ_def)
  ultimately show ?thesis by (simp add: load_config_def Let_def)
qed

theorem started_config_sane_witness:
  "\<exists>cfg. load_config (\<lambda>p. None) ex_environ = Inr cfg \<and> length (cfg_jwt_primary_key cfg) \<ge> 32 \<and> \<not> cfg_dev_mode cfg"
proof -
  obtain cfg where c: "load_config (\<lambda>p. None) ex_environ = Inr cfg" using ex_started by blast
  have "map_of ex_environ ''CASSETTA_SETUP_TOKEN'' = Some ''s''" by (simp add: ex_environ_def)
  with c started_config_sane [OF c] show ?thesis by auto
qed

section \<open>Capabilities\<close>


section \<open>Retention\<close>

text \<open>
  C28. The retention sweep is exact: of the bundles that the listing of a namespace reports it
  removes those older than the time to live and leaves every other one.
\<close>

theorem retention_exact:
  assumes "gc_invar root fs" "pre \<in> set BUNDLE_NAMESPACES" "r \<in> set (list_bundles root pre False fs)"
    and "meta_at root fs (br_path r) = Some m" "iso_to_epoch (bm_created_at m) = Some c"
  shows "meta_at root (snd (ttl_sweep root now ttl fs)) (br_path r) = (if now - c > ttl * 1000000 then None else Some m)"
  by (rule ttl_sweep_decides [OF assms])

definition ex_ttl :: "bytes \<Rightarrow> fs" where
  "ex_ttl b =
     [([], DirNode 0), ([''srv''], DirNode 0), ([''srv'', ''data''], DirNode 0), ([''srv'', ''data'', ''inbox''], DirNode 0),
      ([''srv'', ''data'', ''inbox'', ''a''], DirNode 0), ([''srv'', ''data'', ''inbox'', ''a'', ''meta.json''], FileNode b 0)]"

lemma ex_ttl_ok: "gc_invar ex_root (ex_ttl b)" "good_key ''inbox/a''"
  "\<lparr>br_path = ''inbox/a'', br_has_meta = True, br_mtime = 0\<rparr> \<in> set (list_bundles ex_root ''inbox/'' False (ex_ttl b))"
  "entry_at (ex_ttl b) (resolve ex_root ''inbox/a'' @ [BUNDLE_MANIFEST]) = Some (F b)" "''inbox/'' \<in> set BUNDLE_NAMESPACES"
  by code_simp+

theorem retention_exact_witness:
  "meta_at ex_root (snd (ttl_sweep ex_root 61000000 60 (ex_ttl (meta_bytes ex_meta)))) ''inbox/a'' = None
   \<and> meta_at ex_root (snd (ttl_sweep ex_root 60000000 60 (ex_ttl (meta_bytes ex_meta)))) ''inbox/a'' = Some ex_meta"
proof -
  have m: "meta_at ex_root (ex_ttl (meta_bytes ex_meta)) ''inbox/a'' = Some ex_meta"
    using ex_ttl_ok(1,2,4) by (subst meta_at_Some) (auto simp: gc_invar_def)
  have "iso_to_epoch (bm_created_at ex_meta) = Some 0" using ex_created by simp
  note w = retention_exact [where ttl = 60, OF ex_ttl_ok(1,5,3) _ this, of "meta_bytes ex_meta"]
  show ?thesis using w [where now = 61000000] w [where now = 60000000] m by simp
qed

section \<open>Broadcast\<close>


definition ex_bc :: broadcast_env where
  "ex_bc = (mc_broadcast ex_mcp)\<lparr>bc_alias := default_alias_resolve ex_store\<rparr>"

lemma ex_bc_simps [simp]:
  "bc_root ex_bc = ex_root" "bc_alias ex_bc = default_alias_resolve ex_store" "bc_policy ex_bc = default_access_policy"
  "bc_max_targets ex_bc = 2" "bc_limits ex_bc = ex_limits (Some 100)" "bc_allowed_path_chars ex_bc = None" "bc_guess ex_bc = (\<lambda>n. None)"
  by (simp_all add: ex_bc_def ex_mcp_def)

lemma ex_keys: "list_keys ex_store = Inr [\<lparr>ki_label = ''h:p'', ki_key_prefix = ''cst_t'', ki_created_at = 0, ki_is_active = True\<rparr>]"
  by (simp add: list_keys_def ex_store info_of_def ex_created)

lemma ex_deliver: "\<exists>fs'. deliver_targets ex_bc (\<lambda>p bid. write_inbox_bundle (\<lambda>n. None) ex_root 0 p [(''x'', ''hi'', None)] s bid)
    new_id 0 ''x'' [''inbox/h:p/''] 0 ex_fs0 = (None, 1, fs')"
proof -
  let ?m = "inbox_meta (\<lambda>n. None) 0 s (new_id 0) [(''x'', ''hi'', None)]"
  have p: "rstrip (CHR ''/'') ''inbox/h:p/'' @ ''/'' @ ''x'' = ex_path" by code_simp
  have d: "delete_bundle ex_root 0 ex_path ex_fs0 = (Inl FileNotFoundError, ex_fs0)" by code_simp
  have m: "declares ?m [(''x'', ''hi'')]" by (simp add: declares_def inbox_meta_def)
  obtain fs1 where "publish ex_root 0 ex_path [(''x'', ''hi'')] ?m ex_fs0 = (Inr (), fs1)"
    using publish_free [OF ex_ok(1) ex_free(1) ex_put_free(2) m, of 0] by blast
  then have w: "write_inbox_bundle (\<lambda>n. None) ex_root 0 ex_path [(''x'', ''hi'', None)] s (new_id 0) ex_fs0 = (Inr (), fs1)"
    by (simp add: write_inbox_bundle_publish)
  show ?thesis unfolding deliver_targets.simps p Let_def ex_bc_simps d prod.case w by simp
qed

lemma ex_broadcast: "\<exists>r fs'. broadcast ex_bc (\<lambda>rate who l. (True, l)) new_id 0 ''a'' ex_store (KeyIdentity ''h:q'') ''x'' (RawBody ''hi'') () ex_fs0
    = (Inr r, (), fs') \<and> br_delivered_to r = [''h:p'']"
proof -
  have b: "body_parts ''x'' (RawBody ''hi'') = [(''x'', ''hi'', None)]" by code_simp
  have u: "evaluate_upload (ex_limits (Some 100)) \<lparr>um_file_count = int (length (map part_entry [(''x'', ''hi'', None)])),
      um_files = map part_entry [(''x'', ''hi'', None)]\<rparr> = Accept InlineMode"
    "validate_path ''x'' None = Inr ()"
    by code_simp+
  have a: "default_alias_resolve ex_store ''h:p'' (Some ''h:q'') = Inr (Some [''inbox/h:p/''])"
    by (simp add: default_alias_resolve_def ex_keys)
  obtain fs1 where d: "deliver_targets ex_bc (\<lambda>p bid. write_inbox_bundle (\<lambda>n. None) ex_root 0 p [(''x'', ''hi'', None)] (Some ''h:q'') bid)
    new_id 0 ''x'' [''inbox/h:p/''] 0 ex_fs0 = (None, 1, fs1)" using ex_deliver by blast
  have "fan_out ex_bc (\<lambda>p bid. write_inbox_bundle (\<lambda>n. None) ex_root 0 p [(''x'', ''hi'', None)] (Some ''h:q'') bid) new_id 0
      ex_store (KeyIdentity ''h:q'') (Some ''h:q'') ''x'' ex_fs0
    = (Inr \<lparr>br_delivered_to = [''h:p''], br_denied = [], br_failed = [], br_tag = TagSuccess\<rparr>, fs1)"
    unfolding fan_out_def ex_keys
    using d a by (simp add: candidate_labels_def check_fanout_cap_def deliver_one_def default_access_policy_def delivered_of_def
        denied_of_def failed_of_def broadcast_tag_def map_filter_simps)
  then show ?thesis
    unfolding broadcast_def b u ex_bc_simps
    by (simp add: check_rate_limit_imperative_def u [simplified] sender_from_identity_def)
qed


text \<open>
  C37. A broadcast that is refused, for its rate, its path, its size or the number of recipients,
  writes nothing; more recipients than the cap is one of the refusals.
\<close>

theorem broadcast_refused_untouched:
  "(\<forall>e lim' fs'. broadcast env hit new_id t addr ks ident path body lim fs = (Inl e, lim', fs') \<longrightarrow> fs' = fs)
   \<and> (\<forall>keys. list_keys ks = Inr keys \<longrightarrow> int (length (candidate_labels (sender_from_identity ident) keys)) > bc_max_targets env
       \<longrightarrow> (\<exists>e. fst (broadcast env hit new_id t addr ks ident path body lim fs) = Inl e)
         \<and> snd (snd (broadcast env hit new_id t addr ks ident path body lim fs)) = fs)"
  by (auto simp: broadcast_def fan_out_def check_fanout_cap_def Let_def split: prod.splits if_splits sum.splits upload_decision.splits)

theorem broadcast_refused_untouched_witness:
  "\<exists>e. fst (broadcast (ex_bc\<lparr>bc_max_targets := 0\<rparr>) (\<lambda>rate who l. (True, l)) (\<lambda>k. ''b'') 0 ''a'' ex_store (KeyIdentity ''h:q'') ''x''
      (RawBody ''hi'') () ex_fs0) = Inl e"
proof -
  have "int (length (candidate_labels (sender_from_identity (KeyIdentity ''h:q''))
      [\<lparr>ki_label = ''h:p'', ki_key_prefix = ''cst_t'', ki_created_at = 0, ki_is_active = True\<rparr>])) > bc_max_targets (ex_bc\<lparr>bc_max_targets := 0\<rparr>)"
    by (simp add: candidate_labels_def sender_from_identity_def)
  with broadcast_refused_untouched [of "ex_bc\<lparr>bc_max_targets := 0\<rparr>" "\<lambda>rate who l. (True, l)" "\<lambda>k. ''b''" 0 "''a''" ex_store
      "KeyIdentity ''h:q''" "''x''" "RawBody ''hi''" "()" ex_fs0] ex_keys
  show ?thesis by auto
qed

section \<open>Keys\<close>

text \<open>
  The creation of a key over HTTP. For a caller the policy allows, creating a key for a label that has one is a 409 that changes
  nothing; otherwise the answer is the new key, the store keeps its invariant, and a request with that key
  authenticates as the label, provided no active key has its hash.
\<close>

theorem key_creation_route:
  assumes i: "ks_invar s" "clock_ok now" and acc: "access ident (''keys:'' @ label) ''create''"
    and fresh: "\<forall>k \<in> set (active_keys (ks_keys s)). kr_key_hash k \<noteq> h (generate_key tok)"
    and mode: "\<not> ac_dev_mode cfg" "xtok \<noteq> Some (ac_setup_token cfg)"
    and r: "create_key_route access h tok now ident label s = (res, s')"
  shows "ks_invar s'
    \<and> (if has_active label (ks_keys s) then s' = s \<and> (\<exists>msg. res = Inl (HttpError 409 msg))
       else res = Inr \<lparr>kc_label = label, kc_api_key = generate_key tok, kc_created_at = now\<rparr>
         \<and> with_identity h cfg xtok (Some (generate_key tok)) handler s' = handler (KeyIdentity label) s')"
proof (cases "has_active label (ks_keys s)")
  case True
  then show ?thesis
    using create_key_route_cases [where h = h and tok = tok and label = label and access = access and ident = ident, OF i acc] r i(1)
    by simp
next
  case n: False
  note c = create_key_route_cases [where h = h and tok = tok and label = label and access = access and ident = ident, OF i acc]
  have inv: "ks_invar s'" using key_routes_invar(2) [OF i, of access h tok ident label] r by simp
  obtain info where k: "create_key h tok now label s = (Inr (generate_key tok, info), s')"
    using c r n by (auto simp: create_key_def Let_def)
  note cr = create_key_Inr [OF k]
  let ?n = "last (ks_keys s')"
  have act: "active_keys (ks_keys s') = active_keys (ks_keys s) @ [?n]" "kr_label ?n = label" "kr_key_hash ?n = h (generate_key tok)"
    using cr(6) by (simp_all add: active_keys_def)
  have "\<exists>i. validate h (generate_key tok) s' = Inr (Some i) \<and> ki_label i = kr_label ?n"
    using fresh act by (intro validate_unique [OF inv, of ?n]) auto
  then show ?thesis
    using c r n act(2) mode inv by (auto simp: with_identity_def get_current_identity_def resolve_identity_def)
qed

theorem key_creation_route_witness:
  "\<exists>s'. create_key_route (\<lambda>i r a. True) id ''n'' 0 DevIdentity ''h:q'' ex_store
      = (Inr \<lparr>kc_label = ''h:q'', kc_api_key = ''cst_n'', kc_created_at = 0\<rparr>, s')
    \<and> with_identity id \<lparr>ac_dev_mode = False, ac_setup_token = ''s''\<rparr> None (Some ''cst_n'') (\<lambda>i s. (Inr (id_label i), s)) s' = (Inr ''h:q'', s')"
proof -
  obtain res s' where r: "create_key_route (\<lambda>i r a. True) id ''n'' 0 DevIdentity ''h:q'' ex_store = (res, s')" by fastforce
  have k: "generate_key ''n'' = ''cst_n''" by (simp add: generate_key_def KEY_PREFIX_def)
  have "\<not> has_active ''h:q'' (ks_keys ex_store)"
    "\<forall>k \<in> set (active_keys (ks_keys ex_store)). kr_key_hash k \<noteq> id (generate_key ''n'')"
    by (simp_all add: has_active_def ex_store active_keys_def k)
  with key_creation_route [where handler = "\<lambda>i s. (Inr (id_label i), s)" and xtok = None and cfg = "\<lparr>ac_dev_mode = False, ac_setup_token = ''s''\<rparr>", OF ex_store_invar ex_clock _ this(2) _ _ r, unfolded k] r
  show ?thesis by (auto simp: k)
qed

end
