(* ===== verification/Cli.thy ===== *)
theory Cli
  imports Mcp Transfers
begin

text \<open>
  The command line clients, \<^verbatim>\<open>cli/\<close>. The HTTP library is an argument: an operation takes what is sent
  and the state of the server, and answers with a status and the text of the body, or fails. A command
  ends with the line it prints, or with its exit code or the exception it raises. A body that is a JSON object
  of a request model is passed in the typed form the server reads; texts of replies are parsed.
\<close>

datatype cli_exit = CliExit nat | BadParameter str | CliRaised exc

record http_reply =
  hp_status :: int
  hp_text :: str

datatype http_failure = HttpxError str | BodyRaised exc

type_synonym 's http_call = "'s \<Rightarrow> (http_failure + http_reply) \<times> 's"

record 's http_client =
  hc_uploads :: "str \<Rightarrow> str \<Rightarrow> str \<Rightarrow> send_manifest \<Rightarrow> 's http_call"
  hc_tar :: "str \<Rightarrow> str \<Rightarrow> bool \<Rightarrow> (exc + tar_event list) \<Rightarrow> 's http_call"
  hc_get :: "str \<Rightarrow> str option \<Rightarrow> str option \<Rightarrow> 's http_call"

subsection \<open>cli/upload.py\<close>

definition normalise_arg :: "str \<Rightarrow> cli_exit + str" where
  "normalise_arg arg0 =
     (let arg = (if startswith arg0 ''./'' then drop 2 arg0 else arg0) in
      if arg = [] then Inl (BadParameter ''file argument cannot be empty'')
      else if startswith arg ''/'' then Inl (BadParameter (''absolute path not allowed: '' @ repr_str arg))
      else case validate_path arg None of
        Inl e \<Rightarrow> Inl (BadParameter (''invalid path '' @ repr_str arg @ '': '' @ path_error_text e))
      | Inr u \<Rightarrow> Inr arg)"

fun normalise_args :: "str list \<Rightarrow> cli_exit + str list" where
  "normalise_args [] = Inr []"
| "normalise_args (f # fs) =
     (case normalise_arg f of
        Inl e \<Rightarrow> Inl e
      | Inr n \<Rightarrow> (case normalise_args fs of Inl e \<Rightarrow> Inl e | Inr ns \<Rightarrow> Inr (n # ns)))"

text \<open>A local path: a regular file with its contents, or something else with the size it reports.\<close>

datatype local_file = RegularFile bytes | OtherFile int

type_synonym local_files = "str \<Rightarrow> local_file option"

definition getsize :: "local_files \<Rightarrow> str \<Rightarrow> exc + int" where
  "getsize disk f =
     (case disk f of
        None \<Rightarrow> Inl FileNotFoundError | Some (RegularFile b) \<Rightarrow> Inr (int (length b)) | Some (OtherFile n) \<Rightarrow> Inr n)"

text \<open>The members of the archive: an entry that is not a regular file is dropped.\<close>

fun tar_chunks :: "local_files \<Rightarrow> str list \<Rightarrow> exc + tar_event list" where
  "tar_chunks disk [] = Inr []"
| "tar_chunks disk (f # fs) =
     (case disk f of
        None \<Rightarrow> Inl FileNotFoundError
      | Some (OtherFile n) \<Rightarrow> tar_chunks disk fs
      | Some (RegularFile b) \<Rightarrow>
         (case tar_chunks disk fs of
            Inl e \<Rightarrow> Inl e
          | Inr ms \<Rightarrow> Inr (TarMember f True (int (length b)) (Some b) # ms)))"

definition bundle_line :: "json \<Rightarrow> str \<Rightarrow> cli_exit + str" where
  "bundle_line body dflt =
     (case body of
        JObj ms \<Rightarrow> Inr (''bundle_id='' @ (case map_of ms ''bundle_id'' of None \<Rightarrow> dflt | Some v \<Rightarrow> py_str v))
      | _ \<Rightarrow> Inl (CliRaised AttributeError))"

definition cli_upload ::
  "'s http_client \<Rightarrow> local_files \<Rightarrow> str list \<Rightarrow> str \<Rightarrow> str \<Rightarrow> bool \<Rightarrow> 's \<Rightarrow> (cli_exit + str) \<times> 's" where
  "cli_upload client disk files url token no_compress s =
     (case normalise_args files of Inl e \<Rightarrow> (Inl e, s) | Inr normalised \<Rightarrow>
     (case hc_tar client url (''Bearer '' @ token) (\<not> no_compress) (tar_chunks disk normalised) s of
        (Inl (HttpxError msg), s') \<Rightarrow> (Inl (CliExit 1), s')
      | (Inl (BodyRaised e), s') \<Rightarrow> (Inl (CliRaised e), s')
      | (Inr resp, s') \<Rightarrow>
         (if 200 \<le> hp_status resp \<and> hp_status resp < 300
          then (case loads (hp_text resp) of None \<Rightarrow> Inl (CliExit 1) | Some body \<Rightarrow> bundle_line body [])
          else if 400 \<le> hp_status resp \<and> hp_status resp < 500 then Inl (CliExit 2)
          else Inl (CliExit 3), s')))"

subsection \<open>cli/send.py\<close>

definition raise_for_send :: "int \<Rightarrow> cli_exit option" where
  "raise_for_send status_code =
     (if 200 \<le> status_code \<and> status_code < 300 then None
      else if 400 \<le> status_code \<and> status_code < 500 then Some (CliExit 2) else Some (CliExit 3))"

fun send_entries :: "local_files \<Rightarrow> str list \<Rightarrow> exc + manifest_file list" where
  "send_entries disk [] = Inr []"
| "send_entries disk (f # fs) =
     (case getsize disk f of
        Inl e \<Rightarrow> Inl e
      | Inr n \<Rightarrow> (case send_entries disk fs of Inl e \<Rightarrow> Inl e | Inr es \<Rightarrow> Inr (\<lparr>mf_name = f, mf_size = n, mf_mime = None\<rparr> # es)))"

text \<open>\<^verbatim>\<open>urllib.parse.urlparse(url).path\<close>\<close>

definition uses_params :: "str list" where
  "uses_params = ['''', ''ftp'', ''hdl'', ''prospero'', ''http'', ''https'', ''shttp'', ''rtsp'', ''rtsps'', ''rtspu'', ''sip'', ''sips'',
     ''mms'', ''sftp'', ''tel'']"

definition url_path :: "str \<Rightarrow> str" where
  "url_path url =
     (let u = filter (\<lambda>c. c \<notin> {CHR 0x09, CHR 0x0A, CHR 0x0D}) (dropWhile (\<lambda>c. of_char c \<le> (32 :: nat)) url);
          before = takeWhile (\<lambda>c. c \<noteq> CHR '':'') u;
          after = dropWhile (\<lambda>c. c \<noteq> CHR '':'') u;
          has_scheme = (after \<noteq> [] \<and> before \<noteq> [] \<and> hd before \<in> set (take 52 scheme_chars) \<and> set before \<subseteq> set scheme_chars);
          rest = (if has_scheme then tl after else u);
          rest = (if startswith rest ''//'' then dropWhile (\<lambda>c. c \<notin> set ''/?#'') (drop 2 rest) else rest);
          p = takeWhile (\<lambda>c. c \<notin> set ''?#'') rest;
          segment = rev (takeWhile (\<lambda>c. c \<noteq> CHR ''/'') (rev p))
      in if (if has_scheme then to_lower before else []) \<in> set uses_params \<and> CHR '';'' \<in> set segment
         then take (length p - length segment) p @ takeWhile (\<lambda>c. c \<noteq> CHR '';'') segment else p)"

definition send_async ::
  "'s http_client \<Rightarrow> local_files \<Rightarrow> str \<Rightarrow> str \<Rightarrow> str list \<Rightarrow> str \<Rightarrow> bool \<Rightarrow> 's \<Rightarrow> (cli_exit + str) \<times> 's" where
  "send_async client disk dest path files api_key compress s =
     (case send_entries disk files of Inl e \<Rightarrow> (Inl (CliRaised e), s) | Inr entries \<Rightarrow>
     (case hc_uploads client (''Bearer '' @ api_key) dest path
             \<lparr>sm_files = entries, sm_file_count = Some (int (length files))\<rparr> s of
        (Inl (HttpxError msg), s1) \<Rightarrow> (Inl (CliExit 1), s1)
      | (Inl (BodyRaised e), s1) \<Rightarrow> (Inl (CliRaised e), s1)
      | (Inr init, s1) \<Rightarrow>
         (case raise_for_send (hp_status init) of Some e \<Rightarrow> (Inl e, s1) | None \<Rightarrow>
         (case loads (hp_text init) of
            None \<Rightarrow> (Inl (CliRaised (ValueError ''JSONDecodeError'')), s1)
          | Some (JObj body) \<Rightarrow>
             (case (map_of body ''upload_url'', map_of body ''batch_token'', map_of body ''bundle_id'') of
                (Some (JStr upload_url), Some batch_token, Some bundle_id) \<Rightarrow>
                  (case hc_tar client (url_path upload_url) (''Bearer '' @ py_str batch_token) compress (tar_chunks disk files) s1 of
                     (Inl (HttpxError msg), s2) \<Rightarrow> (Inl (CliExit 1), s2)
                   | (Inl (BodyRaised e), s2) \<Rightarrow> (Inl (CliRaised e), s2)
                   | (Inr resp, s2) \<Rightarrow>
                      (case raise_for_send (hp_status resp) of Some e \<Rightarrow> (Inl e, s2) | None \<Rightarrow>
                      (case loads (hp_text resp) of
                         None \<Rightarrow> (Inl (CliRaised (ValueError ''JSONDecodeError'')), s2)
                       | Some b \<Rightarrow> (bundle_line b (py_str bundle_id), s2))))
              | (None, _, _) \<Rightarrow> (Inl (CliRaised (KeyError ''upload_url'')), s1)
              | (_, None, _) \<Rightarrow> (Inl (CliRaised (KeyError ''batch_token'')), s1)
              | (_, _, None) \<Rightarrow> (Inl (CliRaised (KeyError ''bundle_id'')), s1)
              | _ \<Rightarrow> (Inl (CliRaised TypeError), s1))
          | Some _ \<Rightarrow> (Inl (CliRaised TypeError), s1)))))"

definition or_environ :: "environ \<Rightarrow> str \<Rightarrow> str option \<Rightarrow> str" where
  "or_environ env var opt =
     (case opt of Some (c # cs) \<Rightarrow> c # cs | _ \<Rightarrow> (case map_of env var of None \<Rightarrow> [] | Some v \<Rightarrow> v))"

text \<open>\<open>connect\<close> makes the client of a base URL.\<close>

definition cli_send ::
  "(str \<Rightarrow> 's http_client) \<Rightarrow> environ \<Rightarrow> local_files \<Rightarrow> str list \<Rightarrow> str \<Rightarrow> str \<Rightarrow> str option \<Rightarrow> str option \<Rightarrow> 's
   \<Rightarrow> (cli_exit + str) \<times> 's" where
  "cli_send connect env disk files dest path url api_key s =
     (let resolved_url = or_environ env ''CASSETTA_URL'' url; resolved_key = or_environ env ''CASSETTA_API_KEY'' api_key in
      if resolved_url = [] \<or> resolved_key = [] then (Inl (CliExit 2), s)
      else (case normalise_args files of
          Inl e \<Rightarrow> (Inl e, s)
        | Inr normalised \<Rightarrow> send_async (connect resolved_url) disk dest path normalised resolved_key True s))"

subsection \<open>cli/download.py\<close>

text \<open>\<open>peek\<close> reads the claims of a token without verifying it; it gives none for a text that is no token.\<close>

definition decode_recipient :: "(str \<Rightarrow> claims) \<Rightarrow> str \<Rightarrow> str option" where
  "decode_recipient peek token =
     (let recipient = map_of (peek token) ''recipient''
      in if truthy recipient then map_option py_str recipient else None)"

definition load_envelope :: "str \<Rightarrow> cli_exit + (str \<times> json) list" where
  "load_envelope raw =
     (case loads raw of Some (JObj envelope) \<Rightarrow> Inr envelope | _ \<Rightarrow> Inl (CliExit 2))"

text \<open>The files written so far, each with the parts of its path.\<close>

type_synonym downloaded = "(str list \<times> bytes) list"

definition write_file_streaming ::
  "'s http_client \<Rightarrow> str \<Rightarrow> str \<Rightarrow> str option \<Rightarrow> str list \<Rightarrow> downloaded \<Rightarrow> 's \<Rightarrow> cli_exit option \<times> downloaded \<times> 's" where
  "write_file_streaming client url authorization x_sender dest written s =
     (case hc_get client url (Some authorization) x_sender s of
        (Inl (HttpxError msg), s') \<Rightarrow> (Some (CliExit 1), written, s')
      | (Inl (BodyRaised e), s') \<Rightarrow> (Some (CliRaised e), written, s')
      | (Inr resp, s') \<Rightarrow>
         if \<not> (200 \<le> hp_status resp \<and> hp_status resp < 300) then (Some (CliExit 2), written, s')
         else (None, AList.update dest (hp_text resp) written, s'))"

definition field_text :: "(str \<times> json) list \<Rightarrow> str \<Rightarrow> str" where
  "field_text entry k = (case map_of entry k of None \<Rightarrow> [] | Some v \<Rightarrow> py_str v)"

fun cli_download_all ::
  "'s http_client \<Rightarrow> json list \<Rightarrow> str \<Rightarrow> str option \<Rightarrow> str list \<Rightarrow> downloaded \<Rightarrow> 's \<Rightarrow> cli_exit option \<times> downloaded \<times> 's" where
  "cli_download_all client [] authorization x_sender out written s = (None, written, s)"
| "cli_download_all client (entry # rest) authorization x_sender out written s =
     (case entry of
        JObj ms \<Rightarrow>
          (let name = field_text ms ''name''; url = field_text ms ''url'' in
           if name = [] \<or> url = [] then (Some (CliExit 2), written, s)
           else
             (case write_file_streaming client url authorization x_sender (join_parts out name) written s of
                (Some e, written', s') \<Rightarrow> (Some e, written', s')
              | (None, written', s') \<Rightarrow> cli_download_all client rest authorization x_sender out written' s'))
      | _ \<Rightarrow> (Some (CliExit 2), written, s))"

definition cli_download ::
  "'s http_client \<Rightarrow> (str \<Rightarrow> claims) \<Rightarrow> str \<Rightarrow> str list \<Rightarrow> downloaded \<Rightarrow> 's \<Rightarrow> cli_exit option \<times> downloaded \<times> 's" where
  "cli_download client peek manifest_text out written s =
     (case load_envelope manifest_text of
        Inl e \<Rightarrow> (Some e, written, s)
      | Inr envelope \<Rightarrow>
         if map_of envelope ''mode'' \<noteq> Some (JStr ''reference'') then (Some (CliExit 2), written, s)
         else
           (case map_of envelope ''download_token'' of
              Some (JStr (c # cs)) \<Rightarrow>
                (case map_of envelope ''files'' of
                   Some (JArr (f # fs)) \<Rightarrow>
                     cli_download_all client (f # fs) (''Bearer '' @ (c # cs)) (decode_recipient peek (c # cs)) out written s
                 | _ \<Rightarrow> (Some (CliExit 2), written, s))
            | _ \<Rightarrow> (Some (CliExit 2), written, s)))"

text \<open>The JSON of a reference envelope, as the route and the tool answer with it.\<close>

definition reference_file_json :: "reference_file \<Rightarrow> json" where
  "reference_file_json f = JObj [(''name'', JStr (rf_name f)), (''size'', JInt (rf_size f)), (''mime'', JStr (rf_mime f)), (''url'', JStr (rf_url f))]"

definition envelope_json :: "reference_envelope \<Rightarrow> json" where
  "envelope_json e =
     JObj [(''mode'', JStr ''reference''), (''bundle'', meta_json (re_bundle e)), (''files'', JArr (map reference_file_json (re_files e))),
           (''download_token'', JStr (re_download_token e)), (''expires_at'', JStr (re_expires_at e))]"

subsection \<open>cli/capabilities.py\<close>

definition dict_or_empty :: "json option \<Rightarrow> cli_exit + (str \<times> json) list" where
  "dict_or_empty v =
     (if \<not> truthy v then Inr [] else case v of Some (JObj ms) \<Rightarrow> Inr ms | _ \<Rightarrow> Inl (CliRaised AttributeError))"

definition list_or_empty :: "json option \<Rightarrow> cli_exit + json list" where
  "list_or_empty v =
     (if \<not> truthy v then Inr []
      else case v of
        Some (JArr js) \<Rightarrow> Inr js
      | Some (JObj ms) \<Rightarrow> Inr (map (JStr \<circ> fst) ms)
      | Some (JStr cs) \<Rightarrow> Inr (map (\<lambda>c. JStr [c]) cs)
      | _ \<Rightarrow> Inl (CliRaised TypeError))"

definition render_values :: "str \<Rightarrow> (str \<times> json) list \<Rightarrow> str list \<Rightarrow> str list" where
  "render_values missing ms keys =
     map (\<lambda>k. ''  '' @ k @ '': '' @ (case map_of ms k of None \<Rightarrow> missing | Some JNull \<Rightarrow> missing | Some v \<Rightarrow> py_str v)) keys"

text \<open>The lines of the layout.\<close>

definition render :: "(str \<times> json) list \<Rightarrow> cli_exit + str list" where
  "render doc =
     (case list_or_empty (map_of doc ''supported_modes'') of Inl e \<Rightarrow> Inl e | Inr modes \<Rightarrow>
     (case list_or_empty (map_of doc ''features'') of Inl e \<Rightarrow> Inl e | Inr features \<Rightarrow>
     (case dict_or_empty (map_of doc ''limits'') of Inl e \<Rightarrow> Inl e | Inr limits \<Rightarrow>
     (case dict_or_empty (map_of doc ''ttls'') of Inl e \<Rightarrow> Inl e | Inr ttl_values \<Rightarrow>
        Inr ([''Server version: '' @ (case map_of doc ''server_version'' of None \<Rightarrow> ''?'' | Some v \<Rightarrow> py_str v),
              ''Schema version: '' @ (case map_of doc ''schema_version'' of None \<Rightarrow> ''?'' | Some v \<Rightarrow> py_str v),
              ''Supported modes: '' @ join_with '', '' (map py_str modes),
              ''Features: '' @ join_with '', '' (map py_str features),
              ''Limits:'']
             @ render_values ''unlimited'' limits [''per_file_max'', ''per_bundle_total_max'', ''per_bundle_file_count_max'', ''max_inline_size'']
             @ [''TTLs (seconds):'']
             @ render_values ''n/a'' ttl_values [''upload_token_ttl'', ''download_claim_ttl'', ''passive_gc_min_age'', ''passive_gc_interval''])))))"

definition fetch_capabilities :: "'s http_client \<Rightarrow> str \<Rightarrow> str option \<Rightarrow> 's \<Rightarrow> (cli_exit + (str \<times> json) list) \<times> 's" where
  "fetch_capabilities client url api_key s =
     (case hc_get client (rstrip (CHR ''/'') url @ ''/capabilities'')
             (case api_key of Some (c # cs) \<Rightarrow> Some (''Bearer '' @ (c # cs)) | _ \<Rightarrow> None) None s of
        (Inl (HttpxError msg), s') \<Rightarrow> (Inl (CliExit 1), s')
      | (Inl (BodyRaised e), s') \<Rightarrow> (Inl (CliRaised e), s')
      | (Inr resp, s') \<Rightarrow>
         (if hp_status resp \<ge> 400 then Inl (CliExit 2)
          else case loads (hp_text resp) of Some (JObj data) \<Rightarrow> Inr data | _ \<Rightarrow> Inl (CliExit 2), s'))"

definition cli_capabilities :: "'s http_client \<Rightarrow> str \<Rightarrow> str option \<Rightarrow> 's \<Rightarrow> (cli_exit + str list) \<times> 's" where
  "cli_capabilities client url api_key s =
     (case fetch_capabilities client url api_key s of
        (Inl e, s') \<Rightarrow> (Inl e, s')
      | (Inr doc, s') \<Rightarrow> (render doc, s'))"

end
