(* ===== verification/Cli_Properties.thy ===== *)
theory Cli_Properties
  imports Cli Examples
begin

text \<open>
  The clients against the server: \<^verbatim>\<open>cassetta send\<close> and \<^verbatim>\<open>cassetta download\<close> with an HTTP client that hands
  each request to the route of the model and its answer back as JSON text.
\<close>

section \<open>URLs\<close>

lemma unreserved_hex_upper: "d < 16 \<Longrightarrow> unreserved (hex_upper d)"
  by (simp add: unreserved_def Let_def byte_hex_upper)

lemma url_quote_alphabet: "c \<in> set (url_quote s) \<Longrightarrow> unreserved c \<or> c = CHR ''%''"
proof -
  have "unreserved c \<or> c = CHR ''%''" if "c \<in> set (quote_char_pct x)" for x
    using that unreserved_hex_upper [OF byte_halves(2) [of x]] unreserved_hex_upper [of "byte_of x mod 16"]
    by (auto simp: quote_char_pct_def split: if_splits)
  then show "c \<in> set (url_quote s) \<Longrightarrow> unreserved c \<or> c = CHR ''%''" by (auto simp: url_quote_def)
qed

lemma url_quote_plain: "c \<in> set ''/?#;:'' \<union> {CHR 0x09, CHR 0x0A, CHR 0x0D} \<Longrightarrow> c \<notin> set (url_quote s)"
  using url_quote_alphabet [of c s] by (auto simp: unreserved_def)

lemma url_unquote_id: "CHR ''%'' \<notin> set s \<Longrightarrow> url_unquote s = s"
  by (induction s) (auto simp: unquote_plain)

text \<open>A public base URL that is a host.\<close>

definition host_url :: "str \<Rightarrow> str \<Rightarrow> bool" where
  "host_url base host \<longleftrightarrow> base = ''http://'' @ host \<and> host \<noteq> [] \<and> set host \<inter> (set ''/?#'' \<union> {CHR 0x09, CHR 0x0A, CHR 0x0D}) = {}"

lemma url_path_host:
  assumes h: "host_url base host" and x: "set x \<inter> (set ''?#;'' \<union> {CHR 0x09, CHR 0x0A, CHR 0x0D}) = {}"
  shows "url_path (base @ ''/'' @ x) = ''/'' @ x"
proof -
  let ?u = "base @ ''/'' @ x"
  have f: "filter (\<lambda>c. c \<notin> {CHR 0x09, CHR 0x0A, CHR 0x0D}) ?u = ?u"
    using h x by (intro filter_True) (auto simp: host_url_def)
  have sp: "dropWhile (\<lambda>c. of_char c \<le> (32 :: nat)) ?u = ?u" using h by (simp add: host_url_def)
  have hw: "takeWhile (\<lambda>c. c \<noteq> CHR '':'') ?u = ''http''" "dropWhile (\<lambda>c. c \<noteq> CHR '':'') ?u = ''://'' @ host @ ''/'' @ x"
    using h by (simp_all add: host_url_def)
  have dw: "dropWhile (\<lambda>c. c \<notin> set ''/?#'') (host @ ''/'' @ x) = ''/'' @ x"
    using h by (subst dropWhile_append2) (auto simp: host_url_def)
  have tw: "takeWhile (\<lambda>c. c \<noteq> CHR ''?'' \<and> c \<noteq> CHR ''#'') x = x"
    using x by (subst takeWhile_eq_all_conv) auto
  have seg: "CHR '';'' \<notin> set (rev (takeWhile (\<lambda>c. c \<noteq> CHR ''/'') (rev (''/'' @ x))))"
    using x by (auto dest!: set_takeWhileD)
  have sc: "hd ''http'' \<in> set (take 52 scheme_chars)" "set ''http'' \<subseteq> set scheme_chars" by code_simp+
  show ?thesis
    unfolding url_path_def sp f hw Let_def using dw seg sc by (simp add: scheme_chars_def tw)
qed

section \<open>The server behind the clients\<close>

text \<open>
  The routes as an HTTP client sees them. The framework decodes the path of the URL once before it hands the
  parameter to the route. \<open>sv_identity\<close> is the identity of a bearer text.
\<close>

record server =
  sv_identity :: "str \<Rightarrow> identity option"
  sv_send :: send_env
  sv_jti :: str
  sv_bundle_id :: str
  sv_key :: bytes
  sv_slots :: jwt_slots
  sv_check :: "str \<Rightarrow> token_error option"
  sv_routes :: route_env

definition json_reply :: "int \<Rightarrow> (str \<times> json) list \<Rightarrow> http_reply" where
  "json_reply status body = \<lparr>hp_status = status, hp_text = dumps (JObj body)\<rparr>"

definition session_reply :: "session_error + upload_session \<Rightarrow> http_reply" where
  "session_reply r =
     (case r of
        Inl (SessionHttp code e) \<Rightarrow> json_reply (int code) [(''detail'', JNull)]
      | Inr s \<Rightarrow> json_reply 201 [(''mode'', JStr ''batch''), (''bundle_id'', JStr (us_bundle_id s)), (''upload_url'', JStr (us_upload_url s)),
                 (''batch_token'', JStr (us_batch_token s)), (''expires_at'', JStr (us_expires_at s))])"

definition upload_reply :: "upload_error + str \<Rightarrow> http_reply" where
  "upload_reply r =
     (case r of
        Inl (UploadHttp code e reason) \<Rightarrow> json_reply (int code) [(''error'', JStr e), (''reason'', JStr reason)]
      | Inl (UploadLimits l) \<Rightarrow> json_reply (if lr_error l = CapExceeded then 413 else 422) []
      | Inl (UploadRaised e) \<Rightarrow> json_reply 500 []
      | Inr bundle_id \<Rightarrow> json_reply 201 [(''bundle_id'', JStr bundle_id), (''ok'', JBool True)])"

definition download_reply :: "download_error + download_response \<Rightarrow> http_reply" where
  "download_reply r =
     (case r of
        Inl (DownloadError code reason claim) \<Rightarrow> json_reply (int code) [(''reason'', JStr reason)]
      | Inl (DownloadRaised e) \<Rightarrow> json_reply 500 []
      | Inr resp \<Rightarrow> \<lparr>hp_status = 200, hp_text = ds_body resp\<rparr>)"

text \<open>One exchange at the time \<open>t\<close>.\<close>

definition server_client :: "server \<Rightarrow> int \<Rightarrow> int \<Rightarrow> fs http_client" where
  "server_client sv t mono_t =
     \<lparr>hc_uploads = (\<lambda>auth dest path manifest fs.
        (Inr (case sv_identity sv auth of
                None \<Rightarrow> json_reply 401 []
              | Some ident \<Rightarrow> session_reply (create_upload_session (sv_send sv) (sv_jti sv) (sv_bundle_id sv) (sv_key sv) t dest path manifest ident)), fs)),
      hc_tar = (\<lambda>path auth compress body fs.
        (case body of
           Inl e \<Rightarrow> (Inl (BodyRaised e), fs)
         | Inr archive \<Rightarrow>
            if \<not> startswith path ''/upload/'' then (Inr (json_reply 404 []), fs)
            else (case upload_bundle (jl_decode (se_lib (sv_send sv))) (sv_check sv) (rt_root (sv_routes sv)) t mono_t
                         (rt_limits (sv_routes sv)) (sv_slots sv) auth (url_unquote (drop 8 path)) archive fs of
                    (r, fs') \<Rightarrow> (Inr (upload_reply r), fs')))),
      hc_get = (\<lambda>url auth sender fs.
        (case download_file (jl_decode (rt_lib (sv_routes sv))) (sv_check sv) False (rt_digest (sv_routes sv)) (rt_claims_base (sv_routes sv))
                (rt_root (sv_routes sv)) t mono_t True (sv_slots sv)
                \<lparr>dr_authorization = (case auth of None \<Rightarrow> [] | Some a \<Rightarrow> a), dr_raw_path = url_path url, dr_x_sender = sender\<rparr> fs of
           (r, fs') \<Rightarrow> (Inr (download_reply r), fs')))\<rparr>"

section \<open>cassetta send\<close>

lemma send_entries_regular:
  "\<forall>n \<in> set names. disk n = Some (RegularFile (content n)) \<Longrightarrow>
    send_entries disk names = Inr (map (\<lambda>n. \<lparr>mf_name = n, mf_size = int (length (content n)), mf_mime = None\<rparr>) names)
    \<and> tar_chunks disk names = Inr (tar_of (map (\<lambda>n. (n, content n)) names))"
  by (induction names) (auto simp: getsize_def tar_of_def)

lemma session_reply_Inr:
  "raise_for_send (hp_status (session_reply (Inr s))) = None"
  "loads (hp_text (session_reply (Inr s)))
    = Some (JObj [(''mode'', JStr ''batch''), (''bundle_id'', JStr (us_bundle_id s)), (''upload_url'', JStr (us_upload_url s)),
        (''batch_token'', JStr (us_batch_token s)), (''expires_at'', JStr (us_expires_at s))])"
  by (simp_all add: session_reply_def json_reply_def raise_for_send_def loads_dumps del: dumps.simps)

lemma upload_reply_Inr:
  "raise_for_send (hp_status (upload_reply (Inr b))) = None"
  "loads (hp_text (upload_reply (Inr b))) = Some (JObj [(''bundle_id'', JStr b), (''ok'', JBool True)])"
  by (simp_all add: upload_reply_def json_reply_def raise_for_send_def loads_dumps del: dumps.simps)

lemma upload_url_path:
  assumes "host_url base host"
  shows "url_path (rstrip (CHR ''/'') base @ ''/upload/'' @ url_quote p) = ''/upload/'' @ url_quote p"
proof -
  have "rstrip (CHR ''/'') base = base"
    using assms by (cases host rule: rev_cases) (auto simp: host_url_def rstrip_def)
  moreover have "set (''upload/'' @ url_quote p) \<inter> (set ''?#;'' \<union> {CHR 0x09, CHR 0x0A, CHR 0x0D}) = {}"
    using url_quote_plain [of _ p] by auto
  ultimately show ?thesis using url_path_host [OF assms, of "''upload/'' @ url_quote p"] by simp
qed

text \<open>
  C16. \<^verbatim>\<open>cassetta send\<close> delivers. Against a server that accepts the session, sending local regular files to a free
  path prints the identifier of the bundle, and the recipient's inbox holds the files, byte for byte, with the
  label of the sender.
\<close>

theorem cli_send_delivers:
  assumes args: "or_environ env ''CASSETTA_URL'' url \<noteq> []" "key = or_environ env ''CASSETTA_API_KEY'' api_key" "key \<noteq> []"
      "normalise_args files = Inr names"
    and disk: "\<forall>n \<in> set names. disk n = Some (RegularFile (content n))"
    and ident: "sv_identity sv (''Bearer '' @ key) = Some ident"
    and session: "create_upload_session (sv_send sv) (sv_jti sv) (sv_bundle_id sv) (sv_key sv) t dest path
        \<lparr>sm_files = map (\<lambda>n. \<lparr>mf_name = n, mf_size = int (length (content n)), mf_mime = None\<rparr>) names,
         sm_file_count = Some (int (length names))\<rparr> ident = Inr s"
    and rec: "resolve_recipient (se_alias (sv_send sv)) dest (Some (id_label ident)) = Inr rec"
    and lib: "lib_laws (se_lib (sv_send sv))" "sv_check sv (sv_jti sv) = None" "js_primary (sv_slots sv) = sv_key sv"
      "0 < ts_upload_token_ttl (ttls (se_limits (sv_send sv)))"
    and files: "payload_ok (map (\<lambda>n. (n, content n)) names)"
      "\<forall>n \<in> set names. int (length (content n)) \<le> effective_per_file_max (rt_limits (sv_routes sv))"
    and fs: "store_invar (rt_root (sv_routes sv)) fs" "free_path (rt_root (sv_routes sv)) fs (inbox_path rec path)"
    and host: "host_url (se_public_base_url (sv_send sv)) host" "CHR ''%'' \<notin> set (inbox_path rec path)"
  shows "\<exists>fs' m. cli_send (\<lambda>base. server_client sv t mono_t) env disk files dest path url api_key fs
      = (Inr (''bundle_id='' @ sv_bundle_id sv), fs')
    \<and> meta_at (rt_root (sv_routes sv)) fs' (inbox_path rec path) = Some m \<and> bm_sender m = Some (id_label ident)
    \<and> (\<forall>n \<in> set names. file_at (rt_root (sv_routes sv)) fs' (inbox_path rec path) n = Some (content n))"
proof -
  let ?raw = "\<lparr>sm_files = map (\<lambda>n. \<lparr>mf_name = n, mf_size = int (length (content n)), mf_mime = None\<rparr>) names,
         sm_file_count = Some (int (length names))\<rparr>"
  let ?p = "inbox_path rec path" and ?fl = "map (\<lambda>n. (n, content n)) names"
  have m: "map (\<lambda>f. (mf_name f, mf_size f)) (sm_files ?raw) = map (\<lambda>(n, b). (n, int (length b))) ?fl" by simp
  have cap: "\<forall>(n, b) \<in> set ?fl. int (length b) \<le> effective_per_file_max (rt_limits (sv_routes sv))" using files(2) by auto
  have u: "url_unquote (url_unquote (url_quote ?p)) = ?p" using url_unquote_id [OF host(2)] by (simp add: url_unquote_quote)
  obtain fs' where f: "upload_bundle (jl_decode (se_lib (sv_send sv))) (sv_check sv) (rt_root (sv_routes sv)) t mono_t
      (rt_limits (sv_routes sv)) (sv_slots sv) (''Bearer '' @ us_batch_token s) (url_unquote (url_quote ?p)) (tar_of ?fl) fs
      = (Inr (sv_bundle_id sv), fs')"
    "meta_at (rt_root (sv_routes sv)) fs' ?p
      = Some (upload_meta t (sv_bundle_id sv) (Some (id_label ident)) (um_files (session_manifest (sv_send sv) ?raw)))"
    "\<forall>(n, b) \<in> set ?fl. file_at (rt_root (sv_routes sv)) fs' ?p n = Some b"
    using upload_declared [where chk = "sv_check sv" and jti = "sv_jti sv", OF session rec lib(1-3) order_refl _ m files(1) cap fs u] lib(4)
    by auto
  note us = create_upload_session_Inr [OF session rec]
  have url: "url_path (us_upload_url s) = ''/upload/'' @ url_quote ?p" unfolding us(3) by (rule upload_url_path [OF host(1)])
  have d: "drop 8 (''/upload/'' @ url_quote ?p) = url_quote ?p" by simp
  have tar: "hc_tar (server_client sv t mono_t) (''/upload/'' @ url_quote ?p) (''Bearer '' @ us_batch_token s) True (Inr (tar_of ?fl)) fs
      = (Inr (upload_reply (Inr (sv_bundle_id sv))), fs')"
    unfolding server_client_def http_client.simps sum.case d f(1) prod.case by simp
  have ini: "hc_uploads (server_client sv t mono_t) (''Bearer '' @ key) dest path ?raw fs = (Inr (session_reply (Inr s)), fs)"
    unfolding server_client_def http_client.simps ident option.case session by simp
  have "send_async (server_client sv t mono_t) disk dest path names key True fs = (Inr (''bundle_id='' @ sv_bundle_id sv), fs')"
    unfolding send_async_def send_entries_regular [OF disk, THEN conjunct1] send_entries_regular [OF disk, THEN conjunct2] sum.case ini prod.case
      session_reply_Inr option.case json.case
    by (simp add: url py_str_def tar [simplified] upload_reply_Inr bundle_line_def)
  then show ?thesis using args f(2,3) by (auto simp: cli_send_def upload_meta_def)
qed

definition ex_server :: server where
  "ex_server = \<lparr>sv_identity = (\<lambda>a. if a = ''Bearer cst_t'' then Some (KeyIdentity ''h:q'') else None), sv_send = ex_send_env,
     sv_jti = ''j1'', sv_bundle_id = ''b1'', sv_key = ex_key, sv_slots = ex_slots, sv_check = noop_revocation_check,
     sv_routes = ex_env (Some 100)\<rparr>"

definition ex_disk :: local_files where
  "ex_disk f = map_option RegularFile (map_of ex_files f)"

definition ex_local :: "manifest_file list" where
  "ex_local = map (\<lambda>n. \<lparr>mf_name = n, mf_size = int (length (ex_content n)), mf_mime = None\<rparr>) [''f'', ''d/g'']"

lemma ex_local_session:
  "\<exists>s. create_upload_session ex_send_env ''j1'' ''b1'' ex_key 0 ''h:p'' ''x''
     \<lparr>sm_files = ex_local, sm_file_count = Some (int (length [''f'', ''d/g'']))\<rparr> (KeyIdentity ''h:q'') = Inr s"
proof -
  have "validate_manifest \<lparr>um_file_count = 2, um_files = ex_local\<rparr> = Inr ()" "validate_path ''x'' None = Inr ()"
    "evaluate_upload (ex_limits (Some 100)) \<lparr>um_file_count = 2, um_files = ex_local\<rparr> = Accept InlineMode"
    by code_simp+
  moreover have "manifest_from_input \<lparr>sm_files = ex_local, sm_file_count = Some (int (length [''f'', ''d/g'']))\<rparr>
      = Inr \<lparr>um_file_count = 2, um_files = ex_local\<rparr>"
    by (simp add: manifest_from_input_def ex_local_def)
  ultimately show ?thesis
    by (simp add: create_upload_session_def prepare_send_init_def ex_send_env_def resolve_recipient_def)
qed

theorem cli_send_delivers_witness:
  "\<exists>fs' m. cli_send (\<lambda>base. server_client ex_server 0 0) [(''CASSETTA_API_KEY'', ''cst_t'')] ex_disk [''f'', ''./d/g''] ''h:p'' ''x''
      (Some ''http://h'') None ex_fs0 = (Inr ''bundle_id=b1'', fs')
    \<and> meta_at ex_root fs' ex_path = Some m \<and> bm_sender m = Some ''h:q''
    \<and> file_at ex_root fs' ex_path ''d/g'' = Some ''you''"
proof -
  obtain s where s: "create_upload_session ex_send_env ''j1'' ''b1'' ex_key 0 ''h:p'' ''x''
     \<lparr>sm_files = ex_local, sm_file_count = Some (int (length [''f'', ''d/g'']))\<rparr> (KeyIdentity ''h:q'') = Inr s"
    using ex_local_session by blast
  have a: "normalise_args [''f'', ''./d/g''] = Inr [''f'', ''d/g'']" "host_url ''http://h'' ''h''"
    "CHR ''%'' \<notin> set ex_path" by code_simp+
  have d: "\<forall>n \<in> set [''f'', ''d/g'']. ex_disk n = Some (RegularFile (ex_content n))"
    "map (\<lambda>n. (n, ex_content n)) [''f'', ''d/g''] = ex_files" "ex_content ''d/g'' = ''you''"
    "\<forall>n \<in> set [''f'', ''d/g'']. int (length (ex_content n)) \<le> effective_per_file_max (ex_limits (Some 100))"
    by (simp_all add: ex_disk_def ex_content_def ex_files_def ex_limits_facts)
  have sv: "sv_send ex_server = ex_send_env" "sv_jti ex_server = ''j1''" "sv_bundle_id ex_server = ''b1''" "sv_key ex_server = ex_key"
    "sv_slots ex_server = ex_slots" "sv_check ex_server = noop_revocation_check" "sv_routes ex_server = ex_env (Some 100)"
    "sv_identity ex_server (''Bearer '' @ ''cst_t'') = Some (KeyIdentity ''h:q'')" "se_public_base_url ex_send_env = ''http://h''"
    by (simp_all add: ex_server_def ex_send_env_def)
  note w = cli_send_delivers [where sv = ex_server and rec = "''h:p''" and path = "''x''" and content = ex_content and key = "''cst_t''",
      unfolded sv(1-7) ex_env_simps ex_inbox_path, folded ex_local_def]
  have "\<exists>fs' m. cli_send (\<lambda>base. server_client ex_server 0 0) [(''CASSETTA_API_KEY'', ''cst_t'')] ex_disk [''f'', ''./d/g''] ''h:p'' ''x''
        (Some ''http://h'') None ex_fs0 = (Inr (''bundle_id='' @ ''b1''), fs')
      \<and> meta_at ex_root fs' ex_path = Some m \<and> bm_sender m = Some (id_label (KeyIdentity ''h:q''))
      \<and> (\<forall>n \<in> set [''f'', ''d/g'']. file_at ex_root fs' ex_path n = Some (ex_content n))"
    by (rule w [OF _ _ _ a(1) d(1) sv(8) s [unfolded ex_local_def] _ ex_lib_laws _ refl _ _ d(4) ex_ok(1) ex_free(1) _ a(3)])
      (use a(2) ex_free(2) d(2) in \<open>simp_all add: or_environ_def resolve_recipient_def noop_revocation_check_def ex_limits_facts sv\<close>)
  then show ?thesis using d(3) by auto
qed

section \<open>cassetta download\<close>

lemma json_ok_envelope: "json_ok (envelope_json e)"
  by (auto simp: envelope_json_def reference_file_json_def json_ok_meta_json list_all_iff)

lemma fold_update_lookup:
  "distinct (map k ns) \<Longrightarrow>
   map_of (fold (\<lambda>n w. AList.update (k n) (c n) w) ns w) x = (case find (\<lambda>n. k n = x) ns of None \<Rightarrow> map_of w x | Some n \<Rightarrow> Some (c n))"
proof (induction ns arbitrary: w)
  case (Cons n ns)
  have "find (\<lambda>m. k m = k n) ns = None" using Cons.prems by (auto simp: find_None_iff image_iff)
  then show ?case using Cons by (auto simp: update_conv' split: option.split)
qed simp

lemma download_url_path:
  assumes "host_url base host"
  shows "url_path (build_download_url base p n tok) = ''/download/'' @ url_quote p @ ''/'' @ url_quote n"
proof -
  have "rstrip (CHR ''/'') base = base"
    using assms by (cases host rule: rev_cases) (auto simp: host_url_def rstrip_def)
  moreover have "set (''download/'' @ url_quote p @ ''/'' @ url_quote n) \<inter> (set ''?#;'' \<union> {CHR 0x09, CHR 0x0A, CHR 0x0D}) = {}"
    using url_quote_plain [of _ p] url_quote_plain [of _ n] by auto
  ultimately show ?thesis
    using url_path_host [OF assms, of "''download/'' @ url_quote p @ ''/'' @ url_quote n"] by (simp add: build_download_url_def)
qed

lemma field_text_reference:
  "\<exists>ms. reference_file_json f = JObj ms \<and> field_text ms ''name'' = rf_name f \<and> field_text ms ''url'' = rf_url f"
  by (auto simp: reference_file_json_def field_text_def py_str_def)

lemma cli_download_all_ok:
  assumes h: "host_url base host"
  shows "\<lbrakk>download_all (\<lambda>t. download_file (jl_decode (rt_lib (sv_routes sv))) (sv_check sv) False (rt_digest (sv_routes sv))
          (rt_claims_base (sv_routes sv)) (rt_root (sv_routes sv)) t mono_t True (sv_slots sv))
        (map (\<lambda>f. (t, file_request tok p (mf_name f) sender)) files) fs = (rs, fs');
      list_all2 (\<lambda>f r. \<exists>resp. r = Inr resp \<and> ds_body resp = content (mf_name f)) files rs;
      \<forall>f \<in> set files. mf_name f \<noteq> []\<rbrakk>
    \<Longrightarrow> cli_download_all (server_client sv t mono_t)
        (map (\<lambda>f. reference_file_json (reference_entry (build_download_url base) p tok f)) files) (''Bearer '' @ tok) sender out w fs
      = (None, fold (\<lambda>f w. AList.update (join_parts out (mf_name f)) (content (mf_name f)) w) files w, fs')"
proof (induction files arbitrary: fs rs w)
  case Nil
  then show ?case by simp
next
  case (Cons f files)
  let ?e = "reference_entry (build_download_url base) p tok f"
  let ?dl = "download_file (jl_decode (rt_lib (sv_routes sv))) (sv_check sv) False (rt_digest (sv_routes sv))
          (rt_claims_base (sv_routes sv)) (rt_root (sv_routes sv)) t mono_t True (sv_slots sv)"
  obtain r fs1 rs' where d: "?dl (file_request tok p (mf_name f) sender) fs = (r, fs1)" "rs = r # rs'"
    and a: "download_all (\<lambda>t. download_file (jl_decode (rt_lib (sv_routes sv))) (sv_check sv) False (rt_digest (sv_routes sv))
          (rt_claims_base (sv_routes sv)) (rt_root (sv_routes sv)) t mono_t True (sv_slots sv))
        (map (\<lambda>f. (t, file_request tok p (mf_name f) sender)) files) fs1 = (rs', fs')"
    using Cons.prems(1) by (auto split: prod.splits)
  obtain resp where r: "r = Inr resp" "ds_body resp = content (mf_name f)" using Cons.prems(2) d(2) by auto
  obtain ms where ms: "reference_file_json ?e = JObj ms" "field_text ms ''name'' = mf_name f"
    "field_text ms ''url'' = build_download_url base p (mf_name f) tok"
    using field_text_reference [of ?e] by (auto simp: reference_entry_def)
  have nz: "mf_name f \<noteq> []" "build_download_url base p (mf_name f) tok \<noteq> []"
    using Cons.prems(3) by (simp_all add: build_download_url_def)
  have "hc_get (server_client sv t mono_t) (build_download_url base p (mf_name f) tok) (Some (''Bearer '' @ tok)) sender fs
      = (Inr (download_reply r), fs1)"
    unfolding server_client_def http_client.simps option.case download_url_path [OF h] file_request_def [symmetric] d(1) prod.case ..
  then have "write_file_streaming (server_client sv t mono_t) (build_download_url base p (mf_name f) tok) (''Bearer '' @ tok) sender
      (join_parts out (mf_name f)) w fs = (None, AList.update (join_parts out (mf_name f)) (content (mf_name f)) w, fs1)"
    unfolding write_file_streaming_def by (simp add: download_reply_def r)
  moreover have "cli_download_all (server_client sv t mono_t)
        (map (\<lambda>f. reference_file_json (reference_entry (build_download_url base) p tok f)) files) (''Bearer '' @ tok) sender out
        (AList.update (join_parts out (mf_name f)) (content (mf_name f)) w) fs1
      = (None, fold (\<lambda>f w. AList.update (join_parts out (mf_name f)) (content (mf_name f)) w) files
          (AList.update (join_parts out (mf_name f)) (content (mf_name f)) w), fs')"
    using Cons.IH [OF a, of "AList.update (join_parts out (mf_name f)) (content (mf_name f)) w"] Cons.prems(2,3) d(2) by simp
  ultimately show ?case
    unfolding list.map cli_download_all.simps ms(1) json.case ms(2,3) Let_def using nz by simp
qed

lemma decode_recipient_pick_token:
  assumes lib: "lib_laws (rt_lib env)" and agent: "agent \<noteq> []"
  shows "decode_recipient (jl_peek (rt_lib env)) (pick_token env uuid t p m agent) = Some agent"
proof -
  let ?k = "with_jti uuid (build_claims p m agent (download_ttl (rt_limits env)) (epoch t))"
  have "jl_peek (rt_lib env) (pick_token env uuid t p m agent) = ?k"
    using lib claims_ok_build by (simp add: lib_laws_def pick_token_def sign_def del: json_ok.simps)
  moreover have "map_of ?k ''recipient'' = Some (JStr agent)" unfolding build_claims_lookup by (simp add: build_claims_def)
  ultimately show ?thesis using agent by (simp add: decode_recipient_def truthy_def py_str_def)
qed

text \<open>The envelope of a pick by reference read back by the client: it fetches the listed files with the credential.\<close>

lemma cli_download_envelope:
  assumes cl: "cli_download_all client
      (map (\<lambda>f. reference_file_json (reference_entry (build_download_url (rt_public_base_url env)) p (pick_token env uuid t p m agent) f)) (bm_files m))
      (''Bearer '' @ pick_token env uuid t p m agent) (Some agent) out [] fs = res"
    and peek: "decode_recipient peek (pick_token env uuid t p m agent) = Some agent"
    and n: "bm_files m \<noteq> []" "pick_token env uuid t p m agent \<noteq> []"
  shows "cli_download client peek (dumps (envelope_json (pick_envelope env uuid t p m agent))) out [] fs = res"
proof -
  let ?tok = "pick_token env uuid t p m agent" and ?e = "pick_envelope env uuid t p m agent"
  obtain x xs where x: "map (\<lambda>f. reference_file_json (reference_entry (build_download_url (rt_public_base_url env)) p ?tok f)) (bm_files m) = x # xs"
    using n(1) by (cases "bm_files m") auto
  obtain y ys where y: "?tok = y # ys" using n(2) by (cases ?tok) auto
  have en: "load_envelope (dumps (envelope_json ?e)) = Inr [(''mode'', JStr ''reference''), (''bundle'', meta_json m), (''files'', JArr (x # xs)),
      (''download_token'', JStr (y # ys)), (''expires_at'', JStr (re_expires_at ?e))]"
    using loads_dumps [OF json_ok_envelope, of ?e] x y
    by (simp add: load_envelope_def envelope_json_def pick_envelope_def build_reference_envelope_with_path_def comp_def del: dumps.simps)
  show ?thesis
    unfolding cli_download_def en sum.case using cl [unfolded x, unfolded y] peek [unfolded y] by (simp del: cli_download_all.simps)
qed

lemma written_contents:
  assumes "distinct (map (\<lambda>f. join_parts out (mf_name f)) files)" "f \<in> set files"
  shows "map_of (fold (\<lambda>f w. AList.update (join_parts out (mf_name f)) (content (mf_name f)) w) files []) (join_parts out (mf_name f))
      = Some (content (mf_name f))"
  using fold_update_lookup [OF assms(1), of "\<lambda>f. content (mf_name f)" "[]"] assms
  by (auto simp: find_None_iff find_Some_iff distinct_conv_nth in_set_conv_nth split: option.split)

text \<open>
  C17. \<^verbatim>\<open>cassetta download\<close> fetches. The envelope of a pick by reference, as JSON text, given to the client while
  its credential is valid, makes it write every file of the bundle below the target directory, byte for byte, and exit
  without error; the bundle, its claim and its lock are then gone from the server.
\<close>

theorem cli_download_fetches:
  assumes store: "store_invar (rt_root (sv_routes sv)) fs" "claims_invar (rt_digest (sv_routes sv)) (rt_claims_base (sv_routes sv)) fs"
      "separate (rt_root (sv_routes sv)) (rt_claims_base (sv_routes sv))" "good_key (inbox_path agent path)" "path \<noteq> ''latest''"
    and m: "meta_at (rt_root (sv_routes sv)) fs (inbox_path agent path) = Some m"
      "\<forall>f \<in> set (bm_files m). good_key (mf_name f)
         \<and> file_at (rt_root (sv_routes sv)) fs (inbox_path agent path) (mf_name f) = Some (content (mf_name f))"
    and pick: "rt_access (sv_routes sv) ident (''inbox:'' @ agent) ''pick''"
      "is_expired_by_meta t (bm_created_at m) (rt_default_ttl (sv_routes sv)) = Inr False"
      "evaluate_download (rt_limits (sv_routes sv)) (total_size (bm_files m)) = DownloadReference"
      "jti_ok uuid" "claim_free (rt_digest (sv_routes sv)) (rt_claims_base (sv_routes sv)) fs uuid (inbox_path agent path)"
    and lib: "lib_laws (rt_lib (sv_routes sv))" "sv_check sv uuid = None" "js_primary (sv_slots sv) = rt_jwt_primary_key (sv_routes sv)"
      "agent \<noteq> []" "pick_token (sv_routes sv) uuid t (inbox_path agent path) m agent \<noteq> []"
    and tm: "epoch t \<le> epoch t'" "epoch t' < epoch t + download_ttl (rt_limits (sv_routes sv))"
    and host: "host_url (rt_public_base_url (sv_routes sv)) host"
    and names: "bm_files m \<noteq> []" "\<forall>f \<in> set (bm_files m). mf_name f \<noteq> []"
      "distinct (map (\<lambda>f. join_parts out (mf_name f)) (bm_files m))"
  shows "\<exists>r e fs1 written fs2. pick_inbox_file (sv_routes sv) uuid t ident agent path fs = (Inr r, fs1) \<and> rr_body r = ReferenceBody e
    \<and> cli_download (server_client sv t' mono_t) (jl_peek (rt_lib (sv_routes sv))) (dumps (envelope_json e)) out [] fs1 = (None, written, fs2)
    \<and> (\<forall>f \<in> set (bm_files m). map_of written (join_parts out (mf_name f)) = Some (content (mf_name f)))
    \<and> meta_at (rt_root (sv_routes sv)) fs2 (inbox_path agent path) = None
    \<and> record_of (rt_claims_base (sv_routes sv)) fs2 uuid = None
    \<and> \<not> locked (rt_digest (sv_routes sv)) (rt_claims_base (sv_routes sv)) fs2 (inbox_path agent path)"
proof -
  let ?env = "sv_routes sv" and ?p = "inbox_path agent path" and ?c = "pick_claim uuid t (inbox_path agent path) m agent"
  let ?e = "pick_envelope ?env uuid t ?p m agent" and ?tok = "pick_token ?env uuid t ?p m agent"
  have gx: "good_key ''x''" by (simp add: good_key_def path_parts_def)
  obtain r fs1 where r: "pick_inbox_file ?env uuid t ident agent path fs = (Inr r, fs1)" "rr_body r = ReferenceBody ?e"
    "claimed (rt_digest ?env) (rt_claims_base ?env) (rt_root ?env) ?c fs1"
    and v: "\<forall>p n. good_key p \<longrightarrow> good_key n \<longrightarrow> meta_at (rt_root ?env) fs1 p = meta_at (rt_root ?env) fs p
         \<and> file_at (rt_root ?env) fs1 p n = file_at (rt_root ?env) fs p n"
    using pick_reference_ok [OF store m(1) pick lib(1)] by blast
  have c: "meta_at (rt_root ?env) fs1 ?p = Some m"
    "\<forall>f \<in> set (bm_files m). good_key (mf_name f) \<and> file_at (rt_root ?env) fs1 ?p (mf_name f) = Some (content (mf_name f))"
    using m store(4) gx v by auto
  have cj: "cr_jti ?c = uuid" "cr_bundle_path ?c = ?p" "cr_files_fetched ?c = []" by (simp_all add: pick_claim_def)
  have env: "fetch_env (rt_lib ?env) (sv_check sv) uuid False (Some agent) agent (rt_jwt_primary_key ?env) (sv_slots sv)"
    using lib by (simp add: fetch_env_def)
  have pre: "startswith ?p ''inbox/''" by (simp add: inbox_path_def)
  have dn: "distinct (map mf_name (bm_files m))" using names(3) by (auto simp: distinct_map inj_on_def)
  let ?reqs = "map (\<lambda>f. (t', mf_name f)) (bm_files m)"
  obtain rs fs2 where d: "download_all (\<lambda>t. download_file (jl_decode (rt_lib ?env)) (sv_check sv) False (rt_digest ?env) (rt_claims_base ?env)
          (rt_root ?env) t mono_t True (sv_slots sv)) (map (\<lambda>(t, n). (t, file_request ?tok ?p n (Some agent))) ?reqs) fs1 = (rs, fs2)"
    "list_all2 (\<lambda>(t, n) r. \<exists>resp. r = Inr resp \<and> ds_body resp = content n) ?reqs rs"
    "meta_at (rt_root ?env) fs2 ?p = None" "record_of (rt_claims_base ?env) fs2 uuid = None" "\<not> locked (rt_digest ?env) (rt_claims_base ?env) fs2 ?p"
    using fetch_all [where rest = ?reqs and mono_t = mono_t, OF env pick_token_def [of ?env uuid t ?p m agent] pre r(3) cj(1,2) c] cj(3) tm names(1) dn
    by (auto simp: image_image comp_def)
  have peek: "decode_recipient (jl_peek (rt_lib ?env)) ?tok = Some agent" by (rule decode_recipient_pick_token [OF lib(1,4)])
  have cl: "cli_download_all (server_client sv t' mono_t)
      (map (\<lambda>f. reference_file_json (reference_entry (build_download_url (rt_public_base_url ?env)) ?p ?tok f)) (bm_files m))
      (''Bearer '' @ ?tok) (Some agent) out [] fs1
    = (None, fold (\<lambda>f w. AList.update (join_parts out (mf_name f)) (content (mf_name f)) w) (bm_files m) [], fs2)"
    by (rule cli_download_all_ok [OF host _ _ names(2)])
      (use d(1,2) in \<open>simp_all add: comp_def list_all2_map1\<close>)
  have "cli_download (server_client sv t' mono_t) (jl_peek (rt_lib ?env)) (dumps (envelope_json ?e)) out [] fs1
    = (None, fold (\<lambda>f w. AList.update (join_parts out (mf_name f)) (content (mf_name f)) w) (bm_files m) [], fs2)"
    by (rule cli_download_envelope [OF cl peek names(1) lib(5)])
  moreover note written_contents [OF names(3)]
  ultimately show ?thesis using r(1,2) d(3-5) by blast
qed

theorem cli_download_fetches_witness:
  "\<exists>r e fs1 written fs2. pick_inbox_file (ex_env (Some 1)) ''u'' 5000000 (KeyIdentity ''h:p'') ''h:p'' ''x'' ex_fs1 = (Inr r, fs1)
    \<and> rr_body r = ReferenceBody e
    \<and> cli_download (server_client (ex_server\<lparr>sv_routes := ex_env (Some 1)\<rparr>) 6000000 0) (jl_peek ex_lib) (dumps (envelope_json e)) [''out''] [] fs1
      = (None, written, fs2)
    \<and> map_of written [''out'', ''d'', ''g''] = Some ''you'' \<and> meta_at ex_root fs2 ex_path = None"
proof -
  let ?sv = "ex_server\<lparr>sv_routes := ex_env (Some 1)\<rparr>"
  have sv: "sv_routes ?sv = ex_env (Some 1)" "sv_slots ?sv = ex_slots" "sv_check ?sv = noop_revocation_check" by (simp_all add: ex_server_def)
  have j: "jti_ok ''u''" by (simp add: jti_ok_def)
  have tok: "pick_token (ex_env (Some 1)) ''u'' 5000000 ex_path ex_meta ''h:p'' \<noteq> []"
    by (simp add: pick_token_def sign_def ex_env_simps ex_lib_def ex_encode_def)
  have h: "host_url (rt_public_base_url (ex_env (Some 1))) ''h''" by (simp add: ex_env_def host_url_def)
  have jp: "join_parts [''out''] ''f'' = [''out'', ''f'']" "join_parts [''out''] ''d/g'' = [''out'', ''d'', ''g'']" by code_simp+
  have n: "bm_files ex_meta \<noteq> []" "\<forall>f \<in> set (bm_files ex_meta). mf_name f \<noteq> []"
    "distinct (map (\<lambda>f. join_parts [''out''] (mf_name f)) (bm_files ex_meta))"
    using jp by (simp_all add: ex_created ex_manifest_def)
  have tm: "epoch 5000000 \<le> epoch 6000000" "epoch 6000000 < epoch 5000000 + download_ttl (ex_limits (Some 1))"
    by (simp_all add: ex_epoch ex_limits_facts)
  have ex: "is_expired_by_meta 5000000 (bm_created_at ex_meta) 60 = Inr False"
    "evaluate_download (ex_limits (Some 1)) (total_size (bm_files ex_meta)) = DownloadReference"
    by (simp_all add: ex_created ex_fresh ex_limits_facts)
  obtain r e fs1 written fs2 where w: "pick_inbox_file (ex_env (Some 1)) ''u'' 5000000 (KeyIdentity ''h:p'') ''h:p'' ''x'' ex_fs1 = (Inr r, fs1)"
    "rr_body r = ReferenceBody e" "cli_download (server_client ?sv 6000000 0) (jl_peek ex_lib) (dumps (envelope_json e)) [''out''] [] fs1 = (None, written, fs2)"
    "\<forall>f \<in> set (bm_files ex_meta). map_of written (join_parts [''out''] (mf_name f)) = Some (ex_content (mf_name f))"
    "meta_at ex_root fs2 ex_path = None"
    using cli_download_fetches [where sv = ?sv and agent = "''h:p''" and path = "''x''" and uuid = "''u''" and ident = "KeyIdentity ''h:p''"
        and mono_t = 0, unfolded sv ex_env_simps ex_inbox_path, OF ex_view(1) ex_claims(1,2) ex_ok(2) _ ex_view(2) ex_contents _ ex j ex_claims(3) ex_lib_laws
        _ _ _ tok tm h n] by (auto simp: noop_revocation_check_def)
  have "map_of written [''out'', ''d'', ''g''] = Some ''you''"
    using w(4) jp by (simp add: ex_created ex_manifest_def) (simp add: ex_content_def ex_files_def)
  with w show ?thesis by blast
qed

text \<open>The name of an entry is joined to the target directory unchecked: an absolute one replaces it.\<close>

lemma download_leaves_target: "join_parts [''out''] ''/etc/x'' = [''etc'', ''x'']"
  by code_simp

end
