(* ===== verification/Names.thy ===== *)
theory Names
  imports Gc Upload
begin

text \<open>
  The names of directory entries. Whatever texts a request brings, the operations of both stores create entries only under
  names a POSIX directory can have, so that a listing, which spells paths from the entries it finds, names the directories
  it means.
\<close>

named_theorems names_intro "operations that keep the names of directory entries"

definition part_ok :: "str \<Rightarrow> bool" where
  "part_ok c = (name_ok c \<or> c = ''..'')"

lemma parts_ok_path [simp]: "list_all part_ok (path_parts s)"
  using split_on_no_sep by (auto simp: path_parts_def list_all_iff part_ok_def name_ok_def)

lemma parts_ok_join: "list_all part_ok base \<Longrightarrow> list_all part_ok (join_parts base s)"
  by (simp add: join_parts_def)

lemma parts_ok_resolve: "list_all part_ok root \<Longrightarrow> list_all part_ok (resolve root p)"
  unfolding resolve_def data_root_def by (rule parts_ok_join) (simp add: part_ok_def name_ok_def)

lemma parts_ok_butlast: "list_all part_ok p \<Longrightarrow> list_all part_ok (butlast p)"
  by (auto simp: list_all_iff dest: in_set_butlastD)

lemma walk_names: "walk fs cur parts = Inr q \<Longrightarrow> list_all part_ok parts \<Longrightarrow> list_all name_ok cur \<Longrightarrow> list_all name_ok q"
proof (induction parts arbitrary: cur)
  case (Cons c cs)
  have "list_all name_ok (butlast cur)" using Cons.prems(3) by (auto simp: list_all_iff dest: in_set_butlastD)
  moreover have "c \<noteq> ''..'' \<Longrightarrow> name_ok c" using Cons.prems(2) by (simp add: part_ok_def)
  ultimately show ?case using Cons.prems by (auto split: option.splits node.splits intro: Cons.IH)
qed simp

subsection \<open>File operations\<close>

lemma fs_names_touch [simp]: "fs_names (touch t p fs) = fs_names fs"
  by (auto simp: fs_names_def touch_def list_all_iff)

lemma fs_names_update: "fs_names fs \<Longrightarrow> list_all name_ok p \<Longrightarrow> fs_names (AList.update p n fs)"
  by (induction fs) (auto simp: fs_names_def)

lemma fs_names_filter: "fs_names fs \<Longrightarrow> fs_names (filter P fs)"
  by (auto simp: fs_names_def list_all_iff)

lemma fs_names_del: "fs_names fs \<Longrightarrow> fs_names (AList.delete p fs)"
  by (simp add: AList.delete_eq fs_names_filter)

lemma os_mkdir_names: "os_mkdir t parts fs = Inr fs' \<Longrightarrow> fs_names fs \<Longrightarrow> list_all part_ok parts \<Longrightarrow> fs_names fs'"
  by (auto simp: os_mkdir_def intro!: fs_names_update dest: walk_names split: sum.splits option.splits)

lemma mkdir_p_names: "mkdir_p t parts fs = Inr fs' \<Longrightarrow> fs_names fs \<Longrightarrow> list_all part_ok parts \<Longrightarrow> fs_names fs'"
proof (induction t parts fs arbitrary: fs' rule: mkdir_p.induct)
  case (1 t parts fs)
  show ?case
  proof (cases "os_mkdir t parts fs")
    case (Inr fs1)
    with 1 os_mkdir_names show ?thesis by (simp add: mkdir_p.simps [of t parts fs])
  next
    case (Inl e)
    with 1 show ?thesis
      by (auto simp: mkdir_p.simps [of t parts fs] parts_ok_butlast split: if_splits sum.splits intro: os_mkdir_names)
  qed
qed

lemma write_bytes_names: "write_bytes t parts b fs = Inr fs' \<Longrightarrow> fs_names fs \<Longrightarrow> list_all part_ok parts \<Longrightarrow> fs_names fs'"
  by (auto simp: write_bytes_def intro!: fs_names_update dest: walk_names split: sum.splits option.splits node.splits)

lemma create_excl_names: "create_excl t parts b fs = Inr fs' \<Longrightarrow> fs_names fs \<Longrightarrow> list_all part_ok parts \<Longrightarrow> fs_names fs'"
  by (auto simp: create_excl_def intro!: fs_names_update dest: walk_names split: sum.splits option.splits)

lemma unlink_names: "unlink t parts fs = Inr fs' \<Longrightarrow> fs_names fs \<Longrightarrow> fs_names fs'"
  by (auto simp: unlink_def fs_names_del split: sum.splits option.splits node.splits)

lemma rename_names: "rename t src dst fs = Inr fs' \<Longrightarrow> fs_names fs \<Longrightarrow> list_all part_ok dst \<Longrightarrow> fs_names fs'"
  by (auto simp: rename_def intro!: fs_names_update fs_names_del dest: walk_names split: sum.splits option.splits node.splits)

lemma rmtree_names: "rmtree t parts fs = Inr fs' \<Longrightarrow> fs_names fs \<Longrightarrow> fs_names fs'"
  by (auto simp: rmtree_def fs_names_filter split: sum.splits option.splits node.splits)

lemmas fs_op_names = os_mkdir_names mkdir_p_names write_bytes_names create_excl_names unlink_names rename_names rmtree_names

subsection \<open>Bundles\<close>

lemma open_bundle_write_names:
  "open_bundle_write root t p fs = (r, fs') \<Longrightarrow> fs_names fs \<Longrightarrow> list_all part_ok root
   \<Longrightarrow> fs_names fs' \<and> (\<forall>w. r = Inr w \<longrightarrow> list_all part_ok (bw_dir w))"
  using parts_ok_resolve [of root p] parts_ok_butlast [OF parts_ok_resolve [of root p]]
  by (auto simp: open_bundle_write_def Let_def new_writer_def split: option.splits sum.splits if_splits intro: fs_op_names)

lemma write_file_names:
  "write_file t n b w fs = (r, fs') \<Longrightarrow> fs_names fs \<Longrightarrow> list_all part_ok (bw_dir w)
   \<Longrightarrow> fs_names fs' \<and> (\<forall>w'. r = Inr w' \<longrightarrow> bw_dir w' = bw_dir w)"
  using parts_ok_join [of "bw_dir w" n] parts_ok_butlast [OF parts_ok_join [of "bw_dir w" n]]
  by (auto simp: write_file_def Let_def split: sum.splits if_splits intro: fs_op_names)

lemma commit_names:
  assumes c: "commit t m w fs = (r, fs')" and n: "fs_names fs" "list_all part_ok (bw_dir w)"
  shows "fs_names fs'"
proof -
  have p: "list_all part_ok (bw_dir w @ [BUNDLE_MANIFEST_TMP])" "list_all part_ok (bw_dir w @ [BUNDLE_MANIFEST])"
    using n(2) by (simp_all add: part_ok_def name_ok_def)
  have "fs_names fs1" if "write_bytes t (bw_dir w @ [BUNDLE_MANIFEST_TMP]) b fs = Inr fs1" for b fs1
    by (rule write_bytes_names [OF that n(1) p(1)])
  with c n(1) rename_names [OF _ _ p(2)] show ?thesis
    by (auto simp: commit_def Let_def split: option.splits sum.splits)
qed

lemma abort_names: "fs_names fs \<Longrightarrow> fs_names (abort t w fs)"
  by (auto simp: abort_def split: sum.splits intro: rmtree_names)

lemma stream_members_write:
  "check_member cfg files ev = Inr (n, b) \<Longrightarrow> write_file t n b w fs = (Inr w1, fs1)
   \<Longrightarrow> stream_members t cfg files (ev # rest) seen w fs = stream_members t cfg files rest (seen @ [n]) w1 fs1"
  by simp

lemma receive_streamed:
  "open_bundle_write root t path fs = (Inr w, fs1) \<Longrightarrow> stream_tar_into_writer t cfg (bm_files m) archive w fs1 = (Inr w2, fs2)
   \<Longrightarrow> commit t m w2 fs2 = (r, fs3)
   \<Longrightarrow> snd (receive_bundle root t cfg path m archive fs) = (case r of Inl e \<Rightarrow> abort t w2 fs3 | Inr x \<Rightarrow> fs3)"
  by (simp add: receive_bundle_def split: sum.split)

lemma stream_members_names:
  "stream_members t cfg files archive seen w fs = (r, fs') \<Longrightarrow> fs_names fs \<Longrightarrow> list_all part_ok (bw_dir w)
   \<Longrightarrow> fs_names fs' \<and> (\<forall>seen' w'. r = Inr (seen', w') \<longrightarrow> bw_dir w' = bw_dir w)"
proof (induction archive arbitrary: seen w fs)
  case Nil
  then show ?case by auto
next
  case (Cons ev rest)
  show ?case
  proof (cases "check_member cfg files ev")
    case (Inl e)
    with Cons.prems show ?thesis by auto
  next
    case (Inr x)
    obtain n b where x: "x = (n, b)" by (cases x)
    obtain r1 fs1 where w: "write_file t n b w fs = (r1, fs1)" by (cases "write_file t n b w fs")
    note wn = write_file_names [OF w Cons.prems(2,3)]
    show ?thesis
    proof (cases r1)
      case (Inl e)
      with Cons.prems(1) Inr x w have "fs' = fs1" "r = Inl (StreamRaised e)" by simp_all
      with wn show ?thesis by simp
    next
      case (Inr w1)
      with wn have w1: "fs_names fs1" "bw_dir w1 = bw_dir w" by auto
      have "stream_members t cfg files rest (seen @ [n]) w1 fs1 = (r, fs')"
        using stream_members_write [OF \<open>check_member cfg files ev = Inr x\<close> [unfolded x] w [unfolded Inr]] Cons.prems(1) by metis
      from Cons.IH [OF this w1(1)] w1(2) Cons.prems(3) show ?thesis by metis
    qed
  qed
qed

lemma receive_names [names_intro]:
  assumes n: "fs_names fs" "list_all part_ok root"
  shows "fs_names (snd (receive_bundle root t cfg path m archive fs))"
proof -
  obtain r fs1 where o: "open_bundle_write root t path fs = (r, fs1)" by (cases "open_bundle_write root t path fs")
  note on = open_bundle_write_names [OF o n]
  show ?thesis
  proof (cases r)
    case (Inl e)
    with o on show ?thesis by (simp add: receive_bundle_def)
  next
    case (Inr w)
    then have w: "list_all part_ok (bw_dir w)" "fs_names fs1" using on by auto
    obtain r2 fs2 where s: "stream_tar_into_writer t cfg (bm_files m) archive w fs1 = (r2, fs2)"
      by (cases "stream_tar_into_writer t cfg (bm_files m) archive w fs1")
    obtain x fs2' where sm: "stream_members t cfg (bm_files m) archive [] w fs1 = (x, fs2')"
      by (cases "stream_members t cfg (bm_files m) archive [] w fs1")
    have "fs2 = fs2'" "\<And>w'. r2 = Inr w' \<Longrightarrow> \<exists>seen. x = Inr (seen, w')"
      using s sm by (auto simp: stream_tar_into_writer_def split: sum.splits list.splits)
    with stream_members_names [OF sm w(2,1)] have sn: "fs_names fs2 \<and> (\<forall>w'. r2 = Inr w' \<longrightarrow> bw_dir w' = bw_dir w)" by blast
    show ?thesis
    proof (cases r2)
      case (Inl e)
      with o s Inr sn show ?thesis by (simp add: receive_bundle_def abort_names)
    next
      case (Inr w2)
      obtain r3 fs3 where c: "commit t m w2 fs2 = (r3, fs3)" by (cases "commit t m w2 fs2")
      from commit_names [OF c] sn Inr w have "fs_names fs3" by metis
      with receive_streamed [OF o [unfolded \<open>r = Inr w\<close>] s [unfolded Inr] c] abort_names show ?thesis
        by (auto split: sum.splits)
    qed
  qed
qed

lemma write_files_names:
  "write_files t files w fs = (r, fs') \<Longrightarrow> fs_names fs \<Longrightarrow> list_all part_ok (bw_dir w)
   \<Longrightarrow> fs_names fs' \<and> (\<forall>w'. r = Inr w' \<longrightarrow> bw_dir w' = bw_dir w)"
proof (induction files arbitrary: w fs)
  case (Cons f rest)
  obtain n b where f: "f = (n, b)" by force
  obtain r1 fs1 where w: "write_file t n b w fs = (r1, fs1)" by (cases "write_file t n b w fs")
  note wn = write_file_names [OF w Cons.prems(2,3)]
  show ?case
  proof (cases r1)
    case (Inl e)
    with Cons.prems(1) f w have "fs' = fs1" "r = Inl e" by simp_all
    with wn show ?thesis by simp
  next
    case (Inr w1)
    with wn have w1: "fs_names fs1" "bw_dir w1 = bw_dir w" by auto
    have "write_files t rest w1 fs1 = (r, fs')" using Cons.prems(1) f w Inr by simp
    from Cons.IH [OF this w1(1)] w1(2) Cons.prems(3) show ?thesis by metis
  qed
qed auto

lemma publish_names:
  assumes n: "fs_names fs" "list_all part_ok root"
  shows "fs_names (snd (publish root t path files m fs))"
proof -
  obtain r fs1 where o: "open_bundle_write root t path fs = (r, fs1)" by (cases "open_bundle_write root t path fs")
  note on = open_bundle_write_names [OF o n]
  show ?thesis
  proof (cases r)
    case (Inl e)
    with o on show ?thesis by (simp add: publish_def)
  next
    case (Inr w)
    then have w: "list_all part_ok (bw_dir w)" "fs_names fs1" using on by auto
    obtain r2 fs2 where s: "write_files t files w fs1 = (r2, fs2)" by (cases "write_files t files w fs1")
    note sn = write_files_names [OF s w(2,1)]
    show ?thesis
    proof (cases r2)
      case (Inl e)
      with o s Inr \<open>r = Inr w\<close> sn show ?thesis by (simp add: publish_def abort_names)
    next
      case (Inr w2)
      obtain r3 fs3 where c: "commit t m w2 fs2 = (r3, fs3)" by (cases "commit t m w2 fs2")
      from commit_names [OF c] sn Inr w have "fs_names fs3" by metis
      then have "fs_names (case r3 of Inl e \<Rightarrow> abort t w2 fs3 | Inr x \<Rightarrow> fs3)" by (simp add: abort_names split: sum.split)
      with o s Inr \<open>r = Inr w\<close> c show ?thesis by (simp add: publish_def split: sum.splits)
    qed
  qed
qed

lemmas [names_intro] = fs_names_delete

subsection \<open>Claims\<close>

lemma unlink_quiet_names: "fs_names fs \<Longrightarrow> fs_names (snd (unlink_quiet t p fs))"
  by (auto simp: unlink_quiet_def split: sum.splits intro: unlink_names)

lemma issue_names [names_intro]:
  assumes "fs_names fs" "list_all part_ok base"
  shows "fs_names (snd (issue digest base t c fs))"
proof -
  have p: "list_all part_ok (lock_path digest base q)" "list_all part_ok (claim_path base j)" for q j
    using assms(2) by (simp_all add: lock_path_def claim_path_def parts_ok_join)
  have l: "fs_names (snd (issue_lock digest base t c fs))"
    using assms p by (auto simp: issue_lock_def ensure_base_def split: sum.splits intro: fs_op_names)
  have "fs_names (snd (issue_sidecar digest base t c fs1))" if "fs_names fs1" for fs1
    using that p unlink_quiet_names [OF that, of t "lock_path digest base (cr_bundle_path c)"]
    by (auto simp: issue_sidecar_def split: sum.splits prod.splits intro: fs_op_names)
  with l show ?thesis by (auto simp: issue_def split: sum.splits prod.splits)
qed

lemma mark_fetched_names [names_intro]:
  assumes "fs_names fs" "list_all part_ok base"
  shows "fs_names (snd (mark_fetched base t j n fs))"
proof -
  have p: "list_all part_ok (join_parts base s)" for s by (rule parts_ok_join [OF assms(2)])
  have "fs_names (snd (durable_write base t c fs))" for c
    using mkdir_p_names [OF _ assms] write_bytes_names [OF _ _ p] rename_names [OF _ _ p] unlink_quiet_names assms(1)
    by (fastforce simp: durable_write_def ensure_base_def Let_def claim_path_def split: sum.splits)
  then show ?thesis using assms(1) by (auto simp: mark_fetched_def Let_def split: sum.splits option.splits prod.splits)
      (metis snd_conv)+
qed

lemma delete_claim_names [names_intro]:
  assumes "fs_names fs"
  shows "fs_names (snd (delete_claim digest base t j fs))"
proof -
  have "fs_names (snd (unlink_quiet t p (snd (unlink_quiet t q fs))))" for p q by (intro unlink_quiet_names assms)
  then show ?thesis using assms unlink_quiet_names [OF assms]
    by (auto simp: delete_claim_def Let_def split: sum.splits option.splits prod.splits exc.splits) (metis snd_conv)+
qed

end
