(* ===== verification/Shown.thy ===== *)
theory Shown
  imports Transfers Names
begin

text \<open>
  The bundles an inbox shows: which of them the operations on bundles can add, and the scan for the newest. A directory
  inside a bundle is not shown, whatever its files are called.
\<close>

subsection \<open>Shown bundles\<close>

text \<open>The components of a path that a listing of some inbox reports as a bundle.\<close>

definition shown :: "str list \<Rightarrow> fs \<Rightarrow> str list \<Rightarrow> bool" where
  "shown root fs rel \<longleftrightarrow> (\<exists>agent x s. rel = ''inbox'' # agent # x # s \<and> reported False fs (data_root root @ [''inbox'', agent, x]) s)"

lemma reported_mono:
  assumes "reported False fs' d s" "has_meta fs' (d @ s) \<Longrightarrow> has_meta fs (d @ s)"
    and "\<And>a. strict_prefix a s \<Longrightarrow> has_file fs (d @ a) \<Longrightarrow> has_file fs' (d @ a)"
  shows "reported False fs d s"
  using assms has_meta_file by (auto simp: reported_def)

text \<open>Nothing is shown after a deletion that was not shown before.\<close>

lemma shown_delete:
  assumes i: "store_invar root fs" and g: "good_key q" and o: "delete_bundle root t q fs = (r, fs')" and s: "shown root fs' rel"
  shows "shown root fs rel"
proof (cases r)
  case (Inl e)
  with o have "fs' = fs" by (auto simp: delete_bundle_def Let_def lift_fs_def split: if_splits sum.splits)
  with s show ?thesis by simp
next
  case (Inr u)
  have wf: "fs_wf fs" "clean root" using i by (auto simp: store_invar_def)
  note d = delete_bundle_Inr [OF wf g o [unfolded Inr]]
  obtain agent x l where rel: "rel = ''inbox'' # agent # x # l" and rp: "reported False fs' (data_root root @ [''inbox'', agent, x]) l"
    using s by (auto simp: shown_def)
  let ?d = "data_root root @ [''inbox'', agent, x]"
  obtain b where b: "entry_at fs' ((?d @ l) @ [BUNDLE_MANIFEST]) = Some (F b)" using rp by (auto simp: reported_def has_meta_def)
  then have out: "\<not> prefix (resolve root q) ((?d @ l) @ [BUNDLE_MANIFEST])" unfolding d(3) by (metis option.distinct(1))
  have "has_file fs' (?d @ a)" if a: "strict_prefix a l" "has_file fs (?d @ a)" for a
  proof -
    obtain c y where y: "entry_at fs ((?d @ a) @ [c]) = Some (F y)" using a(2) by (auto simp: has_file_def)
    obtain z where z: "l = a @ z" using a(1) by (auto simp: strict_prefix_def prefix_def)
    have "\<not> prefix (resolve root q) (?d @ a)"
      using out prefix_prefix [of "resolve root q" "?d @ a" "z @ [BUNDLE_MANIFEST]"] by (auto simp: z)
    moreover have "resolve root q \<noteq> (?d @ a) @ [c]" using y d(1) by auto
    ultimately have n: "\<not> prefix (resolve root q) ((?d @ a) @ [c])" by (simp only: prefix_snoc) blast
    have "entry_at fs' ((?d @ a) @ [c]) = Some (F y)" unfolding d(3) using n y by (simp only: if_False)
    then show ?thesis unfolding has_file_def by blast
  qed
  moreover have "has_meta fs (?d @ l)" using b out unfolding has_meta_def d(3) by (simp only: if_False) blast
  ultimately have "reported False fs ?d l" using reported_mono [OF rp] by blast
  with rel show ?thesis by (auto simp: shown_def)
qed

text \<open>A change that neither adds nor removes files below the data directory shows the same.\<close>

lemma shown_files:
  assumes f: "\<And>q b. prefix (data_root root) q \<Longrightarrow> entry_at fs' q = Some (F b) \<longleftrightarrow> entry_at fs q = Some (F b)"
  shows "shown root fs' rel \<longleftrightarrow> shown root fs rel"
proof -
  have "has_meta fs' (data_root root @ q) \<longleftrightarrow> has_meta fs (data_root root @ q)"
    "has_file fs' (data_root root @ q) \<longleftrightarrow> has_file fs (data_root root @ q)" for q
    using f by (simp_all add: has_meta_def has_file_def)
  from this [of "''inbox'' # _ # _ # _"] show ?thesis by (simp add: shown_def reported_def)
qed

lemma no_trace_shown:
  assumes "no_trace root path fs fs'"
  shows "shown root fs' rel \<longleftrightarrow> shown root fs rel"
proof (rule shown_files)
  fix q b
  show "entry_at fs' q = Some (F b) \<longleftrightarrow> entry_at fs q = Some (F b)"
  proof (cases "entry_at fs q")
    case None
    then have "entry_at fs' q = None \<or> entry_at fs' q = Some D" using assms unfolding no_trace_def by metis
    with None show ?thesis by auto
  next
    case (Some e)
    then have "entry_at fs' q = entry_at fs q" using assms unfolding no_trace_def by (metis option.distinct(1))
    then show ?thesis by simp
  qed
qed

text \<open>A bundle that was published is shown itself; what lies inside it is not, unless it is published as an inbox.\<close>

lemma publish_entries:
  assumes i: "store_invar root fs" and g: "good_key path" and ok: "bundle_files_ok files"
    and o: "publish root t path files m fs = (Inr u, fs')" and n: "\<not> prefix (resolve root path) q"
  shows "entry_at fs' q = Some (F b) \<longleftrightarrow> entry_at fs q = Some (F b)"
proof -
  have wf: "fs_wf fs" "clean root" using i by (auto simp: store_invar_def)
  obtain w fs1 where op: "open_bundle_write root t path fs = (Inr w, fs1)"
    using o by (auto simp: publish_def split: prod.splits sum.splits)
  have "entry_at fs q \<in> {None, Some D}" if "prefix q (resolve root path)"
    using open_bundle_write_any [OF wf g op] open_bundle_write_Inr(3) [OF wf g op] that by (cases "entry_at fs q") fastforce+
  with publish_Inr(5) [OF wf g ok o n] show ?thesis by auto
qed

lemma reported_publish:
  assumes i: "store_invar root fs" and g: "good_key path" and ok: "bundle_files_ok files"
    and o: "publish root t path files m fs = (Inr u, fs')" and rp: "reported False fs' d s" and n: "\<not> prefix (resolve root path) (d @ s)"
  shows "reported False fs d s"
proof -
  let ?p = "resolve root path"
  have wf: "fs_wf fs" "clean root" using i by (auto simp: store_invar_def)
  obtain b where b: "entry_at fs' ((d @ s) @ [BUNDLE_MANIFEST]) = Some (F b)" using rp by (auto simp: reported_def has_meta_def)
  have "entry_at fs' ?p = Some D"
    using fs_wf_prefix [OF publish_Inr(1) [OF wf g ok o], of ?p "[BUNDLE_MANIFEST]"] publish_Inr(3) [OF wf g ok o] by simp
  with b have "?p \<noteq> (d @ s) @ [BUNDLE_MANIFEST]" by auto
  with n have "\<not> prefix ?p ((d @ s) @ [BUNDLE_MANIFEST])" by (simp only: prefix_snoc) blast
  then have "has_meta fs (d @ s)" using b publish_entries [OF i g ok o] unfolding has_meta_def by blast
  moreover have "has_file fs' (d @ a)" if a: "has_file fs (d @ a)" for a
  proof -
    obtain c y where y: "entry_at fs ((d @ a) @ [c]) = Some (F y)" using a by (auto simp: has_file_def)
    have "\<not> prefix ?p ((d @ a) @ [c])"
    proof
      assume "prefix ?p ((d @ a) @ [c])"
      then obtain v where "(d @ a) @ [c] = ?p @ v" by (auto simp: prefix_def)
      then have "entry_at fs ?p \<noteq> None" using y fs_wf_prefix [OF wf(1), of ?p v] by (cases v) auto
      with publish_Inr(2) [OF wf g ok o] show False by simp
    qed
    with publish_entries [OF i g ok o] y show ?thesis unfolding has_file_def by blast
  qed
  ultimately show ?thesis using reported_mono [OF rp] by blast
qed

lemma shown_publish:
  assumes i: "store_invar root fs" and g: "good_key path" and ok: "bundle_files_ok files"
    and o: "publish root t path files m fs = (Inr u, fs')" and s: "shown root fs' rel"
  shows "shown root fs rel \<or> rel = path_parts path \<or> strict_prefix (path_parts path) rel \<and> length (path_parts path) < 3"
proof -
  have wf: "fs_wf fs" "clean root" using i by (auto simp: store_invar_def)
  obtain agent x l where rel: "rel = ''inbox'' # agent # x # l" and rp: "reported False fs' (data_root root @ [''inbox'', agent, x]) l"
    using s by (auto simp: shown_def)
  let ?d = "data_root root @ [''inbox'', agent, x]"
  have pr: "resolve root path = data_root root @ path_parts path" by (rule resolve_good [OF g])
  consider "rel = path_parts path \<or> strict_prefix (path_parts path) rel \<and> length (path_parts path) < 3"
    | "\<not> prefix (resolve root path) (?d @ l)" | z where "path_parts path = ''inbox'' # agent # x # z" "strict_prefix z l"
    unfolding pr rel
    by (cases "path_parts path"; cases "tl (path_parts path)"; cases "tl (tl (path_parts path))") (auto simp: strict_prefix_def)
  then show ?thesis
  proof cases
    case 2
    with reported_publish [OF i g ok o rp] rel show ?thesis by (auto simp: shown_def)
  next
    case 3
    have "has_file fs' (?d @ z)" using publish_Inr(3) [OF wf g ok o] 3(1) by (auto simp: has_file_def pr)
    with rp 3(2) show ?thesis by (auto simp: reported_def)
  qed blast
qed

subsection \<open>The bundles of an inbox\<close>

abbreviation inbox_prefix :: "str \<Rightarrow> str" where
  "inbox_prefix agent \<equiv> ''inbox/'' @ agent @ ''/''"

abbreviation inbox_refs :: "route_env \<Rightarrow> str \<Rightarrow> fs \<Rightarrow> bundle_ref list" where
  "inbox_refs env agent fs \<equiv> list_bundles (rt_root env) (inbox_prefix agent) False fs"

lemma inbox_prefix_parts:
  assumes "name_ok agent"
  shows "path_parts (inbox_prefix agent) = [''inbox'', agent]" "good_key (inbox_prefix agent)"
proof -
  have "path_parts (''inbox'' @ ''/'' @ agent @ ''/'' @ []) = [''inbox'', agent]"
    unfolding path_parts_join using assms by (simp add: path_parts_single name_ok_def)
  then show p: "path_parts (inbox_prefix agent) = [''inbox'', agent]" by simp
  show "good_key (inbox_prefix agent)" unfolding good_key_def p using assms by (simp add: name_ok_def)
qed

lemma inbox_path_prefix:
  assumes "name_ok agent"
  shows "prefix [''inbox'', agent] (path_parts (inbox_path agent path))"
  using path_parts_join [of "''inbox'' @ ''/'' @ agent" path] path_parts_join [of "''inbox''" agent] assms
  by (simp add: inbox_path_def path_parts_single name_ok_def)

text \<open>The path of a listed bundle is the one its recipient uses.\<close>

lemma listed_path:
  assumes "gc_invar root fs" "name_ok agent" "r \<in> set (list_bundles root (inbox_prefix agent) inc fs)"
  shows "inbox_path agent (removeprefix (inbox_prefix agent) (br_path r)) = br_path r" "good_key (br_path r)"
proof -
  obtain x s where r: "br_path r = as_posix (path_parts (inbox_prefix agent) @ x # s)" "good_key (br_path r)"
    using listed_ref [OF _ _ _ inbox_prefix_parts(2) [OF assms(2)] assms(3)] gc_invarD [OF assms(1)] by metis
  have "br_path r = inbox_prefix agent @ join_with ''/'' (x # s)"
    using r(1) inbox_prefix_parts(1) [OF assms(2)] by (simp add: as_posix_def)
  then show "inbox_path agent (removeprefix (inbox_prefix agent) (br_path r)) = br_path r"
    by (simp add: inbox_path_def removeprefix_def)
  show "good_key (br_path r)" by (rule r(2))
qed

lemma listed_posix:
  assumes "gc_invar root fs" "name_ok agent" "r \<in> set (list_bundles root (inbox_prefix agent) inc fs)"
  shows "as_posix (path_parts (br_path r)) = br_path r"
proof -
  note pre = inbox_prefix_parts [OF assms(2)]
  obtain x s where r: "br_path r = as_posix (path_parts (inbox_prefix agent) @ x # s)" "good_key (br_path r)"
    "resolve root (br_path r) = resolve root (inbox_prefix agent) @ x # s"
    using listed_ref [OF _ _ _ pre(2) assms(3)] gc_invarD [OF assms(1)] by metis
  have "path_parts (br_path r) = path_parts (inbox_prefix agent) @ x # s"
    using r(3) unfolding resolve_good [OF r(2)] resolve_good [OF pre(2)] by simp
  with r(1) show ?thesis by simp
qed

lemma listed_shown:
  assumes "gc_invar root fs" "name_ok agent" "r \<in> set (list_bundles root (inbox_prefix agent) False fs)"
  shows "shown root fs (path_parts (br_path r))" "prefix [''inbox'', agent] (path_parts (br_path r))"
proof -
  note pre = inbox_prefix_parts [OF assms(2)]
  obtain x s where r: "good_key (br_path r)" "resolve root (br_path r) = resolve root (inbox_prefix agent) @ x # s"
    "reported False fs (resolve root (inbox_prefix agent) @ [x]) s"
    using listed_ref [OF _ _ _ pre(2) assms(3)] gc_invarD [OF assms(1)] by metis
  have "path_parts (br_path r) = ''inbox'' # agent # x # s"
    using r(2) unfolding resolve_good [OF r(1)] resolve_good [OF pre(2)] pre(1) by simp
  with r(3) show "shown root fs (path_parts (br_path r))" "prefix [''inbox'', agent] (path_parts (br_path r))"
    unfolding resolve_good [OF pre(2)] pre(1) by (auto simp: shown_def)
qed

text \<open>The scan returns a bundle of the listing with the manifest it read.\<close>

lemma newest_bundle_member:
  "newest_bundle env t refs bound best fs = Inr (Some (q, m))
   \<Longrightarrow> best = Some (q, m) \<or> (\<exists>ref \<in> set refs. q = br_path ref \<and> read_bundle_meta (rt_root env) q fs = Inr m)"
proof (induction refs arbitrary: bound best)
  case (Cons ref refs)
  from Cons.prems consider bound' where "newest_bundle env t refs bound' best fs = Inr (Some (q, m))"
    | k bound' where "newest_bundle env t refs bound' (Some (br_path ref, k)) fs = Inr (Some (q, m))" "read_bundle_meta (rt_root env) (br_path ref) fs = Inr k"
    by (auto split: sum.splits if_splits)
  then show ?case using Cons.IH by cases fastforce+
qed simp

end
