(* ===== verification/Service.thy ===== *)
theory Service
  imports Expiry Mcp Shown
begin

text \<open>
  The running service: every request that changes a bundle or a claim, dispatched to the routes as \<^verbatim>\<open>app.py\<close> mounts
  them and to the tools of the MCP server, and the two background loops, in any order. A run is a list of requests with
  their replies. The abstract view of an inbox path is the message stored there; the lemmas show how each request changes it.
\<close>

subsection \<open>Requests and replies\<close>

record service_conf =
  sc_mcp :: mcp_env
  sc_check :: "str \<Rightarrow> token_error option"
  sc_dev :: bool
  sc_min_age :: int
  sc_claim_ttl :: int
  sc_default_ttl :: int

abbreviation sc_env :: "service_conf \<Rightarrow> route_env" where
  "sc_env sc \<equiv> mc_routes (sc_mcp sc)"

text \<open>
  The clocks are part of a request, and so is what other requests may have changed since: the slots of the signing keys,
  the key store and the resolver that reads it, and the answer of the rate limiter. The routes come first, then the tools;
  \<open>Reaper\<close> and \<open>Retention\<close> are one pass of each of the two loops.
\<close>

datatype request =
    ReqUpload jwt_slots int int str str "tar_event list"
  | ReqPick str int identity str str
  | ReqGet str int identity str str
  | ReqDelete int identity str str
  | ReqDownload jwt_slots int int bool download_request
  | ReqBroadcast alias_resolver "unit rate_limiter" "nat \<Rightarrow> str" int str key_store identity str upload_body
  | ReqPutFile str int identity str upload_body
  | ReqGetFile str int identity str
  | ReqDeleteFile int identity str
  | ToolSendInline jwt_slots int int str "send_inline_file list"
  | ToolPick mcp_ctx str int str
  | ToolBroadcast mcp_ctx alias_resolver "unit rate_limiter" "nat \<Rightarrow> str" int "str option" "int option" key_store str str str
  | ToolPut mcp_ctx str int str str str
  | ToolGet mcp_ctx str int str
  | ToolDelete mcp_ctx int str
  | Reaper int
  | Retention wake_up

datatype reply =
    RepUpload "upload_error + str"
  | RepRead "http_error + read_response"
  | RepDelete "http_error + unit"
  | RepDownload "download_error + download_response"
  | RepBroadcast "broadcast_error + broadcast_response"
  | RepPut "store_error + file_metadata"
  | RepDeleteFile "http_error + str"
  | RepText "exc + str"
  | RepBody "exc + read_body"
  | RepPass

definition broadcast_conf :: "service_conf \<Rightarrow> alias_resolver \<Rightarrow> broadcast_env" where
  "broadcast_conf sc alias = (mc_broadcast (sc_mcp sc))\<lparr>bc_alias := alias\<rparr>"

text \<open>The limiter keeps its own state; of its effect only the answer matters here.\<close>

definition without_limiter :: "('a \<Rightarrow> reply) \<Rightarrow> 'a \<times> unit \<times> fs \<Rightarrow> reply \<times> fs" where
  "without_limiter f r = (f (fst r), snd (snd r))"

fun serve :: "service_conf \<Rightarrow> request \<Rightarrow> fs \<Rightarrow> reply \<times> fs" where
  "serve sc (ReqUpload slots t mt auth param archive) fs =
     apfst RepUpload (upload_bundle (jl_decode (rt_lib (sc_env sc))) (sc_check sc) (rt_root (sc_env sc)) t mt
       (rt_limits (sc_env sc)) slots auth param archive fs)"
| "serve sc (ReqPick uuid t ident agent path) fs = apfst RepRead (pick_inbox_file (sc_env sc) uuid t ident agent path fs)"
| "serve sc (ReqGet uuid t ident agent path) fs = apfst RepRead (get_inbox_file (sc_env sc) uuid t ident agent path fs)"
| "serve sc (ReqDelete t ident agent path) fs = apfst RepDelete (delete_inbox_file (sc_env sc) t ident agent path fs)"
| "serve sc (ReqDownload slots t mt complete req) fs =
     apfst RepDownload (download_file (jl_decode (rt_lib (sc_env sc))) (sc_check sc) (sc_dev sc) (rt_digest (sc_env sc))
       (rt_claims_base (sc_env sc)) (rt_root (sc_env sc)) t mt complete slots req fs)"
| "serve sc (ReqBroadcast alias hit new_id t addr ks ident path body) fs =
     without_limiter RepBroadcast (broadcast (broadcast_conf sc alias) hit new_id t addr ks ident path body () fs)"
| "serve sc (ReqPutFile bid t ident path body) fs =
     apfst RepPut (upload_file (sc_env sc) (mc_guess (sc_mcp sc)) (mc_allowed_path_chars (sc_mcp sc)) bid t ident path body fs)"
| "serve sc (ReqGetFile uuid t ident path) fs = apfst RepRead (get_store_file (sc_env sc) uuid t ident path fs)"
| "serve sc (ReqDeleteFile t ident path) fs = apfst RepDeleteFile (delete_file (sc_env sc) t ident path fs)"
| "serve sc (ToolSendInline slots t mt token files) fs =
     apfst RepText (cassetta_send_inline (jl_decode (rt_lib (sc_env sc))) (rt_root (sc_env sc)) t mt slots token files fs)"
| "serve sc (ToolPick ctx uuid t path) fs = apfst RepBody (cassetta_pick (sc_mcp sc) ctx uuid t path fs)"
| "serve sc (ToolBroadcast ctx alias hit new_id t remote expiry ks path content files) fs =
     without_limiter RepText (cassetta_broadcast ((sc_mcp sc)\<lparr>mc_broadcast := broadcast_conf sc alias\<rparr>) ctx hit new_id t remote
       expiry ks path content files () fs)"
| "serve sc (ToolPut ctx bid t path content files) fs = apfst RepText (cassetta_put (sc_mcp sc) ctx bid t path content files fs)"
| "serve sc (ToolGet ctx uuid t path) fs = apfst RepBody (cassetta_get (sc_mcp sc) ctx uuid t path fs)"
| "serve sc (ToolDelete ctx t path) fs = apfst RepText (cassetta_delete (sc_mcp sc) ctx t path fs)"
| "serve sc (Reaper now) fs =
     (RepPass, reaper_loop (rt_digest (sc_env sc)) (Some (rt_claims_base (sc_env sc))) (rt_root (sc_env sc)) (sc_min_age sc)
       (sc_claim_ttl sc) [now] fs)"
| "serve sc (Retention w) fs = (RepPass, snd (ttl_wake (rt_root (sc_env sc)) (sc_default_ttl sc) w [] fs))"

text \<open>A run answers the requests one after the other and keeps them with their replies.\<close>

fun run_all :: "('q \<Rightarrow> 's \<Rightarrow> 'r \<times> 's) \<Rightarrow> 'q list \<Rightarrow> 's \<Rightarrow> ('q \<times> 'r) list \<times> 's" where
  "run_all step [] s = ([], s)"
| "run_all step (q # qs) s = (let (r, s1) = step q s; (log, s2) = run_all step qs s1 in ((q, r) # log, s2))"

definition serve_all :: "service_conf \<Rightarrow> request list \<Rightarrow> fs \<Rightarrow> (request \<times> reply) list \<times> fs" where
  "serve_all sc reqs fs = run_all (serve sc) reqs fs"

subsection \<open>Messages\<close>

text \<open>A message is the identifier of a bundle and its files in the order of the manifest.\<close>

type_synonym message = "str \<times> (str \<times> bytes) option list"

definition stored :: "service_conf \<Rightarrow> str \<Rightarrow> fs \<Rightarrow> message list" where
  "stored sc p fs =
     (case meta_at (rt_root (sc_env sc)) fs p of
        None \<Rightarrow> []
      | Some m \<Rightarrow> [(bm_bundle_id m,
          map (\<lambda>f. map_option (Pair (mf_name f)) (file_at (rt_root (sc_env sc)) fs p (mf_name f))) (bm_files m))])"

text \<open>What a request deposits at a path and what its reply delivers of it, read off the log.\<close>

definition upload_target ::
  "service_conf \<Rightarrow> jwt_slots \<Rightarrow> int \<Rightarrow> int \<Rightarrow> str \<Rightarrow> str \<Rightarrow> upload_error + str \<times> str \<times> str option \<times> manifest_file list" where
  "upload_target sc slots t mt auth param =
     authorize_upload (jl_decode (rt_lib (sc_env sc))) (sc_check sc) (epoch t) mt slots auth param"

definition inline_target ::
  "service_conf \<Rightarrow> jwt_slots \<Rightarrow> int \<Rightarrow> int \<Rightarrow> str \<Rightarrow> send_inline_file list
   \<Rightarrow> exc + str \<times> str \<times> str option \<times> manifest_file list \<times> (str \<times> bytes) list" where
  "inline_target sc slots t mt token files = check_send_inline (jl_decode (rt_lib (sc_env sc))) (epoch t) mt slots token files"

text \<open>The paths a broadcast may write: the inboxes of the labels the caller may see.\<close>

definition label_paths :: "alias_resolver \<Rightarrow> str option \<Rightarrow> str \<Rightarrow> str \<Rightarrow> str list" where
  "label_paths alias sender path label =
     (case alias label sender of
        Inr (Some targets) \<Rightarrow> map (\<lambda>target. rstrip (CHR ''/'') target @ ''/'' @ path) targets
      | _ \<Rightarrow> [])"

definition broadcast_paths ::
  "service_conf \<Rightarrow> alias_resolver \<Rightarrow> key_store \<Rightarrow> identity \<Rightarrow> str option \<Rightarrow> str \<Rightarrow> str list" where
  "broadcast_paths sc alias ks ident sender path =
     (case list_keys ks of
        Inl e \<Rightarrow> []
      | Inr keys \<Rightarrow>
         concat (map (label_paths alias sender path)
           (visible_or_none (bc_policy (mc_broadcast (sc_mcp sc))) ident (candidate_labels sender keys))))"

text \<open>The texts among the names of a tool call.\<close>

definition text_files :: "mcp_file list \<Rightarrow> (str \<times> bytes) list" where
  "text_files files = map (\<lambda>(j, b). (case j of JStr n \<Rightarrow> n | _ \<Rightarrow> [], b)) files"

text \<open>
  The replies to a broadcast do not tell the identifiers of the bundles: what it may deposit at a path is its
  payload, once under each identifier it may draw.
\<close>

definition offered :: "str \<Rightarrow> str list \<Rightarrow> (nat \<Rightarrow> str) \<Rightarrow> (str \<times> bytes) list \<Rightarrow> message list" where
  "offered p paths new_id files = (if p \<in> set paths then map (\<lambda>k. (new_id k, map Some files)) [0..<length paths] else [])"

fun deposited :: "service_conf \<Rightarrow> str \<Rightarrow> request \<times> reply \<Rightarrow> message list" where
  "deposited sc p (ReqUpload slots t mt auth param archive, RepUpload (Inr bid)) =
     (case upload_target sc slots t mt auth param of
        Inl e \<Rightarrow> []
      | Inr (path, bundle_id, sender, files) \<Rightarrow>
         if path = p
         then [(bid, map (\<lambda>f. Some (mf_name f, the (map_of (members (rt_limits (sc_env sc)) files archive) (mf_name f)))) files)]
         else [])"
| "deposited sc p (ToolSendInline slots t mt token files, RepText (Inr bid)) =
     (case inline_target sc slots t mt token files of
        Inl e \<Rightarrow> []
      | Inr (path, bundle_id, sender, mfs, decoded) \<Rightarrow>
         if path = p then [(bid, map (\<lambda>f. Some (mf_name f, the (map_of decoded (mf_name f)))) mfs)] else [])"
| "deposited sc p (ReqBroadcast alias hit new_id t addr ks ident path body, RepBroadcast (Inr r)) =
     offered p (broadcast_paths sc alias ks ident (sender_from_identity ident) path) new_id (part_files (body_parts path body))"
| "deposited sc p (ToolBroadcast ctx alias hit new_id t remote expiry ks path content files, RepText (Inr msg)) =
     (case payload_arg path content files of
        Inl e \<Rightarrow> []
      | Inr parsed \<Rightarrow>
         offered p (broadcast_paths sc alias ks (or_dev (mx_identity ctx)) (mx_sender ctx) path) new_id (text_files parsed))"
| "deposited sc p _ = []"

fun inline_message :: "read_body \<Rightarrow> message list" where
  "inline_message (InlineBody e) = [(bm_bundle_id (ie_bundle e), map decode_entry (ie_files e))]"
| "inline_message (ReferenceBody r) = []"

text \<open>The path a pick answers for: for \<^verbatim>\<open>latest\<close> it is the one the reply names.\<close>

definition reply_path :: "str \<Rightarrow> str \<Rightarrow> read_response \<Rightarrow> str" where
  "reply_path agent path r = inbox_path agent (case rr_path r of None \<Rightarrow> path | Some actual \<Rightarrow> actual)"

fun delivered :: "str \<Rightarrow> request \<times> reply \<Rightarrow> message list" where
  "delivered p (ReqPick uuid t ident agent path, RepRead (Inr r)) =
     (if reply_path agent path r = p then inline_message (rr_body r) else [])"
| "delivered p (ToolPick ctx uuid t path, RepBody (Inr b)) =
     (if inbox_path (inbox_target ctx []) path = p then inline_message b else [])"
| "delivered p _ = []"

subsection \<open>What holds between requests\<close>

definition apart :: "str \<Rightarrow> str \<Rightarrow> bool" where
  "apart p q = (good_key q \<and> (q = p \<or> unrelated q p))"

definition outside :: "str \<Rightarrow> str \<Rightarrow> bool" where
  "outside p q = (good_key q \<and> \<not> strict_prefix (path_parts p) (path_parts q))"

definition records_ok :: "str list \<Rightarrow> str \<Rightarrow> fs \<Rightarrow> bool" where
  "records_ok base p fs = (\<forall>j c. jti_ok j \<longrightarrow> record_of base fs j = Some c
     \<longrightarrow> cr_jti c = j \<and> cr_schema_version c = 1 \<and> apart p (cr_bundle_path c))"

definition names_ok :: "str list \<Rightarrow> str \<Rightarrow> fs \<Rightarrow> bool" where
  "names_ok root p fs = (\<forall>m f. meta_at root fs p = Some m \<longrightarrow> f \<in> set (bm_files m) \<longrightarrow> good_key (mf_name f))"

text \<open>A path of a bundle in an inbox, spelled as the listings do.\<close>

definition inbox_key :: "str \<Rightarrow> bool" where
  "inbox_key p = (good_key p \<and> 3 \<le> length (path_parts p) \<and> hd (path_parts p) = ''inbox'' \<and> as_posix (path_parts p) = p)"

text \<open>No bundle that is shown lies above or below \<open>p\<close>.\<close>

definition shown_apart :: "str list \<Rightarrow> str \<Rightarrow> fs \<Rightarrow> bool" where
  "shown_apart root p fs = (\<forall>rel. shown root fs rel \<longrightarrow> rel = path_parts p \<or> \<not> prefix rel (path_parts p) \<and> \<not> prefix (path_parts p) rel)"

definition core_invar :: "service_conf \<Rightarrow> str \<Rightarrow> fs \<Rightarrow> bool" where
  "core_invar sc p fs =
     (store_invar (rt_root (sc_env sc)) fs \<and> claims_invar (rt_digest (sc_env sc)) (rt_claims_base (sc_env sc)) fs
      \<and> separate (rt_root (sc_env sc)) (rt_claims_base (sc_env sc)) \<and> records_ok (rt_claims_base (sc_env sc)) p fs
      \<and> fs_names fs \<and> list_all part_ok (rt_root (sc_env sc)) \<and> list_all part_ok (rt_claims_base (sc_env sc))
      \<and> bc_root (mc_broadcast (sc_mcp sc)) = rt_root (sc_env sc) \<and> inbox_key p \<and> shown_apart (rt_root (sc_env sc)) p fs)"

definition service_invar :: "service_conf \<Rightarrow> str \<Rightarrow> fs \<Rightarrow> bool" where
  "service_invar sc p fs = (core_invar sc p fs \<and> names_ok (rt_root (sc_env sc)) p fs)"

text \<open>
  Requests that name the path \<open>p\<close> or one that is not nested with it, by names the validation would pass. Reading and
  deleting in the store is not restricted, and neither is the pick of the newest bundle by the route; the tool does not
  tell which bundle it was, and is left to the other inboxes.
\<close>

definition names_good :: "str list \<Rightarrow> bool" where
  "names_good ns = (list_all bundle_name ns \<and> inj_on path_parts (set ns))"

definition tool_files_ok :: "mcp_file list \<Rightarrow> bool" where
  "tool_files_ok parsed = (parsed = named_files (text_files parsed) \<and> names_good (map fst (text_files parsed)))"

definition pick_ok :: "str \<Rightarrow> str \<Rightarrow> str \<Rightarrow> bool" where
  "pick_ok p agent path = (if path = ''latest'' then name_ok agent else apart p (inbox_path agent path))"

fun request_ok :: "service_conf \<Rightarrow> str \<Rightarrow> request \<Rightarrow> bool" where
  "request_ok sc p (ReqUpload slots t mt auth param archive) =
     (case upload_target sc slots t mt auth param of
        Inl e \<Rightarrow> True
      | Inr (path, bundle_id, sender, files) \<Rightarrow> apart p path \<and> names_good (map mf_name files))"
| "request_ok sc p (ReqPick uuid t ident agent path) = (jti_ok uuid \<and> pick_ok p agent path)"
| "request_ok sc p (ReqGet uuid t ident agent path) = apart p (inbox_path agent path)"
| "request_ok sc p (ReqDelete t ident agent path) = apart p (inbox_path agent path)"
| "request_ok sc p (ReqDownload slots t mt complete req) =
     (case authorize_download (jl_decode (rt_lib (sc_env sc))) (sc_check sc) (sc_dev sc) (epoch t) mt slots req of
        Inl e \<Rightarrow> True
      | Inr (claims, bundle_path, name) \<Rightarrow> jti_ok (claim_str claims ''jti'') \<and> apart p bundle_path)"
| "request_ok sc p (ReqBroadcast alias hit new_id t addr ks ident path body) =
     (names_good (map fst (part_files (body_parts path body)))
      \<and> list_all (apart p) (broadcast_paths sc alias ks ident (sender_from_identity ident) path))"
| "request_ok sc p (ReqPutFile bid t ident path body) = names_good (map fst (part_files (body_parts path body)))"
| "request_ok sc p (ReqGetFile uuid t ident path) = True"
| "request_ok sc p (ReqDeleteFile t ident path) = True"
| "request_ok sc p (ToolSendInline slots t mt token files) =
     (case inline_target sc slots t mt token files of
        Inl e \<Rightarrow> True
      | Inr (path, bundle_id, sender, mfs, decoded) \<Rightarrow> apart p path \<and> names_good (map mf_name mfs))"
| "request_ok sc p (ToolPick ctx uuid t path) =
     (jti_ok uuid \<and> pick_ok p (inbox_target ctx []) path
      \<and> (path = ''latest'' \<longrightarrow> \<not> prefix [''inbox'', inbox_target ctx []] (path_parts p)))"
| "request_ok sc p (ToolBroadcast ctx alias hit new_id t remote expiry ks path content files) =
     ((case payload_arg path content files of Inl e \<Rightarrow> True | Inr parsed \<Rightarrow> tool_files_ok parsed)
      \<and> list_all (apart p) (broadcast_paths sc alias ks (or_dev (mx_identity ctx)) (mx_sender ctx) path))"
| "request_ok sc p (ToolPut ctx bid t path content files) =
     (case payload_arg path content files of Inl e \<Rightarrow> True | Inr parsed \<Rightarrow> tool_files_ok parsed)"
| "request_ok sc p (ToolGet ctx uuid t path) = True"
| "request_ok sc p (ToolDelete ctx t path) = True"
| "request_ok sc p (Reaper now) = True"
| "request_ok sc p (Retention w) = True"

text \<open>The subtree of a path is as it was, or gone.\<close>

definition same_below :: "str list \<Rightarrow> str \<Rightarrow> fs \<Rightarrow> fs \<Rightarrow> bool" where
  "same_below root p fs fs' = (\<forall>q. prefix (resolve root p) q \<longrightarrow> entry_at fs' q = entry_at fs q)"

definition gone_below :: "str list \<Rightarrow> str \<Rightarrow> fs \<Rightarrow> bool" where
  "gone_below root p fs = (\<forall>q. prefix (resolve root p) q \<longrightarrow> entry_at fs q = None)"

definition keeps_or_drops :: "str list \<Rightarrow> str \<Rightarrow> fs \<Rightarrow> fs \<Rightarrow> bool" where
  "keeps_or_drops root p fs fs' = (same_below root p fs fs' \<or> gone_below root p fs')"

lemma keeps_refl [simp]: "keeps_or_drops root p fs fs"
  by (simp add: keeps_or_drops_def same_below_def)

lemma keeps_trans: "keeps_or_drops root p fs fs1 \<Longrightarrow> keeps_or_drops root p fs1 fs2 \<Longrightarrow> keeps_or_drops root p fs fs2"
  by (auto simp: keeps_or_drops_def same_below_def gone_below_def)

text \<open>What a request may do to the message at \<open>p\<close>, and what it keeps.\<close>

lemma same_below_view:
  assumes "store_invar root fs" "store_invar root fs'" "good_key p" "same_below root p fs fs'"
  shows "meta_at root fs' p = meta_at root fs p" and "good_key n \<Longrightarrow> file_at root fs' p n = file_at root fs p n"
proof -
  have "good_key ''x''" by (simp add: good_key_def path_parts_def)
  then show "meta_at root fs' p = meta_at root fs p"
    using view_cong [OF assms(1-3)] assms(4) by (auto simp: same_below_def)
  show "file_at root fs' p n = file_at root fs p n" if "good_key n"
    using view_cong [OF assms(1-3) that] assms(4) by (auto simp: same_below_def)
qed

lemma gone_below_view:
  assumes "store_invar root fs" "good_key p" "gone_below root p fs"
  shows "meta_at root fs p = None"
proof -
  have "entry_at fs (resolve root p @ [BUNDLE_MANIFEST]) = None" using assms(3) by (simp add: gone_below_def)
  then show ?thesis using meta_at_Some [OF assms(1,2)] by (cases "meta_at root fs p") auto
qed

lemma same_below_stored:
  assumes "store_invar (rt_root (sc_env sc)) fs" "store_invar (rt_root (sc_env sc)) fs'" "good_key p"
    and "names_ok (rt_root (sc_env sc)) p fs" "same_below (rt_root (sc_env sc)) p fs fs'"
  shows "stored sc p fs' = stored sc p fs" and "names_ok (rt_root (sc_env sc)) p fs'"
  using same_below_view [OF assms(1-3,5)] assms(4)
  by (auto simp: stored_def names_ok_def split: option.splits)

lemma keeps_or_drops_stored:
  assumes "store_invar (rt_root (sc_env sc)) fs" "store_invar (rt_root (sc_env sc)) fs'" "good_key p"
    and "names_ok (rt_root (sc_env sc)) p fs" "keeps_or_drops (rt_root (sc_env sc)) p fs fs'"
  shows "stored sc p fs' = stored sc p fs \<or> stored sc p fs' = []" and "names_ok (rt_root (sc_env sc)) p fs'"
  using same_below_stored [OF assms(1-4)] gone_below_view [OF assms(2,3)] assms(5)
  by (auto simp: keeps_or_drops_def stored_def names_ok_def)

end
