(* ===== verification/Service_Steps.thy ===== *)
theory Service_Steps
  imports Service
begin

text \<open>
  What the operations behind the requests do to the state between them: claims, deletions, publications, picks and the
  accounting of downloads keep the invariant of the service and keep or drop what lies at an inbox path.
\<close>

subsection \<open>Operations on claims\<close>

text \<open>They change nothing outside their directory and its parents.\<close>

definition same_beside :: "str list \<Rightarrow> fs \<Rightarrow> fs \<Rightarrow> bool" where
  "same_beside base fs fs' = (\<forall>q. \<not> prefix q base \<longrightarrow> \<not> prefix base q \<longrightarrow> entry_at fs' q = entry_at fs q)"

lemma same_beside_below:
  assumes "separate root base" "good_key p" "same_beside base fs fs'"
  shows "same_below root p fs fs'"
proof -
  have "\<not> prefix q base" if "prefix (resolve root p) q" for q
    using assms(1) that unfolding separate_def resolve_good [OF assms(2)] by (metis append_prefixD prefix_order.trans)
  with assms separate_below [OF assms(1,2)] show ?thesis by (auto simp: same_below_def same_beside_def)
qed

lemma records_cong:
  assumes "claims_invar digest base fs" "claims_invar digest base fs'" "jti_ok j"
    and "entry_at fs' (base @ [j @ ''.json'']) = entry_at fs (base @ [j @ ''.json''])"
  shows "record_of base fs' j = record_of base fs j"
proof -
  have "record_of base fs' j = Some c \<longleftrightarrow> record_of base fs j = Some c" for c
    using assms(4) by (simp add: record_of_iff [OF assms(1,3)] record_of_iff [OF assms(2,3)])
  then show ?thesis by (metis option.exhaust)
qed

lemma issue_any:
  assumes i: "claims_invar digest base fs" and c: "claim_ok c" and o: "issue digest base t c fs = (r, fs')"
  shows "claims_invar digest base fs'" and "same_beside base fs fs'"
    and "jti_ok j \<Longrightarrow> record_of base fs' j = record_of base fs j \<or> record_of base fs' j = Some c \<and> j = cr_jti c"
proof -
  have j: "jti_ok (cr_jti c)" "cr_schema_version c = 1" using c by (auto simp: claim_ok_def)
  show i': "claims_invar digest base fs'" using issue_invar [OF i j(1), of t] o by simp
  obtain r1 fs1 where 1: "issue_lock digest base t c fs = (r1, fs1)" by (cases "issue_lock digest base t c fs")
  have *: "same_beside base fs fs' \<and> (\<forall>n. base @ [n @ ''.json''] \<noteq> base @ [cr_jti c @ ''.json'']
      \<longrightarrow> entry_at fs' (base @ [n @ ''.json'']) = entry_at fs (base @ [n @ ''.json'']))
      \<and> (r = Inr () \<or> entry_at fs' (base @ [cr_jti c @ ''.json'']) = entry_at fs (base @ [cr_jti c @ ''.json'']))"
  proof (cases r1)
    case (Inl e)
    with 1 o have "fs' = fs1" by (simp add: issue_def)
    with issue_lock_any [OF i 1 [unfolded Inl]] show ?thesis by (auto simp: same_beside_def)
  next
    case (Inr u)
    note L = issue_lock_Inr [OF i 1 [unfolded Inr]]
    obtain r2 fs2 where 2: "issue_sidecar digest base t c fs1 = (r2, fs2)" by (cases "issue_sidecar digest base t c fs1")
    with 1 Inr o have s: "fs' = fs2" "r = r2" by (auto simp: issue_def)
    show ?thesis
    proof (cases r2)
      case (Inl e)
      with issue_sidecar_Inl(4) [OF L(1) j(1), of "cr_jti c" t e fs2] 2 L(4) s show ?thesis
        by (auto simp: same_beside_def prefix_order.antisym)
    next
      case (Inr v)
      with issue_sidecar_Inr(3) [OF L(1) j(1), of t v fs2] 2 L(4) s show ?thesis
        by (auto simp: same_beside_def prefix_order.antisym)
    qed
  qed
  then show "same_beside base fs fs'" by blast
  assume jj: "jti_ok j"
  show "record_of base fs' j = record_of base fs j \<or> record_of base fs' j = Some c \<and> j = cr_jti c"
  proof (cases "j = cr_jti c \<and> r = Inr ()")
    case True
    with issue_Inr(4) [OF i j] o show ?thesis by auto
  next
    case False
    with * have "entry_at fs' (base @ [j @ ''.json'']) = entry_at fs (base @ [j @ ''.json''])" by (cases "j = cr_jti c") auto
    with records_cong [OF i i' jj] show ?thesis by blast
  qed
qed

lemma records_okI:
  assumes "records_ok base p fs"
    and "\<And>k. jti_ok k \<Longrightarrow> record_of base fs' k \<in> {None, record_of base fs k}
      \<or> (\<exists>c. record_of base fs' k = Some c \<and> cr_jti c = k \<and> cr_schema_version c = 1 \<and> apart p (cr_bundle_path c))"
  shows "records_ok base p fs'"
  unfolding records_ok_def
proof (intro allI impI)
  fix j c assume "jti_ok j" "record_of base fs' j = Some c"
  with assms(2) [of j] assms(1) show "cr_jti c = j \<and> cr_schema_version c = 1 \<and> apart p (cr_bundle_path c)" by (auto simp: records_ok_def)
qed

lemma mark_any:
  assumes i: "claims_invar digest base fs" "records_ok base p fs" "jti_ok j" "record_of base fs j = Some c"
  obtains c' fs' where "mark_fetched base t j n fs = (Inr c', fs')" "claims_invar digest base fs'" "records_ok base p fs'"
    "same_beside base fs fs'" "record_of base fs' j = Some c'"
proof -
  have own: "cr_jti c = j" "cr_schema_version c = 1" "apart p (cr_bundle_path c)" using i by (auto simp: records_ok_def)
  have g: "get_claim base j fs = Inr (Some c)" using i(4) by (auto simp: record_of_def split: sum.splits option.splits)
  show ?thesis
  proof (cases "n \<in> set (cr_files_fetched c)")
    case True
    then show ?thesis using that [of c fs] g i by (simp add: mark_fetched_def same_beside_def)
  next
    case False
    let ?c = "c\<lparr>cr_files_fetched := cr_files_fetched c @ [n]\<rparr>"
    from i(4) record_of_iff [OF i(1,3)] obtain b where "entry_at fs (base @ [j @ ''.json'']) = Some (F b)" by blast
    then have "entry_at fs base = Some D"
      using i(1) fs_wf_prefix [of fs base "[j @ ''.json'']"] by (simp add: claims_invar_def)
    then obtain fs' where w: "durable_write base t ?c fs = (Inr (), fs')" "claims_invar digest base fs'"
      "entry_at fs' = (entry_at fs)(base @ [j @ ''.json.tmp''] := None, base @ [j @ ''.json''] \<mapsto> F (claim_bytes ?c))"
      using durable_write_ok [OF i(1), of ?c t] own i(3) by auto
    have r: "record_of base fs' j = Some ?c"
      using w(3) parse_claim_bytes [of ?c] own by (simp add: record_of_iff [OF w(2) i(3)])
    have "record_of base fs' k = record_of base fs k \<or> k = j" if "jti_ok k" for k
      using records_cong [OF i(1) w(2) that] w(3) by auto
    with r own have "records_ok base p fs'" by (intro records_okI [OF i(2)]) fastforce
    moreover have "same_beside base fs fs'" using w(3) by (auto simp: same_beside_def)
    ultimately show ?thesis using that [of ?c fs'] w g False r by (simp add: mark_fetched_def Let_def)
  qed
qed

lemma delete_claim_any:
  assumes i: "claims_invar digest base fs" "records_ok base p fs" "jti_ok j" "record_of base fs j = Some c"
  obtains fs' where "delete_claim digest base t j fs = (Inr (), fs')" "claims_invar digest base fs'" "records_ok base p fs'"
    "same_beside base fs fs'"
proof -
  obtain fs' where d: "delete_claim digest base t j fs = (Inr (), fs')" "claims_invar digest base fs'"
    and e: "entry_at fs' = (entry_at fs)(base @ [lock_name digest (cr_bundle_path c)] := None, base @ [j @ ''.json''] := None)"
    using delete_claim_record [OF i(1,3,4)] by blast
  have "record_of base fs' k = record_of base fs k" if "jti_ok k" "k \<noteq> j" for k
    using records_cong [OF i(1) d(2) that(1)] e that(2) by simp
  moreover have "record_of base fs' j = None"
    using e by (metis record_of_iff [OF d(2) i(3)] fun_upd_same option.distinct(1) option.exhaust)
  ultimately have "records_ok base p fs'" by (intro records_okI [OF i(2)]) blast
  moreover have "same_beside base fs fs'" using e by (auto simp: same_beside_def)
  ultimately show ?thesis using that d by blast
qed

subsection \<open>Operations on bundles\<close>

lemma beside_data:
  assumes "separate root base" "good_key p"
  shows "\<not> prefix (resolve root p) (base @ [n])" "\<not> prefix (base @ [n]) (resolve root p)"
proof -
  show "\<not> prefix (resolve root p) (base @ [n])" using separate_below [OF assms, of "base @ [n]"] by auto
  show "\<not> prefix (base @ [n]) (resolve root p)"
  proof
    assume "prefix (base @ [n]) (resolve root p)"
    then have "prefix base (data_root root @ path_parts p)" by (simp add: resolve_good [OF assms(2)] append_prefixD)
    with assms(1) show False unfolding separate_def by (metis prefixI prefix_same_cases)
  qed
qed

lemma core_data:
  assumes c: "core_invar sc p fs" and s: "store_invar (rt_root (sc_env sc)) fs'" "fs_names fs'" "shown_apart (rt_root (sc_env sc)) p fs'"
    and e: "\<And>n. entry_at fs' (rt_claims_base (sc_env sc) @ [n]) = entry_at fs (rt_claims_base (sc_env sc) @ [n])"
  shows "core_invar sc p fs'"
proof -
  let ?b = "rt_claims_base (sc_env sc)"
  have i: "claims_invar (rt_digest (sc_env sc)) ?b fs" "records_ok ?b p fs" using c by (auto simp: core_invar_def)
  have i': "claims_invar (rt_digest (sc_env sc)) ?b fs'" using i(1) s(1) e by (simp add: claims_invar_def store_invar_def)
  have "record_of ?b fs' j = record_of ?b fs j" if "jti_ok j" for j by (rule records_cong [OF i(1) i' that e])
  then have "records_ok ?b p fs'" by (intro records_okI [OF i(2)]) auto
  with c s i' show ?thesis by (simp add: core_invar_def)
qed

text \<open>What keeps the bundles that are shown apart from \<open>p\<close>.\<close>

lemma shown_apart_beside:
  assumes "separate root base" "same_beside base fs fs'" "shown_apart root p fs"
  shows "shown_apart root p fs'"
proof -
  have "shown root fs' rel \<longleftrightarrow> shown root fs rel" for rel
  proof (rule shown_files)
    fix q b
    assume q: "prefix (data_root root) q"
    have "\<not> prefix q base" "\<not> prefix base q"
      using assms(1) q prefix_order.trans [OF q] prefix_same_cases [OF q] by (auto simp: separate_def)
    with assms(2) show "entry_at fs' q = Some (F b) \<longleftrightarrow> entry_at fs q = Some (F b)" by (simp add: same_beside_def)
  qed
  with assms(3) show ?thesis by (simp add: shown_apart_def)
qed

lemma shown_apart_delete:
  assumes "store_invar root fs" "good_key q" "shown_apart root p fs"
  shows "shown_apart root p (snd (delete_bundle root t q fs))"
  using assms shown_delete [OF assms(1,2) prod.collapse [symmetric]] by (auto simp: shown_apart_def)

lemma shown_apart_no_trace: "no_trace root path fs fs' \<Longrightarrow> shown_apart root p fs \<Longrightarrow> shown_apart root p fs'"
  by (simp add: shown_apart_def no_trace_shown)

lemma shown_apart_publish:
  assumes i: "store_invar root fs" and p: "inbox_key p" "apart p path" and ok: "bundle_files_ok files"
    and o: "publish root t path files m fs = (Inr u, fs')" and s: "shown_apart root p fs"
  shows "shown_apart root p fs'"
  unfolding shown_apart_def
proof (intro allI impI)
  fix rel
  assume r: "shown root fs' rel"
  have q: "good_key path" "path = p \<or> unrelated path p" using p(2) by (auto simp: apart_def)
  have "3 \<le> length (path_parts p)" using p(1) by (simp add: inbox_key_def)
  then consider "shown root fs rel" | "rel = path_parts path" | "strict_prefix (path_parts path) rel" "unrelated path p"
    using shown_publish [OF i q(1) ok o r] q(2) by (auto simp: not_le)
  then show "rel = path_parts p \<or> \<not> prefix rel (path_parts p) \<and> \<not> prefix (path_parts p) rel"
  proof cases
    case 1
    with s show ?thesis by (auto simp: shown_apart_def)
  next
    case 2
    with q(2) show ?thesis by (auto simp: unrelated_def)
  next
    case 3
    then show ?thesis
      using prefix_same_cases [of "path_parts p" rel "path_parts path"] prefix_order.trans [of "path_parts path" rel "path_parts p"]
      by (auto simp: unrelated_def strict_prefix_def)
  qed
qed

lemma core_claims:
  assumes "core_invar sc p fs" "claims_invar (rt_digest (sc_env sc)) (rt_claims_base (sc_env sc)) fs'"
    "records_ok (rt_claims_base (sc_env sc)) p fs'" "fs_names fs'" "same_beside (rt_claims_base (sc_env sc)) fs fs'"
  shows "core_invar sc p fs'"
  using assms shown_apart_beside [of "rt_root (sc_env sc)" "rt_claims_base (sc_env sc)" fs fs' p]
  by (simp add: core_invar_def store_invar_def claims_invar_def)

lemma apart_below:
  assumes "apart p q" "good_key p" "prefix (resolve root p) x"
  shows "\<not> strict_prefix x (resolve root q)"
proof (cases "q = p")
  case True
  with assms(3) show ?thesis by (metis prefix_order.less_le_not_le)
next
  case False
  with assms(1) have "good_key q" "unrelated q p" by (auto simp: apart_def)
  from unrelated_below(2) [OF this(1) assms(2) this(2) assms(3)] show ?thesis by (meson prefix_order.less_imp_le)
qed

lemma apart_outside: "apart p q \<Longrightarrow> outside p q"
  by (auto simp: apart_def outside_def unrelated_def strict_prefix_def)

lemma delete_outside:
  assumes c: "core_invar sc p fs" and p: "good_key p" "outside p q"
  shows "core_invar sc p (snd (delete_bundle (rt_root (sc_env sc)) t q fs))"
    and "keeps_or_drops (rt_root (sc_env sc)) p fs (snd (delete_bundle (rt_root (sc_env sc)) t q fs))"
proof -
  let ?r = "rt_root (sc_env sc)"
  obtain r fs' where d: "delete_bundle ?r t q fs = (r, fs')" by (cases "delete_bundle ?r t q fs")
  have i: "store_invar ?r fs" "separate ?r (rt_claims_base (sc_env sc))" "fs_names fs" using c by (auto simp: core_invar_def)
  have q: "good_key q" "\<not> strict_prefix (path_parts p) (path_parts q)" using p(2) by (auto simp: outside_def)
  note a = delete_any [OF i(1) q(1) d]
  show "core_invar sc p (snd (delete_bundle ?r t q fs))"
    using core_data [OF c, of fs'] a beside_data(1) [OF i(2) q(1)] fs_names_delete [OF i(3), of ?r t q]
      shown_apart_delete [OF i(1) q(1), of p t] c d by (simp add: core_invar_def)
  show "keeps_or_drops ?r p fs (snd (delete_bundle ?r t q fs))"
  proof (cases "prefix (resolve ?r q) (resolve ?r p)")
    case False
    have "\<not> prefix (resolve ?r q) x" if "prefix (resolve ?r p) x" for x
      using False q(2) prefix_same_cases [OF that, of "resolve ?r q"]
      by (auto simp: resolve_good [OF q(1)] resolve_good [OF p(1)] strict_prefix_def)
    with a d show ?thesis by (simp add: keeps_or_drops_def same_below_def)
  next
    case True
    show ?thesis
    proof (cases r)
      case (Inl e)
      with d have "fs' = fs" by (auto simp: delete_bundle_def Let_def lift_fs_def split: if_splits sum.splits)
      with d show ?thesis by simp
    next
      case (Inr u)
      have "prefix (resolve ?r q) x" if "prefix (resolve ?r p) x" for x using True that by (rule prefix_order.trans)
      with Inr delete_bundle_Inr(3) [of fs ?r q t u fs'] d i(1) q(1) show ?thesis
        by (auto simp: keeps_or_drops_def gone_below_def store_invar_def)
    qed
  qed
qed

lemma delete_step:
  assumes "core_invar sc p fs" "good_key p" "apart p q"
  shows "core_invar sc p (snd (delete_bundle (rt_root (sc_env sc)) t q fs))"
    and "keeps_or_drops (rt_root (sc_env sc)) p fs (snd (delete_bundle (rt_root (sc_env sc)) t q fs))"
  using delete_outside [OF assms(1,2) apart_outside [OF assms(3)]] by blast+

text \<open>A deposit: an upload that succeeds finds the path empty and leaves the declared files; one that fails changes nothing there.\<close>

lemma traceless_step:
  assumes c: "core_invar sc p fs" and p: "good_key p" "apart p path" and n: "fs_names fs'" and tr: "no_trace (rt_root (sc_env sc)) path fs fs'"
  shows "core_invar sc p fs'" and "same_below (rt_root (sc_env sc)) p fs fs'"
proof -
  let ?r = "rt_root (sc_env sc)" and ?b = "rt_claims_base (sc_env sc)"
  have i: "separate ?r ?b" and q: "good_key path" using c p(2) by (auto simp: core_invar_def apart_def)
  note nt = tr [unfolded no_trace_def]
  then have same: "entry_at fs' x = entry_at fs x" if "\<not> strict_prefix x (resolve ?r path)" for x using that by metis
  have "\<not> strict_prefix (?b @ [n]) (resolve ?r path)" for n using beside_data(2) [OF i q] by (auto simp: strict_prefix_def)
  moreover have "shown_apart ?r p fs'" using shown_apart_no_trace [OF tr] c by (simp add: core_invar_def)
  ultimately show "core_invar sc p fs'" using core_data [OF c] nt same n by blast
  show "same_below ?r p fs fs'" using same apart_below [OF p(2,1)] by (auto simp: same_below_def)
qed

lemma published_step:
  assumes c: "core_invar sc p fs" and p: "good_key p" "apart p path" and ok: "bundle_files_ok files"
    and o: "publish (rt_root (sc_env sc)) t path files m fs = (Inr (), fs')"
  shows "core_invar sc p fs'" and "path \<noteq> p \<Longrightarrow> same_below (rt_root (sc_env sc)) p fs fs'"
    and "meta_at (rt_root (sc_env sc)) fs path = None"
proof -
  let ?r = "rt_root (sc_env sc)" and ?b = "rt_claims_base (sc_env sc)"
  have i: "store_invar ?r fs" "separate ?r ?b" "shown_apart ?r p fs" "inbox_key p" and q: "good_key path"
    using c p(2) by (auto simp: core_invar_def apart_def)
  have wf: "fs_wf fs" "clean ?r" using i(1) by (auto simp: store_invar_def)
  have fr: "entry_at fs' x = entry_at fs x" if "\<not> prefix (resolve ?r path) x" "\<not> prefix x (resolve ?r path)" for x
    using publish_frame [OF wf q ok o that] .
  have "fs_names fs'" using c o publish_names [of fs ?r t path files m] by (simp add: core_invar_def)
  with core_data [OF c] publish_invar [OF i(1) q ok, of t m] o fr beside_data [OF i(2) q] shown_apart_publish [OF i(1,4) p(2) ok o i(3)]
  show "core_invar sc p fs'" by auto
  show "same_below ?r p fs fs'" if "path \<noteq> p"
  proof -
    from that p(2) have "unrelated path p" by (simp add: apart_def)
    then show ?thesis using fr unrelated_below [OF q p(1)] by (auto simp: same_below_def)
  qed
  show "meta_at ?r fs path = None"
  proof (rule ccontr)
    assume "meta_at ?r fs path \<noteq> None"
    then obtain m' where "meta_at ?r fs path = Some m'" by blast
    from publish_refused [OF i(1) q this, of t files m] o show False by simp
  qed
qed

lemma publish_step:
  assumes c: "core_invar sc p fs" and p: "good_key p" "apart p path" and n: "names_good (map fst files)"
    and o: "publish (rt_root (sc_env sc)) t path files m fs = (r, fs')"
  shows "core_invar sc p fs'" and "path \<noteq> p \<or> r \<noteq> Inr () \<Longrightarrow> same_below (rt_root (sc_env sc)) p fs fs'"
    and "path = p \<Longrightarrow> r = Inr () \<Longrightarrow> meta_at (rt_root (sc_env sc)) fs p = None \<and> meta_at (rt_root (sc_env sc)) fs' p = Some m
      \<and> (\<forall>(n, b) \<in> set files. file_at (rt_root (sc_env sc)) fs' p n = Some b)"
proof -
  let ?r = "rt_root (sc_env sc)"
  have i: "store_invar ?r fs" and q: "good_key path" using c p(2) by (auto simp: core_invar_def apart_def)
  have fail: "core_invar sc p fs' \<and> same_below ?r p fs fs'" if "r = Inl e" for e
  proof -
    have "\<forall>n \<in> fst ` set files. good_key n" using n by (auto simp: names_good_def list_all_iff bundle_name_def)
    from publish_no_trace [OF i q this o [unfolded that]] traceless_step [OF c p, of fs'] publish_names [of fs ?r t path files m] o c
    show ?thesis by (simp add: core_invar_def)
  qed
  have ok: "bundle_files_ok files" if "r = Inr ()"
    using n publish_distinct [OF o [unfolded that]]
    by (auto simp: bundle_files_ok_def names_good_def list_all_iff distinct_map case_prod_unfold comp_def inj_on_def)
  note succ = published_step [OF c p ok, of t m fs'] and view = publish_view [OF i q ok, of t m "()" fs']
  show "core_invar sc p fs'" using fail succ(1) o by (cases r) auto
  show "path \<noteq> p \<or> r \<noteq> Inr () \<Longrightarrow> same_below ?r p fs fs'" using fail succ(2) o by (cases r) auto
  show "path = p \<Longrightarrow> r = Inr () \<Longrightarrow> meta_at ?r fs p = None \<and> meta_at ?r fs' p = Some m
      \<and> (\<forall>(n, b) \<in> set files. file_at ?r fs' p n = Some b)" using succ(3) view o by auto
qed

text \<open>The archive of an upload is published as its members.\<close>

lemma names_good_subset: "names_good ns \<Longrightarrow> set ns' \<subseteq> set ns \<Longrightarrow> names_good ns'"
  by (auto simp: names_good_def list_all_iff intro: inj_on_subset)

lemma members_good:
  assumes "names_good (map mf_name files)"
  shows "names_good (map fst (members cfg files archive))"
proof (rule names_good_subset [OF assms])
  show "set (map fst (members cfg files archive)) \<subseteq> set (map mf_name files)"
    by (auto dest!: members_declared)
qed

lemma receive_step:
  assumes c: "core_invar sc p fs" and p: "good_key p" "apart p path" and n: "names_good (map mf_name (bm_files m))"
    and o: "receive_bundle (rt_root (sc_env sc)) t cfg path m archive fs = (r, fs')"
  shows "core_invar sc p fs'" and "path \<noteq> p \<or> (\<exists>e. r = Inl e) \<Longrightarrow> same_below (rt_root (sc_env sc)) p fs fs'"
    and "path = p \<Longrightarrow> r = Inr u \<Longrightarrow> meta_at (rt_root (sc_env sc)) fs p = None \<and> meta_at (rt_root (sc_env sc)) fs' p = Some m
      \<and> (\<forall>f \<in> set (bm_files m). file_at (rt_root (sc_env sc)) fs' p (mf_name f)
           = Some (the (map_of (members cfg (bm_files m) archive) (mf_name f))))"
proof -
  let ?r = "rt_root (sc_env sc)" and ?b = "rt_claims_base (sc_env sc)" and ?fl = "members cfg (bm_files m) archive"
  have i: "store_invar ?r fs" "separate ?r ?b" and q: "good_key path" using c p(2) by (auto simp: core_invar_def apart_def)
  have all: "core_invar sc p fs' \<and> (path \<noteq> p \<or> (\<exists>e. r = Inl e) \<longrightarrow> same_below ?r p fs fs')
     \<and> (path = p \<longrightarrow> r = Inr () \<longrightarrow> meta_at ?r fs p = None \<and> meta_at ?r fs' p = Some m
      \<and> (\<forall>f \<in> set (bm_files m). file_at ?r fs' p (mf_name f) = Some (the (map_of ?fl (mf_name f)))))"
  proof (cases r)
    case (Inl e)
    have g: "\<forall>f \<in> set (bm_files m). good_key (mf_name f)" using n by (auto simp: names_good_def list_all_iff bundle_name_def)
    have "fst (receive_bundle ?r t cfg path m archive fs) = Inl e" "fs' = snd (receive_bundle ?r t cfg path m archive fs)"
      using o Inl by simp_all
    from receive_no_trace [OF i(1) q g this] traceless_step [OF c p, of fs'] receive_names [of fs ?r t cfg path m archive] o c Inl
    show ?thesis by (simp add: core_invar_def)
  next
    case (Inr u)
    note pub = receive_publish [OF o [unfolded Inr]]
    note st = publish_step [OF c p members_good [OF n] pub(1)]
    have "file_at ?r fs' path (mf_name f) = Some (the (map_of ?fl (mf_name f)))" if "f \<in> set (bm_files m)" "path = p" for f
    proof -
      from that(1) pub(2) obtain b where "(mf_name f, b) \<in> set ?fl" by force
      then obtain b' where b: "map_of ?fl (mf_name f) = Some b'" by (cases "map_of ?fl (mf_name f)") (force simp: map_of_eq_None_iff)+
      from st(3) [OF that(2)] map_of_SomeD [OF b] b that(2) show ?thesis by auto
    qed
    with st Inr show ?thesis by auto
  qed
  then show "core_invar sc p fs'" "path \<noteq> p \<or> (\<exists>e. r = Inl e) \<Longrightarrow> same_below ?r p fs fs'"
    "path = p \<Longrightarrow> r = Inr u \<Longrightarrow> meta_at ?r fs p = None \<and> meta_at ?r fs' p = Some m
      \<and> (\<forall>f \<in> set (bm_files m). file_at ?r fs' p (mf_name f) = Some (the (map_of ?fl (mf_name f))))"
    by auto
qed

subsection \<open>Each request\<close>

lemma live_step:
  assumes c: "core_invar sc p fs" and p: "good_key p" "apart p q" and o: "live_meta (sc_env sc) t q path fs = (r, fs')"
  shows "core_invar sc p fs'" and "keeps_or_drops (rt_root (sc_env sc)) p fs fs'"
    and "r = Inr m \<Longrightarrow> fs' = fs \<and> meta_at (rt_root (sc_env sc)) fs q = Some m"
proof -
  let ?d = "delete_bundle (rt_root (sc_env sc)) t q fs"
  have "fs' = fs \<or> fs' = snd ?d"
    using o by (auto simp: live_meta_def split: sum.splits bool.splits prod.splits)
  then show "core_invar sc p fs'" "keeps_or_drops (rt_root (sc_env sc)) p fs fs'" using c delete_step [OF c p] by auto
  show "fs' = fs \<and> meta_at (rt_root (sc_env sc)) fs q = Some m" if "r = Inr m"
    using o that by (auto simp: live_meta_def meta_at_def split: sum.splits bool.splits prod.splits)
qed

lemma issue_step_ok:
  assumes c: "core_invar sc p fs" and p: "good_key p" and k: "claim_ok k" "apart p (cr_bundle_path k)"
    and o: "issue (rt_digest (sc_env sc)) (rt_claims_base (sc_env sc)) t k fs = (r, fs')"
  shows "core_invar sc p fs'" and "keeps_or_drops (rt_root (sc_env sc)) p fs fs'"
proof -
  let ?b = "rt_claims_base (sc_env sc)"
  have i: "claims_invar (rt_digest (sc_env sc)) ?b fs" "records_ok ?b p fs" "separate (rt_root (sc_env sc)) ?b"
    using c by (auto simp: core_invar_def)
  note a = issue_any [OF i(1) k(1) o]
  have "record_of ?b fs' j \<in> {None, record_of ?b fs j}
      \<or> (\<exists>c. record_of ?b fs' j = Some c \<and> cr_jti c = j \<and> cr_schema_version c = 1 \<and> apart p (cr_bundle_path c))"
    if "jti_ok j" for j using a(3) [OF that] k by (auto simp: claim_ok_def)
  then have "records_ok ?b p fs'" by (rule records_okI [OF i(2)])
  moreover have "fs_names fs'" using c o issue_names [of fs ?b "rt_digest (sc_env sc)" t k] by (simp add: core_invar_def)
  ultimately show "core_invar sc p fs'" using core_claims [OF c a(1)] a(2) by blast
  show "keeps_or_drops (rt_root (sc_env sc)) p fs fs'"
    using same_beside_below [OF i(3) p a(2)] by (simp add: keeps_or_drops_def)
qed

lemma collected:
  "collect_bundle_files root p files fs = Inr ps
   \<Longrightarrow> map (\<lambda>f. map_option (Pair (mf_name f)) (file_at root fs p (mf_name f))) files = map Some ps"
  by (induction files arbitrary: ps) (auto simp: file_at_def split: sum.splits)

text \<open>The bundle a pick chooses is committed, apart from \<open>p\<close>, and named by the path of the reply.\<close>

lemma select_step:
  assumes c: "core_invar sc p fs" and p: "good_key p" "pick_ok p agent path"
    and o: "select_pick (sc_env sc) t agent path fs = (r, fs1)"
  shows "core_invar sc p fs1" and "keeps_or_drops (rt_root (sc_env sc)) p fs fs1"
    and "r = Inr (q, m) \<Longrightarrow> fs1 = fs \<and> meta_at (rt_root (sc_env sc)) fs q = Some m \<and> apart p q
      \<and> inbox_path agent (if path = ''latest'' then removeprefix (''inbox/'' @ agent @ ''/'') q else path) = q"
proof -
  let ?r = "rt_root (sc_env sc)"
  have "core_invar sc p fs1 \<and> keeps_or_drops ?r p fs fs1 \<and> (\<forall>q m. r = Inr (q, m) \<longrightarrow> fs1 = fs \<and> meta_at ?r fs q = Some m \<and> apart p q
      \<and> inbox_path agent (if path = ''latest'' then removeprefix (''inbox/'' @ agent @ ''/'') q else path) = q)"
  proof (cases "path = ''latest''")
    case True
    have n: "name_ok agent" using True p(2) by (simp add: pick_ok_def)
    have g: "gc_invar ?r fs" and sh: "shown_apart ?r p fs" and k: "inbox_key p" using c by (auto simp: core_invar_def gc_invar_def)
    have "meta_at ?r fs q = Some m \<and> apart p q \<and> inbox_path agent (removeprefix (''inbox/'' @ agent @ ''/'') q) = q"
      if nb: "newest_bundle (sc_env sc) t (inbox_refs (sc_env sc) agent fs) [] None fs = Inr (Some (q, m))" for q m
    proof -
      obtain ref where ref: "ref \<in> set (inbox_refs (sc_env sc) agent fs)" "q = br_path ref" "read_bundle_meta ?r q fs = Inr m"
        using newest_bundle_member [OF nb] by blast
      note lp = listed_path [OF g n ref(1), folded ref(2)] and ls = listed_shown [OF g n ref(1), folded ref(2)]
      have "q = p" if "path_parts q = path_parts p"
        using that k listed_posix [OF g n ref(1), folded ref(2)] by (simp add: inbox_key_def)
      with sh ls(1) lp ref(3) show ?thesis by (auto simp: shown_apart_def apart_def unrelated_def meta_at_def)
    qed
    moreover have "fs1 = fs" "\<And>x. r = Inr x \<Longrightarrow> newest_bundle (sc_env sc) t (inbox_refs (sc_env sc) agent fs) [] None fs = Inr (Some x)"
      using o True by (auto simp: select_pick_def split: sum.splits option.splits)
    ultimately show ?thesis using c True by auto
  next
    case False
    have ap: "apart p (inbox_path agent path)" using False p(2) by (simp add: pick_ok_def)
    obtain r1 fs2 where lm: "live_meta (sc_env sc) t (inbox_path agent path) path fs = (r1, fs2)"
      by (cases "live_meta (sc_env sc) t (inbox_path agent path) path fs")
    have "fs1 = fs2" "\<And>q m. r = Inr (q, m) \<Longrightarrow> r1 = Inr m \<and> q = inbox_path agent path"
      using o False lm by (auto simp: select_pick_def split: sum.splits)
    with live_step [OF c p(1) ap lm] ap False show ?thesis by auto
  qed
  then show "core_invar sc p fs1" "keeps_or_drops ?r p fs fs1"
    "r = Inr (q, m) \<Longrightarrow> fs1 = fs \<and> meta_at ?r fs q = Some m \<and> apart p q
      \<and> inbox_path agent (if path = ''latest'' then removeprefix (''inbox/'' @ agent @ ''/'') q else path) = q" by blast+
qed

text \<open>The two answers of a pick that chose the bundle at \<open>q\<close>.\<close>

lemma pick_reference_step:
  assumes c: "core_invar sc p fs" and p: "good_key p" "apart p q" and l: "lib_laws (rt_lib (sc_env sc))" "jti_ok uuid"
    and a: "rt_access (sc_env sc) ident (''inbox:'' @ agent) ''pick''" and sl: "select_pick (sc_env sc) t agent path fs = (Inr (q, m), fs)"
    and e: "evaluate_download (rt_limits (sc_env sc)) (total_size (bm_files m)) = DownloadReference"
    and o: "pick_inbox_file (sc_env sc) uuid t ident agent path fs = (r, fs')"
  shows "core_invar sc p fs' \<and> keeps_or_drops (rt_root (sc_env sc)) p fs fs' \<and> (\<forall>resp. r = Inr resp \<longrightarrow> inline_message (rr_body resp) = [])"
proof -
  have k: "claim_ok (pick_claim uuid t q m agent)" "apart p (cr_bundle_path (pick_claim uuid t q m agent))"
    using l(2) p(2) by (simp_all add: claim_ok_def pick_claim_def)
  obtain ri fsi where i: "issue (rt_digest (sc_env sc)) (rt_claims_base (sc_env sc)) t (pick_claim uuid t q m agent) fs = (ri, fsi)"
    by (cases "issue (rt_digest (sc_env sc)) (rt_claims_base (sc_env sc)) t (pick_claim uuid t q m agent) fs")
  with o a sl e inbox_reference_claim [OF l(1)] have "fs' = fsi" "\<forall>resp. r = Inr resp \<longrightarrow> inline_message (rr_body resp) = []"
    by (auto simp: pick_inbox_file_def enforce_def split: sum.splits)
  with issue_step_ok [OF c p(1) k i] show ?thesis by blast
qed

lemma pick_inline_step:
  assumes c: "core_invar sc p fs" and p: "good_key p" "apart p q" and m: "meta_at (rt_root (sc_env sc)) fs q = Some m"
    and a: "rt_access (sc_env sc) ident (''inbox:'' @ agent) ''pick''" and sl: "select_pick (sc_env sc) t agent path fs = (Inr (q, m), fs)"
    and e: "evaluate_download (rt_limits (sc_env sc)) (total_size (bm_files m)) = DownloadInline"
    and n: "inbox_path agent (if path = ''latest'' then removeprefix (''inbox/'' @ agent @ ''/'') q else path) = q"
    and o: "pick_inbox_file (sc_env sc) uuid t ident agent path fs = (r, fs')"
  shows "core_invar sc p fs' \<and> keeps_or_drops (rt_root (sc_env sc)) p fs fs'
    \<and> (\<forall>resp. r = Inr resp \<longrightarrow> reply_path agent path resp = q \<and> stored sc q fs = inline_message (rr_body resp) \<and> stored sc q fs' = [])"
proof (cases "collect_bundle_files (rt_root (sc_env sc)) q (bm_files m) fs")
  case (Inl x)
  with o a sl e c show ?thesis by (auto simp: pick_inbox_file_def enforce_def)
next
  case (Inr ps)
  let ?r = "rt_root (sc_env sc)"
  have "store_invar ?r fs" "good_key q" using c p(2) by (auto simp: core_invar_def apart_def)
  then obtain fs2 where d: "delete_bundle ?r t q fs = (Inr (), fs2)" "meta_at ?r fs2 q = None"
    using delete_committed [OF _ _ m, of t] by (cases "delete_bundle ?r t q fs") auto
  with o a sl e Inr n have r: "fs' = fs2"
    "\<forall>resp. r = Inr resp \<longrightarrow> rr_body resp = InlineBody (build_inline_envelope m ps) \<and> reply_path agent path resp = q"
    by (auto simp: pick_inbox_file_def enforce_def reply_path_def)
  have "inline_message (InlineBody (build_inline_envelope m ps)) = [(bm_bundle_id m, map Some ps)]"
    by (simp add: build_inline_envelope_def decode_inline_entry comp_def)
  moreover have "stored sc q fs = [(bm_bundle_id m, map Some ps)]" "stored sc q fs2 = []"
    using m d(2) collected [OF Inr] by (simp_all add: stored_def)
  moreover have "core_invar sc p fs2" "keeps_or_drops ?r p fs fs2" using delete_step [OF c p, of t] d(1) by auto
  ultimately show ?thesis using r by simp
qed

lemma pick_step:
  assumes c: "core_invar sc p fs" and p: "good_key p" "pick_ok p agent path"
    and l: "lib_laws (rt_lib (sc_env sc))" "jti_ok uuid"
    and o: "pick_inbox_file (sc_env sc) uuid t ident agent path fs = (r, fs')"
  shows "core_invar sc p fs'" and "keeps_or_drops (rt_root (sc_env sc)) p fs fs'"
    and "r = Inr resp \<Longrightarrow> reply_path agent path resp = p \<Longrightarrow> inline_message (rr_body resp) \<noteq> []
      \<Longrightarrow> stored sc p fs = inline_message (rr_body resp) \<and> stored sc p fs' = []"
proof -
  let ?r = "rt_root (sc_env sc)"
  obtain r1 fs1 where sl: "select_pick (sc_env sc) t agent path fs = (r1, fs1)" by (cases "select_pick (sc_env sc) t agent path fs")
  note ss = select_step [OF c p sl]
  have "core_invar sc p fs' \<and> keeps_or_drops ?r p fs fs' \<and> (\<forall>resp. r = Inr resp \<longrightarrow> reply_path agent path resp = p
      \<longrightarrow> inline_message (rr_body resp) \<noteq> [] \<longrightarrow> stored sc p fs = inline_message (rr_body resp) \<and> stored sc p fs' = [])"
  proof (cases "rt_access (sc_env sc) ident (''inbox:'' @ agent) ''pick'' \<and> (\<exists>x. r1 = Inr x)")
    case False
    with o sl have "fs' = fs \<or> fs' = fs1" "\<exists>e. r = Inl e" by (cases r1; auto simp: pick_inbox_file_def enforce_def split: if_splits)+
    with ss(1,2) c show ?thesis by auto
  next
    case True
    then obtain q m where x: "r1 = Inr (q, m)" and a: "rt_access (sc_env sc) ident (''inbox:'' @ agent) ''pick''" by auto
    have m: "fs1 = fs" "meta_at ?r fs q = Some m" "apart p q"
      "inbox_path agent (if path = ''latest'' then removeprefix (''inbox/'' @ agent @ ''/'') q else path) = q" using ss(3) [OF x] by auto
    note sl' = sl [unfolded x m(1)]
    show ?thesis
    proof (cases "evaluate_download (rt_limits (sc_env sc)) (total_size (bm_files m))")
      case DownloadReference
      from pick_reference_step [OF c p(1) m(3) l a sl' this o] show ?thesis by auto
    next
      case DownloadInline
      from pick_inline_step [OF c p(1) m(3,2) a sl' this m(4) o] show ?thesis by auto
    qed
  qed
  then show "core_invar sc p fs'" "keeps_or_drops ?r p fs fs'"
    "r = Inr resp \<Longrightarrow> reply_path agent path resp = p \<Longrightarrow> inline_message (rr_body resp) \<noteq> []
      \<Longrightarrow> stored sc p fs = inline_message (rr_body resp) \<and> stored sc p fs' = []" by blast+
qed

lemma pick_reply_path:
  assumes "pick_inbox_file env uuid t ident agent path fs = (Inr resp, fs')" "path \<noteq> ''latest''"
  shows "reply_path agent path resp = inbox_path agent path"
  using assms by (auto simp: pick_inbox_file_def reply_path_def Let_def split: sum.splits prod.splits download_mode.splits if_splits)

lemma get_step:
  assumes c: "core_invar sc p fs" and p: "good_key p" "apart p (inbox_path agent path)"
    and o: "get_inbox_file (sc_env sc) uuid t ident agent path fs = (r, fs')"
  shows "core_invar sc p fs'" and "keeps_or_drops (rt_root (sc_env sc)) p fs fs'"
proof -
  obtain r1 fs1 where lm: "live_meta (sc_env sc) t (inbox_path agent path) path fs = (r1, fs1)"
    by (cases "live_meta (sc_env sc) t (inbox_path agent path) path fs")
  have "fs' = fs \<or> fs' = fs1"
    using o lm by (auto simp: get_inbox_file_def Let_def inbox_reference_def build_reference_payload_for_inbox_def
        split: sum.splits download_mode.splits)
  with live_step [OF c p lm] c show "core_invar sc p fs'" "keeps_or_drops (rt_root (sc_env sc)) p fs fs'" by auto
qed

lemma delete_claim_none:
  assumes i: "claims_invar digest base fs" "records_ok base p fs" "jti_ok j" and n: "record_of base fs j = None"
    and o: "delete_claim digest base t j fs = (r, fs')"
  shows "claims_invar digest base fs'" and "records_ok base p fs'" and "same_beside base fs fs'"
proof -
  let ?p = "base @ [j @ ''.json'']"
  have wf: "fs_wf fs" "clean ?p" using i(1) by (auto simp: claims_invar_def)
  have "fs' = fs \<or> fs' = snd (unlink_quiet t ?p fs)"
    using o n claim_path_eq [OF i(3), of base]
    by (auto simp: delete_claim_def Let_def record_of_def split: sum.splits option.splits exc.splits)
  then have "fs' = fs \<or> unlink t ?p fs = Inr fs'" by (auto simp: unlink_quiet_def split: sum.splits)
  then have e: "fs_wf fs' \<and> (entry_at fs' = entry_at fs \<or> entry_at fs' = (entry_at fs)(?p := None))"
    using unlink_clean(1) [OF wf, of t fs'] wf(1) by blast
  then show c: "claims_invar digest base fs'" using i(1) by (auto simp: claims_invar_def split: if_splits)
  have "record_of base fs' k = record_of base fs k" if "jti_ok k" "k \<noteq> j" for k
    using records_cong [OF i(1) c that(1)] e that(2) by auto
  moreover have "record_of base fs' j \<noteq> Some k" for k
    using e n record_of_iff [OF c i(3), of k] record_of_iff [OF i(1,3), of k] by auto
  then have "record_of base fs' j = None" by (cases "record_of base fs' j") auto
  ultimately show "records_ok base p fs'" by (intro records_okI [OF i(2)]) blast
  show "same_beside base fs fs'" using e by (auto simp: same_beside_def)
qed

lemma delete_claim_step:
  assumes c: "core_invar sc p fs" and p: "good_key p" and j: "jti_ok j"
  shows "core_invar sc p (snd (delete_claim (rt_digest (sc_env sc)) (rt_claims_base (sc_env sc)) t j fs))"
    and "keeps_or_drops (rt_root (sc_env sc)) p fs (snd (delete_claim (rt_digest (sc_env sc)) (rt_claims_base (sc_env sc)) t j fs))"
proof -
  let ?b = "rt_claims_base (sc_env sc)" and ?d = "rt_digest (sc_env sc)"
  have i: "claims_invar ?d ?b fs" "records_ok ?b p fs" "separate (rt_root (sc_env sc)) ?b" "fs_names fs"
    using c by (auto simp: core_invar_def)
  obtain r fs' where o: "delete_claim ?d ?b t j fs = (r, fs')" by (cases "delete_claim ?d ?b t j fs")
  have d: "claims_invar ?d ?b fs' \<and> records_ok ?b p fs' \<and> same_beside ?b fs fs'"
  proof (cases "record_of ?b fs j")
    case None
    from delete_claim_none [OF i(1,2) j None o] show ?thesis by blast
  next
    case (Some k)
    from delete_claim_any [OF i(1,2) j Some, of t] o show ?thesis by auto
  qed
  moreover have "fs_names fs'" using delete_claim_names [OF i(4), of ?d ?b t j] o by simp
  ultimately show "core_invar sc p (snd (delete_claim ?d ?b t j fs))"
    "keeps_or_drops (rt_root (sc_env sc)) p fs (snd (delete_claim ?d ?b t j fs))"
    using core_claims [OF c] same_beside_below [OF i(3) p] o by (auto simp: keeps_or_drops_def)
qed

lemma accounting_step:
  assumes c: "core_invar sc p fs" and p: "good_key p" "apart p q" and j: "jti_ok j"
    and o: "post_stream_claim_accounting (rt_digest (sc_env sc)) (rt_claims_base (sc_env sc)) (rt_root (sc_env sc)) t j q n files fs = (r, fs')"
  shows "core_invar sc p fs'" and "keeps_or_drops (rt_root (sc_env sc)) p fs fs'"
proof -
  let ?r = "rt_root (sc_env sc)" and ?b = "rt_claims_base (sc_env sc)" and ?d = "rt_digest (sc_env sc)"
  have i: "claims_invar ?d ?b fs" "records_ok ?b p fs" "separate ?r ?b" using c by (auto simp: core_invar_def)
  have "core_invar sc p fs' \<and> keeps_or_drops ?r p fs fs'"
  proof (cases "record_of ?b fs j")
    case None
    with o c show ?thesis
      by (auto simp: post_stream_claim_accounting_def record_of_def split: sum.splits option.splits)
  next
    case (Some k)
    then have g: "get_claim ?b j fs = Inr (Some k)" by (auto simp: record_of_def split: sum.splits option.splits)
    from mark_any [OF i(1,2) j Some] obtain k' fs1 where m: "mark_fetched ?b t j n fs = (Inr k', fs1)"
      "claims_invar ?d ?b fs1" "records_ok ?b p fs1" "same_beside ?b fs fs1" "record_of ?b fs1 j = Some k'" by blast
    have c1: "core_invar sc p fs1" and k1: "keeps_or_drops ?r p fs fs1"
      using core_claims [OF c m(2,3)] same_beside_below [OF i(3) p(1) m(4)] mark_fetched_names [of fs ?b t j n] m(1,4) c
      by (simp_all add: keeps_or_drops_def core_invar_def)
    let ?x = "snd (delete_bundle ?r t q fs1)"
    note d = delete_step [OF c1 p, of t] and e = delete_claim_step [OF delete_step(1) [OF c1 p, of t] p(1) j, of t]
    have "fs' \<in> {fs1, ?x, snd (delete_claim ?d ?b t j ?x)}"
      using o g m(1) by (auto simp: post_stream_claim_accounting_def split: sum.splits prod.splits if_splits)
    then show ?thesis using c1 k1 d e keeps_trans by blast
  qed
  then show "core_invar sc p fs'" "keeps_or_drops ?r p fs fs'" by blast+
qed

end
