(* ===== verification/Service_Tools.thy ===== *)
theory Service_Tools
  imports Service_Steps
begin

text \<open>
  What the writes of the service do to the message at an inbox path: a bundle published there appears when the path was
  empty, one that replaces another drops what was there, and the store is apart from the inboxes. The requests of the
  store, the tools and the broadcasts follow.
\<close>

subsection \<open>One step\<close>

lemma service_step_keeps:
  assumes "service_invar sc p fs" "core_invar sc p fs'" "keeps_or_drops (rt_root (sc_env sc)) p fs fs'"
  shows "service_invar sc p fs'" and "subseq (stored sc p fs') (stored sc p fs)"
  using keeps_or_drops_stored [of sc fs fs' p] assms by (auto simp: service_invar_def core_invar_def inbox_key_def)

text \<open>What one request, answered by \<open>rep\<close>, does to the message at \<open>p\<close>.\<close>

definition request_step :: "service_conf \<Rightarrow> str \<Rightarrow> request \<Rightarrow> reply \<Rightarrow> fs \<Rightarrow> fs \<Rightarrow> bool" where
  "request_step sc p req rep fs fs' =
     (service_invar sc p fs' \<and> subseq (delivered p (req, rep) @ stored sc p fs') (stored sc p fs @ deposited sc p (req, rep)))"

lemma request_step_keeps:
  assumes "service_invar sc p fs" "core_invar sc p fs'" "keeps_or_drops (rt_root (sc_env sc)) p fs fs'"
    and "delivered p (req, rep) = []"
  shows "request_step sc p req rep fs fs'"
  using service_step_keeps [OF assms(1-3)] assms(4) by (simp add: request_step_def list_emb_prefix)

lemma service_invarD:
  assumes "service_invar sc p fs"
  shows "core_invar sc p fs" "good_key p" "3 \<le> length (path_parts p)" "inbox_key p" "store_invar (rt_root (sc_env sc)) fs"
    "bc_root (mc_broadcast (sc_mcp sc)) = rt_root (sc_env sc)"
  using assms by (auto simp: service_invar_def core_invar_def inbox_key_def)

subsection \<open>Publishing and replacing\<close>

definition bundle_of :: "bundle_meta \<Rightarrow> (str \<times> bytes) list \<Rightarrow> bool" where
  "bundle_of m files = (map mf_name (bm_files m) = map fst files)"

lemma publish_service:
  assumes i: "service_invar sc p fs" and q: "apart p path" and n: "names_good (map fst files)" "bundle_of m files"
    and o: "publish (rt_root (sc_env sc)) t path files m fs = (r, fs')"
  shows "service_invar sc p fs'" and "path \<noteq> p \<or> r \<noteq> Inr () \<Longrightarrow> stored sc p fs' = stored sc p fs"
    and "path = p \<Longrightarrow> r = Inr () \<Longrightarrow> stored sc p fs = [] \<and> stored sc p fs' = [(bm_bundle_id m, map Some files)]"
proof -
  let ?r = "rt_root (sc_env sc)"
  note d = service_invarD [OF i]
  note st = publish_step [OF d(1,2) q n(1) o]
  have same: "service_invar sc p fs' \<and> stored sc p fs' = stored sc p fs" if "path \<noteq> p \<or> r \<noteq> Inr ()"
    using same_below_stored [OF d(5) _ d(2) _ st(2) [OF that]] st(1) i by (auto simp: service_invar_def core_invar_def)
  have new: "service_invar sc p fs' \<and> stored sc p fs = [] \<and> stored sc p fs' = [(bm_bundle_id m, map Some files)]"
    if "path = p" "r = Inr ()"
  proof -
    note v = st(3) [OF that]
    have "map (\<lambda>f. map_option (Pair (mf_name f)) (file_at ?r fs' p (mf_name f))) (bm_files m)
        = map (\<lambda>n. map_option (Pair n) (file_at ?r fs' p n)) (map fst files)"
      by (simp only: n(2) [unfolded bundle_of_def, symmetric] map_map comp_def)
    also have "\<dots> = map Some files" using v by auto
    finally have "stored sc p fs' = [(bm_bundle_id m, map Some files)]" using v by (simp add: stored_def)
    moreover have "mf_name ` set (bm_files m) = fst ` set files"
      using n(2) unfolding bundle_of_def by (metis image_set)
    then have "mf_name f \<in> fst ` set files" if "f \<in> set (bm_files m)" for f using that by blast
    then have "names_ok ?r p fs'"
      using v n(1) by (fastforce simp: names_ok_def names_good_def list_all_iff bundle_name_def)
    ultimately show ?thesis using v st(1) by (simp add: service_invar_def stored_def)
  qed
  show "service_invar sc p fs'" using same new by blast
  show "path \<noteq> p \<or> r \<noteq> Inr () \<Longrightarrow> stored sc p fs' = stored sc p fs"
    "path = p \<Longrightarrow> r = Inr () \<Longrightarrow> stored sc p fs = [] \<and> stored sc p fs' = [(bm_bundle_id m, map Some files)]"
    using same new by blast+
qed

lemma delete_service:
  assumes i: "service_invar sc p fs" and q: "apart p path"
  shows "service_invar sc p (snd (delete_bundle (rt_root (sc_env sc)) t path fs))"
    and "subseq (stored sc p (snd (delete_bundle (rt_root (sc_env sc)) t path fs))) (stored sc p fs)"
  using service_step_keeps [OF i delete_step [OF service_invarD(1,2) [OF i] q]] by blast+

text \<open>Clearing a path and writing it, as a broadcast does.\<close>

lemma replace_service:
  assumes i: "service_invar sc p fs" and q: "apart p path" and n: "names_good (map fst files)" "bundle_of m files"
    and d: "fs1 = snd (delete_bundle (rt_root (sc_env sc)) t path fs)"
    and o: "publish (rt_root (sc_env sc)) t path files m fs1 = (r, fs')"
  shows "service_invar sc p fs'"
    and "subseq (stored sc p fs') (stored sc p fs @ (if path = p then [(bm_bundle_id m, map Some files)] else []))"
proof -
  note ds = delete_service [OF i q, of t, folded d]
  note ps = publish_service [OF ds(1) q n o]
  show "service_invar sc p fs'" by (rule ps(1))
  show "subseq (stored sc p fs') (stored sc p fs @ (if path = p then [(bm_bundle_id m, map Some files)] else []))"
  proof (cases "path = p \<and> r = Inr ()")
    case True
    then show ?thesis using ps(3) by (simp add: list_emb_append2)
  next
    case False
    then have "stored sc p fs' = stored sc p fs1" using ps(2) by blast
    with ds(2) show ?thesis by (simp add: list_emb_append2 list_emb_prefix)
  qed
qed

subsection \<open>The store\<close>

lemma store_parts: "path_parts (store_path path) = ''store'' # path_parts path"
  using path_parts_join [of "''store''" path] by (simp add: store_path_def path_parts_single)

lemma store_apart:
  assumes "inbox_key p" "good_key path"
  shows "apart p (store_path path)" "store_path path \<noteq> p"
proof -
  have s: "path_parts p \<noteq> [] \<and> hd (path_parts p) = ''inbox''" using assms(1) by (auto simp: inbox_key_def)
  then show "store_path path \<noteq> p" using store_parts [of path] by auto
  have "good_key (store_path path)" using assms(2) store_parts [of path] by (simp add: good_key_def store_path_def)
  moreover have "unrelated (store_path path) p" using s by (cases "path_parts p") (auto simp: unrelated_def store_parts)
  ultimately show "apart p (store_path path)" by (simp add: apart_def)
qed

lemma request_step_lessens:
  assumes "service_invar sc p fs'" "subseq (stored sc p fs') (stored sc p fs)" "delivered p (req, rep) = []"
  shows "request_step sc p req rep fs fs'"
  using assms by (simp add: request_step_def list_emb_prefix)

lemma read_store_service:
  assumes i: "service_invar sc p fs" and g: "good_key path"
    and f: "fs' = fs \<or> fs' = snd (live_meta (sc_env sc) t (store_path path) x fs)"
  shows "service_invar sc p fs'" and "subseq (stored sc p fs') (stored sc p fs)"
proof -
  note d = service_invarD [OF i]
  obtain r fs1 where lm: "live_meta (sc_env sc) t (store_path path) x fs = (r, fs1)"
    by (cases "live_meta (sc_env sc) t (store_path path) x fs")
  note l = live_step [OF d(1,2) store_apart(1) [OF d(4) g] lm]
  show "service_invar sc p fs'" "subseq (stored sc p fs') (stored sc p fs)"
    using f lm i service_step_keeps [OF i l(1,2)] by auto
qed

lemma validated_good: "validated path = Inr u \<Longrightarrow> good_key path"
  using validate_path_good_key by (auto simp: validated_def split: sum.splits)

lemma mcp_validated_good: "mcp_validate env path = Inr u \<Longrightarrow> good_key path"
  using validate_path_good_key by (auto simp: mcp_validate_def split: sum.splits)

lemma get_file_request:
  assumes i: "service_invar sc p fs" and o: "serve sc (ReqGetFile uuid t ident path) fs = (rep, fs')"
  shows "request_step sc p (ReqGetFile uuid t ident path) rep fs fs'"
proof (cases "validated path")
  case (Inl e)
  with o have "fs' = fs" by (auto simp: get_store_file_def)
  with i show ?thesis by (intro request_step_lessens) auto
next
  case (Inr u)
  have "fs' = fs \<or> fs' = snd (live_meta (sc_env sc) t (store_path path) path fs)"
    using o Inr by (auto simp: get_store_file_def split: sum.splits prod.splits download_mode.splits)
  from read_store_service [OF i validated_good [OF Inr] this] show ?thesis by (intro request_step_lessens) auto
qed

lemma tool_get_request:
  assumes i: "service_invar sc p fs" and o: "serve sc (ToolGet ctx uuid t path) fs = (rep, fs')"
  shows "request_step sc p (ToolGet ctx uuid t path) rep fs fs'"
proof (cases "mcp_validate (sc_mcp sc) path")
  case (Inl e)
  with o have "fs' = fs" by (auto simp: cassetta_get_def)
  with i show ?thesis by (intro request_step_lessens) auto
next
  case (Inr u)
  have "fs' = fs \<or> fs' = snd (live_meta (sc_env sc) t (store_path path) path fs)"
    using o Inr by (auto simp: cassetta_get_def Let_def split: sum.splits prod.splits download_mode.splits)
  from read_store_service [OF i mcp_validated_good [OF Inr] this] show ?thesis by (intro request_step_lessens) auto
qed

text \<open>Deleting in the store, and writing it.\<close>

lemma delete_store_service:
  assumes i: "service_invar sc p fs" and g: "good_key path"
  shows "service_invar sc p (snd (delete_bundle (rt_root (sc_env sc)) t (store_path path) fs))"
    and "subseq (stored sc p (snd (delete_bundle (rt_root (sc_env sc)) t (store_path path) fs))) (stored sc p fs)"
  using delete_service [OF i store_apart(1) [OF service_invarD(4) [OF i] g]] by blast+

lemma publish_store_service:
  assumes i: "service_invar sc p fs" and g: "good_key path" and n: "names_good (map fst files)" "bundle_of m files"
  shows "service_invar sc p (snd (publish (rt_root (sc_env sc)) t (store_path path) files m fs))"
    and "stored sc p (snd (publish (rt_root (sc_env sc)) t (store_path path) files m fs)) = stored sc p fs"
  using publish_service [OF i store_apart(1) [OF service_invarD(4) [OF i] g] n prod.collapse [symmetric]]
    store_apart(2) [OF service_invarD(4) [OF i] g] by blast+

lemma delete_file_request:
  assumes i: "service_invar sc p fs" and o: "serve sc (ReqDeleteFile t ident path) fs = (rep, fs')"
  shows "request_step sc p (ReqDeleteFile t ident path) rep fs fs'"
proof (cases "validated path")
  case (Inl e)
  with o have "fs' = fs" by (auto simp: delete_file_def)
  with i show ?thesis by (intro request_step_lessens) auto
next
  case (Inr u)
  have "fs' = fs \<or> fs' = snd (delete_bundle (rt_root (sc_env sc)) t (store_path path) fs)"
    using o Inr by (auto simp: delete_file_def split: sum.splits prod.splits)
  with delete_store_service [OF i validated_good [OF Inr], of t] i show ?thesis by (intro request_step_lessens) auto
qed

lemma tool_delete_request:
  assumes i: "service_invar sc p fs" and o: "serve sc (ToolDelete ctx t path) fs = (rep, fs')"
  shows "request_step sc p (ToolDelete ctx t path) rep fs fs'"
proof (cases "mcp_validate (sc_mcp sc) path")
  case (Inl e)
  with o have "fs' = fs" by (auto simp: cassetta_delete_def)
  with i show ?thesis by (intro request_step_lessens) auto
next
  case (Inr u)
  have "fs' = fs \<or> fs' = snd (delete_bundle (rt_root (sc_env sc)) t (store_path path) fs)"
    using o Inr by (auto simp: cassetta_delete_def split: sum.splits prod.splits)
  with delete_store_service [OF i mcp_validated_good [OF Inr], of t] i show ?thesis by (intro request_step_lessens) auto
qed

text \<open>The state after a write to the store: one bundle published, after the old one was cleared or not.\<close>

definition store_written :: "service_conf \<Rightarrow> int \<Rightarrow> str \<Rightarrow> (str \<times> bytes) list \<Rightarrow> bundle_meta \<Rightarrow> fs \<Rightarrow> fs \<Rightarrow> bool" where
  "store_written sc t path files m fs fs' =
     (let del = snd (delete_bundle (rt_root (sc_env sc)) t (store_path path) fs);
          pub = (\<lambda>fs. snd (publish (rt_root (sc_env sc)) t (store_path path) files m fs))
      in fs' \<in> {fs, del, pub fs, pub del})"

lemma store_written_service:
  assumes i: "service_invar sc p fs" and g: "good_key path" and n: "names_good (map fst files)" "bundle_of m files"
    and w: "store_written sc t path files m fs fs'"
  shows "service_invar sc p fs'" and "subseq (stored sc p fs') (stored sc p fs)"
proof -
  note d = delete_store_service [OF i g, of t]
  note q = publish_store_service [OF i g n, of t] publish_store_service [OF d(1) g n, of t]
  show "service_invar sc p fs'" using w i d(1) q(1,3) by (auto simp: store_written_def Let_def)
  show "subseq (stored sc p fs') (stored sc p fs)" using w d(2) q(2,4) by (auto simp: store_written_def Let_def)
qed

lemma write_store_bundle_publish:
  "snd (write_store_bundle guess root t p files bid fs) = snd (publish root t p (part_files files) (store_meta guess t bid files) fs)"
  by (auto simp: write_store_bundle_def publish_def part_files_def Let_def split: prod.splits sum.splits)

lemma store_meta_bundle: "bundle_of (store_meta guess t bid files) (part_files files)"
  by (auto simp: bundle_of_def store_meta_def part_files_def)

lemma put_file_request:
  assumes i: "service_invar sc p fs" and ok: "request_ok sc p (ReqPutFile bid t ident path body)"
    and o: "serve sc (ReqPutFile bid t ident path body) fs = (rep, fs')"
  shows "request_step sc p (ReqPutFile bid t ident path body) rep fs fs'"
proof (cases "validate_path path (mc_allowed_path_chars (sc_mcp sc))")
  case (Inl e)
  with o have "fs' = fs" by (auto simp: upload_file_def)
  with i show ?thesis by (intro request_step_lessens) auto
next
  case (Inr u)
  let ?f = "body_parts path body" and ?g = "mc_guess (sc_mcp sc)"
  let ?w = "\<lambda>fs. write_store_bundle ?g (rt_root (sc_env sc)) t (store_path path) ?f bid fs"
  let ?d = "snd (delete_bundle (rt_root (sc_env sc)) t (store_path path) fs)"
  have "fs' \<in> {fs, ?d, snd (?w fs), snd (?w ?d)}"
    using o Inr by (auto simp: upload_file_def Let_def split: sum.splits prod.splits if_splits exc.splits)
  then have "store_written sc t path (part_files ?f) (store_meta ?g t bid ?f) fs fs'"
    by (simp add: store_written_def write_store_bundle_publish)
  from store_written_service [OF i validate_path_good_key [OF Inr] _ store_meta_bundle this] ok
  show ?thesis by (intro request_step_lessens) auto
qed

lemma tool_files_publish:
  assumes "tool_files_ok parsed"
  shows "mcp_write_bundle guess root t p parsed sender ct bid fs
      = publish root t p (text_files parsed) (mcp_meta guess t sender ct bid parsed) fs"
    and "bundle_of (mcp_meta guess t sender ct bid parsed) (text_files parsed)" "names_good (map fst (text_files parsed))"
proof -
  have p: "parsed = named_files (text_files parsed)" and n: "names_good (map fst (text_files parsed))"
    using assms by (auto simp: tool_files_ok_def)
  show "mcp_write_bundle guess root t p parsed sender ct bid fs
      = publish root t p (text_files parsed) (mcp_meta guess t sender ct bid parsed) fs"
    by (subst (1 3) p) (rule mcp_write_bundle_publish)
  have "bundle_of (mcp_meta guess t sender ct bid (named_files fl)) fl" for fl
    by (auto simp: bundle_of_def mcp_meta_def named_files_def py_str_def)
  then show "bundle_of (mcp_meta guess t sender ct bid parsed) (text_files parsed)" by (metis p)
  show "names_good (map fst (text_files parsed))" by (rule n)
qed

lemma tool_put_request:
  assumes i: "service_invar sc p fs" and ok: "request_ok sc p (ToolPut ctx bid t path content files)"
    and o: "serve sc (ToolPut ctx bid t path content files) fs = (rep, fs')"
  shows "request_step sc p (ToolPut ctx bid t path content files) rep fs fs'"
proof (cases "mcp_validate (sc_mcp sc) path = Inr () \<and> (\<exists>parsed. payload_arg path content files = Inr parsed)")
  case False
  with o have "fs' = fs" by (auto simp: cassetta_put_def split: sum.splits if_splits)
  with i show ?thesis by (intro request_step_lessens) auto
next
  case True
  then obtain parsed where pa: "payload_arg path content files = Inr parsed" and v: "mcp_validate (sc_mcp sc) path = Inr ()" by blast
  then have tf: "tool_files_ok parsed" using ok by simp
  let ?w = "\<lambda>fs. mcp_write_bundle (mc_guess (sc_mcp sc)) (rt_root (sc_env sc)) t (store_path path) parsed None ''application/octet-stream'' bid fs"
  let ?d = "snd (delete_bundle (rt_root (sc_env sc)) t (store_path path) fs)"
  have "fs' \<in> {fs, ?d, snd (?w ?d)}"
    using o pa v by (auto simp: cassetta_put_def Let_def split: sum.splits prod.splits if_splits exc.splits)
  then have "store_written sc t path (text_files parsed) (mcp_meta (mc_guess (sc_mcp sc)) t None ''application/octet-stream'' bid parsed) fs fs'"
    by (simp add: store_written_def Let_def tool_files_publish(1) [OF tf]) blast
  from store_written_service [OF i mcp_validated_good [OF v] tool_files_publish(3,2) [OF tf] this]
  show ?thesis by (intro request_step_lessens) auto
qed

subsection \<open>Sending inline and picking over MCP\<close>

lemma tool_send_request:
  assumes i: "service_invar sc p fs" and ok: "request_ok sc p (ToolSendInline slots t mt token files)"
    and o: "serve sc (ToolSendInline slots t mt token files) fs = (rep, fs')"
  shows "request_step sc p (ToolSendInline slots t mt token files) rep fs fs'"
proof (cases "inline_target sc slots t mt token files")
  case (Inl e)
  with o have "fs' = fs" by (auto simp: cassetta_send_inline_def inline_target_def)
  with i show ?thesis by (intro request_step_lessens) auto
next
  case (Inr x)
  obtain path bid sender mfs decoded where x: "x = (path, bid, sender, mfs, decoded)" by (cases x)
  let ?fl = "map (\<lambda>f. (mf_name f, the (map_of decoded (mf_name f)))) mfs" and ?m = "upload_meta t bid sender mfs"
  obtain r fs1 where pb: "publish (rt_root (sc_env sc)) t path ?fl ?m fs = (r, fs1)"
    by (cases "publish (rt_root (sc_env sc)) t path ?fl ?m fs")
  have ap: "apart p path" "names_good (map mf_name mfs)" using ok Inr x by auto
  have b: "names_good (map fst ?fl)" "bundle_of ?m ?fl" "bm_bundle_id ?m = bid"
    using ap(2) by (simp_all add: comp_def bundle_of_def upload_meta_def)
  note st = publish_service [OF i ap(1) b(1,2) pb]
  note si = send_inline_publish [OF Inr [unfolded x inline_target_def] pb]
  have f: "fs' = fs1" "rep = RepText (fst (cassetta_send_inline (jl_decode (rt_lib (sc_env sc))) (rt_root (sc_env sc)) t mt slots token files fs))"
    using o si(1) by (auto simp: apfst_def map_prod_def case_prod_unfold)
  show ?thesis
  proof (cases "path = p \<and> r = Inr ()")
    case True
    then have "deposited sc p (ToolSendInline slots t mt token files, rep) = [(bid, map Some ?fl)]"
      using f(2) si(2) Inr x by simp
    with st(1,3) True f(1) b(3) show ?thesis by (simp add: request_step_def del: deposited.simps)
  next
    case False
    then have "stored sc p fs' = stored sc p fs" using st(2) f(1) by blast
    with st(1) f(1) show ?thesis by (intro request_step_lessens) auto
  qed
qed

lemma tool_pick_request:
  assumes i: "service_invar sc p fs" and ok: "request_ok sc p (ToolPick ctx uuid t path)"
    and l: "lib_laws (rt_lib (sc_env sc))" and o: "serve sc (ToolPick ctx uuid t path) fs = (rep, fs')"
  shows "request_step sc p (ToolPick ctx uuid t path) rep fs fs'"
proof (cases "inbox_target ctx [] \<noteq> [] \<and> (path = ''latest'' \<or> mcp_validate (sc_mcp sc) path = Inr ())")
  case False
  with o have "fs' = fs" "\<exists>e. rep = RepBody (Inl e)"
    by (auto simp: cassetta_pick_def inbox_target_def mcp_select_pick_def Let_def split: option.splits sum.splits if_splits)
  with i show ?thesis by (intro request_step_lessens) auto
next
  case True
  let ?a = "inbox_target ctx []"
  note d = service_invarD [OF i]
  have s: "mx_sender ctx = Some ?a" using True by (auto simp: inbox_target_def split: option.splits)
  obtain r where pk: "pick_inbox_file (sc_env sc) uuid t (or_dev (mx_identity ctx)) ?a path fs = (r, fs')"
    "rep = RepBody (map_sum tool_exc rr_body r)"
    using o cassetta_pick_route [OF s, of path "sc_mcp sc" uuid t fs] True
    by (cases "pick_inbox_file (sc_env sc) uuid t (or_dev (mx_identity ctx)) ?a path fs") (auto simp: as_tool_def)
  have ok': "pick_ok p ?a path" "jti_ok uuid" "path = ''latest'' \<Longrightarrow> \<not> prefix [''inbox'', ?a] (path_parts p)" using ok by auto
  note st = pick_step [OF d(1,2) ok'(1) l ok'(2) pk(1)]
  note k = service_step_keeps [OF i st(1,2)]
  show ?thesis
  proof (cases "\<exists>resp. r = Inr resp \<and> inline_message (rr_body resp) \<noteq> [] \<and> inbox_path ?a path = p")
    case True
    then obtain resp where re: "r = Inr resp" "inline_message (rr_body resp) \<noteq> []" "inbox_path ?a path = p" by blast
    have "path \<noteq> ''latest''"
    proof
      assume "path = ''latest''"
      with ok'(1) have n: "name_ok ?a" by (simp add: pick_ok_def)
      with inbox_path_prefix [OF n, of path] ok'(3) \<open>path = ''latest''\<close> re(3) show False by simp
    qed
    with st(3) [OF re(1) _ re(2)] re pk k(1) pick_reply_path show ?thesis by (simp add: request_step_def)
  next
    case False
    then have "delivered p (ToolPick ctx uuid t path, rep) = []" using pk(2) by (cases r) auto
    with k show ?thesis by (intro request_step_lessens)
  qed
qed

subsection \<open>Broadcasts\<close>

text \<open>A writer of a payload: every call publishes the same files, under the identifier of the call.\<close>

definition payload_sink :: "service_conf \<Rightarrow> int \<Rightarrow> (str \<times> bytes) list \<Rightarrow> bundle_sink \<Rightarrow> bool" where
  "payload_sink sc t files write \<longleftrightarrow> names_good (map fst files)
     \<and> (\<exists>mk. \<forall>q bid. bundle_of (mk bid) files \<and> bm_bundle_id (mk bid) = bid \<and> write q bid = publish (rt_root (sc_env sc)) t q files (mk bid))"

lemma sink_step:
  assumes "payload_sink sc t files write" "service_invar sc p fs" "apart p q"
    and "fs1 = snd (delete_bundle (rt_root (sc_env sc)) t q fs)" "write q bid fs1 = (r, fs')"
  shows "service_invar sc p fs'" and "subseq (stored sc p fs') (stored sc p fs @ (if q = p then [(bid, map Some files)] else []))"
proof -
  obtain mk where mk: "bundle_of (mk bid) files" "bm_bundle_id (mk bid) = bid" "write q bid = publish (rt_root (sc_env sc)) t q files (mk bid)"
    and n: "names_good (map fst files)" using assms(1) by (auto simp: payload_sink_def)
  from replace_service [OF assms(2,3) n mk(1) assms(4)] assms(5) mk(2,3)
  show "service_invar sc p fs'" "subseq (stored sc p fs') (stored sc p fs @ (if q = p then [(bid, map Some files)] else []))" by auto
qed

text \<open>The messages under the identifiers from one count to another, if the broadcast reaches the path at all.\<close>

definition drawn :: "bool \<Rightarrow> (nat \<Rightarrow> str) \<Rightarrow> (str \<times> bytes) list \<Rightarrow> nat \<Rightarrow> nat \<Rightarrow> message list" where
  "drawn hits new_id files k k' = (if hits then map (\<lambda>k. (new_id k, map Some files)) [k..<k'] else [])"

lemma drawn_same [simp]: "drawn hits new_id files k k = []"
  by (simp add: drawn_def)

lemma drawn_append:
  assumes "k \<le> k1" "k1 \<le> k2"
  shows "drawn hits new_id files k k1 @ drawn hits new_id files k1 k2 = drawn hits new_id files k k2"
  using upt_add_eq_append [OF assms(1), of "k2 - k1"] assms(2) by (simp add: drawn_def)

text \<open>What a part of a broadcast that draws the identifiers from \<open>k\<close> to \<open>k'\<close> does.\<close>

definition fan_step :: "service_conf \<Rightarrow> str \<Rightarrow> bool \<Rightarrow> (nat \<Rightarrow> str) \<Rightarrow> (str \<times> bytes) list \<Rightarrow> nat \<Rightarrow> nat \<Rightarrow> fs \<Rightarrow> fs \<Rightarrow> bool" where
  "fan_step sc p hits new_id files k k' fs fs' \<longleftrightarrow>
     service_invar sc p fs' \<and> k \<le> k' \<and> subseq (stored sc p fs') (stored sc p fs @ drawn hits new_id files k k')"

lemma fan_step_refl: "service_invar sc p fs \<Longrightarrow> fan_step sc p hits new_id files k k fs fs"
  by (simp add: fan_step_def)

lemma fan_step_trans:
  assumes "fan_step sc p hits new_id files k k1 fs fs1" "fan_step sc p hits new_id files k1 k2 fs1 fs2"
  shows "fan_step sc p hits new_id files k k2 fs fs2"
proof -
  have a: "k \<le> k1" "k1 \<le> k2" "subseq (stored sc p fs1) (stored sc p fs @ drawn hits new_id files k k1)"
    "subseq (stored sc p fs2) (stored sc p fs1 @ drawn hits new_id files k1 k2)" using assms by (auto simp: fan_step_def)
  have "subseq (stored sc p fs1 @ drawn hits new_id files k1 k2) ((stored sc p fs @ drawn hits new_id files k k1) @ drawn hits new_id files k1 k2)"
    using a(3) by (simp only: subseq_append)
  with a(4) have "subseq (stored sc p fs2) (stored sc p fs @ drawn hits new_id files k k2)"
    by (auto simp: drawn_append [OF a(1,2)] intro: subseq_order.trans)
  with assms a(1,2) show ?thesis by (simp add: fan_step_def)
qed

lemma deliver_targets_step:
  assumes sink: "payload_sink sc t files write" and root: "bc_root env = rt_root (sc_env sc)"
  shows "\<lbrakk>service_invar sc p fs; \<forall>target \<in> set targets. apart p (rstrip (CHR ''/'') target @ ''/'' @ path)
        \<and> (rstrip (CHR ''/'') target @ ''/'' @ path = p \<longrightarrow> hits);
      deliver_targets env write new_id t path targets k fs = (r, k', fs')\<rbrakk>
    \<Longrightarrow> fan_step sc p hits new_id files k k' fs fs' \<and> k' \<le> k + length targets"
proof (induction targets arbitrary: k fs)
  case Nil
  then show ?case by (simp add: fan_step_refl)
next
  case (Cons target targets)
  let ?q = "rstrip (CHR ''/'') target @ ''/'' @ path"
  obtain r1 fs1 where d: "delete_bundle (rt_root (sc_env sc)) t ?q fs = (r1, fs1)" by (cases "delete_bundle (rt_root (sc_env sc)) t ?q fs")
  have ap: "apart p ?q" "?q = p \<longrightarrow> hits" using Cons.prems(2) by auto
  show ?case
  proof (cases "r1 \<noteq> Inr () \<and> r1 \<noteq> Inl FileNotFoundError")
    case True
    with Cons.prems(3) d root have "fs' = fs1" "k' = k" by (auto simp: Let_def)
    with delete_service [OF Cons.prems(1) ap(1), of t] d show ?thesis by (simp add: fan_step_def)
  next
    case False
    obtain r2 fs2 where w: "write ?q (new_id k) fs1 = (r2, fs2)" by (cases "write ?q (new_id k) fs1")
    have "subseq (if ?q = p then [(new_id k, map Some files)] else []) (drawn hits new_id files k (Suc k))"
      using ap(2) by (simp add: drawn_def)
    with sink_step [OF sink Cons.prems(1) ap(1) _ w] d have s: "fan_step sc p hits new_id files k (Suc k) fs fs2"
      by (auto simp: fan_step_def intro: subseq_order.trans list_emb_append_mono)
    show ?thesis
    proof (cases r2)
      case (Inl e)
      with False Cons.prems(3) d root w have "fs' = fs2" "k' = Suc k" by (auto simp: Let_def)
      with s show ?thesis by simp
    next
      case (Inr u)
      with False Cons.prems(3) d root w have o: "deliver_targets env write new_id t path targets (Suc k) fs2 = (r, k', fs')"
        by (auto simp: Let_def)
      have "service_invar sc p fs2" using s by (simp add: fan_step_def)
      from Cons.IH [OF this _ o] Cons.prems(2) fan_step_trans [OF s] show ?thesis by auto
    qed
  qed
qed

lemma deliver_one_step:
  assumes sink: "payload_sink sc t files write" and root: "bc_root env = rt_root (sc_env sc)" and i: "service_invar sc p fs"
    and q: "\<forall>q \<in> set (label_paths (bc_alias env) sender path label). apart p q \<and> (q = p \<longrightarrow> hits)"
    and d: "deliver_one env write new_id t path sender ident label k fs = (r, k', fs')"
  shows "fan_step sc p hits new_id files k k' fs fs' \<and> k' \<le> k + length (label_paths (bc_alias env) sender path label)"
proof (cases "\<exists>targets. bc_alias env label sender = Inr (Some targets) \<and> ap_check (bc_policy env) ident (''inbox:'' @ label) ''write'' = Inr True")
  case False
  with d have "fs' = fs" "k' = k" by (auto simp: deliver_one_def split: sum.splits option.splits bool.splits)
  with i show ?thesis by (simp add: fan_step_refl)
next
  case True
  then obtain targets where t: "bc_alias env label sender = Inr (Some targets)"
    and c: "ap_check (bc_policy env) ident (''inbox:'' @ label) ''write'' = Inr True" by blast
  obtain r1 where dt: "deliver_targets env write new_id t path targets k fs = (r1, k', fs')"
    using d t c by (auto simp: deliver_one_def split: prod.splits option.splits)
  have "\<forall>target \<in> set targets. apart p (rstrip (CHR ''/'') target @ ''/'' @ path) \<and> (rstrip (CHR ''/'') target @ ''/'' @ path = p \<longrightarrow> hits)"
    using q t by (auto simp: label_paths_def)
  from deliver_targets_step [OF sink root i this dt] t show ?thesis by (simp add: label_paths_def)
qed

lemma deliver_all_step:
  assumes sink: "payload_sink sc t files write" and root: "bc_root env = rt_root (sc_env sc)"
  shows "\<lbrakk>service_invar sc p fs; \<forall>q \<in> set (concat (map (label_paths (bc_alias env) sender path) labels)). apart p q \<and> (q = p \<longrightarrow> hits);
      deliver_all env write new_id t path sender ident labels k fs = (rs, fs')\<rbrakk>
    \<Longrightarrow> \<exists>k'. fan_step sc p hits new_id files k k' fs fs' \<and> k' \<le> k + length (concat (map (label_paths (bc_alias env) sender path) labels))"
proof (induction labels arbitrary: k fs rs)
  case Nil
  then show ?case by (auto intro!: exI [of _ k] fan_step_refl)
next
  case (Cons l labels)
  obtain r k1 fs1 where d: "deliver_one env write new_id t path sender ident l k fs = (r, k1, fs1)"
    by (cases "deliver_one env write new_id t path sender ident l k fs") auto
  obtain rs' where e: "deliver_all env write new_id t path sender ident labels k1 fs1 = (rs', fs')"
    using Cons.prems(3) d by (auto split: prod.splits)
  have o: "fan_step sc p hits new_id files k k1 fs fs1" "k1 \<le> k + length (label_paths (bc_alias env) sender path l)"
    using deliver_one_step [OF sink root Cons.prems(1) _ d] Cons.prems(2) by auto
  then have "service_invar sc p fs1" by (simp add: fan_step_def)
  from Cons.IH [OF this _ e] Cons.prems(2) obtain k' where "fan_step sc p hits new_id files k1 k' fs1 fs'"
    "k' \<le> k1 + length (concat (map (label_paths (bc_alias env) sender path) labels))" by auto
  with o fan_step_trans [OF o(1)] show ?case by (intro exI [of _ k']) auto
qed

lemma fan_out_step:
  assumes sink: "payload_sink sc t files write" and i: "service_invar sc p fs"
    and q: "list_all (apart p) (broadcast_paths sc alias ks ident sender path)"
    and o: "fan_out (broadcast_conf sc alias) write new_id t ks ident sender path fs = (r, fs')"
  shows "service_invar sc p fs'" and "r = Inl e \<Longrightarrow> fs' = fs"
    and "subseq (stored sc p fs') (stored sc p fs @ offered p (broadcast_paths sc alias ks ident sender path) new_id files)"
proof -
  let ?ps = "broadcast_paths sc alias ks ident sender path"
  have root: "bc_root (broadcast_conf sc alias) = rt_root (sc_env sc)" "bc_alias (broadcast_conf sc alias) = alias"
    "bc_policy (broadcast_conf sc alias) = bc_policy (mc_broadcast (sc_mcp sc))"
    using service_invarD(6) [OF i] by (simp_all add: broadcast_conf_def)
  have "fs' = fs \<or> (\<exists>k'. fan_step sc p (p \<in> set ?ps) new_id files 0 k' fs fs' \<and> k' \<le> length ?ps) \<and> (\<forall>e. r \<noteq> Inl e)"
  proof (cases "list_keys ks")
    case (Inl e)
    with o show ?thesis by (simp add: fan_out_def)
  next
    case (Inr keys)
    let ?l = "visible_or_none (bc_policy (mc_broadcast (sc_mcp sc))) ident (candidate_labels sender keys)"
    have ps: "?ps = concat (map (label_paths alias sender path) ?l)" using Inr by (simp add: broadcast_paths_def)
    obtain rs fs1 where d: "deliver_all (broadcast_conf sc alias) write new_id t path sender ident ?l 0 fs = (rs, fs1)"
      by (cases "deliver_all (broadcast_conf sc alias) write new_id t path sender ident ?l 0 fs")
    have "fs' = fs \<or> fs' = fs1 \<and> (\<forall>e. r \<noteq> Inl e)"
      using o Inr d by (auto simp: fan_out_def Let_def root(3) visible_or_none_def split: if_splits prod.splits sum.splits)
    moreover have "\<exists>k'. fan_step sc p (p \<in> set ?ps) new_id files 0 k' fs fs1 \<and> k' \<le> length ?ps"
      using deliver_all_step [OF sink root(1) i _ d, of "p \<in> set ?ps"] q by (auto simp: root(2) ps list_all_iff)
    ultimately show ?thesis by blast
  qed
  moreover have "subseq xs (stored sc p fs @ offered p ?ps new_id files)"
    if "subseq xs (stored sc p fs @ drawn (p \<in> set ?ps) new_id files 0 k')" "k' \<le> length ?ps" for k' xs
  proof -
    have "offered p ?ps new_id files = drawn (p \<in> set ?ps) new_id files 0 k' @ drawn (p \<in> set ?ps) new_id files k' (length ?ps)"
      using drawn_append [OF le0 that(2)] by (simp add: offered_def drawn_def)
    then show ?thesis using list_emb_prefix [OF that(1)] by simp
  qed
  ultimately show "service_invar sc p fs'"
    "subseq (stored sc p fs') (stored sc p fs @ offered p ?ps new_id files)" "r = Inl e \<Longrightarrow> fs' = fs"
    using i by (auto simp: fan_step_def list_emb_prefix)
qed

lemma broadcast_request:
  assumes i: "service_invar sc p fs" and ok: "request_ok sc p (ReqBroadcast alias hit new_id t addr ks ident path body)"
    and o: "serve sc (ReqBroadcast alias hit new_id t addr ks ident path body) fs = (rep, fs')"
  shows "request_step sc p (ReqBroadcast alias hit new_id t addr ks ident path body) rep fs fs'"
proof -
  let ?env = "broadcast_conf sc alias" and ?f = "body_parts path body" and ?s = "sender_from_identity ident"
  have root: "bc_root ?env = rt_root (sc_env sc)" using service_invarD(6) [OF i] by (simp add: broadcast_conf_def)
  have "bundle_of (inbox_meta (bc_guess ?env) t ?s bid ?f) (part_files ?f) \<and> bm_bundle_id (inbox_meta (bc_guess ?env) t ?s bid ?f) = bid" for bid
    by (auto simp: bundle_of_def inbox_meta_def part_files_def)
  then have sink: "payload_sink sc t (part_files ?f) (inbox_writer ?env t ?f ?s)"
    unfolding payload_sink_def inbox_writer_def root
    using ok by (auto simp: write_inbox_bundle_publish part_files_def fun_eq_iff intro!: exI [of _ "\<lambda>bid. inbox_meta (bc_guess ?env) t ?s bid ?f"])
  obtain r fs1 where fo: "fan_out ?env (inbox_writer ?env t ?f ?s) new_id t ks ident ?s path fs = (r, fs1)"
    by (cases "fan_out ?env (inbox_writer ?env t ?f ?s) new_id t ks ident ?s path fs")
  have "fs' = fs \<or> rep = RepBroadcast r \<and> fs' = fs1"
    using o fo by (auto simp: broadcast_def without_limiter_def inbox_writer_def Let_def split: prod.splits sum.splits upload_decision.splits if_splits)
  moreover have "list_all (apart p) (broadcast_paths sc alias ks ident ?s path)" using ok by simp
  note st = fan_out_step [OF sink i this fo]
  ultimately consider "fs' = fs" | x where "rep = RepBroadcast (Inr x)" "fs' = fs1" using st(2) by (cases r) auto
  then show ?thesis
  proof cases
    case 1
    with i show ?thesis by (intro request_step_lessens) auto
  next
    case 2
    with st show ?thesis by (simp add: request_step_def)
  qed
qed

lemma tool_broadcast_request:
  assumes i: "service_invar sc p fs" and ok: "request_ok sc p (ToolBroadcast ctx alias hit new_id t remote expiry ks path content files)"
    and o: "serve sc (ToolBroadcast ctx alias hit new_id t remote expiry ks path content files) fs = (rep, fs')"
  shows "request_step sc p (ToolBroadcast ctx alias hit new_id t remote expiry ks path content files) rep fs fs'"
proof (cases "payload_arg path content files")
  case (Inl e)
  with o have "fs' = fs"
    by (auto simp: cassetta_broadcast_def without_limiter_def Let_def split: prod.splits sum.splits if_splits option.splits)
  with i show ?thesis by (intro request_step_lessens) auto
next
  case (Inr parsed)
  let ?env = "broadcast_conf sc alias" and ?s = "mx_sender ctx" and ?ident = "or_dev (mx_identity ctx)"
  let ?w = "\<lambda>q bid. mcp_write_bundle (bc_guess ?env) (bc_root ?env) t q parsed ?s ''application/octet-stream'' bid"
  have root: "bc_root ?env = rt_root (sc_env sc)" using service_invarD(6) [OF i] by (simp add: broadcast_conf_def)
  have tf: "tool_files_ok parsed" using ok Inr by simp
  have "bm_bundle_id (mcp_meta (bc_guess ?env) t ?s ''application/octet-stream'' bid parsed) = bid" for bid by (simp add: mcp_meta_def)
  then have sink: "payload_sink sc t (text_files parsed) ?w"
    unfolding payload_sink_def root using tool_files_publish [OF tf]
    by (auto simp: fun_eq_iff intro!: exI [of _ "\<lambda>bid. mcp_meta (bc_guess ?env) t ?s ''application/octet-stream'' bid parsed"])
  obtain r fs1 where fo: "fan_out ?env ?w new_id t ks ?ident ?s path fs = (r, fs1)" by (cases "fan_out ?env ?w new_id t ks ?ident ?s path fs")
  have "list_all (apart p) (broadcast_paths sc alias ks ?ident ?s path)" using ok by simp
  note st = fan_out_step [OF sink i this fo]
  have "fs' = fs \<or> (\<exists>x msg. r = Inr x \<and> rep = RepText (Inr msg)) \<and> fs' = fs1"
    using o fo Inr st(2) by (auto simp: cassetta_broadcast_def without_limiter_def Let_def split: prod.splits sum.splits if_splits option.splits)
  then consider "fs' = fs" | msg where "rep = RepText (Inr msg)" "fs' = fs1" by blast
  then show ?thesis
  proof cases
    case 1
    with i show ?thesis by (intro request_step_lessens) auto
  next
    case 2
    with st Inr show ?thesis by (simp add: request_step_def)
  qed
qed

end
