(* ===== verification/Service_Runs.thy ===== *)
theory Service_Runs
  imports Service_Tools
begin

text \<open>
  Runs of the service. Each request, and each pass of the two loops, changes the message stored at a path in one of
  three ways only: it stays, it goes, or a sender brings it, to an empty path or, with a broadcast, in place of another. A run therefore delivers at most what was
  deposited, in the order of the deposits.
\<close>

subsection \<open>Mailboxes\<close>

text \<open>
  What makes a place with a changing content a mailbox: a step delivers and keeps at most what was there and what it
  brings, in that order. The laws of one step carry over to runs.
\<close>

locale mailbox =
  fixes invar :: "'s \<Rightarrow> bool"
    and allowed :: "'q \<Rightarrow> bool"
    and step :: "'q \<Rightarrow> 's \<Rightarrow> 'r \<times> 's"
    and content :: "'s \<Rightarrow> 'm list"
    and out :: "'q \<times> 'r \<Rightarrow> 'm list"
    and inp :: "'q \<times> 'r \<Rightarrow> 'm list"
  assumes step_invar: "\<lbrakk>invar s; allowed q; step q s = (r, s')\<rbrakk> \<Longrightarrow> invar s'"
    and step_subseq: "\<lbrakk>invar s; allowed q; step q s = (r, s')\<rbrakk> \<Longrightarrow> subseq (out (q, r) @ content s') (content s @ inp (q, r))"
begin

lemma run_subseq:
  "\<lbrakk>invar s; \<forall>q \<in> set qs. allowed q; run_all step qs s = (log, s')\<rbrakk>
   \<Longrightarrow> invar s' \<and> subseq (concat (map out log) @ content s') (content s @ concat (map inp log))"
proof (induction qs arbitrary: s log)
  case (Cons q qs)
  obtain r s1 where s: "step q s = (r, s1)" by (cases "step q s")
  obtain log1 where l: "run_all step qs s1 = (log1, s')" and log: "log = (q, r) # log1"
    using Cons.prems(3) s by (auto split: prod.splits)
  have st: "invar s1" "subseq (out (q, r) @ content s1) (content s @ inp (q, r))"
    using step_invar [OF Cons.prems(1) _ s] step_subseq [OF Cons.prems(1) _ s] Cons.prems(2) by auto
  have ih: "invar s'" "subseq (concat (map out log1) @ content s') (content s1 @ concat (map inp log1))"
    using Cons.IH [OF st(1) _ l] Cons.prems(2) by auto
  have "subseq (out (q, r) @ concat (map out log1) @ content s') (out (q, r) @ content s1 @ concat (map inp log1))"
    by (rule list_emb_append_mono [OF subseq_order.order_refl ih(2)])
  moreover have "subseq ((out (q, r) @ content s1) @ concat (map inp log1)) ((content s @ inp (q, r)) @ concat (map inp log1))"
    using st(2) by (simp only: subseq_append)
  ultimately show ?case using ih(1) log by (auto intro: subseq_order.trans)
qed auto

lemma run_once:
  assumes "invar s" "\<forall>q \<in> set qs. allowed q" "run_all step qs s = (log, s')" "distinct (content s @ concat (map inp log))"
  shows "distinct (concat (map out log))"
proof -
  obtain N where "concat (map out log) @ content s' = nths (content s @ concat (map inp log)) N"
    using run_subseq [OF assms(1-3)] unfolding subseq_conv_nths by blast
  then have "distinct (concat (map out log) @ content s')" using assms(4) by (metis distinct_nthsI)
  then show ?thesis by simp
qed

end

subsection \<open>Passes of the loops\<close>

definition lessens :: "service_conf \<Rightarrow> str \<Rightarrow> fs \<Rightarrow> fs \<Rightarrow> bool" where
  "lessens sc p fs fs' = (service_invar sc p fs \<longrightarrow> service_invar sc p fs' \<and> subseq (stored sc p fs') (stored sc p fs))"

lemma lessens_trans: "lessens sc p fs fs1 \<Longrightarrow> lessens sc p fs1 fs2 \<Longrightarrow> lessens sc p fs fs2"
  by (auto simp: lessens_def intro: subseq_order.trans)

lemma sweep_refs_deletes:
  "\<exists>ps. sweep_refs root now age refs fs = delete_paths root now ps fs \<and> set ps \<subseteq> br_path ` set refs"
proof (induction refs arbitrary: fs)
  case Nil
  show ?case by (rule exI [of _ "[]"]) simp
next
  case (Cons r refs)
  have "\<exists>ps. delete_paths root now qs (snd (delete_bundle root now (br_path r) fs)) = delete_paths root now ps fs
      \<and> set ps \<subseteq> br_path ` set (r # refs)" if "set qs \<subseteq> br_path ` set refs" for qs
    using that by (intro exI [of _ "br_path r # qs"]) auto
  with Cons [of fs] Cons [of "snd (delete_bundle root now (br_path r) fs)"] show ?case by auto
qed

lemma delete_paths_keeps:
  "core_invar sc p fs \<Longrightarrow> good_key p \<Longrightarrow> \<forall>q \<in> set ps. outside p q
   \<Longrightarrow> keeps_or_drops (rt_root (sc_env sc)) p fs (delete_paths (rt_root (sc_env sc)) t ps fs)"
proof (induction ps arbitrary: fs)
  case (Cons q ps)
  have q: "outside p q" using Cons.prems(3) by simp
  note d = delete_outside [OF Cons.prems(1,2) q, of t]
  from Cons.IH [OF d(1) Cons.prems(2)] Cons.prems(3) d(2) keeps_trans show ?case by auto
qed simp

lemma delete_paths_core:
  "core_invar sc p fs \<Longrightarrow> \<forall>q \<in> set ps. good_key q \<Longrightarrow> core_invar sc p (delete_paths (rt_root (sc_env sc)) t ps fs)"
proof (induction ps arbitrary: fs)
  case (Cons q ps)
  let ?r = "rt_root (sc_env sc)" and ?f = "snd (delete_bundle (rt_root (sc_env sc)) t q fs)"
  have q: "good_key q" and i: "store_invar ?r fs" "separate ?r (rt_claims_base (sc_env sc))" "fs_names fs" "shown_apart ?r p fs"
    using Cons.prems by (auto simp: core_invar_def)
  have "core_invar sc p ?f"
    using core_data [OF Cons.prems(1), of ?f] shown_apart_delete [OF i(1) q, of p t] i(4) delete_any [OF i(1) q, of t "fst (delete_bundle ?r t q fs)" ?f]
      beside_data(1) [OF i(2) q] fs_names_delete [OF i(3), of ?r t q] by simp
  with Cons show ?case by simp
qed simp

text \<open>A listing of a namespace names nothing inside a committed bundle.\<close>

lemma listed_outside:
  assumes i: "gc_invar root fs" and pre: "good_key pre" "path_parts pre = [ns]"
    and r: "r \<in> set (list_bundles root pre inc fs)" and p: "good_key p" "2 \<le> length (path_parts p)"
    and m: "has_meta fs (resolve root p)"
  shows "outside p (br_path r)"
proof -
  obtain x s where r': "good_key (br_path r)" "resolve root (br_path r) = resolve root pre @ x # s" "reported inc fs (resolve root pre @ [x]) s"
    using listed_ref [OF _ _ _ pre(1) r] gc_invarD [OF i] by blast
  have pp: "path_parts (br_path r) = ns # x # s" using r'(2) by (simp add: resolve_good [OF r'(1)] resolve_good [OF pre(1)] pre(2))
  have "\<not> strict_prefix (path_parts p) (ns # x # s)"
  proof
    assume a: "strict_prefix (path_parts p) (ns # x # s)"
    then obtain l where l: "path_parts p = ns # x # l" using p(2)
      by (cases "path_parts p"; cases "tl (path_parts p)") (auto simp: strict_prefix_def)
    with a have "strict_prefix l s" by (simp add: strict_prefix_def)
    then have "\<not> has_file fs (resolve root pre @ x # l)" using r'(3) by (simp add: reported_def)
    then show False using has_meta_file [OF m] l by (simp add: resolve_good [OF p(1)] resolve_good [OF pre(1)] pre(2))
  qed
  with pp r'(1) show ?thesis by (simp add: outside_def)
qed

lemma pass_lessens:
  assumes pre: "good_key pre" "path_parts pre = [ns]"
    and ps: "set ps \<subseteq> br_path ` set (list_bundles (rt_root (sc_env sc)) pre inc fs)"
  shows "lessens sc p fs (delete_paths (rt_root (sc_env sc)) now ps fs)"
  unfolding lessens_def
proof
  let ?r = "rt_root (sc_env sc)" and ?f = "delete_paths (rt_root (sc_env sc)) now ps fs"
  assume i: "service_invar sc p fs"
  have c: "core_invar sc p fs" and p: "good_key p" "2 \<le> length (path_parts p)" "inbox_key p" using service_invarD [OF i] by auto
  have g: "gc_invar ?r fs" using c by (simp add: core_invar_def gc_invar_def)
  have gp: "\<forall>q \<in> set ps. good_key q" using ps listed_good [OF g pre(1), of inc] by auto
  have c': "core_invar sc p ?f" by (rule delete_paths_core [OF c gp])
  show "service_invar sc p ?f \<and> subseq (stored sc p ?f) (stored sc p fs)"
  proof (cases "has_meta fs (resolve ?r p)")
    case True
    have "\<forall>q \<in> set ps. outside p q" using ps listed_outside [OF g pre _ p(1,2) True] by auto
    from service_step_keeps [OF i c' delete_paths_keeps [OF c p(1) this]] show ?thesis by blast
  next
    case False
    have si: "store_invar ?r fs" "store_invar ?r ?f" using c c' by (auto simp: core_invar_def)
    have "meta_at ?r ?f p \<noteq> Some m" for m
      using False meta_at_Some [OF si(2) p(1), of m] delete_paths_le [OF g gp, of now "resolve ?r p @ [BUNDLE_MANIFEST]"]
      by (auto simp: has_meta_def)
    then have "meta_at ?r ?f p = None" by (cases "meta_at ?r ?f p") auto
    then show ?thesis using c' p by (simp add: service_invar_def stored_def names_ok_def)
  qed
qed

lemma sweep_lessens: "lessens sc p fs (sweep (rt_root (sc_env sc)) now age fs)"
proof -
  have "set pres \<subseteq> set NAMESPACES \<Longrightarrow> lessens sc p fs (sweep_namespaces (rt_root (sc_env sc)) now age pres fs)" for pres
  proof (induction pres arbitrary: fs)
    case (Cons pre pres)
    obtain ns where g: "good_key pre" "path_parts pre = [ns]" using namespaces_good [of pre] Cons.prems by auto
    obtain ps where ps: "sweep_refs (rt_root (sc_env sc)) now age (list_bundles (rt_root (sc_env sc)) pre True fs) fs
        = delete_paths (rt_root (sc_env sc)) now ps fs"
      "set ps \<subseteq> br_path ` set (list_bundles (rt_root (sc_env sc)) pre True fs)" using sweep_refs_deletes by metis
    show ?case using lessens_trans [OF pass_lessens [OF g ps(2)] Cons.IH] Cons.prems ps(1) by simp
  qed (simp add: lessens_def)
  then show ?thesis by (simp add: sweep_def)
qed

lemma ttl_sweep_lessens: "lessens sc p fs (snd (ttl_sweep (rt_root (sc_env sc)) now ttl fs))"
proof -
  have "set pres \<subseteq> set NAMESPACES \<Longrightarrow> lessens sc p fs (snd (ttl_namespaces (rt_root (sc_env sc)) now ttl pres n fs))" for pres n
  proof (induction pres arbitrary: fs n)
    case (Cons pre pres)
    let ?refs = "list_bundles (rt_root (sc_env sc)) pre False fs"
    obtain ns where g: "good_key pre" "path_parts pre = [ns]" using namespaces_good [of pre] Cons.prems by auto
    obtain e n' fs1 where t: "ttl_refs (rt_root (sc_env sc)) now ttl ?refs n fs = (e, n', fs1)"
      by (cases "ttl_refs (rt_root (sc_env sc)) now ttl ?refs n fs")
    obtain ps where ps: "fs1 = delete_paths (rt_root (sc_env sc)) now ps fs" "set ps \<subseteq> br_path ` set ?refs"
      using ttl_refs_deletes [of "rt_root (sc_env sc)" now ttl ?refs n fs] t by auto
    have "lessens sc p fs fs1" unfolding ps(1) by (rule pass_lessens [OF g ps(2)])
    with lessens_trans [OF this Cons.IH] Cons.prems t show ?case by (cases e) simp_all
  qed (simp add: lessens_def)
  moreover have "set BUNDLE_NAMESPACES \<subseteq> set NAMESPACES" by (simp add: BUNDLE_NAMESPACES_def NAMESPACES_def)
  ultimately show ?thesis by (simp only: ttl_sweep_def)
qed

lemma iter_entries_file:
  "iter_entries es = Inr cs \<Longrightarrow> c \<in> set cs \<Longrightarrow> \<exists>j b m. (j @ ''.json'', FileNode b m) \<in> set es \<and> parse b = Inr c"
proof (induction es arbitrary: cs rule: iter_entries.induct)
  case (3 name body m rest)
  show ?case
  proof (cases "\<not> endswith name ''.json'' \<or> endswith name ''.json.tmp''")
    case True
    then show ?thesis using 3 by fastforce
  next
    case False
    then obtain j where j: "name = j @ ''.json''" by (auto simp: endswith_def suffix_def)
    show ?thesis
    proof (cases "parse body")
      case (Inr k)
      with 3 False j show ?thesis by (fastforce split: sum.splits)
    next
      case (Inl e)
      with 3 False show ?thesis by (cases e) fastforce+
    qed
  qed
qed fastforce+

lemma iterated_record:
  assumes c: "core_invar sc p fs" and a: "iter_all (rt_claims_base (sc_env sc)) fs = Inr cs" "k \<in> set cs"
  shows "jti_ok (cr_jti k)" and "apart p (cr_bundle_path k)"
proof -
  let ?b = "rt_claims_base (sc_env sc)"
  have i: "claims_invar (rt_digest (sc_env sc)) ?b fs" "records_ok ?b p fs" "fs_names fs" using c by (auto simp: core_invar_def)
  have wf: "fs_wf fs" "clean ?b" using i(1) by (auto simp: claims_invar_def)
  from a obtain q where q: "walk fs [] ?b = Inr q" "iter_entries (children fs q) = Inr cs"
    by (auto simp: iter_all_def split: sum.splits if_splits option.splits node.splits)
  have "q = ?b" using q(1) walk_clean_iff [OF wf, of q] by simp
  with iter_entries_file [OF q(2) a(2)] obtain j b m where
    e: "(j @ ''.json'', FileNode b m) \<in> set (children fs ?b)" "parse b = Inr k" by blast
  then have f: "entry_at fs (?b @ [j @ ''.json'']) = Some (F b)" by (simp add: children_iff [OF wf(1)] entry_at_def)
  have j: "jti_ok j" using fs_names_entry [OF i(3), of "?b @ [j @ ''.json'']"] f by (simp add: name_ok_def jti_ok_def)
  then have "record_of ?b fs j = Some k" using record_of_iff [OF i(1) j] f e(2) by blast
  with i(2) j show "jti_ok (cr_jti k)" "apart p (cr_bundle_path k)" by (auto simp: records_ok_def)
qed

lemma sweep_claim_keeps:
  assumes c: "core_invar sc p fs" and p: "good_key p" "apart p (cr_bundle_path k)" and j: "jti_ok (cr_jti k)"
    and o: "sweep_claim (rt_digest (sc_env sc)) (rt_claims_base (sc_env sc)) (rt_root (sc_env sc)) now ttl k fs = (r, fs')"
  shows "core_invar sc p fs' \<and> keeps_or_drops (rt_root (sc_env sc)) p fs fs'"
proof -
  let ?d = "snd (delete_bundle (rt_root (sc_env sc)) now (cr_bundle_path k) fs)"
  note d = delete_step [OF c p, of now]
  let ?del = "delete_claim (rt_digest (sc_env sc)) (rt_claims_base (sc_env sc)) now (cr_jti k)"
  have "fs' = fs \<or> fs' = snd (?del fs) \<or> fs' = snd (?del ?d)"
    using o by (auto simp: sweep_claim_def Let_def split: option.splits sum.splits if_splits)
  with c delete_claim_step [OF c p(1) j, of now] delete_claim_step [OF d(1) p(1) j, of now] keeps_trans [OF d(2)]
  show ?thesis by (metis keeps_refl)
qed

lemma sweep_claim_list_keeps:
  "core_invar sc p fs \<Longrightarrow> good_key p \<Longrightarrow> \<forall>k \<in> set cs. jti_ok (cr_jti k) \<and> apart p (cr_bundle_path k)
   \<Longrightarrow> sweep_claim_list (rt_digest (sc_env sc)) (rt_claims_base (sc_env sc)) (rt_root (sc_env sc)) now ttl cs fs = (r, fs')
   \<Longrightarrow> core_invar sc p fs' \<and> keeps_or_drops (rt_root (sc_env sc)) p fs fs'"
proof (induction cs arbitrary: fs)
  case (Cons k cs)
  obtain r1 fs1 where s: "sweep_claim (rt_digest (sc_env sc)) (rt_claims_base (sc_env sc)) (rt_root (sc_env sc)) now ttl k fs = (r1, fs1)"
    by (cases "sweep_claim (rt_digest (sc_env sc)) (rt_claims_base (sc_env sc)) (rt_root (sc_env sc)) now ttl k fs")
  have k: "core_invar sc p fs1" "keeps_or_drops (rt_root (sc_env sc)) p fs fs1"
    using sweep_claim_keeps [OF Cons.prems(1,2) _ _ s] Cons.prems(3) by auto
  show ?case
  proof (cases r1)
    case (Inl e)
    with s Cons.prems(4) k show ?thesis by auto
  next
    case (Inr u)
    with s Cons.prems(4) have "sweep_claim_list (rt_digest (sc_env sc)) (rt_claims_base (sc_env sc)) (rt_root (sc_env sc)) now ttl cs fs1 = (r, fs')"
      by simp
    from Cons.IH [OF k(1) Cons.prems(2) _ this] Cons.prems(3) keeps_trans [OF k(2)] show ?thesis by auto
  qed
qed auto

lemma sweep_claims_lessens:
  "lessens sc p fs (snd (sweep_claims (rt_digest (sc_env sc)) (rt_claims_base (sc_env sc)) (rt_root (sc_env sc)) now ttl fs))"
  unfolding lessens_def
proof
  let ?f = "sweep_claims (rt_digest (sc_env sc)) (rt_claims_base (sc_env sc)) (rt_root (sc_env sc)) now ttl fs"
  assume i: "service_invar sc p fs"
  note c = service_invarD(1) [OF i] and p = service_invarD(2) [OF i]
  have "core_invar sc p (snd ?f) \<and> keeps_or_drops (rt_root (sc_env sc)) p fs (snd ?f)"
  proof (cases "iter_all (rt_claims_base (sc_env sc)) fs")
    case (Inl e)
    with c show ?thesis by (simp add: sweep_claims_def)
  next
    case (Inr cs)
    from sweep_claim_list_keeps [OF c p, of cs now ttl] iterated_record [OF c Inr] Inr
    show ?thesis by (metis prod.collapse sum.case(2) sweep_claims_def)
  qed
  with service_step_keeps [OF i] show "service_invar sc p (snd ?f) \<and> subseq (stored sc p (snd ?f)) (stored sc p fs)" by blast
qed

lemma wake_lessens: "lessens sc p fs (snd (ttl_wake (rt_root (sc_env sc)) ttl w ls fs))"
proof -
  have "snd (ttl_wake (rt_root (sc_env sc)) ttl w ls fs) = fs
      \<or> snd (ttl_wake (rt_root (sc_env sc)) ttl w ls fs) = snd (ttl_sweep (rt_root (sc_env sc)) (wu_now w) ttl fs)"
    by (auto simp: ttl_wake_def Let_def split: prod.splits option.splits)
  with ttl_sweep_lessens show ?thesis by (metis lessens_def subseq_order.order_refl)
qed

subsection \<open>Requests\<close>

lemma upload_request:
  assumes i: "service_invar sc p fs" and ok: "request_ok sc p (ReqUpload slots t mt auth param archive)"
    and o: "serve sc (ReqUpload slots t mt auth param archive) fs = (rep, fs')"
  shows "request_step sc p (ReqUpload slots t mt auth param archive) rep fs fs'"
proof (cases "upload_target sc slots t mt auth param")
  case (Inl e)
  with o have "fs' = fs" "rep = RepUpload (Inl e)" by (auto simp: upload_bundle_def upload_target_def)
  then show ?thesis using i by (simp add: request_step_def)
next
  case (Inr x)
  let ?r = "rt_root (sc_env sc)"
  have c: "core_invar sc p fs" and p: "good_key p" "2 \<le> length (path_parts p)" "inbox_key p" using service_invarD [OF i] by auto
  obtain path bid sender files where x: "x = (path, bid, sender, files)" by (cases x)
  let ?m = "upload_meta t bid sender files"
  have fm: "bm_files ?m = files" "bm_bundle_id ?m = bid" by (simp_all add: upload_meta_def)
  obtain r fs1 where rb: "receive_bundle ?r t (rt_limits (sc_env sc)) path ?m archive fs = (r, fs1)"
    by (cases "receive_bundle ?r t (rt_limits (sc_env sc)) path ?m archive fs")
  have ap: "apart p path" and n: "names_good (map mf_name files)"
    using ok Inr x by auto
  note st = receive_step [OF c p(1) ap, of ?m, unfolded fm, OF n rb]
  have f: "fs' = fs1" "rep = RepUpload (case r of Inl e \<Rightarrow> Inl e | Inr u \<Rightarrow> Inr bid)"
    using o Inr x rb by (auto simp: upload_bundle_def upload_target_def split: sum.splits)
  show ?thesis
  proof (cases "path = p \<and> r = Inr ()")
    case False
    then have "keeps_or_drops ?r p fs fs'" using st(2) f by (cases r) (auto simp: keeps_or_drops_def)
    with st(1) f(1) show ?thesis by (auto intro!: request_step_keeps [OF i])
  next
    case True
    from st(3) [of "()"] True have v: "meta_at ?r fs p = None" "meta_at ?r fs1 p = Some ?m"
      "\<forall>g \<in> set files. file_at ?r fs1 p (mf_name g) = Some (the (map_of (members (rt_limits (sc_env sc)) files archive) (mf_name g)))"
      by (auto simp: fm)
    have "stored sc p fs1 = deposited sc p (ReqUpload slots t mt auth param archive, rep)" "stored sc p fs = []"
      using v f(2) True Inr x by (simp_all add: stored_def fm)
    moreover have "names_ok ?r p fs1" using v(2) n by (auto simp: names_ok_def names_good_def fm list_all_iff bundle_name_def)
    ultimately show ?thesis using st(1) f(1) p by (simp add: service_invar_def request_step_def)
  qed
qed

lemma pick_request:
  assumes i: "service_invar sc p fs" and ok: "request_ok sc p (ReqPick uuid t ident agent path)"
    and l: "lib_laws (rt_lib (sc_env sc))" and o: "serve sc (ReqPick uuid t ident agent path) fs = (rep, fs')"
  shows "request_step sc p (ReqPick uuid t ident agent path) rep fs fs'"
proof -
  obtain r where pk: "pick_inbox_file (sc_env sc) uuid t ident agent path fs = (r, fs')" "rep = RepRead r"
    using o by (cases "pick_inbox_file (sc_env sc) uuid t ident agent path fs") auto
  have ok': "pick_ok p agent path" "jti_ok uuid" using ok by auto
  note st = pick_step [OF service_invarD(1,2) [OF i] ok'(1) l ok'(2) pk(1)]
  show ?thesis
  proof (cases "\<exists>resp. r = Inr resp \<and> inline_message (rr_body resp) \<noteq> [] \<and> reply_path agent path resp = p")
    case True
    then obtain resp where re: "r = Inr resp" "reply_path agent path resp = p" "inline_message (rr_body resp) \<noteq> []" by blast
    from st(3) [OF re] service_step_keeps(1) [OF i st(1,2)] re pk(2) show ?thesis by (simp add: request_step_def)
  next
    case False
    then have "delivered p (ReqPick uuid t ident agent path, rep) = []" using pk(2) by (cases r) auto
    then show ?thesis by (rule request_step_keeps [OF i st(1,2)])
  qed
qed

lemma get_request:
  assumes i: "service_invar sc p fs" and ok: "request_ok sc p (ReqGet uuid t ident agent path)"
    and o: "serve sc (ReqGet uuid t ident agent path) fs = (rep, fs')"
  shows "request_step sc p (ReqGet uuid t ident agent path) rep fs fs'"
proof -
  note c = service_invarD(1) [OF i] and p = service_invarD(2) [OF i]
  obtain r where pk: "get_inbox_file (sc_env sc) uuid t ident agent path fs = (r, fs')" "rep = RepRead r"
    using o by (cases "get_inbox_file (sc_env sc) uuid t ident agent path fs") auto
  have "apart p (inbox_path agent path)" using ok by simp
  from request_step_keeps [OF i get_step [OF c p this pk(1)]] show ?thesis by simp
qed

lemma delete_request:
  assumes i: "service_invar sc p fs" and ok: "request_ok sc p (ReqDelete t ident agent path)"
    and o: "serve sc (ReqDelete t ident agent path) fs = (rep, fs')"
  shows "request_step sc p (ReqDelete t ident agent path) rep fs fs'"
proof -
  note c = service_invarD(1) [OF i] and p = service_invarD(2) [OF i]
  have ap: "apart p (inbox_path agent path)" using ok by simp
  have "fs' = fs \<or> fs' = snd (delete_bundle (rt_root (sc_env sc)) t (inbox_path agent path) fs)"
    using o by (auto simp: delete_inbox_file_def enforce_def split: sum.splits if_splits prod.splits)
  then have "core_invar sc p fs'" "keeps_or_drops (rt_root (sc_env sc)) p fs fs'" using delete_step [OF c p ap, of t] c by auto
  from request_step_keeps [OF i this] show ?thesis by simp
qed

lemma download_state:
  assumes "download_file dec chk dev digest base root t mt complete slots req fs = (r, fs')"
    and "authorize_download dec chk dev (epoch t) mt slots req = Inr (claims, q, n)"
  obtains "fs' = fs"
  | r' and m :: bundle_meta where "post_stream_claim_accounting digest base root t (claim_str claims ''jti'') q n (bm_files m) fs = (r', fs')"
proof -
  have "fs' = fs \<or> (\<exists>m :: bundle_meta. fs' = snd (post_stream_claim_accounting digest base root t (claim_str claims ''jti'') q n (bm_files m) fs))"
    using assms by (auto simp: download_file_def split: sum.splits if_splits)
  with that show ?thesis by (metis prod.collapse)
qed

lemma download_request:
  assumes i: "service_invar sc p fs" and ok: "request_ok sc p (ReqDownload slots t mt complete dreq)"
    and o: "serve sc (ReqDownload slots t mt complete dreq) fs = (rep, fs')"
  shows "request_step sc p (ReqDownload slots t mt complete dreq) rep fs fs'"
proof -
  let ?a = "authorize_download (jl_decode (rt_lib (sc_env sc))) (sc_check sc) (sc_dev sc) (epoch t) mt slots dreq"
  note c = service_invarD(1) [OF i] and p = service_invarD(2) [OF i]
  have "core_invar sc p fs' \<and> keeps_or_drops (rt_root (sc_env sc)) p fs fs'"
  proof (cases ?a)
    case (Inl e)
    with o c show ?thesis by (auto simp: download_file_def)
  next
    case (Inr x)
    obtain claims q n where x: "x = (claims, q, n)" by (cases x)
    have ap: "jti_ok (claim_str claims ''jti'')" "apart p q" using ok Inr x by auto
    obtain r where dl: "download_file (jl_decode (rt_lib (sc_env sc))) (sc_check sc) (sc_dev sc) (rt_digest (sc_env sc))
        (rt_claims_base (sc_env sc)) (rt_root (sc_env sc)) t mt complete slots dreq fs = (r, fs')"
      using o by (auto simp: apfst_def map_prod_def split: prod.splits)
    from download_state [OF dl Inr [unfolded x]] show ?thesis
      by cases (use c accounting_step [OF c p ap(2,1)] in auto)
  qed
  with request_step_keeps [OF i] show ?thesis by simp
qed

lemma pass_request:
  assumes "service_invar sc p fs" "lessens sc p fs fs'" "delivered p (req, rep) = []"
  shows "request_step sc p req rep fs fs'"
  using assms by (simp add: request_step_def lessens_def list_emb_prefix)

lemma reaper_request:
  assumes "service_invar sc p fs" "serve sc (Reaper now) fs = (rep, fs')"
  shows "request_step sc p (Reaper now) rep fs fs'"
proof -
  have "lessens sc p fs fs'"
    using assms(2) lessens_trans [OF sweep_lessens sweep_claims_lessens] by (auto simp: Let_def)
  with pass_request [OF assms(1)] show ?thesis by simp
qed

lemma retention_request:
  assumes "service_invar sc p fs" "serve sc (Retention w) fs = (rep, fs')"
  shows "request_step sc p (Retention w) rep fs fs'"
proof -
  have "lessens sc p fs fs'" using assms(2) wake_lessens by auto
  with pass_request [OF assms(1)] show ?thesis by simp
qed

lemmas request_lemmas = upload_request pick_request get_request delete_request download_request broadcast_request
  put_file_request get_file_request delete_file_request tool_send_request tool_pick_request tool_broadcast_request
  tool_put_request tool_get_request tool_delete_request reaper_request retention_request

lemma serve_step:
  assumes "service_invar sc p fs" "request_ok sc p req" "lib_laws (rt_lib (sc_env sc))" "serve sc req fs = (rep, fs')"
  shows "request_step sc p req rep fs fs'"
  using assms request_lemmas by (cases req; metis)

interpretation inbox: mailbox "\<lambda>fs. lib_laws (rt_lib (sc_env sc)) \<and> service_invar sc p fs" "request_ok sc p" "serve sc"
  "stored sc p" "delivered p" "deposited sc p" for sc p
proof unfold_locales
  fix s q r s'
  assume i: "lib_laws (rt_lib (sc_env sc)) \<and> service_invar sc p s" "request_ok sc p q" "serve sc q s = (r, s')"
  then have "request_step sc p q r s s'" using serve_step [of sc p s q r s'] by blast
  then show "lib_laws (rt_lib (sc_env sc)) \<and> service_invar sc p s'"
    "subseq (delivered p (q, r) @ stored sc p s') (stored sc p s @ deposited sc p (q, r))"
    using i(1) by (simp_all add: request_step_def)
qed

lemma serve_all_step:
  assumes "lib_laws (rt_lib (sc_env sc))" "service_invar sc p fs" "\<forall>req \<in> set reqs. request_ok sc p req"
    and "serve_all sc reqs fs = (log, fs')"
  shows "service_invar sc p fs'
    \<and> subseq (concat (map (delivered p) log) @ stored sc p fs') (stored sc p fs @ concat (map (deposited sc p) log))"
  using inbox.run_subseq [of sc p fs reqs log fs'] assms by (simp add: serve_all_def)

lemma serve_all_once:
  assumes "lib_laws (rt_lib (sc_env sc))" "service_invar sc p fs" "\<forall>req \<in> set reqs. request_ok sc p req"
    and "serve_all sc reqs fs = (log, fs')" "distinct (stored sc p fs @ concat (map (deposited sc p) log))"
  shows "distinct (concat (map (delivered p) log))"
  using inbox.run_once [of sc p fs reqs log fs'] assms by (simp add: serve_all_def)

end
