(* ===== verification/Startup.thy ===== *)
theory Startup
  imports Server Service_Runs
begin

text \<open>
  How the application starts: \<^verbatim>\<open>create_app\<close> builds the core defaults and the state the routes read, and the start of
  \<^verbatim>\<open>lifespan\<close> installs the key rotation, configures the tools and starts the two loops. The filesystem backends have
  neither \<^verbatim>\<open>initialize\<close> nor \<^verbatim>\<open>close\<close>. The state that results is the configuration the service runs in.
\<close>

text \<open>
  The nine defaults by what tells their instances apart; the identity provider, the access policy
  and the metrics provider have no state, and the alias resolver shares the key store.
\<close>

record backend_config =
  bk_root :: "str list"
  bk_key_store :: key_store
  bk_limits :: limits_config
  bk_public_base_url :: str
  bk_claims_base :: "str list"

definition filesystem_backend_init :: "int \<Rightarrow> str list \<Rightarrow> fs \<Rightarrow> exc + fs" where
  "filesystem_backend_init t root_path fs = mkdir_p t root_path fs"

definition build_core_defaults :: "str list \<Rightarrow> int \<Rightarrow> json option \<Rightarrow> app_config \<Rightarrow> fs \<Rightarrow> (exc + backend_config) \<times> fs" where
  "build_core_defaults cwd t keys_file cfg fs =
     (case load keys_file of
        Inl e \<Rightarrow> (Inl e, fs)
      | Inr key_store \<Rightarrow>
         (case filesystem_backend_init t (core_root cwd cfg) fs of
            Inl e \<Rightarrow> (Inl e, fs)
          | Inr fs' \<Rightarrow>
             (Inr \<lparr>bk_root = core_root cwd cfg, bk_key_store = key_store, bk_limits = cfg_limits cfg,
                   bk_public_base_url = cfg_public_base_url cfg, bk_claims_base = core_root cwd cfg @ [''.claims'']\<rparr>, fs')))"

record gc_task =
  gt_interval_s :: int
  gt_min_age_s :: int
  gt_claim_store :: "str list option"
  gt_download_claim_ttl_s :: int

text \<open>The globals of the tool server that \<^verbatim>\<open>configure\<close> sets.\<close>

record mcp_globals =
  mg_config :: app_config
  mg_backends :: backend_config
  mg_jwt_keys :: "jwt_slots option"

record app_state =
  ap_config :: app_config
  ap_backends :: backend_config
  ap_dev_mode :: bool
  ap_setup_token :: str
  ap_jwt_keys :: jwt_slots
  ap_sighup_handler :: bool
  ap_mcp :: "mcp_globals option"
  ap_gc_task :: "gc_task option"
  ap_cleanup_task :: bool

definition create_app :: "str list \<Rightarrow> int \<Rightarrow> json option \<Rightarrow> app_config \<Rightarrow> fs \<Rightarrow> (exc + app_state) \<times> fs" where
  "create_app cwd t keys_file cfg fs =
     (case build_core_defaults cwd t keys_file cfg fs of
        (Inl e, fs') \<Rightarrow> (Inl e, fs')
      | (Inr backends, fs') \<Rightarrow>
         (Inr \<lparr>ap_config = cfg, ap_backends = backends, ap_dev_mode = cfg_dev_mode cfg, ap_setup_token = cfg_setup_token cfg,
               ap_jwt_keys = core_jwt_slots cfg, ap_sighup_handler = False, ap_mcp = None, ap_gc_task = None,
               ap_cleanup_task = False\<rparr>, fs'))"

subsection \<open>Start and stop\<close>

datatype startup_event =
    ConfigLoaded
  | ConfigValidationWarning int
  | HotReloadDisabled str
  | DevModeEnabled
  | ClaimStorageBackend str

text \<open>
  \<open>workers\<close> are the values of the three variables that announce several workers, \<open>signals\<close> whether
  the loop can install a signal handler.
\<close>

definition init_jwt_hot_reload :: "str option list \<Rightarrow> bool \<Rightarrow> app_state \<Rightarrow> startup_event list \<times> app_state" where
  "init_jwt_hot_reload workers signals app =
     (let warning = (case validate_overlap_ttl (ap_config app) of None \<Rightarrow> [] | Some n \<Rightarrow> [ConfigValidationWarning n])
      in if \<not> is_single_worker workers then (warning @ [HotReloadDisabled ''multi_worker''], app)
         else if \<not> signals then (warning @ [HotReloadDisabled ''signal_handler_unavailable''], app)
         else (warning, app\<lparr>ap_sighup_handler := True\<rparr>))"

definition configure :: "app_config \<Rightarrow> backend_config \<Rightarrow> jwt_slots option \<Rightarrow> mcp_globals" where
  "configure cfg backends jwt_keys = \<lparr>mg_config = cfg, mg_backends = backends, mg_jwt_keys = jwt_keys\<rparr>"

text \<open>The keys the tools verify with: the primary and the secondary in force.\<close>

definition verify_keys :: "int \<Rightarrow> mcp_globals option \<Rightarrow> exc + bytes \<times> bytes option" where
  "verify_keys monotonic globals =
     (case globals of
        None \<Rightarrow> Inl AssertionError
      | Some g \<Rightarrow>
         (case mg_jwt_keys g of
            Some slots \<Rightarrow> Inr (js_primary slots, fst (resolve_secondary monotonic slots))
          | None \<Rightarrow> Inr (cfg_jwt_primary_key (mg_config g), cfg_jwt_secondary_key (mg_config g))))"

definition schedule_reaper :: "backend_config \<Rightarrow> gc_task" where
  "schedule_reaper backends =
     (let s = ttls (bk_limits backends)
      in \<lparr>gt_interval_s = ts_passive_gc_interval s, gt_min_age_s = ts_passive_gc_min_age s,
          gt_claim_store = Some (bk_claims_base backends), gt_download_claim_ttl_s = ts_download_claim_ttl s\<rparr>)"

definition lifespan_start :: "str option list \<Rightarrow> bool \<Rightarrow> app_state \<Rightarrow> startup_event list \<times> app_state" where
  "lifespan_start workers signals app =
     (let (reload_events, app1) = init_jwt_hot_reload workers signals app;
          events = [ConfigLoaded] @ reload_events @ (if ap_dev_mode app1 then [DevModeEnabled] else [])
            @ [ClaimStorageBackend ''filesystem'']
      in (events, app1\<lparr>ap_mcp := Some (configure (ap_config app1) (ap_backends app1) (Some (ap_jwt_keys app1))),
                       ap_cleanup_task := (cfg_default_ttl (ap_config app1) > 0),
                       ap_gc_task := Some (schedule_reaper (ap_backends app1))\<rparr>))"

definition lifespan_stop :: "app_state \<Rightarrow> app_state" where
  "lifespan_stop app = app\<lparr>ap_gc_task := None, ap_cleanup_task := False\<rparr>"

text \<open>
  A SIGHUP: the handler rotates the slots the application and the tools share; without a handler the
  signal ends the process, here \<open>None\<close>.
\<close>

definition sighup :: "int \<Rightarrow> str \<Rightarrow> key_file \<Rightarrow> app_state \<Rightarrow> app_state option" where
  "sighup monotonic file_path content app =
     (if \<not> ap_sighup_handler app then None
      else let slots = snd (handle_rotation (cfg_jwt_key_overlap_ttl (ap_config app)) monotonic file_path content (ap_jwt_keys app))
           in Some (app\<lparr>ap_jwt_keys := slots, ap_mcp := map_option (\<lambda>g. g\<lparr>mg_jwt_keys := Some slots\<rparr>) (ap_mcp app)\<rparr>))"

text \<open>What the tools read once \<open>configure\<close> was called: the backends the routes have.\<close>

definition core_mcp_env ::
  "str list \<Rightarrow> jwt_lib \<Rightarrow> (str \<Rightarrow> str) \<Rightarrow> (str \<Rightarrow> str option) \<Rightarrow> key_store \<Rightarrow> app_config \<Rightarrow> mcp_env" where
  "core_mcp_env cwd lib digest guess ks cfg =
     \<lparr>mc_routes = core_route_env cwd lib digest cfg, mc_guess = guess,
      mc_allowed_path_chars = Some (cfg_allowed_path_chars cfg), mc_alias = Some (default_alias_resolve ks),
      mc_broadcast = core_broadcast_env cwd guess ks cfg\<rparr>"

text \<open>The configuration of the running service.\<close>

definition service_of :: "str list \<Rightarrow> jwt_lib \<Rightarrow> (str \<Rightarrow> str) \<Rightarrow> (str \<Rightarrow> str option) \<Rightarrow> app_state \<Rightarrow> service_conf" where
  "service_of cwd lib digest guess app =
     (let gc = schedule_reaper (ap_backends app)
      in \<lparr>sc_mcp = core_mcp_env cwd lib digest guess (bk_key_store (ap_backends app)) (ap_config app),
          sc_check = noop_revocation_check, sc_dev = ap_dev_mode app, sc_min_age = gt_min_age_s gc,
          sc_claim_ttl = gt_download_claim_ttl_s gc, sc_default_ttl = cfg_default_ttl (ap_config app)\<rparr>)"

subsection \<open>Lemmas\<close>

text \<open>A volume on which nothing is stored below the storage path.\<close>

definition fresh_volume :: "str list \<Rightarrow> fs \<Rightarrow> bool" where
  "fresh_volume root fs \<longleftrightarrow> fs_wf fs \<and> fs_names fs \<and> (\<forall>q. strict_prefix root q \<longrightarrow> entry_at fs q = None)"

lemma create_app_state:
  assumes "create_app cwd t keys cfg fs = (Inr app, fs')"
  shows "ap_config app = cfg \<and> ap_backends app = \<lparr>bk_root = core_root cwd cfg, bk_key_store = bk_key_store (ap_backends app),
      bk_limits = cfg_limits cfg, bk_public_base_url = cfg_public_base_url cfg, bk_claims_base = core_root cwd cfg @ [''.claims'']\<rparr>
    \<and> mkdir_p t (core_root cwd cfg) fs = Inr fs'"
  using assms by (auto simp: create_app_def build_core_defaults_def filesystem_backend_init_def split: prod.splits sum.splits)

lemma started_entries:
  assumes v: "fresh_volume root fs" and c: "clean root" and m: "mkdir_p t root fs = Inr fs'"
  shows "fs_wf fs'" and "entry_at fs' q = (if prefix q root then Some D else entry_at fs q)"
    and "strict_prefix root q \<Longrightarrow> entry_at fs' q = None"
proof -
  from v have wf: "fs_wf fs" by (simp add: fresh_volume_def)
  note k = mkdir_p_clean [OF wf c m]
  show "fs_wf fs'" and e: "entry_at fs' q = (if prefix q root then Some D else entry_at fs q)" using k by auto
  show "strict_prefix root q \<Longrightarrow> entry_at fs' q = None"
    using e v by (auto simp: fresh_volume_def strict_prefix_def)
qed

lemma started_invar:
  assumes a: "create_app cwd t keys cfg fs = (Inr app, fs')" and v: "fresh_volume (core_root cwd cfg) fs"
    and c: "clean (core_root cwd cfg)" "list_all part_ok cwd" and d: "\<forall>q. CHR ''/'' \<notin> set (digest q)"
    and p: "inbox_key p"
  shows "service_invar (service_of cwd lib digest guess app) p fs' \<and> stored (service_of cwd lib digest guess app) p fs' = []"
proof -
  let ?r = "core_root cwd cfg" and ?b = "core_root cwd cfg @ [''.claims'']"
  note s = create_app_state [OF a]
  then have m: "mkdir_p t ?r fs = Inr fs'" by blast
  note e = started_entries [OF v c(1) m]
  have env: "rt_root (sc_env (service_of cwd lib digest guess app)) = ?r" "rt_claims_base (sc_env (service_of cwd lib digest guess app)) = ?b"
    "rt_digest (sc_env (service_of cwd lib digest guess app)) = digest" "bc_root (mc_broadcast (sc_mcp (service_of cwd lib digest guess app))) = ?r"
    using s by (simp_all add: service_of_def Let_def core_mcp_env_def core_route_env_def core_broadcast_env_def)
  have gp: "good_key p" using p by (simp add: inbox_key_def)
  have r: "list_all part_ok ?r" using c(2) by (simp add: core_root_def parts_ok_join)
  have si: "store_invar ?r fs'" using e(1) c(1) by (simp add: store_invar_def)
  have none: "entry_at fs' (?r @ x # y) = None" for x y by (rule e(3)) (simp add: strict_prefix_def)
  have ci: "claims_invar digest ?b fs'" using e(1) c(1) d none [of "''.claims''"] by (simp add: claims_invar_def clean_def)
  have "record_of ?b fs' j \<noteq> Some k" if "jti_ok j" for j k
    using record_of_iff [OF ci that, of k] none [of "''.claims''"] by auto
  then have ro: "records_ok ?b p fs'" by (auto simp: records_ok_def)
  have sh: "shown_apart ?r p fs'"
    using none [of "''data''"] by (auto simp: shown_apart_def shown_def reported_def has_file_def data_root_def)
  have "fs_names fs'" using mkdir_p_names [OF m _ r] v by (simp add: fresh_volume_def)
  moreover have "part_ok ''.claims''" by code_simp
  ultimately have core: "core_invar (service_of cwd lib digest guess app) p fs'"
    using si ci ro r core_separate [of cwd cfg] p sh by (simp add: core_invar_def env)
  have "meta_at ?r fs' p \<noteq> Some k" for k
    using meta_at_Some [OF si gp, of k] none [of "''data''"] by (auto simp: resolve_good [OF gp] data_root_def)
  then have "meta_at ?r fs' p = None" by (cases "meta_at ?r fs' p") auto
  then show ?thesis using core by (simp add: service_invar_def names_ok_def stored_def env)
qed

text \<open>The events of a start, and what it leaves.\<close>

lemma lifespan_started:
  assumes "lifespan_start workers signals app = (events, app')"
  shows "hd events = ConfigLoaded" and "(DevModeEnabled \<in> set events) = ap_dev_mode app"
    and "ap_sighup_handler app \<or> (ap_sighup_handler app' \<longleftrightarrow> is_single_worker workers \<and> signals)"
    and "verify_keys monotonic (ap_mcp app') = Inr (js_primary (ap_jwt_keys app), fst (resolve_secondary monotonic (ap_jwt_keys app)))"
    and "service_of cwd lib digest guess app' = service_of cwd lib digest guess app"
  using assms by (auto simp: lifespan_start_def init_jwt_hot_reload_def Let_def configure_def verify_keys_def service_of_def
      split: if_splits option.splits)

lemma sighup_shared:
  assumes "sighup monotonic file_path content app = Some app'" "ap_mcp app \<noteq> None"
  shows "\<exists>g. ap_mcp app' = Some g \<and> mg_jwt_keys g = Some (ap_jwt_keys app')"
  using assms by (auto simp: sighup_def Let_def split: if_splits)

end
