(* ===== verification/Pick_Race.thy ===== *)
theory Pick_Race
  imports Examples
begin

text \<open>
  Two workers that pick the same bundle. A pick that answers inline first reads the bundle and then
  deletes it, and ignores that it is already gone; between the two another worker process may read it too.
\<close>

definition pick_read :: "route_env \<Rightarrow> int \<Rightarrow> identity \<Rightarrow> str \<Rightarrow> str \<Rightarrow> fs \<Rightarrow> (read_response \<times> str) option" where
  "pick_read env t ident agent path fs =
     (case (enforce env ident (''inbox:'' @ agent) ''pick'', select_pick env t agent path fs) of
        (Inr u, Inr (bundle_path, m), fs1) \<Rightarrow>
         (let actual_path = (if path = ''latest'' then removeprefix (''inbox/'' @ agent @ ''/'') bundle_path else path) in
          case (evaluate_download (rt_limits env) (total_size (bm_files m)), collect_bundle_files (rt_root env) bundle_path (bm_files m) fs1) of
            (DownloadInline, Inr payloads) \<Rightarrow>
              Some (\<lparr>rr_body = InlineBody (build_inline_envelope m payloads), rr_sender = sender_header m,
                     rr_file_count = bm_file_count m, rr_path = Some actual_path\<rparr>, bundle_path)
          | _ \<Rightarrow> None)
      | _ \<Rightarrow> None)"

definition pick_delete :: "route_env \<Rightarrow> int \<Rightarrow> str \<Rightarrow> fs \<Rightarrow> fs" where
  "pick_delete env t bundle_path fs = snd (delete_bundle (rt_root env) t bundle_path fs)"

datatype picker = PickIdle | PickHolds read_response str | PickDone read_response

inductive pick_step :: "route_env \<Rightarrow> int \<Rightarrow> identity \<Rightarrow> str \<Rightarrow> str \<Rightarrow> fs \<times> picker list \<Rightarrow> fs \<times> picker list \<Rightarrow> bool"
  for env t ident agent path where
  Read: "i < length ps \<Longrightarrow> ps ! i = PickIdle \<Longrightarrow> pick_read env t ident agent path fs = Some (r, bp)
     \<Longrightarrow> pick_step env t ident agent path (fs, ps) (fs, ps[i := PickHolds r bp])"
| Delete: "i < length ps \<Longrightarrow> ps ! i = PickHolds r bp
     \<Longrightarrow> pick_step env t ident agent path (fs, ps) (pick_delete env t bp fs, ps[i := PickDone r])"

inductive_cases pick_stepE: "pick_step env t ident agent path (fs, ps) s'"

text \<open>The two halves, one after the other, are the route.\<close>

lemma pick_halves:
  assumes "pick_read env t ident agent path fs = Some (r, bp)" "path \<noteq> ''latest''"
    and "store_invar (rt_root env) fs" "good_key (inbox_path agent path)"
  shows "pick_inbox_file env uuid t ident agent path fs = (Inr r, pick_delete env t bp fs)"
proof -
  obtain u m fs1 where e: "enforce env ident (''inbox:'' @ agent) ''pick'' = Inr u"
    "select_pick env t agent path fs = (Inr (bp, m), fs1)" "evaluate_download (rt_limits env) (total_size (bm_files m)) = DownloadInline"
    using assms(1) by (auto simp: pick_read_def Let_def split: prod.splits sum.splits download_mode.splits)
  obtain ps where ps: "collect_bundle_files (rt_root env) bp (bm_files m) fs1 = Inr ps"
    using assms(1) e by (auto simp: pick_read_def Let_def split: sum.splits)
  have m: "bp = inbox_path agent path" "fs1 = fs" "meta_at (rt_root env) fs bp = Some m"
    using e(2) assms(2) by (auto simp: select_pick_def live_meta_def meta_at_def split: sum.splits prod.splits bool.splits)
  obtain fs' where d: "delete_bundle (rt_root env) t bp fs = (Inr (), fs')" using delete_present [OF assms(3), of bp m t] m assms(4) by auto
  from assms(1,2) e ps m d show ?thesis by (simp add: pick_inbox_file_def pick_read_def pick_delete_def Let_def)
qed

text \<open>Both may read before either deletes: both answer with the bundle.\<close>

lemma two_pickers_deliver:
  assumes "pick_read env t ident agent path fs = Some (r, bp)"
  shows "(pick_step env t ident agent path)\<^sup>*\<^sup>* (fs, [PickIdle, PickIdle])
    (pick_delete env t bp (pick_delete env t bp fs), [PickDone r, PickDone r])"
proof -
  let ?s = "pick_step env t ident agent path"
  have "?s (fs, [PickIdle, PickIdle]) (fs, [PickHolds r bp, PickIdle])" using Read [of 0 "[PickIdle, PickIdle]" env] assms by simp
  moreover have "?s (fs, [PickHolds r bp, PickIdle]) (fs, [PickHolds r bp, PickHolds r bp])"
    using Read [of 1 "[PickHolds r bp, PickIdle]" env] assms by simp
  moreover have "?s (fs, [PickHolds r bp, PickHolds r bp]) (pick_delete env t bp fs, [PickDone r, PickHolds r bp])"
    using Delete [of 0 "[PickHolds r bp, PickHolds r bp]" r bp env] by simp
  moreover have "?s (pick_delete env t bp fs, [PickDone r, PickHolds r bp]) (pick_delete env t bp (pick_delete env t bp fs), [PickDone r, PickDone r])"
    using Delete [of 1 "[PickDone r, PickHolds r bp]" r bp env] by simp
  ultimately show ?thesis by (meson rtranclp.rtrancl_into_rtrancl rtranclp.rtrancl_refl)
qed

subsection \<open>Any number of workers\<close>

lemma pick_read_meta:
  assumes "pick_read env t ident agent path fs = Some (r, bp)" "path \<noteq> ''latest''"
  shows "bp = inbox_path agent path" and "meta_at (rt_root env) fs bp \<noteq> None"
  using assms by (auto simp: pick_read_def select_pick_def live_meta_def meta_at_def Let_def
      split: prod.splits sum.splits bool.splits download_mode.splits)

definition race_invar :: "route_env \<Rightarrow> str \<Rightarrow> fs \<Rightarrow> read_response \<Rightarrow> fs \<times> picker list \<Rightarrow> bool" where
  "race_invar env bp fs0 r s \<longleftrightarrow> store_invar (rt_root env) (fst s)
     \<and> (\<forall>x \<in> set (snd s). x = PickIdle \<or> x = PickHolds r bp \<or> x = PickDone r)
     \<and> (fst s = fs0 \<or> meta_at (rt_root env) (fst s) bp = None)
     \<and> ((\<exists>r'. PickDone r' \<in> set (snd s)) \<longrightarrow> meta_at (rt_root env) (fst s) bp = None)"

lemma pick_delete_gone:
  assumes i: "store_invar (rt_root env) fs" and g: "good_key bp"
  shows "store_invar (rt_root env) (pick_delete env t bp fs)" and "meta_at (rt_root env) (pick_delete env t bp fs) bp = None"
proof -
  let ?f = "pick_delete env t bp fs"
  show si: "store_invar (rt_root env) ?f" unfolding pick_delete_def by (rule delete_invar [OF i g])
  show "meta_at (rt_root env) ?f bp = None"
  proof (cases "meta_at (rt_root env) fs bp")
    case (Some m)
    then show ?thesis using delete_committed [OF i g Some, of t] by (simp add: pick_delete_def)
  next
    case None
    have "meta_at (rt_root env) ?f bp \<noteq> Some m" for m
    proof (cases "delete_bundle (rt_root env) t bp fs")
      case (Pair d fs')
      show ?thesis
      proof (cases d)
        case (Inl e)
        with Pair have "fs' = fs" by (auto simp: delete_bundle_def Let_def lift_fs_def split: if_splits sum.splits)
        with Pair None show ?thesis by (simp add: pick_delete_def)
      next
        case (Inr u)
        with Pair delete_bundle_Inr(3) [of fs "rt_root env" bp t u fs'] i g meta_at_Some [OF si g, of m] show ?thesis
          by (auto simp: pick_delete_def store_invar_def)
      qed
    qed
    then show ?thesis by (cases "meta_at (rt_root env) ?f bp") auto
  qed
qed

lemma pick_step_invar:
  assumes r: "pick_read env t ident agent path fs0 = Some (r, bp)" and p: "path \<noteq> ''latest''" and g: "good_key bp"
    and s: "pick_step env t ident agent path s s'" and i: "race_invar env bp fs0 r s"
  shows "race_invar env bp fs0 r s'"
  using s
proof cases
  case (Read k ps fs r' bp')
  have bp: "bp' = bp" using pick_read_meta(1) [OF r p] pick_read_meta(1) [OF Read(5) p] by simp
  have "fs = fs0" using i Read(1) pick_read_meta(2) [OF Read(5) p] by (auto simp: race_invar_def bp)
  then have "r' = r" using Read(5) r by simp
  with i Read(1-4) bp show ?thesis by (auto simp: race_invar_def dest!: set_update_subset_insert [THEN subsetD])
next
  case (Delete k ps r' bp' fs)
  have "PickHolds r' bp' \<in> set ps" using Delete(3,4) nth_mem by metis
  then have e: "r' = r" "bp' = bp" using i Delete(1) by (auto simp: race_invar_def)
  have "store_invar (rt_root env) fs" using i Delete(1) by (simp add: race_invar_def)
  from pick_delete_gone [OF this g, of t] i Delete(1,2) e show ?thesis
    by (auto simp: race_invar_def dest!: set_update_subset_insert [THEN subsetD])
qed


lemma ex_pick_read:
  "pick_read (ex_env (Some 100)) 5000000 (KeyIdentity ''h:p'') ''h:p'' ''x'' ex_fs1
     = Some (\<lparr>rr_body = InlineBody (build_inline_envelope ex_meta ex_files), rr_sender = sender_header ex_meta,
              rr_file_count = bm_file_count ex_meta, rr_path = Some ''x''\<rparr>, ex_path)"
proof -
  have "collect_bundle_files ex_root ex_path (bm_files ex_meta) ex_fs1 = Inr ex_files"
    using collect_bundle_files_ok [of "bm_files ex_meta" ex_root ex_fs1 ex_path ex_content] ex_contents
    by (simp add: ex_created ex_manifest_def ex_files_def ex_content_def)
  moreover have "live_meta (ex_env (Some 100)) 5000000 ex_path ''x'' ex_fs1 = (Inr ex_meta, ex_fs1)"
    using ex_view(2) ex_fresh by (intro live_meta_fresh) (simp_all add: ex_env_simps ex_created)
  ultimately show ?thesis
    by (simp add: pick_read_def enforce_def select_pick_def ex_env_simps ex_inbox_path ex_created(3) ex_limits_facts)
qed


end
