(* ===== verification/Stamp_Order.thy ===== *)
theory Stamp_Order
  imports Timestamps
begin

text \<open>
  The order of time stamps as texts. The routes that choose the newest bundle compare the stored stamps as
  texts; for stamps \<^verbatim>\<open>isoformat\<close> prints this is the order of time, also between one with a fraction
  and one without.
\<close>

subsection \<open>Texts\<close>

lemma less_append_same_length: "length a = length b \<Longrightarrow> a < b \<Longrightarrow> a @ x < b @ y" for a b :: "'a :: order list"
  by (induction a b rule: list_induct2) auto

lemma append_less_append [simp]: "a @ x < a @ y \<longleftrightarrow> x < y" for a :: "'a :: order list"
  by (induction a) auto

lemma digit_char_less: "m < n \<Longrightarrow> n < 10 \<Longrightarrow> digit_char m < digit_char n"
  by (simp add: digit_char_def less_char_def)

lemma pad_nat_less: "m < n \<Longrightarrow> n < 10 ^ w \<Longrightarrow> pad_nat w m < pad_nat w n"
proof (induction w arbitrary: m n)
  case 0
  then show ?case by simp
next
  case (Suc w)
  have n: "n div 10 < 10 ^ w" using Suc.prems(2) by (simp add: less_mult_imp_div_less mult.commute)
  consider "m div 10 < n div 10" | "m div 10 = n div 10" "m mod 10 < n mod 10"
    using Suc.prems(1) by (metis div_le_mono div_mult_mod_eq le_neq_implies_less less_imp_le nat_add_left_cancel_less)
  then show ?case
  proof cases
    case 1
    with Suc.IH [OF _ n] show ?thesis by (simp add: less_append_same_length)
  next
    case 2
    then show ?thesis by (simp add: digit_char_less)
  qed
qed

subsection \<open>The calendar is monotone\<close>

lemma days_before_year_Suc:
  assumes "1 \<le> y"
  shows "days_before_year (Suc y) = days_before_year y + (if is_leap y then 366 else 365)"
proof -
  obtain p where p: "y = Suc p" using assms by (cases y) auto
  define a b c where abc: "a = (if y mod 4 = 0 then 1 else 0 :: nat)" "b = (if y mod 100 = 0 then 1 else 0 :: nat)"
    "c = (if y mod 400 = 0 then 1 else 0 :: nat)"
  have d: "y div 4 = p div 4 + a" "y div 100 = p div 100 + b" "y div 400 = p div 400 + c"
    unfolding p abc div_Suc by simp_all
  have "(if is_leap y then 366 else 365) + b = 365 + a + c"
  proof -
    have "400 dvd y \<Longrightarrow> 100 dvd y" "100 dvd y \<Longrightarrow> 4 dvd y"
      using dvd_trans [of 100 400 y] dvd_trans [of 4 100 y] by simp_all
    then have "y mod 400 = 0 \<Longrightarrow> y mod 100 = 0" "y mod 100 = 0 \<Longrightarrow> y mod 4 = 0" by (simp_all add: dvd_eq_mod_eq_0)
    then show ?thesis by (simp add: is_leap_def abc)
  qed
  moreover have "Suc k * 365 + (q + a) - (r + b) + (s + c) = k * 365 + q - r + s + n"
    if "n + b = 365 + a + c" "r \<le> q" "r + b \<le> q + a" for n k q r s :: nat
    using that by simp
  moreover have "p div 100 \<le> p div 4" "y div 100 \<le> y div 4" by (simp_all add: div_le_mono2)
  ultimately have "y * 365 + y div 4 - y div 100 + y div 400
      = p * 365 + p div 4 - p div 100 + p div 400 + (if is_leap y then 366 else 365)"
    unfolding d by (metis p)
  then show ?thesis unfolding days_before_year_def Let_def by (simp only: p diff_Suc_1)
qed

lemma days_before_year_less:
  assumes "1 \<le> y" "y < z"
  shows "days_before_year y + (if is_leap y then 366 else 365) \<le> days_before_year z"
  using assms(2)
proof (induction z)
  case (Suc z)
  then show ?case
    using days_before_year_Suc [of z] days_before_year_Suc [of y] assms(1) by (cases "y = z") auto
qed simp

lemma month_cases:
  "1 \<le> m \<Longrightarrow> m \<le> 12 \<Longrightarrow> m = 1 \<or> m = 2 \<or> m = 3 \<or> m = 4 \<or> m = 5 \<or> m = 6 \<or> m = 7 \<or> m = 8 \<or> m = 9 \<or> m = 10 \<or> m = 11 \<or> m = (12 :: nat)"
  by presburger

lemma days_before_month_Suc:
  "1 \<le> m \<Longrightarrow> m < 12 \<Longrightarrow> days_before_month y (Suc m) = days_before_month y m + days_in_month y m"
  using month_cases [of m] by (auto simp: days_before_month_def days_in_month_def)

lemma days_before_month_less:
  assumes "1 \<le> m" "m < n" "n \<le> 12"
  shows "days_before_month y m + days_in_month y m \<le> days_before_month y n"
  using assms(2,3)
proof (induction n)
  case (Suc n)
  then show ?case
    using days_before_month_Suc [of n y] days_before_month_Suc [of m y] assms(1) by (cases "m = n") auto
qed simp

lemma days_in_year:
  assumes "1 \<le> m" "m \<le> 12" "d \<le> days_in_month y m"
  shows "days_before_month y m + d \<le> (if is_leap y then 366 else 365)"
  using assms days_before_month_less [of m 12 y] by (cases "m = 12") (auto simp: days_before_month_def days_in_month_def)

text \<open>The fields of a reading, in the order of their weight.\<close>

definition dt_fields :: "datetime \<Rightarrow> nat list" where
  "dt_fields d = [dt_year d, dt_month d, dt_day d, dt_hour d, dt_minute d, dt_second d, dt_micro d]"

lemma toordinal_less:
  assumes "valid_datetime d" "valid_datetime e" "[dt_year d, dt_month d, dt_day d] < [dt_year e, dt_month e, dt_day e]"
  shows "toordinal d < toordinal e"
proof -
  have v: "1 \<le> dt_year d" "1 \<le> dt_month d" "dt_month d \<le> 12" "dt_day d \<le> days_in_month (dt_year d) (dt_month d)"
    "dt_month e \<le> 12" "1 \<le> dt_day e" using assms(1,2) by (auto simp: valid_datetime_def)
  consider "dt_year d < dt_year e" | "dt_year d = dt_year e" "dt_month d < dt_month e"
    | "dt_year d = dt_year e" "dt_month d = dt_month e" "dt_day d < dt_day e"
    using assms(3) by auto
  then show ?thesis
  proof cases
    case 1
    show ?thesis using days_before_year_less [OF v(1) 1] days_in_year [OF v(2-4)] v(6) by (simp add: toordinal_def)
  next
    case 2
    show ?thesis using days_before_month_less [OF v(2) 2(2) v(5), of "dt_year d"] v 2(1) by (simp add: toordinal_def)
  qed (simp add: toordinal_def)
qed

definition day_seconds :: "datetime \<Rightarrow> int" where
  "day_seconds d = int (dt_hour d) * 3600 + int (dt_minute d) * 60 + int (dt_second d)"

lemma timestamp_split: "timestamp d = ((int (toordinal d) - 719163) * 86400 + day_seconds d) * 1000000 + int (dt_micro d)"
  by (simp add: timestamp_def day_seconds_def)

lemma day_seconds_bounds: "valid_datetime d \<Longrightarrow> 0 \<le> day_seconds d \<and> day_seconds d + 1 \<le> 86400"
  by (auto simp: valid_datetime_def day_seconds_def)

lemma day_seconds_less:
  assumes "valid_datetime d" "[dt_hour d, dt_minute d, dt_second d] < [dt_hour e, dt_minute e, dt_second e]"
  shows "day_seconds d + 1 \<le> day_seconds e"
  using assms by (auto simp: valid_datetime_def day_seconds_def)

lemma timestamp_less:
  assumes v: "valid_datetime d" "valid_datetime e" and l: "dt_fields d < dt_fields e"
  shows "timestamp d < timestamp e"
proof -
  note b = day_seconds_bounds [OF v(1)] day_seconds_bounds [OF v(2)]
  have m: "int (dt_micro d) + 1 \<le> 1000000" using v(1) by (simp add: valid_datetime_def)
  consider "[dt_year d, dt_month d, dt_day d] < [dt_year e, dt_month e, dt_day e]"
    | "toordinal d = toordinal e" "[dt_hour d, dt_minute d, dt_second d] < [dt_hour e, dt_minute e, dt_second e]"
    | "toordinal d = toordinal e" "day_seconds d = day_seconds e" "dt_micro d < dt_micro e"
    using l by (auto simp: dt_fields_def toordinal_def day_seconds_def)
  then show ?thesis
  proof cases
    case 1
    from toordinal_less [OF v 1] have "int (toordinal d) + 1 \<le> int (toordinal e)" by simp
    with b m show ?thesis unfolding timestamp_split by (simp add: algebra_simps)
  next
    case 2
    from day_seconds_less [OF v(1) 2(2)] 2(1) m show ?thesis unfolding timestamp_split by (simp add: algebra_simps)
  next
    case 3
    then show ?thesis unfolding timestamp_split by simp
  qed
qed

lemma isoformat_less:
  assumes v: "valid_datetime d" "valid_datetime e" and l: "dt_fields d < dt_fields e"
  shows "isoformat d < isoformat e"
proof -
  note w = valid_datetime_widths [OF v(2)]
  note p = less_append_same_length [OF _ pad_nat_less]
  consider "dt_year d < dt_year e" | "dt_year d = dt_year e" "dt_month d < dt_month e"
    | "dt_year d = dt_year e" "dt_month d = dt_month e" "dt_day d < dt_day e"
    | "take 3 (dt_fields d) = take 3 (dt_fields e)" "dt_hour d < dt_hour e"
    | "take 4 (dt_fields d) = take 4 (dt_fields e)" "dt_minute d < dt_minute e"
    | "take 5 (dt_fields d) = take 5 (dt_fields e)" "dt_second d < dt_second e"
    | "take 6 (dt_fields d) = take 6 (dt_fields e)" "dt_micro d < dt_micro e"
    using l by (auto simp: dt_fields_def)
  then show ?thesis
  proof cases
    case 7
    have "CHR ''+'' < CHR ''.''" by (simp add: less_char_def)
    with 7 w(7) p show ?thesis by (auto simp: isoformat_def dt_fields_def)
  qed (use w p in \<open>auto simp: isoformat_def dt_fields_def\<close>)
qed

lemma isoformat_less_iff:
  assumes v: "valid_datetime d" "valid_datetime e"
  shows "isoformat d < isoformat e \<longleftrightarrow> timestamp d < timestamp e"
proof (cases "dt_fields d" "dt_fields e" rule: linorder_cases)
  case less
  with isoformat_less [OF v less] timestamp_less [OF v less] show ?thesis by simp
next
  case equal
  then have "d = e" by (simp add: dt_fields_def)
  then show ?thesis by simp
next
  case greater
  with isoformat_less [OF v(2,1) greater] timestamp_less [OF v(2,1) greater] show ?thesis by auto
qed

text \<open>Stamps of clock readings compare as the readings do.\<close>

lemma stamp_less_iff:
  assumes "0 \<le> s" "s < epoch_end" "0 \<le> t" "t < epoch_end"
  shows "isoformat (utcfromtimestamp s) < isoformat (utcfromtimestamp t) \<longleftrightarrow> s < t"
  using isoformat_less_iff [of "utcfromtimestamp s" "utcfromtimestamp t"] utcfromtimestamp_ok [OF assms(1,2)] utcfromtimestamp_ok [OF assms(3,4)]
  by simp

lemma stamp_le_iff:
  assumes "0 \<le> s" "s < epoch_end" "0 \<le> t" "t < epoch_end"
  shows "isoformat (utcfromtimestamp s) \<le> isoformat (utcfromtimestamp t) \<longleftrightarrow> s \<le> t"
  using stamp_less_iff [OF assms(3,4,1,2)] by (simp add: linorder_not_less [symmetric])

lemma isoformat_not_empty [simp]: "isoformat d \<noteq> []" "[] \<noteq> isoformat d"
  by (simp_all add: isoformat_def)

end
