(* ===== verification/Latest.thy ===== *)
theory Latest
  imports Stamp_Order Service_Properties
begin

text \<open>
  The pick of \<^verbatim>\<open>latest\<close>: the scan of an inbox for its newest bundle, and what the pick then delivers.
\<close>

subsection \<open>The scan\<close>

text \<open>A bundle the scan considers: its manifest is readable and it has not expired.\<close>

definition live_bundle :: "route_env \<Rightarrow> int \<Rightarrow> fs \<Rightarrow> str \<Rightarrow> bundle_meta \<Rightarrow> bool" where
  "live_bundle env t fs p m =
     (read_bundle_meta (rt_root env) p fs = Inr m \<and> is_expired_by_meta t (bm_created_at m) (rt_default_ttl env) = Inr False)"

text \<open>No manifest stops the scan: it is absent, or it has a stamp that can be read.\<close>

definition scannable :: "route_env \<Rightarrow> int \<Rightarrow> fs \<Rightarrow> str \<Rightarrow> bool" where
  "scannable env t fs p =
     (case read_bundle_meta (rt_root env) p fs of
        Inl e \<Rightarrow> e = FileNotFoundError
      | Inr m \<Rightarrow> \<exists>b. is_expired_by_meta t (bm_created_at m) (rt_default_ttl env) = Inr b)"

definition newest_of :: "route_env \<Rightarrow> int \<Rightarrow> fs \<Rightarrow> bundle_ref list \<Rightarrow> str \<Rightarrow> bundle_meta \<Rightarrow> bool" where
  "newest_of env t fs refs p m =
     (p \<in> br_path ` set refs \<and> live_bundle env t fs p m
      \<and> (\<forall>ref \<in> set refs. \<forall>m'. live_bundle env t fs (br_path ref) m' \<longrightarrow> bm_created_at m' \<le> bm_created_at m))"

lemma newest_bundle_scan:
  assumes "\<forall>ref \<in> set refs. scannable env t fs (br_path ref)"
  shows "(newest_bundle env t refs bound best fs = Inr best
      \<and> (\<forall>ref \<in> set refs. \<forall>m. live_bundle env t fs (br_path ref) m \<longrightarrow> bm_created_at m \<le> bound))
    \<or> (\<exists>p m. newest_bundle env t refs bound best fs = Inr (Some (p, m)) \<and> newest_of env t fs refs p m \<and> bound < bm_created_at m)"
  using assms
proof (induction refs arbitrary: bound best)
  case Nil
  show ?case by simp
next
  case (Cons ref refs)
  note ih = Cons.IH [rule_format]
  have rest: "scannable env t fs (br_path r)" if "r \<in> set refs" for r using Cons.prems that by simp
  show ?case
  proof (cases "\<exists>m. live_bundle env t fs (br_path ref) m")
    case False
    then have "newest_bundle env t (ref # refs) bound best fs = newest_bundle env t refs bound best fs"
      using Cons.prems by (auto simp: scannable_def live_bundle_def split: sum.splits)
    with False ih [of bound best] rest show ?thesis by (auto simp: newest_of_def)
  next
    case True
    then obtain m where m: "live_bundle env t fs (br_path ref) m" by blast
    then have u: "live_bundle env t fs (br_path ref) m' \<longleftrightarrow> m' = m" for m' by (auto simp: live_bundle_def)
    show ?thesis
    proof (cases "bound < bm_created_at m")
      case True
      then have "newest_bundle env t (ref # refs) bound best fs
          = newest_bundle env t refs (bm_created_at m) (Some (br_path ref, m)) fs"
        using m by (simp add: live_bundle_def)
      with ih [of "bm_created_at m" "Some (br_path ref, m)"] rest u True show ?thesis
        by (auto simp: newest_of_def)
    next
      case False
      then have "newest_bundle env t (ref # refs) bound best fs = newest_bundle env t refs bound best fs"
        using m by (simp add: live_bundle_def)
      with ih [of bound best] rest u False show ?thesis by (auto simp: newest_of_def)
    qed
  qed
qed

lemma newest_bundle_found:
  assumes "\<forall>ref \<in> set refs. scannable env t fs (br_path ref)"
    and "ref \<in> set refs" "live_bundle env t fs (br_path ref) m" "bm_created_at m \<noteq> []"
  shows "\<exists>p m. newest_bundle env t refs [] None fs = Inr (Some (p, m)) \<and> newest_of env t fs refs p m"
proof -
  have "\<not> bm_created_at m \<le> []" using assms(4) by simp
  with newest_bundle_scan [OF assms(1), of "[]" None] assms(2,3) show ?thesis by blast
qed

subsection \<open>The bundles of an inbox\<close>

text \<open>No listed bundle lies inside another.\<close>

lemma listed_unrelated:
  assumes i: "gc_invar root fs" and pre: "good_key pre" and r: "r \<in> set (list_bundles root pre inc fs)"
    and q: "q \<in> set (list_bundles root pre inc fs)" and n: "br_path q \<noteq> br_path r"
  shows "unrelated (br_path r) (br_path q)"
proof -
  obtain x s where r': "br_path r = as_posix (path_parts pre @ x # s)" "good_key (br_path r)"
    "resolve root (br_path r) = resolve root pre @ x # s" "reported inc fs (resolve root pre @ [x]) s"
    using listed_ref [OF _ _ _ pre r] gc_invarD [OF i] by metis
  obtain y u where q': "br_path q = as_posix (path_parts pre @ y # u)" "good_key (br_path q)"
    "resolve root (br_path q) = resolve root pre @ y # u" "reported inc fs (resolve root pre @ [y]) u"
    using listed_ref [OF _ _ _ pre q] gc_invarD [OF i] by metis
  have pp: "path_parts (br_path r) = path_parts pre @ x # s" "path_parts (br_path q) = path_parts pre @ y # u"
    using r'(3) q'(3) by (simp_all add: resolve_good [OF r'(2)] resolve_good [OF q'(2)] resolve_good [OF pre])
  have ne: "x # s \<noteq> y # u" using n r'(1) q'(1) by auto
  have "\<not> strict_prefix s u" "\<not> strict_prefix u s" if "x = y" using r'(4) q'(4) that by (auto simp: reported_def)
  with ne show ?thesis by (auto simp: unrelated_def pp strict_prefix_def)
qed

subsection \<open>The pick\<close>

definition stamped :: "route_env \<Rightarrow> fs \<Rightarrow> str \<Rightarrow> bool" where
  "stamped env fs p =
     (case read_bundle_meta (rt_root env) p fs of
        Inl e \<Rightarrow> e = FileNotFoundError
      | Inr m \<Rightarrow> \<exists>c. 0 \<le> c \<and> c < epoch_end \<and> bm_created_at m = isoformat (utcfromtimestamp c))"

lemma stamped_scannable: "stamped env fs p \<Longrightarrow> scannable env t fs p"
  by (auto simp: stamped_def scannable_def is_expired_by_meta_def iso_to_epoch_isoformat utcfromtimestamp_ok split: sum.splits)

lemma stamped_order:
  assumes "stamped env fs p" "read_bundle_meta (rt_root env) p fs = Inr m"
    and "stamped env fs q" "read_bundle_meta (rt_root env) q fs = Inr k" "bm_created_at k \<le> bm_created_at m"
  shows "\<exists>c d. iso_to_epoch (bm_created_at m) = Some c \<and> iso_to_epoch (bm_created_at k) = Some d \<and> d \<le> c"
  using assms by (auto simp: stamped_def iso_to_epoch_isoformat utcfromtimestamp_ok stamp_le_iff)

lemma pick_latest_deletes:
  assumes i: "store_invar (rt_root env) fs" and a: "rt_access env ident (''inbox:'' @ agent) ''pick''"
    and n: "newest_bundle env t (inbox_refs env agent fs) [] None fs = Inr (Some (p, m))"
    and m: "meta_at (rt_root env) fs p = Some m" "good_key p"
    and e: "evaluate_download (rt_limits env) (total_size (bm_files m)) = DownloadInline"
    and f: "\<forall>f \<in> set (bm_files m). file_at (rt_root env) fs p (mf_name f) = Some (content (mf_name f))"
  shows "pick_inbox_file env uuid t ident agent ''latest'' fs =
      (Inr \<lparr>rr_body = InlineBody (build_inline_envelope m (map (\<lambda>f. (mf_name f, content (mf_name f))) (bm_files m))),
            rr_sender = sender_header m, rr_file_count = bm_file_count m,
            rr_path = Some (removeprefix (inbox_prefix agent) p)\<rparr>, snd (delete_bundle (rt_root env) t p fs))"
  using a n e collect_bundle_files_ok [OF f] delete_committed [OF i m(2,1), of t]
  by (cases "delete_bundle (rt_root env) t p fs") (simp add: pick_inbox_file_def enforce_def select_pick_def)

text \<open>
  C10. Picking \<^verbatim>\<open>latest\<close> delivers the newest bundle. When a live bundle waits in an inbox whose manifests have
  stamps the program prints, and bundles are small enough to be answered inline, the pick answers with the contents of a
  listed live bundle that no other live one is newer than, by the clock, under the path its recipient uses; that bundle
  is consumed and every other listed one is as it was.
\<close>

theorem pick_latest_newest:
  assumes i: "gc_invar (rt_root env) fs" and n: "name_ok agent" and a: "rt_access env ident (''inbox:'' @ agent) ''pick''"
    and st: "\<forall>ref \<in> set (inbox_refs env agent fs). stamped env fs (br_path ref)"
    and w: "w \<in> set (inbox_refs env agent fs)" "live_bundle env t fs (br_path w) mw"
    and small: "\<forall>ref \<in> set (inbox_refs env agent fs). \<forall>m. live_bundle env t fs (br_path ref) m \<longrightarrow>
      evaluate_download (rt_limits env) (total_size (bm_files m)) = DownloadInline
      \<and> (\<forall>f \<in> set (bm_files m). file_at (rt_root env) fs (br_path ref) (mf_name f) = Some (content (br_path ref) (mf_name f)))"
  shows "\<exists>ref \<in> set (inbox_refs env agent fs). \<exists>m r fs' path.
    live_bundle env t fs (br_path ref) m
    \<and> (\<forall>ref' \<in> set (inbox_refs env agent fs). \<forall>m'. live_bundle env t fs (br_path ref') m' \<longrightarrow>
         (\<exists>c d. iso_to_epoch (bm_created_at m) = Some c \<and> iso_to_epoch (bm_created_at m') = Some d \<and> d \<le> c))
    \<and> pick_inbox_file env uuid t ident agent ''latest'' fs = (Inr r, fs')
    \<and> rr_body r = InlineBody (build_inline_envelope m (map (\<lambda>f. (mf_name f, content (br_path ref) (mf_name f))) (bm_files m)))
    \<and> rr_path r = Some path \<and> inbox_path agent path = br_path ref
    \<and> meta_at (rt_root env) fs' (br_path ref) = None
    \<and> (\<forall>ref' \<in> set (inbox_refs env agent fs). br_path ref' \<noteq> br_path ref \<longrightarrow>
         meta_at (rt_root env) fs' (br_path ref') = meta_at (rt_root env) fs (br_path ref'))"
proof -
  let ?refs = "inbox_refs env agent fs"
  have s: "store_invar (rt_root env) fs" using gc_invarD [OF i] by blast
  have "stamped env fs (br_path w)" using st w(1) by blast
  then have "bm_created_at mw \<noteq> []" using w(2) by (auto simp: stamped_def live_bundle_def)
  then obtain p m where p: "newest_bundle env t ?refs [] None fs = Inr (Some (p, m))" "newest_of env t fs ?refs p m"
    using newest_bundle_found [OF _ w] st stamped_scannable by blast
  then obtain ref where ref: "ref \<in> set ?refs" "p = br_path ref" "live_bundle env t fs p m" by (auto simp: newest_of_def)
  note g = listed_path [OF i n ref(1)]
  have m: "meta_at (rt_root env) fs p = Some m" using ref(3) by (simp add: live_bundle_def meta_at_def)
  have d: "meta_at (rt_root env) (snd (delete_bundle (rt_root env) t p fs)) p = None"
    using delete_committed [OF s _ m] g(2) ref(2) by simp
  have k: "meta_at (rt_root env) (snd (delete_bundle (rt_root env) t p fs)) (br_path q) = meta_at (rt_root env) fs (br_path q)"
    if "q \<in> set ?refs" "br_path q \<noteq> br_path ref" for q
    using delete_unrelated [OF s g(2) listed_path(2) [OF i n that(1)] listed_path(2) [OF i n that(1)]
        listed_unrelated [OF i inbox_prefix_parts(2) [OF n] ref(1) that]] ref(2) by simp
  have o: "\<exists>c d. iso_to_epoch (bm_created_at m) = Some c \<and> iso_to_epoch (bm_created_at m') = Some d \<and> d \<le> c"
    if "q \<in> set ?refs" "live_bundle env t fs (br_path q) m'" for q m'
    using stamped_order [of env fs p m "br_path q" m'] st ref that p(2) by (auto simp: newest_of_def live_bundle_def)
  note pk = pick_latest_deletes [where content = "content p", OF s a p(1) m]
  show ?thesis
    by (rule bexI [OF _ ref(1)], intro exI conjI, rule ref(3) [unfolded ref(2)]) (use pk small ref g d k o in auto)
qed

text \<open>The inbox of the example holds one bundle.\<close>

lemma ex_prefix: "name_ok ''h:p''" "resolve ex_root (inbox_prefix ''h:p'') = [''srv'', ''data'', ''inbox'', ''h:p'']"
  "path_parts (inbox_prefix ''h:p'') = [''inbox'', ''h:p'']" "as_posix [''inbox'', ''h:p'', ''x''] = ex_path"
  by code_simp+

lemma ex_meta_file: "has_meta ex_fs1 (resolve ex_root ex_path)"
  using ex_view(2) meta_at_Some [OF ex_view(1) ex_ok(2)] by (auto simp: has_meta_def)

lemma ex_listed: "ref \<in> set (list_bundles ex_root (inbox_prefix ''h:p'') False ex_fs1) \<Longrightarrow> br_path ref = ex_path"
proof -
  assume "ref \<in> set (list_bundles ex_root (inbox_prefix ''h:p'') False ex_fs1)"
  then obtain x s where r: "reported False ex_fs1 ([''srv'', ''data'', ''inbox'', ''h:p''] @ [x]) s"
    "ref = ref_of ex_fs1 ([''srv'', ''data'', ''inbox'', ''h:p''] @ x # s) ([''inbox'', ''h:p''] @ x # s)"
    using list_bundles_iff [OF _ _ inbox_prefix_parts(2) [OF ex_prefix(1)], of ex_fs1 ex_root ref False] ex_view(1)
    unfolding ex_prefix(2,3) by (auto simp: store_invar_def)
  define q where "q = [''srv'', ''data'', ''inbox'', ''h:p''] @ x # s @ [BUNDLE_MANIFEST]"
  have "\<exists>b. entry_at ex_fs1 q = Some (F b)" "q \<noteq> []" using r(1) by (simp_all add: reported_def has_meta_def q_def)
  then have "prefix (resolve ex_root ex_path) q"
    using ex_outside [of q] ex_empty [of q] by (cases "prefix (resolve ex_root ex_path) q") (auto split: if_splits)
  then have x: "x = ''x''" by (simp add: ex_dir q_def)
  have "s = []"
  proof (rule ccontr)
    assume "s \<noteq> []"
    then have "strict_prefix [] s" by (simp add: strict_prefix_def)
    then have "\<not> has_file ex_fs1 (resolve ex_root ex_path)" using r(1) x by (fastforce simp: reported_def ex_dir)
    with has_meta_file [OF ex_meta_file] show False by simp
  qed
  with r(2) x ex_prefix(4) show "br_path ref = ex_path" by (simp add: ref_of_def)
qed

lemma ex_listed_in: "\<exists>ref \<in> set (list_bundles ex_root (inbox_prefix ''h:p'') False ex_fs1). br_path ref = ex_path"
proof -
  have i: "fs_wf ex_fs1" "clean ex_root" using ex_view(1) by (auto simp: store_invar_def)
  let ?d = "[''srv'', ''data'', ''inbox'', ''h:p'']"
  have m: "has_meta ex_fs1 (?d @ [''x''])" using ex_meta_file by (simp add: ex_dir)
  then have "entry_at ex_fs1 ?d = Some D" "entry_at ex_fs1 (?d @ [''x'']) = Some D"
    using fs_wf_prefix [OF i(1), of ?d "[''x''] @ [BUNDLE_MANIFEST]"] fs_wf_prefix [OF i(1), of "?d @ [''x'']" "[BUNDLE_MANIFEST]"]
    by (auto simp: has_meta_def)
  moreover have "reported False ex_fs1 (?d @ [''x'']) []" using m has_meta_file [OF m] by (simp add: reported_def)
  ultimately have "ref_of ex_fs1 (?d @ [''x'']) ([''inbox'', ''h:p''] @ [''x'']) \<in> set (list_bundles ex_root (inbox_prefix ''h:p'') False ex_fs1)"
    unfolding list_bundles_iff [OF i inbox_prefix_parts(2) [OF ex_prefix(1)]] ex_prefix(2,3) by blast
  with ex_listed show ?thesis by blast
qed

theorem pick_latest_newest_witness:
  "\<exists>r fs'. pick_inbox_file (ex_env (Some 100)) ''u'' 5000000 (KeyIdentity ''h:p'') ''h:p'' ''latest'' ex_fs1 = (Inr r, fs')
    \<and> rr_path r = Some ''x'' \<and> rr_body r = InlineBody (build_inline_envelope ex_meta [(''f'', ''hi''), (''d/g'', ''you'')])
    \<and> meta_at ex_root fs' ex_path = None"
proof -
  let ?env = "ex_env (Some 100)"
  have rm: "read_bundle_meta ex_root ex_path ex_fs1 = Inr ex_meta" using ex_view(2) by (simp add: meta_at_def split: sum.splits)
  have live: "live_bundle ?env 5000000 ex_fs1 ex_path m \<longleftrightarrow> m = ex_meta" for m
    using rm ex_fresh by (auto simp: live_bundle_def ex_env_simps ex_created)
  have st: "stamped ?env ex_fs1 ex_path"
    unfolding stamped_def ex_env_simps rm by (simp add: ex_created) (rule exI [of _ 0], simp add: epoch_end_def)
  have x: "path = ''x''" if "inbox_path ''h:p'' path = ex_path" for path
    using that by (simp add: inbox_path_def ex_path_def)
  obtain w where w: "w \<in> set (list_bundles ex_root (inbox_prefix ''h:p'') False ex_fs1)" "br_path w = ex_path" using ex_listed_in by blast
  have c: "map (\<lambda>f. (mf_name f, ex_content (mf_name f))) (bm_files ex_meta) = [(''f'', ''hi''), (''d/g'', ''you'')]"
    by (simp add: ex_created ex_manifest_def ex_content_def ex_files_def)
  obtain ref m r fs' path where p: "ref \<in> set (list_bundles ex_root (inbox_prefix ''h:p'') False ex_fs1)"
    "live_bundle ?env 5000000 ex_fs1 (br_path ref) m"
    "pick_inbox_file ?env ''u'' 5000000 (KeyIdentity ''h:p'') ''h:p'' ''latest'' ex_fs1 = (Inr r, fs')"
    "rr_body r = InlineBody (build_inline_envelope m (map (\<lambda>f. (mf_name f, ex_content (mf_name f))) (bm_files m)))"
    "rr_path r = Some path" "inbox_path ''h:p'' path = br_path ref" "meta_at ex_root fs' (br_path ref) = None"
    using pick_latest_newest [where env = ?env and fs = ex_fs1 and agent = "''h:p''" and t = 5000000 and ident = "KeyIdentity ''h:p''"
        and uuid = "''u''" and w = w and mw = ex_meta and content = "\<lambda>p. ex_content", unfolded ex_env_simps, OF _ ex_prefix(1) _ _ w(1)]
      ex_listed st live ex_contents w ex_limits_facts(1) ex_view(1) ex_fs1_names by (auto simp: gc_invar_def ex_created(3))
  have "br_path ref = ex_path" using ex_listed p(1) by blast
  with p(2,6,7) live x have "m = ex_meta" "path = ''x''" "meta_at ex_root fs' ex_path = None" by auto
  with p(3-5) c show ?thesis by auto
qed

end
