(* ===== verification/Auditing.thy ===== *)
theory Auditing
  imports Observability Mcp Examples
begin

text \<open>
  The events and counters of the handlers: the denials of the access policy, the broadcast, the rejections of the rate
  limiter and the upload, with the handlers they belong to. Each takes the logger and the metrics provider, with their
  state, and returns the state beside the answer. An exception of a call that is not protected becomes the answer.
\<close>

subsection \<open>Emissions\<close>

definition counter :: "str \<Rightarrow> int \<Rightarrow> tags option \<Rightarrow> metric_call" where
  "counter name v tags = \<lparr>mc_name = name, mc_value = v, mc_tags = tags, mc_gauge = False\<rparr>"

definition count_metric :: "'s metrics_provider option \<Rightarrow> metric_call \<Rightarrow> 's step" where
  "count_metric metrics m = safe_emit None None None None [] metrics (Some m)"

text \<open>The extra fields of an identity; an empty dictionary is passed as \<^verbatim>\<open>None\<close>.\<close>

definition identity_extra :: "identity \<Rightarrow> json" where
  "identity_extra ident =
     (case ident of
        DevIdentity \<Rightarrow> JObj [(''dev'', JBool True)]
      | OperatorIdentity \<Rightarrow> JObj [(''operator'', JBool True)]
      | KeyIdentity l \<Rightarrow> JNull)"

subsection \<open>Denials of the policy\<close>

text \<open>The kind of a policy is an attribute it need not have.\<close>

definition policy_kind_fields :: "str option \<Rightarrow> str \<times> str" where
  "policy_kind_fields attr =
     (let kind = (case attr of None \<Rightarrow> ''core'' | Some k \<Rightarrow> k);
          field = (if kind \<in> {''core'', ''cloud''} then kind else ''core'')
      in (field, if field = ''cloud'' then ''team'' else ''core''))"

definition policy_denied ::
  "str option \<Rightarrow> 's logger \<Rightarrow> 's metrics_provider option \<Rightarrow> str option \<Rightarrow> identity \<Rightarrow> str \<Rightarrow> str \<Rightarrow> 's step" where
  "policy_denied rid lg metrics kind ident resource action =
     (let (field_kind, tag_kind) = policy_kind_fields kind in
      safe_emit rid (Some lg) (Some INFO_LEVEL) (Some ''policy.denied'')
        [(''identity_label'', JStr (id_label ident)), (''identity_extra'', identity_extra ident), (''resource'', JStr resource),
         (''action'', JStr action), (''result'', JStr ''denied''), (''detail'', JObj [(''policy_kind'', JStr field_kind)])]
        metrics
        (Some (counter ''cassetta.policy.decisions'' 1 (Some [(''result'', ''denied''), (''policy_kind'', tag_kind)]))))"

definition enforce_audited ::
  "str option \<Rightarrow> 's logger \<Rightarrow> 's metrics_provider option \<Rightarrow> str option \<Rightarrow> route_env \<Rightarrow> identity \<Rightarrow> str \<Rightarrow> str \<Rightarrow> 's
   \<Rightarrow> (http_error + unit) \<times> 's" where
  "enforce_audited rid lg metrics kind env ident resource action s =
     (if \<not> rt_access env ident resource action
      then (case policy_denied rid lg metrics kind ident resource action s of
              (Some e, s') \<Rightarrow> (Inl (HttpRaised e), s')
            | (None, s') \<Rightarrow> (Inl (HttpError 403 ''Forbidden''), s'))
      else (Inr (), s))"

definition mcp_enforce_audited ::
  "str option \<Rightarrow> 's logger \<Rightarrow> 's metrics_provider option \<Rightarrow> str option \<Rightarrow> mcp_env \<Rightarrow> mcp_ctx \<Rightarrow> str \<Rightarrow> str \<Rightarrow> 's
   \<Rightarrow> (exc + unit) \<times> 's" where
  "mcp_enforce_audited rid lg metrics kind env ctx resource action s =
     (let ident = (case mx_identity ctx of None \<Rightarrow> DevIdentity | Some i \<Rightarrow> i) in
      if \<not> rt_access (mc_routes env) ident resource action
      then (case policy_denied rid lg metrics kind ident resource action s of
              (Some e, s') \<Rightarrow> (Inl e, s')
            | (None, s') \<Rightarrow> (Inl (ValueError ''Forbidden''), s'))
      else (Inr (), s))"

subsection \<open>Rejections of the limiter and broadcasts\<close>

definition route_name :: "rate_limit_route \<Rightarrow> str" where
  "route_name r = (case r of Onboard \<Rightarrow> ''onboard'' | Broadcast \<Rightarrow> ''broadcast'')"

definition record_rate_limit_hit :: "'s metrics_provider \<Rightarrow> rate_limit_route \<Rightarrow> str \<Rightarrow> 's step" where
  "record_rate_limit_hit metrics route reason =
     count_metric (Some metrics) (counter ''cassetta.rate_limit.hits'' 1 (Some [(''route'', route_name route), (''reason'', reason)]))"

definition tag_name :: "broadcast_tag \<Rightarrow> str" where
  "tag_name t = (case t of TagError \<Rightarrow> ''error'' | TagNoop \<Rightarrow> ''noop'' | TagPartial \<Rightarrow> ''partial'' | TagSuccess \<Rightarrow> ''success'')"

definition broadcast_sent ::
  "str option \<Rightarrow> 's logger \<Rightarrow> 's metrics_provider \<Rightarrow> identity \<Rightarrow> str \<Rightarrow> broadcast_response \<Rightarrow> 's step" where
  "broadcast_sent rid lg metrics ident path r =
     (let result = tag_name (br_tag r) in
      safe_emit rid (Some lg) (Some INFO_LEVEL) (Some ''broadcast.sent'')
        [(''identity_label'', JStr (id_label ident)), (''result'', JStr result),
         (''detail'', JObj [(''path'', JStr path),
            (''sender'', case sender_from_identity ident of None \<Rightarrow> JNull | Some l \<Rightarrow> JStr l),
            (''delivered'', JInt (int (length (br_delivered_to r)))), (''denied'', JInt (int (length (br_denied r)))),
            (''failed'', JInt (int (length (br_failed r))))])]
        (Some metrics)
        (Some (counter ''cassetta.broadcast.operations'' 1 (Some [(''result'', result)]))))"

subsection \<open>The upload\<close>

text \<open>The bytes of the members that were written.\<close>

definition bytes_total :: "limits_config \<Rightarrow> manifest_file list \<Rightarrow> tar_event list \<Rightarrow> int" where
  "bytes_total cfg files archive = sum_list (map (\<lambda>(n, b). int (length b)) (members cfg files archive))"

definition upload_operation :: "str \<Rightarrow> metric_call" where
  "upload_operation result = counter ''cassetta.upload.operations'' 1 (Some [(''result'', result)])"

definition bundle_detail :: "str \<Rightarrow> (str \<times> json) list \<Rightarrow> (str \<times> json) list" where
  "bundle_detail bundle_id rest = [(''detail'', JObj ((''bundle_id'', JStr bundle_id) # rest))]"

definition upload_started :: "str option \<Rightarrow> 's logger \<Rightarrow> str \<Rightarrow> str \<Rightarrow> 's step" where
  "upload_started rid lg bundle_id content_encoding =
     struct_log rid lg INFO_LEVEL ''upload_stream_start''
       (bundle_detail bundle_id [(''mode'', JStr ''batch''),
          (''content_encoding'', if content_encoding = [] then JNull else JStr content_encoding)])"

definition upload_rollback :: "str option \<Rightarrow> 's logger \<Rightarrow> str \<Rightarrow> str \<Rightarrow> 's step" where
  "upload_rollback rid lg bundle_id reason =
     struct_log rid lg WARNING_LEVEL ''upload_rollback'' (bundle_detail bundle_id [(''reason'', JStr reason)])"

fun stream_failed :: "str option \<Rightarrow> 's logger \<Rightarrow> 's metrics_provider \<Rightarrow> str \<Rightarrow> stream_error \<Rightarrow> 's step" where
  "stream_failed rid lg mp bundle_id (ManifestViolation reason name) =
     and_then
       (struct_log rid lg WARNING_LEVEL ''upload_manifest_violation''
          (bundle_detail bundle_id [(''violation'', JStr reason), (''name'', JStr name)]))
       (and_then (upload_rollback rid lg bundle_id reason)
         (and_then (count_metric (Some mp) (upload_operation ''rejected''))
           (count_metric (Some mp) (counter ''cassetta.upload.manifest_violations'' 1 (Some [(''reason'', reason)])))))"
| "stream_failed rid lg mp bundle_id (TarParseError msg) =
     and_then (upload_rollback rid lg bundle_id ''tar_parse_error'') (count_metric (Some mp) (upload_operation ''error''))"
| "stream_failed rid lg mp bundle_id (StreamLimits r) =
     and_then (upload_rollback rid lg bundle_id ''limits_rejection'') (count_metric (Some mp) (upload_operation ''error''))"
| "stream_failed rid lg mp bundle_id (StreamRaised e) =
     and_then (upload_rollback rid lg bundle_id ''exception'') (count_metric (Some mp) (upload_operation ''error''))"

definition upload_complete :: "str option \<Rightarrow> 's logger \<Rightarrow> 's metrics_provider \<Rightarrow> str \<Rightarrow> int \<Rightarrow> 's step" where
  "upload_complete rid lg mp bundle_id n =
     and_then
       (struct_log rid lg INFO_LEVEL ''upload_stream_complete'' (bundle_detail bundle_id [(''bytes_transferred'', JInt n)]))
       (and_then (count_metric (Some mp) (upload_operation ''ok'')) (count_metric (Some mp) (counter ''cassetta.upload.bytes'' n None)))"

text \<open>An answer that follows a step: what the step raises takes its place.\<close>

definition answer_after :: "'s step \<Rightarrow> upload_error + 'a \<Rightarrow> 's \<Rightarrow> (upload_error + 'a) \<times> 's" where
  "answer_after step r s = (case step s of (Some e, s') \<Rightarrow> (Inl (UploadRaised e), s') | (None, s') \<Rightarrow> (r, s'))"

definition receive_audited ::
  "str option \<Rightarrow> 's logger \<Rightarrow> 's metrics_provider \<Rightarrow> str list \<Rightarrow> int \<Rightarrow> limits_config \<Rightarrow> str \<Rightarrow> bundle_meta \<Rightarrow> tar_event list
   \<Rightarrow> fs \<Rightarrow> 's \<Rightarrow> ((upload_error + unit) \<times> 's) \<times> fs" where
  "receive_audited rid lg mp root t cfg path m archive fs s =
     (let bundle_id = bm_bundle_id m in
      case open_bundle_write root t path fs of
        (Inl e, fs1) \<Rightarrow> ((Inl (map_open_error e), s), fs1)
      | (Inr w, fs1) \<Rightarrow>
         (case stream_tar_into_writer t cfg (bm_files m) archive w fs1 of
            (Inl e, fs2) \<Rightarrow> (answer_after (stream_failed rid lg mp bundle_id e) (Inl (map_stream_error e)) s, abort t w fs2)
          | (Inr w2, fs2) \<Rightarrow>
             (case commit t m w2 fs2 of
                (Inl e, fs3) \<Rightarrow>
                  (answer_after (and_then (upload_rollback rid lg bundle_id ''commit_failed'') (count_metric (Some mp) (upload_operation ''error'')))
                     (Inl (UploadRaised e)) s, abort t w2 fs3)
              | (Inr w3, fs3) \<Rightarrow>
                  (answer_after (upload_complete rid lg mp bundle_id (bytes_total cfg (bm_files m) archive)) (Inr ()) s, fs3))))"

definition upload_audited ::
  "str option \<Rightarrow> 's logger \<Rightarrow> 's metrics_provider \<Rightarrow> jwt_decode \<Rightarrow> (str \<Rightarrow> token_error option) \<Rightarrow> str list \<Rightarrow> int \<Rightarrow> int
   \<Rightarrow> limits_config \<Rightarrow> jwt_slots \<Rightarrow> str \<Rightarrow> str \<Rightarrow> str \<Rightarrow> tar_event list \<Rightarrow> fs \<Rightarrow> 's \<Rightarrow> ((upload_error + str) \<times> 's) \<times> fs" where
  "upload_audited rid lg mp decode revocation_check root t monotonic cfg slots authorization bundle_path content_encoding archive fs s =
     (case authorize_upload decode revocation_check (epoch t) monotonic slots authorization bundle_path of
        Inl e \<Rightarrow> ((Inl e, s), fs)
      | Inr (path, bundle_id, sender, manifest_files) \<Rightarrow>
         (case upload_started rid lg bundle_id content_encoding s of
            (Some e, s1) \<Rightarrow> ((Inl (UploadRaised e), s1), fs)
          | (None, s1) \<Rightarrow>
             (case receive_audited rid lg mp root t cfg path (upload_meta t bundle_id sender manifest_files) archive fs s1 of
                ((Inl e, s2), fs') \<Rightarrow> ((Inl e, s2), fs')
              | ((Inr u, s2), fs') \<Rightarrow> ((Inr bundle_id, s2), fs'))))"

subsection \<open>Auditing changes no answer\<close>

text \<open>A logger that does not raise, as the handlers of \<^verbatim>\<open>logging\<close> do not.\<close>

definition quiet_logger :: "'s logger \<Rightarrow> bool" where
  "quiet_logger lg = (\<forall>level msg extra s. fst (lo_log lg level msg extra s) = None)"

lemma count_metric_quiet [simp]: "fst (count_metric metrics m s) = None"
  by (simp add: count_metric_def safe_emit_quiet)

lemma policy_denied_quiet [simp]: "fst (policy_denied rid lg metrics kind ident resource action s) = None"
  by (simp add: policy_denied_def Let_def safe_emit_quiet split: prod.split)

lemma enforce_audited_answer: "fst (enforce_audited rid lg metrics kind env ident resource action s) = enforce env ident resource action"
  using policy_denied_quiet [of rid lg metrics kind ident resource action s]
  by (auto simp: enforce_audited_def enforce_def simp del: policy_denied_quiet split: prod.split option.split)

lemma mcp_enforce_audited_answer: "fst (mcp_enforce_audited rid lg metrics kind env ctx resource action s) = mcp_enforce env ctx resource action"
  using policy_denied_quiet [of rid lg metrics kind "or_dev (mx_identity ctx)" resource action s]
  by (auto simp: mcp_enforce_audited_def mcp_enforce_def or_dev_def Let_def simp del: policy_denied_quiet split: prod.splits option.splits)

lemma and_then_both_quiet: "fst (a s) = None \<Longrightarrow> (\<And>s. fst (b s) = None) \<Longrightarrow> fst (and_then a b s) = None"
  by (simp add: and_then_quiet)

lemma struct_log_quiet: "quiet_logger lg \<Longrightarrow> fst (struct_log rid lg level event kw s) = None"
  by (simp add: struct_log_def quiet_logger_def)

lemma upload_steps_quiet:
  assumes "quiet_logger lg"
  shows "fst (upload_started rid lg bundle_id enc s) = None" "fst (upload_rollback rid lg bundle_id reason s) = None"
    "fst (stream_failed rid lg mp bundle_id e s) = None" "fst (upload_complete rid lg mp bundle_id n s) = None"
  using assms
  by (auto simp: upload_started_def upload_rollback_def upload_complete_def struct_log_quiet intro!: and_then_both_quiet)
    (cases e; auto simp: upload_rollback_def struct_log_quiet intro!: and_then_both_quiet)

lemma answer_after_quiet: "fst (step s) = None \<Longrightarrow> answer_after step r s = (r, snd (step s))"
  by (cases "step s") (simp add: answer_after_def)

text \<open>With a logger that does not raise the audited routes answer as the plain ones, whatever the metrics provider does.\<close>

lemma receive_audited_answer:
  assumes "quiet_logger lg"
  shows "receive_audited rid lg mp root t cfg path m archive fs s = ((r, s'), fs') \<Longrightarrow> receive_bundle root t cfg path m archive fs = (r, fs')"
  by (auto simp: receive_audited_def receive_bundle_def Let_def answer_after_quiet upload_steps_quiet [OF assms] and_then_both_quiet
      split: prod.splits sum.splits)

lemma upload_audited_answer:
  assumes "quiet_logger lg"
    and "upload_audited rid lg mp decode chk root t mono_t cfg slots auth param enc archive fs s = ((r, s'), fs')"
  shows "upload_bundle decode chk root t mono_t cfg slots auth param archive fs = (r, fs')"
proof -
  show ?thesis
  proof (cases "authorize_upload decode chk (epoch t) mono_t slots auth param")
    case (Inl e)
    then show ?thesis using assms(2) by (simp add: upload_audited_def upload_bundle_def)
  next
    case (Inr x)
    obtain path bid sender files where x: "x = (path, bid, sender, files)" by (cases x)
    let ?m = "upload_meta t bid sender files"
    obtain q where st: "upload_started rid lg bid enc s = (None, q)"
      using upload_steps_quiet(1) [OF assms(1), of rid bid enc s] by (cases "upload_started rid lg bid enc s") simp
    obtain r1 s1 fs1 where ra: "receive_audited rid lg mp root t cfg path ?m archive fs q = ((r1, s1), fs1)" by (metis prod.exhaust)
    from receive_audited_answer [OF assms(1) ra] ra assms(2) Inr x st show ?thesis
      by (auto simp: upload_audited_def upload_bundle_def split: sum.splits)
  qed
qed

subsection \<open>What is counted\<close>

text \<open>A provider that keeps what it is told.\<close>

definition recording :: "metric_call list metrics_provider" where
  "recording =
     \<lparr>mp_increment = (\<lambda>name v tags s. (None, s @ [counter name v tags])),
      mp_observe = (\<lambda>name v tags s. (None, s)),
      mp_gauge = (\<lambda>name v tags s. (None, s @ [\<lparr>mc_name = name, mc_value = v, mc_tags = tags, mc_gauge = True\<rparr>]))\<rparr>"

definition idle_logger :: "'s logger \<Rightarrow> bool" where
  "idle_logger lg = (\<forall>level msg extra s. lo_log lg level msg extra s = (None, s))"

lemma idle_quiet: "idle_logger lg \<Longrightarrow> quiet_logger lg"
  by (simp add: idle_logger_def quiet_logger_def)

lemma count_metric_recording [simp]: "\<not> mc_gauge m \<Longrightarrow> count_metric (Some recording) m s = (None, s @ [m])"
  by (simp add: count_metric_def safe_emit_quiet emit_metric_def recording_def try_except_def counter_def)

lemma struct_log_idle: "idle_logger lg \<Longrightarrow> struct_log rid lg level event kw s = (None, s)"
  by (simp add: struct_log_def idle_logger_def)

lemma counted_not_gauge [simp]: "\<not> mc_gauge (upload_operation result)" "\<not> mc_gauge (counter name v tags)"
  by (simp_all add: upload_operation_def counter_def)

lemma upload_steps_recorded:
  assumes "idle_logger lg"
  shows "upload_started rid lg bid enc s = (None, s)" "upload_rollback rid lg bid reason s = (None, s)"
    "upload_complete rid lg recording bid n s = (None, s @ [upload_operation ''ok'', counter ''cassetta.upload.bytes'' n None])"
  using assms by (simp_all add: upload_started_def upload_rollback_def upload_complete_def struct_log_idle and_then_def)

lemma stream_failed_recorded:
  assumes "idle_logger lg"
  shows "stream_failed rid lg recording bid e s = (None, s @ (case e of
      ManifestViolation reason name \<Rightarrow>
        [upload_operation ''rejected'', counter ''cassetta.upload.manifest_violations'' 1 (Some [(''reason'', reason)])]
    | _ \<Rightarrow> [upload_operation ''error'']))"
  using assms by (cases e) (simp_all add: upload_steps_recorded struct_log_idle and_then_def)

text \<open>Every denial is counted, and nothing else.\<close>

lemma denials_counted:
  assumes "idle_logger lg"
  shows "enforce_audited rid lg (Some recording) kind env ident resource action s
    = (enforce env ident resource action,
       s @ (if rt_access env ident resource action then []
            else [counter ''cassetta.policy.decisions'' 1 (Some [(''result'', ''denied''), (''policy_kind'', snd (policy_kind_fields kind))])]))"
  using assms by (simp add: enforce_audited_def enforce_def policy_denied_def safe_emit_quiet emit_log_def emit_metric_def try_except_def
      struct_log_idle recording_def counter_def split: prod.split)

text \<open>The members of an archive without a repeated name, when none is missing, have the declared total.\<close>

lemma sum_by_name: "distinct (map f xs) \<Longrightarrow> (\<forall>x \<in> set xs. g x = h (f x)) \<Longrightarrow> sum_list (map g xs) = sum h (f ` set xs)" for h :: "'b \<Rightarrow> int"
  by (induction xs) auto

lemma bytes_total_declared:
  assumes "distinct (map mf_name files)" "distinct (map fst (members cfg files archive))"
    and "mf_name ` set files \<subseteq> fst ` set (members cfg files archive)"
  shows "bytes_total cfg files archive = total_size files"
proof -
  define h where "h n = the (map_of (map (\<lambda>f. (mf_name f, mf_size f)) files) n)" for n
  have h: "h (mf_name f) = mf_size f" if "f \<in> set files" for f
  proof -
    have "(mf_name f, mf_size f) \<in> set (map (\<lambda>f. (mf_name f, mf_size f)) files)" using that by auto
    with assms(1) show ?thesis unfolding h_def by (subst map_of_is_SomeI) (auto simp: comp_def)
  qed
  have m: "int (length b) = h n \<and> n \<in> mf_name ` set files" if "(n, b) \<in> set (members cfg files archive)" for n b
    using members_declared [OF that] h by force
  have "bytes_total cfg files archive = sum h (fst ` set (members cfg files archive))"
    unfolding bytes_total_def using m by (intro sum_by_name [OF assms(2)]) auto
  moreover have "fst ` set (members cfg files archive) = mf_name ` set files" using assms(3) m by force
  moreover have "total_size files = sum h (mf_name ` set files)"
    unfolding total_size_def using h by (intro sum_by_name [OF assms(1)]) auto
  ultimately show ?thesis by simp
qed


definition ex_logger :: "'s logger" where
  "ex_logger = \<lparr>lo_log = (\<lambda>level msg extra s. (None, s)), lo_exception = (\<lambda>msg s. (None, s))\<rparr>"


end
