(* ===== verification/Policies.thy ===== *)
theory Policies
  imports Server
begin

text \<open>
  The pluggable policies: what \<^verbatim>\<open>protocols/limits.py\<close> and \<^verbatim>\<open>protocols/access.py\<close> promise to the routes, as contracts,
  with what the routes have from them, and the core defaults as their instances.
\<close>

subsection \<open>The limits policy\<close>

text \<open>
  A decision is what the advertised limits say: a manifest is accepted when it exceeds none of the caps, and carried
  inline when its total stays within the inline size; the same size decides a download.
\<close>

definition within_caps :: "limits_advertisement \<Rightarrow> upload_manifest \<Rightarrow> bool" where
  "within_caps l m =
     (\<not> exceeds (la_per_bundle_file_count_max l) (um_file_count m)
      \<and> list_all (\<lambda>f. \<not> exceeds (la_per_file_max l) (mf_size f)) (um_files m)
      \<and> \<not> exceeds (la_per_bundle_total_max l) (total_size (um_files m)))"

lemma total_size_nonneg: "\<forall>f \<in> set files. 0 \<le> mf_size f \<Longrightarrow> 0 \<le> total_size files"
  by (induction files) (auto simp: total_size_def)

lemma total_size_subseq: "subseq part files \<Longrightarrow> \<forall>f \<in> set files. 0 \<le> mf_size f \<Longrightarrow> total_size part \<le> total_size files"
proof (induction rule: list_emb.induct)
  case (list_emb_Nil files)
  then show ?case using total_size_nonneg [of files] by (simp add: total_size_def)
qed (auto simp: total_size_def)

locale limits_policy =
  fixes evaluate :: "upload_manifest \<Rightarrow> upload_decision"
    and download :: "int \<Rightarrow> download_mode"
    and advert :: limits_advertisement
  assumes accepts: "evaluate m = Accept mode \<longleftrightarrow>
      within_caps advert m \<and> mode = (if exceeds (la_max_inline_size advert) (total_size (um_files m)) then BatchMode else InlineMode)"
    and downloads: "download n = (if exceeds (la_max_inline_size advert) n then DownloadReference else DownloadInline)"
begin

lemma decides: "(\<exists>mode. evaluate m = Accept mode) \<longleftrightarrow> within_caps advert m"
  using accepts by blast

text \<open>What was sent inline is picked inline, and the other way round.\<close>

lemma same_way: "evaluate m = Accept mode \<Longrightarrow> download (total_size (um_files m)) = DownloadInline \<longleftrightarrow> mode = InlineMode"
  by (simp add: accepts downloads)

text \<open>A part of an accepted bundle is accepted.\<close>

lemma accepts_part:
  assumes "evaluate m = Accept mode" "subseq part (um_files m)" "n \<le> um_file_count m" "\<forall>f \<in> set (um_files m). 0 \<le> mf_size f"
  shows "\<exists>mode'. evaluate \<lparr>um_file_count = n, um_files = part\<rparr> = Accept mode' \<and> (mode = InlineMode \<longrightarrow> mode' = InlineMode)"
proof -
  have t: "total_size part \<le> total_size (um_files m)" by (rule total_size_subseq [OF assms(2,4)])
  have s: "set part \<subseteq> set (um_files m)" using assms(2) by (simp add: subseq_facts)
  have e: "exceeds cap a \<Longrightarrow> a \<le> b \<Longrightarrow> exceeds cap b" for cap a b by (cases cap) auto
  have w: "within_caps advert m" "mode = (if exceeds (la_max_inline_size advert) (total_size (um_files m)) then BatchMode else InlineMode)"
    using assms(1) by (simp_all add: accepts)
  have "within_caps advert \<lparr>um_file_count = n, um_files = part\<rparr>"
    using w(1) s t assms(3) e by (auto simp: within_caps_def list_all_iff)
  then show ?thesis unfolding accepts using w(2) t e by auto
qed

end

interpretation core_limits: limits_policy "evaluate_upload cfg" "evaluate_download cfg" "advertise_limits cfg" for cfg
proof
  show "evaluate_upload cfg m = Accept mode \<longleftrightarrow> within_caps (advertise_limits cfg) m
      \<and> mode = (if exceeds (la_max_inline_size (advertise_limits cfg)) (total_size (um_files m)) then BatchMode else InlineMode)" for m mode
    by (auto simp: evaluate_upload_def check_manifest_Accept within_caps_def list_all_iff)
  show "evaluate_download cfg n = (if exceeds (la_max_inline_size (advertise_limits cfg)) n then DownloadReference else DownloadInline)" for n
    by (simp add: evaluate_download_def advertise_limits_def split: option.split)
qed

subsection \<open>The access policy\<close>

text \<open>The visible agents are some of the given labels, in their order.\<close>

lemma filter_subseq_distinct: "subseq ls ms \<Longrightarrow> distinct ms \<Longrightarrow> filter (\<lambda>l. l \<in> set ls) ms = ls"
proof (induction rule: list_emb.induct)
  case (list_emb_Cons ls ms l)
  then have "l \<notin> set ls" using subseq_facts [of ls ms] by auto
  with list_emb_Cons show ?case by simp
next
  case (list_emb_Cons2 x y ls ms)
  then have "filter (\<lambda>l. l \<in> set (x # ls)) ms = filter (\<lambda>l. l \<in> set ls) ms" by (intro filter_cong) auto
  with list_emb_Cons2 show ?case by simp
qed simp

locale visibility_policy =
  fixes policy :: access_policy
  assumes visible: "ap_visible_agents policy ident labels = Inr ls \<Longrightarrow> subseq ls labels"
begin

lemma visible_or_none_subseq: "subseq (visible_or_none policy ident labels) labels"
  by (simp add: visible_or_none_def visible split: sum.split)

text \<open>Discovery lists what the policy shows, in the order it shows it.\<close>

lemma agents_are_visible:
  assumes "list_agents policy ks ident = Inr entries" "list_keys ks = Inr keys" "distinct (map ki_label (filter ki_is_active keys))"
  shows "map ag_label entries = visible_or_none policy ident (map ki_label (filter ki_is_active keys))"
proof -
  let ?ls = "map ki_label (filter ki_is_active keys)"
  have "map ag_label entries = filter (\<lambda>l. l \<in> set (visible_or_none policy ident ?ls)) ?ls"
    using assms(1,2) by (auto simp: list_agents_def Let_def comp_def filter_map)
  with filter_subseq_distinct [OF visible_or_none_subseq assms(3)] show ?thesis by simp
qed

text \<open>A broadcast reaches some of its candidates, each at most once, and every one it reaches is accounted for.\<close>

lemma fan_out_reaches:
  assumes "bc_policy env = policy" "fan_out env write new_id t ks ident sender path fs = (Inr r, fs')" "list_keys ks = Inr keys"
  shows "\<exists>rs. subseq (map fst rs) (candidate_labels sender keys) \<and> int (length rs) \<le> bc_max_targets env
    \<and> br_delivered_to r = delivered_of rs \<and> br_denied r = denied_of rs \<and> br_failed r = failed_of rs"
proof -
  let ?c = "candidate_labels sender keys"
  let ?v = "visible_or_none policy ident ?c"
  let ?rs = "fst (deliver_all env write new_id t path sender ident ?v 0 fs)"
  have cap: "int (length ?c) \<le> bc_max_targets env" and r: "br_delivered_to r = delivered_of ?rs" "br_denied r = denied_of ?rs" "br_failed r = failed_of ?rs"
    using assms by (auto simp: fan_out_def check_fanout_cap_def Let_def visible_or_none_def split: if_splits prod.splits)
  have m: "map fst ?rs = ?v" by (rule deliver_all_labels)
  have s: "subseq ?v ?c" by (rule visible_or_none_subseq)
  have "length ?rs \<le> length ?c" using m list_emb_length [OF s] by (metis length_map)
  with cap r m s show ?thesis by (metis of_nat_le_iff order_trans)
qed

end

interpretation default_visibility: visibility_policy default_access_policy
  by unfold_locales (simp add: default_access_policy_def)

lemma outcomes_partition: "length (delivered_of rs) + length (denied_of rs) + length (failed_of rs) = length rs"
  by (induction rs) (auto simp: delivered_of_def denied_of_def failed_of_def List.map_filter_def split: outcome.splits)

lemma delivered_of_subseq: "subseq (delivered_of rs) (map fst rs)"
  by (induction rs) (auto simp: delivered_of_def)

text \<open>
  Under an access policy that shows some of the labels it is asked about a broadcast that answers has tried at most the configured
  number of recipients, and the three lists of the answer account for each of them.
\<close>

lemma broadcast_accounted:
  assumes p: "visibility_policy (bc_policy env)"
    and b: "broadcast env hit new_id t remote_address ks ident path body ls fs = (Inr r, ls', fs')" and k: "list_keys ks = Inr keys"
  shows "int (length (br_delivered_to r) + length (br_denied r) + length (br_failed r)) \<le> bc_max_targets env
    \<and> subseq (br_delivered_to r) (candidate_labels (sender_from_identity ident) keys)"
proof -
  obtain wr fs1 where f: "fan_out env wr new_id t ks ident (sender_from_identity ident) path fs = (Inr r, fs1)"
    using b by (auto simp: broadcast_def Let_def split: prod.splits if_splits sum.splits upload_decision.splits)
  obtain rs where rs: "subseq (map fst rs) (candidate_labels (sender_from_identity ident) keys)" "int (length rs) \<le> bc_max_targets env"
    "br_delivered_to r = delivered_of rs" "br_denied r = denied_of rs" "br_failed r = failed_of rs"
    using visibility_policy.fan_out_reaches [OF p refl f k] by blast
  from rs(1,3) delivered_of_subseq subseq_order.trans
  have "subseq (br_delivered_to r) (candidate_labels (sender_from_identity ident) keys)" by metis
  with rs(2-5) outcomes_partition [of rs] show ?thesis by simp
qed

end
