(* ===== verification/Download_Stream.thy ===== *)
theory Download_Stream
  imports Downloads_Laws Examples
begin

text \<open>
  The body of a download as the server sends it, \<^verbatim>\<open>routes/download.py\<close>: chunks read from the file until it is exhausted,
  and the accounting afterwards. A client that goes away leaves the generator suspended at a chunk; closing it there
  runs the \<^verbatim>\<open>finally\<close> clause only.
\<close>

definition CHUNK_SIZE :: nat where
  "CHUNK_SIZE = 64 * 1024"

function read_chunks :: "nat \<Rightarrow> bytes \<Rightarrow> bytes list" where
  "read_chunks chunk_size rest =
     (let chunk = take chunk_size rest in
      if chunk = [] then [] else chunk # read_chunks chunk_size (drop chunk_size rest))"
  by pat_completeness auto
termination by (relation "measure (length \<circ> snd)") auto

declare read_chunks.simps [simp del]

record body_sent =
  bs_chunks :: "bytes list"
  bs_reported :: "nat option"

text \<open>
  \<open>resumes\<close> is how often the client asks for the next chunk. \<open>bs_reported\<close> is the number of bytes that is logged and
  counted when the body has been read to its end.
\<close>

definition body_generator ::
  "(str \<Rightarrow> str) \<Rightarrow> str list \<Rightarrow> str list \<Rightarrow> int \<Rightarrow> str \<Rightarrow> str \<Rightarrow> str \<Rightarrow> manifest_file list \<Rightarrow> bool \<Rightarrow> nat \<Rightarrow> bytes \<Rightarrow> fs
   \<Rightarrow> body_sent \<times> fs" where
  "body_generator digest base root t jti bundle_path name manifest_files is_inbox resumes data fs =
     (let chunks = read_chunks CHUNK_SIZE data in
      if resumes \<le> length chunks then (\<lparr>bs_chunks = take resumes chunks, bs_reported = None\<rparr>, fs)
      else (\<lparr>bs_chunks = chunks, bs_reported = Some (sum_list (map length chunks))\<rparr>,
            if is_inbox then snd (post_stream_claim_accounting digest base root t jti bundle_path name manifest_files fs)
            else fs))"

definition stream_download ::
  "jwt_decode \<Rightarrow> (str \<Rightarrow> token_error option) \<Rightarrow> bool \<Rightarrow> (str \<Rightarrow> str) \<Rightarrow> str list \<Rightarrow> str list \<Rightarrow> int \<Rightarrow> int \<Rightarrow> nat
   \<Rightarrow> jwt_slots \<Rightarrow> download_request \<Rightarrow> fs \<Rightarrow> (download_error + download_response \<times> body_sent) \<times> fs" where
  "stream_download decode revocation_check dev_mode digest base root t monotonic resumes slots req fs =
     (case authorize_download decode revocation_check dev_mode (epoch t) monotonic slots req of
        Inl e \<Rightarrow> (Inl e, fs)
      | Inr (claims, bundle_path, name) \<Rightarrow>
         (case serve_file root bundle_path name fs of
            Inl e \<Rightarrow> (Inl e, fs)
          | Inr (m, response) \<Rightarrow>
             (case body_generator digest base root t (claim_str claims ''jti'') bundle_path name (bm_files m)
                     (startswith bundle_path ''inbox/'') resumes (ds_body response) fs of
                (sent, fs') \<Rightarrow> (Inr (response, sent), fs'))))"

subsection \<open>Lemmas\<close>

lemma concat_read_chunks: "0 < n \<Longrightarrow> concat (read_chunks n b) = b"
  by (induction n b rule: read_chunks.induct) (subst read_chunks.simps, auto simp: Let_def)

lemma read_chunks_bounds: "c \<in> set (read_chunks n b) \<Longrightarrow> c \<noteq> [] \<and> length c \<le> n"
  by (induction n b rule: read_chunks.induct) (subst (asm) (2) read_chunks.simps, auto simp: Let_def split: if_splits)

lemma length_read_chunks: "0 < n \<Longrightarrow> length (read_chunks n b) = (length b + (n - 1)) div n"
proof (induction n b rule: read_chunks.induct)
  case (1 n b)
  show ?case
  proof (cases "b = []")
    case True
    with 1 show ?thesis by (subst read_chunks.simps) simp
  next
    case False
    have "(length b + n - Suc 0) div n = Suc ((length b - Suc 0) div n)"
      using div_add_self2 [of n "length b - 1"] 1(2) False by (cases b) auto
    moreover have "(length b + (n - 1)) div n = 1" if "length b < n"
    proof (rule div_nat_eqI)
      show "n * 1 \<le> length b + (n - 1)" using False 1(2) by (cases b) auto
      show "length b + (n - 1) < n * Suc 1" using that by simp
    qed
    moreover have "read_chunks n b = take n b # read_chunks n (drop n b)" using False 1(2) by (subst read_chunks.simps) simp
    ultimately show ?thesis using 1 False by (cases "n \<le> length b") auto
  qed
qed

lemma generator_prefix: "prefix (concat (take k (read_chunks CHUNK_SIZE b))) b"
proof -
  have "concat (read_chunks CHUNK_SIZE b) = b" by (rule concat_read_chunks) (simp add: CHUNK_SIZE_def)
  then show ?thesis by (metis append_take_drop_id concat_append prefixI)
qed

text \<open>
  C18. A streamed download. What the client receives are pieces of at most 64 KiB that form a prefix of the stored
  bytes. If it goes away before it has asked for more than all of them, nothing is reported and no file
  changes: the claim does not count the file as fetched. If it reads to the end it has received exactly the stored bytes, their
  number is reported, and the files are as after the download of the whole file.
\<close>

theorem streamed_download:
  assumes "stream_download dec chk dev digest base root t mt resumes slots req fs = (Inr (resp, sent), fs')"
  shows "prefix (concat (bs_chunks sent)) (ds_body resp)
    \<and> (\<forall>c \<in> set (bs_chunks sent). c \<noteq> [] \<and> length c \<le> 65536)
    \<and> (bs_reported sent = None \<longleftrightarrow> resumes \<le> (length (ds_body resp) + 65535) div 65536)
    \<and> (bs_reported sent = None \<longrightarrow> fs' = fs \<and> length (bs_chunks sent) = resumes)
    \<and> (bs_reported sent \<noteq> None \<longrightarrow> bs_reported sent = Some (length (ds_body resp)) \<and> concat (bs_chunks sent) = ds_body resp
         \<and> download_file dec chk dev digest base root t mt True slots req fs = (Inr resp, fs'))"
proof -
  let ?cs = "read_chunks CHUNK_SIZE (ds_body resp)"
  have n: "0 < CHUNK_SIZE" by (simp add: CHUNK_SIZE_def)
  obtain claims path name m where a: "authorize_download dec chk dev (epoch t) mt slots req = Inr (claims, path, name)"
    "serve_file root path name fs = Inr (m, resp)"
    and g: "body_generator digest base root t (claim_str claims ''jti'') path name (bm_files m)
      (startswith path ''inbox/'') resumes (ds_body resp) fs = (sent, fs')"
    using assms by (auto simp: stream_download_def split: sum.splits prod.splits)
  have total: "sum_list (map length ?cs) = length (ds_body resp)" using concat_read_chunks [OF n] by (metis length_concat)
  have len: "length ?cs = (length (ds_body resp) + 65535) div 65536"
    using length_read_chunks [OF n] by (simp add: CHUNK_SIZE_def)
  have small: "\<forall>c \<in> set ?cs. c \<noteq> [] \<and> length c \<le> 65536" using read_chunks_bounds [of _ CHUNK_SIZE] by (simp add: CHUNK_SIZE_def)
  show ?thesis
  proof (cases "resumes \<le> length ?cs")
    case True
    then have s: "sent = \<lparr>bs_chunks = take resumes ?cs, bs_reported = None\<rparr>" "fs' = fs" using g by (simp_all add: body_generator_def)
    have "\<forall>c \<in> set (take resumes ?cs). c \<noteq> [] \<and> length c \<le> 65536" using small by (meson in_set_takeD)
    with generator_prefix [of resumes "ds_body resp"] True show ?thesis unfolding s len [symmetric] by simp
  next
    case False
    then have s: "sent = \<lparr>bs_chunks = ?cs, bs_reported = Some (length (ds_body resp))\<rparr>"
      "fs' = (if startswith path ''inbox/'' then snd (post_stream_claim_accounting digest base root t (claim_str claims ''jti'')
          path name (bm_files m) fs) else fs)" using g total by (auto simp: body_generator_def)
    have "download_file dec chk dev digest base root t mt True slots req fs = (Inr resp, fs')"
      unfolding s(2) using a by (simp add: download_file_def)
    with small False show ?thesis unfolding s(1) len [symmetric] by (simp add: concat_read_chunks [OF n])
  qed
qed

theorem streamed_download_witness:
  "\<exists>tok resp sent fs'. stream_download (jl_decode ex_lib) noop_revocation_check False ex_digest ex_base ex_root 0 0 1 ex_slots
      \<lparr>dr_authorization = ''Bearer '' @ tok, dr_raw_path = ''/download/'' @ url_quote ex_path @ ''/'' @ url_quote ''f'',
       dr_x_sender = Some ''h:p''\<rparr> ex_fs1 = (Inr (resp, sent), fs')
    \<and> ds_body resp = ''hi'' \<and> prefix (concat (bs_chunks sent)) ''hi'' \<and> length (bs_chunks sent) = 1 \<and> fs' = ex_fs1"
proof -
  let ?tok = "sign (jl_encode ex_lib) ''u'' (build_claims ex_path ex_meta ''h:p'' 300 0) ex_key"
  let ?req = "\<lparr>dr_authorization = ''Bearer '' @ ?tok, dr_raw_path = ''/download/'' @ url_quote ex_path @ ''/'' @ url_quote ''f'',
       dr_x_sender = Some ''h:p''\<rparr>"
  let ?stream = "stream_download (jl_decode ex_lib) noop_revocation_check False ex_digest ex_base ex_root 0 0 1 ex_slots ?req ex_fs1"
  have n: "''f'' \<in> mf_name ` set (bm_files ex_meta)" "find_file ''f'' (bm_files ex_meta) = Some (hd ex_manifest)"
    by (simp_all add: ex_created ex_manifest_def find_file_def)
  note a = authorize_signed [where chk = noop_revocation_check and dev = False and sender = "Some ''h:p''", OF ex_lib_laws _ _ _ ex_env_simps(13) n(1) _ refl,
      of 0 0 300 "''u''" "''h:p''" 0 ex_path]
  note sv = serve_file_ok [OF ex_view(2,3) n(2)]
  obtain resp sent fs' where s: "?stream = (Inr (resp, sent), fs')" "ds_body resp = ''hi''"
    using a sv by (cases ?stream) (auto simp: stream_download_def ex_epoch noop_revocation_check_def split: prod.splits)
  have "bs_reported sent = None" using streamed_download [OF s(1)] s(2) by simp
  with streamed_download [OF s(1)] s show ?thesis by auto
qed

end
