(* ===== verification/Surface.thy ===== *)
theory Surface
  imports Startup Key_Routes Download_Stream
begin

text \<open>
  The remaining answers of the HTTP surface: how a rejected download is rendered, the capabilities route, the endpoint that was
  removed, the two dependencies kept for older callers, and the table of tools.
\<close>

subsection \<open>Rejected downloads\<close>

definition WWW_AUTHENTICATE :: str where
  "WWW_AUTHENTICATE = ''Bearer error='' @ [CHR 0x22] @ ''invalid_token'' @ [CHR 0x22]"

text \<open>
  The body of the three constructors \<^verbatim>\<open>_unauth\<close>, \<^verbatim>\<open>_forbidden\<close> and \<^verbatim>\<open>_not_found\<close>; other exceptions
  are left to the framework.
\<close>

definition error_word :: "nat \<Rightarrow> str" where
  "error_word status = (if status = 401 then ''unauthenticated'' else if status = 403 then ''forbidden'' else ''not_found'')"

fun download_error_handler :: "download_error \<Rightarrow> http_response option" where
  "download_error_handler (DownloadError status reason claim) =
     Some \<lparr>hr_status = status,
       hr_body = JObj ([(''error'', JStr (error_word status)), (''reason'', JStr reason)]
         @ (case claim of None \<Rightarrow> [] | Some c \<Rightarrow> [(''claim'', JStr c)])),
       hr_headers = (if status = 401 then [(''WWW-Authenticate'', WWW_AUTHENTICATE)] else [])\<rparr>"
| "download_error_handler (DownloadRaised e) = None"

definition jwt_error_to_reason :: "token_error \<Rightarrow> str" where
  "jwt_error_to_reason e = (if e = TokenExpired then ''jwt_expired'' else ''jwt_invalid'')"

subsection \<open>Other routes\<close>

definition get_capabilities ::
  "(str \<Rightarrow> exc + key_info option) \<Rightarrow> auth_config \<Rightarrow> str option \<Rightarrow> str option \<Rightarrow> limits_config \<Rightarrow> auth_error + json" where
  "get_capabilities validate_key auth x_setup_token credentials policy =
     (case get_current_identity validate_key auth x_setup_token credentials of
        Inl e \<Rightarrow> Inl e
      | Inr identity \<Rightarrow> Inr (build_capabilities_document policy))"

definition send_to_inbox_removed :: "str \<Rightarrow> str \<Rightarrow> http_response" where
  "send_to_inbox_removed agent path =
     \<lparr>hr_status = 410,
      hr_body = JObj [(''error'', JStr ''gone''), (''reason'', JStr ''replaced_by_two_phase_upload''),
                      (''replacement'', JStr ''POST /upload/{bundle_path}'')],
      hr_headers = []\<rparr>"

record bundle_path_conflict =
  bc_error :: str
  bc_conflicting_path :: str
  bc_kind :: str

definition build_bundle_conflict_response :: "str \<Rightarrow> conflict_kind \<Rightarrow> http_response" where
  "build_bundle_conflict_response conflicting_path kind =
     (let body = \<lparr>bc_error = ''bundle_path_conflict'', bc_conflicting_path = conflicting_path, bc_kind = kind_name kind\<rparr>
      in \<lparr>hr_status = 409,
          hr_body = JObj [(''error'', JStr (bc_error body)), (''conflicting_path'', JStr (bc_conflicting_path body)),
                          (''kind'', JStr (bc_kind body))],
          hr_headers = []\<rparr>)"

text \<open>The builder without a path: it takes the path from a hint in the manifest, which the manifests of the store do not have.\<close>

definition infer_bundle_path :: "str option \<Rightarrow> str" where
  "infer_bundle_path hint = (case hint of None \<Rightarrow> [] | Some p \<Rightarrow> p)"

definition build_reference_envelope ::
  "str option \<Rightarrow> bundle_meta \<Rightarrow> (str \<Rightarrow> str \<Rightarrow> str \<Rightarrow> str) \<Rightarrow> str \<Rightarrow> str \<Rightarrow> reference_envelope" where
  "build_reference_envelope hint m transport token expires_at =
     (let bundle_path = infer_bundle_path hint
      in \<lparr>re_bundle = m, re_files = map (reference_entry transport bundle_path token) (bm_files m),
          re_download_token = token, re_expires_at = expires_at\<rparr>)"

subsection \<open>Dependencies of older callers\<close>

definition get_current_key ::
  "(str \<Rightarrow> exc + key_info option) \<Rightarrow> auth_config \<Rightarrow> str option \<Rightarrow> str option \<Rightarrow> auth_error + key_info option" where
  "get_current_key validate_key auth x_setup_token credentials =
     (if ac_dev_mode auth then Inr None
      else case get_current_identity validate_key auth x_setup_token credentials of
        Inl e \<Rightarrow> Inl e
      | Inr OperatorIdentity \<Rightarrow> Inr None
      | Inr identity \<Rightarrow>
         (case credentials of None \<Rightarrow> Inr None | Some c \<Rightarrow>
          (case validate_key c of Inl e \<Rightarrow> Inl (AuthRaised e) | Inr info \<Rightarrow> Inr info)))"

definition require_setup_token :: "auth_config \<Rightarrow> str option \<Rightarrow> str option \<Rightarrow> http_error + unit" where
  "require_setup_token auth x_setup_token header =
     (if ac_dev_mode auth then Inr ()
      else let token = (if x_setup_token \<in> {None, Some []} then header else x_setup_token)
           in if token \<noteq> Some (ac_setup_token auth) then Inl (HttpError 403 ''Invalid setup token'') else Inr ())"

subsection \<open>Tools\<close>

record mcp_server =
  ms_name :: str
  ms_version :: str
  ms_allowed_hosts :: "str list"
  ms_tools :: "str list"

definition create_mcp_server :: "str list \<Rightarrow> mcp_server" where
  "create_mcp_server allowed_hosts =
     \<lparr>ms_name = ''Cassetta'', ms_version = SERVER_VERSION, ms_allowed_hosts = allowed_hosts,
      ms_tools = [''cassetta_put'', ''cassetta_get'', ''cassetta_delete'', ''cassetta_list'', ''cassetta_send_init'',
        ''cassetta_send_inline'', ''cassetta_inbox'', ''cassetta_pick'', ''cassetta_peek'', ''cassetta_capabilities'',
        ''cassetta_agents'', ''cassetta_broadcast'']\<rparr>"

subsection \<open>Lemmas\<close>

text \<open>Both renderings of a conflict, the handler and the builder, are the same response.\<close>

lemma conflict_response_once: "build_bundle_conflict_response p k = bundle_conflict_handler p k"
  by (simp add: build_bundle_conflict_response_def bundle_conflict_handler_def)

text \<open>The older dependency accepts exactly the callers the current one accepts.\<close>

lemma get_current_key_accepts:
  "isl (get_current_key v auth tok cred) = isl (get_current_identity v auth tok cred)"
  by (auto simp: get_current_key_def get_current_identity_def resolve_identity_def split: option.splits sum.splits)

text \<open>Outside development mode the setup token is required as it is configured, whichever way it is passed.\<close>

lemma require_setup_token_ok:
  "\<not> ac_dev_mode auth \<Longrightarrow> require_setup_token auth tok hdr = Inr ()
   \<longleftrightarrow> (tok = Some (ac_setup_token auth) \<and> tok \<noteq> Some [] \<or> tok \<in> {None, Some []} \<and> hdr = Some (ac_setup_token auth))"
  by (auto simp: require_setup_token_def Let_def)

lemma build_reference_envelope_pinned:
  "build_reference_envelope (Some p) m transport token e = build_reference_envelope_with_path m p transport token e"
  by (simp add: build_reference_envelope_def build_reference_envelope_with_path_def infer_bundle_path_def)

lemma tools_distinct: "distinct (ms_tools (create_mcp_server hosts))"
  by (simp add: create_mcp_server_def)

text \<open>Every rejection the download route decides on has a body that names its reason, and only a 401 asks for a credential.\<close>

lemma authorize_download_status:
  assumes "authorize_download dec chk dev now mt slots req = Inl (DownloadError status reason claim)"
  shows "status \<in> {401, 403, 404}"
proof -
  have m: "map_jwt_error e = DownloadError status reason claim \<Longrightarrow> status = 401" for e by (cases e) auto
  have s: "split_raw_path raw = Inl (DownloadError status reason claim) \<Longrightarrow> status = 404" for raw
    by (auto simp: split_raw_path_def Let_def split: if_splits)
  show ?thesis using assms m s
    by (auto simp: authorize_download_def Let_def split: option.splits sum.splits if_splits)
qed

end
