(* ===== verification/Docs_Version.thy ===== *)
theory Docs_Version
  imports Limits
begin

text \<open>
  \<^verbatim>\<open>scripts/sync-docs-version.py\<close>: the release step that sets the version in the sample output of the documents. Texts
  are ASCII, where the classes of the two regular expressions have no other members, and a version has no backslash, which
  the replacement template would take as an escape.
\<close>

definition re_space :: "char \<Rightarrow> bool" where
  "re_space c = (is_space c \<or> c \<in> {CHR 0x1C, CHR 0x1D, CHR 0x1E, CHR 0x1F})"

text \<open>The pattern of the declaration, searched at the beginning of every line.\<close>

definition match_dunder :: "str \<Rightarrow> str option" where
  "match_dunder s =
     (let lead = ''__version__ = '' @ [CHR 0x22] in
      if \<not> startswith s lead then None
      else let r = drop (length lead) s; v = takeWhile (\<lambda>c. c \<noteq> CHR 0x22) r in
        if v = [] \<or> dropWhile (\<lambda>c. c \<noteq> CHR 0x22) r = [] then None else Some v)"

fun search_dunder :: "bool \<Rightarrow> str \<Rightarrow> str option" where
  "search_dunder line_start [] = None"
| "search_dunder line_start (c # s) =
     (case (if line_start then match_dunder (c # s) else None) of
        Some v \<Rightarrow> Some v
      | None \<Rightarrow> search_dunder (c = CHR 0x0A) s)"

definition declared_version :: "str \<Rightarrow> sys_exit + str" where
  "declared_version package_init =
     (case search_dunder True package_init of None \<Rightarrow> Inl (SystemExit 1) | Some v \<Rightarrow> Inr v)"

text \<open>One match of the pattern of the sample at the head of a text: its two groups and what follows.\<close>

definition digits_dot :: "str \<Rightarrow> (str \<times> str) option" where
  "digits_dot s =
     (case dropWhile is_digit s of
        c # rest \<Rightarrow> if takeWhile is_digit s \<noteq> [] \<and> c = CHR ''.'' then Some (takeWhile is_digit s @ [c], rest) else None
      | [] \<Rightarrow> None)"

definition match_version :: "str \<Rightarrow> (str \<times> str) option" where
  "match_version s =
     (case digits_dot s of None \<Rightarrow> None | Some (a, s1) \<Rightarrow>
      (case digits_dot s1 of None \<Rightarrow> None | Some (b, s2) \<Rightarrow>
        if takeWhile is_digit s2 = [] then None else Some (a @ b @ takeWhile is_digit s2, dropWhile is_digit s2)))"

definition SAMPLE_LEAD :: str where
  "SAMPLE_LEAD = ''Server version:''"

definition match_sample :: "str \<Rightarrow> (str \<times> str \<times> str) option" where
  "match_sample s =
     (if \<not> startswith s SAMPLE_LEAD then None
      else let r = drop (length SAMPLE_LEAD) s in
        case match_version (dropWhile re_space r) of
          None \<Rightarrow> None
        | Some (v, rest) \<Rightarrow> Some (SAMPLE_LEAD @ takeWhile re_space r, v, rest))"

lemma match_sample_shorter: "match_sample s = Some (p, v, rest) \<Longrightarrow> length rest < length s"
proof -
  assume m: "match_sample s = Some (p, v, rest)"
  have d: "digits_dot x = Some (a, y) \<Longrightarrow> length y < length x" for x a y
    using length_dropWhile_le [of is_digit x] by (auto simp: digits_dot_def split: list.splits if_splits)
  have "match_version x = Some (v, y) \<Longrightarrow> length y < length x" for x y
    by (auto simp: match_version_def split: option.splits if_splits dest!: d)
      (meson d length_dropWhile_le le_less_trans less_trans)
  then have "length rest < length (dropWhile re_space (drop (length SAMPLE_LEAD) s))"
    using m by (auto simp: match_sample_def Let_def split: if_splits option.splits)
  also have "\<dots> \<le> length s" using length_dropWhile_le [of re_space "drop (length SAMPLE_LEAD) s"] by simp
  finally show ?thesis .
qed

text \<open>The pieces a text is cut into by the leftmost matches, as \<^verbatim>\<open>sub\<close> and \<^verbatim>\<open>findall\<close> see it.\<close>

function rewrite :: "str \<Rightarrow> str \<Rightarrow> str" where
  "rewrite [] version = []"
| "rewrite (c # s) version =
     (case match_sample (c # s) of
        None \<Rightarrow> c # rewrite s version
      | Some (lead, v, rest) \<Rightarrow> lead @ version @ rewrite rest version)"
  by pat_completeness auto
termination by (relation "measure (\<lambda>(s, v). length s)") (auto dest: match_sample_shorter)

function findall :: "str \<Rightarrow> (str \<times> str) list" where
  "findall [] = []"
| "findall (c # s) =
     (case match_sample (c # s) of
        None \<Rightarrow> findall s
      | Some (lead, v, rest) \<Rightarrow> (lead, v) # findall rest)"
  by pat_completeness auto
termination by (relation "measure length") (auto dest: match_sample_shorter)

type_synonym documents = "(str \<times> str) list"

text \<open>The report of a changed document: its path, the number of its samples and the versions they had.\<close>

fun sync :: "str \<Rightarrow> documents \<Rightarrow> nat \<times> (str \<times> nat \<times> str list) list \<times> documents" where
  "sync version [] = (0, [], [])"
| "sync version ((path, original) # rest) =
     (let samples = findall original; (found, changed, docs) = sync version rest in
      if samples = [] then (found, changed, (path, original) # docs)
      else let updated = rewrite original version in
        if updated = original then (length samples + found, changed, (path, original) # docs)
        else (length samples + found,
              (path, length samples, sort (remdups (filter (\<lambda>old. old \<noteq> version) (map snd samples)))) # changed,
              (path, updated) # docs))"

text \<open>The exit status and the documents; \<open>None\<close> when there is no directory.\<close>

definition main :: "str \<Rightarrow> documents option \<Rightarrow> int \<times> documents option" where
  "main package_init docs =
     (case declared_version package_init of
        Inl (SystemExit n) \<Rightarrow> (n, docs)
      | Inr version \<Rightarrow>
         (case docs of
            None \<Rightarrow> (1, None)
          | Some ds \<Rightarrow>
             (case sync version ds of (found, changed, ds') \<Rightarrow> (if found = 0 then 1 else 0, Some ds'))))"

subsection \<open>Lemmas\<close>

text \<open>A version of three numbers.\<close>

definition version_shape :: "str \<Rightarrow> bool" where
  "version_shape v = (match_version v = Some (v, []))"

definition stops :: "(char \<Rightarrow> bool) \<Rightarrow> str \<Rightarrow> bool" where
  "stops P w = (w = [] \<or> \<not> P (hd w))"

lemma while_append:
  "stops P w \<Longrightarrow> takeWhile P (u @ w) = takeWhile P u" "stops P w \<Longrightarrow> dropWhile P (u @ w) = dropWhile P u @ w"
  by (induction u; cases w; simp add: stops_def)+

lemma stops_dropWhile: "stops P (dropWhile P s)"
  by (induction s) (auto simp: stops_def)

lemma list_all_takeWhile: "list_all P (takeWhile P s)"
  by (auto simp: list_all_iff dest: set_takeWhileD)

lemma while_all: "list_all P d \<Longrightarrow> stops P w \<Longrightarrow> takeWhile P (d @ w) = d \<and> dropWhile P (d @ w) = w"
  by (induction d) (auto simp: stops_def dropWhile_eq_self_iff takeWhile_eq_Nil_iff)

lemma dot_no_digit: "\<not> is_digit (CHR ''.'')" "\<not> is_digit (CHR ''S'')" "\<not> re_space (CHR ''S'')"
  by (simp_all add: char_digit_def re_space_def is_space_def)

lemma digits_dot_Some:
  "digits_dot s = Some (a, r) \<longleftrightarrow> (\<exists>d. d \<noteq> [] \<and> list_all is_digit d \<and> a = d @ ''.'' \<and> s = d @ CHR ''.'' # r)"
proof
  assume l: "digits_dot s = Some (a, r)"
  then have "dropWhile is_digit s = CHR ''.'' # r" "takeWhile is_digit s \<noteq> []" "a = takeWhile is_digit s @ ''.''"
    by (auto simp: digits_dot_def split: list.splits if_splits)
  moreover have "s = takeWhile is_digit s @ dropWhile is_digit s" by (rule takeWhile_dropWhile_id [symmetric])
  ultimately show "\<exists>d. d \<noteq> [] \<and> list_all is_digit d \<and> a = d @ ''.'' \<and> s = d @ CHR ''.'' # r"
    using list_all_takeWhile [of is_digit s] by (intro exI [of _ "takeWhile is_digit s"]) simp
next
  assume "\<exists>d. d \<noteq> [] \<and> list_all is_digit d \<and> a = d @ ''.'' \<and> s = d @ CHR ''.'' # r"
  then obtain d where d: "d \<noteq> []" "list_all is_digit d" "a = d @ ''.''" "s = d @ CHR ''.'' # r" by blast
  have "stops is_digit (CHR ''.'' # r)" using dot_no_digit(1) by (simp add: stops_def)
  from while_all [OF d(2) this] d show "digits_dot s = Some (a, r)" by (simp add: digits_dot_def)
qed

lemma match_version_Some:
  "match_version s = Some (v, r) \<longleftrightarrow> (\<exists>a b c. a \<noteq> [] \<and> b \<noteq> [] \<and> c \<noteq> [] \<and> list_all is_digit (a @ b @ c)
     \<and> v = a @ ''.'' @ b @ ''.'' @ c \<and> s = v @ r \<and> stops is_digit r)"
proof
  assume m: "match_version s = Some (v, r)"
  then obtain x s1 y s2 where d: "digits_dot s = Some (x, s1)" "digits_dot s1 = Some (y, s2)"
    and e: "takeWhile is_digit s2 \<noteq> []" "v = x @ y @ takeWhile is_digit s2" "r = dropWhile is_digit s2"
    by (auto simp: match_version_def split: option.splits if_splits)
  have "list_all is_digit (takeWhile is_digit s2)" "stops is_digit r"
    unfolding e(3) by (rule list_all_takeWhile, rule stops_dropWhile)
  with d e takeWhile_dropWhile_id [of is_digit s2] show "\<exists>a b c. a \<noteq> [] \<and> b \<noteq> [] \<and> c \<noteq> [] \<and> list_all is_digit (a @ b @ c)
     \<and> v = a @ ''.'' @ b @ ''.'' @ c \<and> s = v @ r \<and> stops is_digit r"
    unfolding digits_dot_Some by (elim exE conjE) (rule exI, rule exI, rule exI [of _ "takeWhile is_digit s2"], auto)
next
  assume "\<exists>a b c. a \<noteq> [] \<and> b \<noteq> [] \<and> c \<noteq> [] \<and> list_all is_digit (a @ b @ c)
     \<and> v = a @ ''.'' @ b @ ''.'' @ c \<and> s = v @ r \<and> stops is_digit r"
  then obtain a b c where abc: "a \<noteq> []" "b \<noteq> []" "c \<noteq> []" "list_all is_digit (a @ b @ c)" "v = a @ ''.'' @ b @ ''.'' @ c"
    "s = v @ r" "stops is_digit r" by blast
  have "digits_dot s = Some (a @ ''.'', b @ ''.'' @ c @ r)" "digits_dot (b @ ''.'' @ c @ r) = Some (b @ ''.'', c @ r)"
    using abc by (auto simp: digits_dot_Some)
  moreover have "takeWhile is_digit (c @ r) = c" "dropWhile is_digit (c @ r) = r"
    using abc(4,7) while_all [of is_digit c r] by simp_all
  ultimately show "match_version s = Some (v, r)" using abc by (simp add: match_version_def)
qed

lemma match_sample_Some:
  "match_sample s = Some (p, v, r) \<longleftrightarrow> (\<exists>w. list_all re_space w \<and> p = SAMPLE_LEAD @ w \<and> s = p @ v @ r \<and> match_version (v @ r) = Some (v, r))"
proof
  assume m: "match_sample s = Some (p, v, r)"
  let ?t = "drop (length SAMPLE_LEAD) s"
  from m have l: "prefix SAMPLE_LEAD s" and p: "p = SAMPLE_LEAD @ takeWhile re_space ?t"
    and mv: "match_version (dropWhile re_space ?t) = Some (v, r)"
    by (auto simp: match_sample_def Let_def split: if_splits option.splits)
  have "s = SAMPLE_LEAD @ takeWhile re_space ?t @ dropWhile re_space ?t" using l by (auto elim: prefixE)
  moreover have "dropWhile re_space ?t = v @ r" using mv match_version_Some by blast
  ultimately show "\<exists>w. list_all re_space w \<and> p = SAMPLE_LEAD @ w \<and> s = p @ v @ r \<and> match_version (v @ r) = Some (v, r)"
    using p mv by (intro exI [of _ "takeWhile re_space ?t"]) (simp add: list_all_takeWhile)
next
  assume "\<exists>w. list_all re_space w \<and> p = SAMPLE_LEAD @ w \<and> s = p @ v @ r \<and> match_version (v @ r) = Some (v, r)"
  then obtain w where w: "list_all re_space w" "p = SAMPLE_LEAD @ w" "s = p @ v @ r" "match_version (v @ r) = Some (v, r)" by blast
  have "\<not> re_space (hd (v @ r))"
  proof -
    have d: "is_digit c \<Longrightarrow> \<not> re_space c" for c by (auto simp: re_space_def is_space_def char_digit_def)
    from w(4) obtain a x where "v = a @ x" "a \<noteq> []" "list_all is_digit a" unfolding match_version_Some by auto
    then show ?thesis using d by (cases a) auto
  qed
  then have "stops re_space (v @ r)" by (simp add: stops_def)
  then have "takeWhile re_space (w @ v @ r) = w" "dropWhile re_space (w @ v @ r) = v @ r"
    using w(1) while_all [of re_space w "v @ r"] by simp_all
  then show "match_sample s = Some (p, v, r)" using w by (simp add: match_sample_def Let_def)
qed

lemma match_version_again:
  assumes "match_version (v @ r) = Some (v, r)" "stops is_digit r'"
  shows "match_version (v @ r') = Some (v, r')"
  using assms unfolding match_version_Some by blast

text \<open>Whether a match begins at the head depends only on what comes before the next capital S.\<close>

lemma match_before_S:
  assumes m: "match_sample (c # s) = Some (p, v, r)" and t: "takeWhile (\<lambda>x. x \<noteq> CHR ''S'') s' = takeWhile (\<lambda>x. x \<noteq> CHR ''S'') s"
  shows "match_sample (c # s') \<noteq> None"
proof -
  let ?P = "\<lambda>x. x \<noteq> CHR ''S''"
  from m obtain w where w: "list_all re_space w" "p = SAMPLE_LEAD @ w" "c # s = p @ v @ r" "match_version (v @ r) = Some (v, r)"
    unfolding match_sample_Some by blast
  have "list_all ?P w" using w(1) dot_no_digit(3) by (auto simp: list_all_iff)
  moreover have "list_all ?P v"
  proof -
    from w(4) obtain a b k where "list_all is_digit (a @ b @ k)" "v = a @ ''.'' @ b @ ''.'' @ k" unfolding match_version_Some by blast
    moreover have "list_all is_digit d \<Longrightarrow> list_all ?P d" for d using dot_no_digit(2) by (induction d) auto
    ultimately show ?thesis by simp
  qed
  moreover have lead: "SAMPLE_LEAD = CHR ''S'' # tl SAMPLE_LEAD" "list_all ?P (tl SAMPLE_LEAD)" by (simp_all add: SAMPLE_LEAD_def)
  ultimately have all: "list_all ?P (tl SAMPLE_LEAD @ w @ v)" by simp
  have cs: "c = CHR ''S''" "s = (tl SAMPLE_LEAD @ w @ v) @ r" using w(2,3) lead(1) by (metis append_Cons append_assoc list.inject)+
  let ?r = "takeWhile ?P r @ dropWhile ?P s'"
  have "takeWhile ?P s = (tl SAMPLE_LEAD @ w @ v) @ takeWhile ?P r"
    unfolding cs(2) using all by (subst takeWhile_append2) (auto simp: list_all_iff)
  then have "c # s' = p @ v @ ?r"
    using t takeWhile_dropWhile_id [of ?P s'] lead(1) w(2) cs(1) by (metis append_Cons append_assoc)
  moreover have "stops is_digit r" using w(4) unfolding match_version_Some by blast
  then have "stops is_digit ?r"
    using stops_dropWhile [of ?P s'] dot_no_digit(2) by (cases r) (auto simp: stops_def)
  ultimately show ?thesis using w(1,2) match_version_again [OF w(4), of ?r] match_sample_Some [of "c # s'" p v ?r] by blast
qed

lemma rewrite_before_S: "takeWhile (\<lambda>x. x \<noteq> CHR ''S'') (rewrite s v) = takeWhile (\<lambda>x. x \<noteq> CHR ''S'') s"
proof (induction s v rule: rewrite.induct)
  case (2 c s v)
  show ?case
  proof (cases "match_sample (c # s)")
    case None
    with 2(1) show ?thesis by simp
  next
    case (Some x)
    obtain p v0 r where x: "x = (p, v0, r)" by (cases x)
    obtain w where "p = SAMPLE_LEAD @ w" "c # s = p @ v0 @ r" using Some [unfolded x match_sample_Some] by blast
    then have "hd p = CHR ''S''" "p \<noteq> []" "c = hd p" by (auto simp: SAMPLE_LEAD_def)
    then show ?thesis using Some x by (cases p) auto
  qed
qed simp

lemma rewrite_stops: "stops is_digit s \<Longrightarrow> stops is_digit (rewrite s v)"
proof (induction s v rule: rewrite.induct)
  case (2 c s v)
  show ?case
  proof (cases "match_sample (c # s)")
    case None
    with 2(3) show ?thesis by (simp add: stops_def)
  next
    case (Some x)
    obtain p v0 r where x: "x = (p, v0, r)" by (cases x)
    obtain w where "p = SAMPLE_LEAD @ w" using Some [unfolded x match_sample_Some] by blast
    then show ?thesis using Some x dot_no_digit(2) by (simp add: stops_def SAMPLE_LEAD_def)
  qed
qed simp

lemma rewrite_Some: "match_sample s = Some (p, v0, r) \<Longrightarrow> rewrite s v = p @ v @ rewrite r v"
  by (cases s) (simp_all add: match_sample_def SAMPLE_LEAD_def)

lemma findall_Some: "match_sample s = Some (p, v0, r) \<Longrightarrow> findall s = (p, v0) # findall r"
  by (cases s) (simp_all add: match_sample_def SAMPLE_LEAD_def)

lemma rewrite_again:
  "version_shape v \<Longrightarrow> rewrite (rewrite s v) v = rewrite s v \<and> findall (rewrite s v) = map (\<lambda>(p, v0). (p, v)) (findall s)"
proof (induction s v rule: rewrite.induct)
  case (2 c s v)
  show ?case
  proof (cases "match_sample (c # s)")
    case None
    have "match_sample (c # rewrite s v) = None"
    proof (rule ccontr)
      assume "match_sample (c # rewrite s v) \<noteq> None"
      then obtain p v0 r where "match_sample (c # rewrite s v) = Some (p, v0, r)" by auto
      from match_before_S [OF this rewrite_before_S [symmetric]] None show False by simp
    qed
    with None 2(1) [OF None 2(3)] show ?thesis by simp
  next
    case (Some x)
    obtain p v0 r where x: "x = (p, v0, r)" by (cases x)
    obtain w where w: "list_all re_space w" "p = SAMPLE_LEAD @ w" "match_version (v0 @ r) = Some (v0, r)"
      using Some [unfolded x match_sample_Some] by blast
    have "stops is_digit r" using w(3) unfolding match_version_Some by blast
    then have "match_version (v @ rewrite r v) = Some (v, rewrite r v)"
      using 2(3) match_version_again [of v "[]"] rewrite_stops by (simp add: version_shape_def)
    then have m: "match_sample (p @ v @ rewrite r v) = Some (p, v, rewrite r v)" using w(1,2) by (auto simp: match_sample_Some)
    have ih: "rewrite (rewrite r v) v = rewrite r v" "findall (rewrite r v) = map (\<lambda>(p, v0). (p, v)) (findall r)"
      using 2(2) [OF Some x [symmetric] refl 2(3)] by blast+
    show ?thesis unfolding rewrite_Some [OF Some [unfolded x]] rewrite_Some [OF m] findall_Some [OF m] findall_Some [OF Some [unfolded x]]
      using ih by simp
  qed
qed simp

lemma rewrite_none: "findall s = [] \<Longrightarrow> rewrite s v = s"
  by (induction s v rule: rewrite.induct) (auto split: option.splits)

lemma sync_again:
  assumes v: "version_shape v"
  shows "sync v docs = (found, changed, docs') \<Longrightarrow> sync v docs' = (found, [], docs')
    \<and> (\<forall>(path, text) \<in> set docs'. \<forall>(lead, old) \<in> set (findall text). old = v)
    \<and> map fst docs' = map fst docs \<and> (changed = [] \<longrightarrow> docs' = docs)"
proof (induction docs arbitrary: found changed docs')
  case (Cons d docs)
  obtain path doc where d: "d = (path, doc)" by force
  obtain n ch ds where s: "sync v docs = (n, ch, ds)" by (cases "sync v docs")
  note ih = Cons.IH [OF s] and ra = rewrite_again [OF v, of doc] and f = Cons.prems [unfolded d sync.simps s]
  show ?case
  proof (cases "findall doc = [] \<or> rewrite doc v = doc")
    case True
    have "\<forall>(lead, old) \<in> set (map (\<lambda>(p, v0). (p, v)) (findall doc)). old = v" by auto
    moreover have "findall doc = map (\<lambda>(p, v0). (p, v)) (findall doc)" using True ra by (cases "findall doc = []") auto
    ultimately have all: "\<forall>(lead, old) \<in> set (findall doc). old = v" by metis
    with True f have "docs' = (path, doc) # ds" "changed = ch" "found = length (findall doc) + n" by (auto simp: Let_def split: if_splits)
    with ih all True d show ?thesis by (auto simp: Let_def)
  next
    case False
    with f have "docs' = (path, rewrite doc v) # ds" "changed \<noteq> []" "found = length (findall doc) + n"
      by (auto simp: Let_def split: if_splits)
    with ih ra d show ?thesis by (auto simp: Let_def)
  qed
qed simp

text \<open>
  The documents after a release. For a declared version of three numbers the script ends with status 0 exactly
  when some document shows a sample, every sample then shows the version, no document is added or renamed, and running it again
  changes nothing and ends in the same way.
\<close>

lemma docs_synced:
  assumes "declared_version package_init = Inr version" "version_shape version" "main package_init (Some docs) = (status, Some docs')"
  shows "main package_init (Some docs') = (status, Some docs')
    \<and> (\<forall>(path, text) \<in> set docs'. \<forall>(lead, old) \<in> set (findall text). old = version)
    \<and> map fst docs' = map fst docs
    \<and> (status = 0 \<longleftrightarrow> (\<exists>(path, text) \<in> set docs. findall text \<noteq> []))"
proof -
  obtain found changed where s: "sync version docs = (found, changed, docs')" and st: "status = (if found = 0 then 1 else 0)"
    using assms(1,3) by (auto simp: main_def split: prod.splits)
  have "found = 0 \<longleftrightarrow> (\<forall>(path, text) \<in> set docs. findall text = [])" using s
    by (induction docs arbitrary: found changed docs') (auto simp: Let_def split: prod.splits if_splits)
  with sync_again [OF assms(2) s] assms(1) st show ?thesis by (auto simp: main_def)
qed

definition ex_init :: str where
  "ex_init = ''x'' @ [CHR 0x0A] @ ''__version__ = '' @ [CHR 0x22] @ ''0.30.1'' @ [CHR 0x22]"

definition ex_docs :: documents where
  "ex_docs = [(''a.md'', ''$ Server version: 0.28.0.''), (''b.md'', ''none'')]"

lemma docs_synced_example:
  "\<exists>docs'. main ex_init (Some ex_docs) = (0, Some docs') \<and> main ex_init (Some docs') = (0, Some docs')"
proof -
  have "declared_version ex_init = Inr ''0.30.1''" "version_shape ''0.30.1''" by code_simp+
  moreover have "main ex_init (Some ex_docs) = (0, Some [(''a.md'', ''$ Server version: 0.30.1.''), (''b.md'', ''none'')])" by code_simp
  ultimately show ?thesis using docs_synced by blast
qed

text \<open>With any other version the rewriting is not idempotent: what follows the three numbers is added each time.\<close>

lemma rewrite_not_idempotent:
  "rewrite (rewrite ''Server version: 0.28.2'' ''0.28.3rc1'') ''0.28.3rc1'' = ''Server version: 0.28.3rc1rc1''"
  by code_simp

end
