(* ===== verification/Divergences.thy ===== *)
theory Divergences
  imports Access_Properties Mcp Latest
begin

text \<open>
  Inputs on which the code does not do what it means to, each evaluated on the definitions the
  properties are about.
\<close>

section \<open>Names and paths\<close>

text \<open>
  The check for a file name that is a directory of another compares sorted neighbours only, and
  \<^verbatim>\<open>a.b\<close> sorts between \<^verbatim>\<open>a\<close> and \<^verbatim>\<open>a/c\<close>.
\<close>

lemma prefix_collision_missed:
  "validate_manifest \<lparr>um_file_count = 3, um_files = map (\<lambda>n. \<lparr>mf_name = n, mf_size = 1, mf_mime = None\<rparr>) [''a'', ''a.b'', ''a/c'']\<rparr> = Inr ()"
  by code_simp

text \<open>The reserved name is compared as a text, so that other spellings of the manifest's path pass.\<close>

lemma reserved_name_bypassed:
  "validate_manifest \<lparr>um_file_count = 1, um_files = [\<lparr>mf_name = ''./meta.json'', mf_size = 1, mf_mime = None\<rparr>]\<rparr> = Inr ()
   \<and> path_parts ''./meta.json'' = [BUNDLE_MANIFEST]"
  by code_simp

text \<open>The dollar of the patterns also matches before a final line feed.\<close>

lemma trailing_newline_accepted:
  "validate_path (''a'' @ [CHR 10]) None = Inr () \<and> validate_key_field (''h'' @ [CHR 10]) ''host'' = Inr (''h'' @ [CHR 10])"
  by code_simp

text \<open>The path \<^verbatim>\<open>.\<close> is valid and names the whole store: deleting it takes every bundle there.\<close>

lemma dot_names_the_store:
  "validate_path ''.'' None = Inr () \<and> resolve root (store_path ''.'') = resolve root ''store''"
proof
  show "validate_path ''.'' None = Inr ()" by code_simp
  have "good_key (store_path ''.'')" "good_key ''store''" "path_parts (store_path ''.'') = path_parts ''store''" by code_simp+
  then show "resolve root (store_path ''.'') = resolve root ''store''" by (simp add: resolve_good)
qed

definition two_inboxes :: fs where
  "two_inboxes =
     [([], DirNode 0), ([''srv''], DirNode 0), ([''srv'', ''data''], DirNode 0), ([''srv'', ''data'', ''inbox''], DirNode 0),
      ([''srv'', ''data'', ''inbox'', ''h:p''], DirNode 0), ([''srv'', ''data'', ''inbox'', ''h:q''], DirNode 0),
      ([''srv'', ''data'', ''inbox'', ''h:q'', ''x''], DirNode 0)]"

text \<open>The routes of an inbox take their path as it comes: upwards it leads to the inbox of another.\<close>

lemma inbox_path_crosses:
  "walk two_inboxes [] (resolve ex_root (inbox_path ''h:p'' ''../h:q/x'')) = Inr (resolve ex_root (inbox_path ''h:q'' ''x''))"
  by code_simp

text \<open>A recipient without a colon is taken as it comes, and may name a directory outside the data root.\<close>

lemma bare_recipient_escapes:
  "resolve_recipient (Some (default_alias_resolve ks)) ''../..'' (Some ''h:q'') = Inr ''../..''
   \<and> walk two_inboxes [] (resolve ex_root (inbox_path ''../..'' ''x'')) = Inr [''srv'', ''x'']
   \<and> \<not> prefix (data_root ex_root) [''srv'', ''x'']"
proof (intro conjI)
  show "resolve_recipient (Some (default_alias_resolve ks)) ''../..'' (Some ''h:q'') = Inr ''../..''"
    by (simp add: resolve_recipient_def default_alias_resolve_def)
qed code_simp+

section \<open>Sending\<close>

text \<open>When every target of an alias ends with the sender's label, the first of no targets is taken.\<close>

lemma all_targets_filtered:
  "resolve_recipient (Some (\<lambda>n s. Inr (Some [''inbox/h:q/'', ''inbox/x-h:q/'']))) ''team'' (Some ''h:q'') = Inl (SendRaised IndexError)"
  by code_simp

section \<open>Leftovers\<close>

text \<open>
  A directory without a file is not listed, not even among the orphans, so that no sweep removes it; yet no
  bundle can be opened there.
\<close>

lemma empty_directory_blocks:
  "(good_key pre \<longrightarrow> list_bundles ex_root pre True two_inboxes = [])
   \<and> (\<exists>k. fst (open_bundle_write ex_root 0 ''inbox/h:q/x'' two_inboxes) = Inl (BundlePathConflictError ''inbox/h:q/x'' k))"
proof (intro conjI impI)
  assume g: "good_key pre"
  have w: "fs_wf two_inboxes" "clean ex_root" by code_simp+
  have "\<not> has_file two_inboxes d" for d by (simp add: has_file_def two_inboxes_def entry_at_def)
  then have "r \<notin> set (list_bundles ex_root pre True two_inboxes)" for r
    using list_bundles_iff [OF w g] by (auto simp: reported_def)
  then show "list_bundles ex_root pre True two_inboxes = []" by (metis list.set_intros(1) neq_Nil_conv)
next
  have c: "check_bundle_path_collision ex_root two_inboxes (resolve ex_root ''inbox/h:q/x'') = None"
    "mkdir_p 0 (butlast (resolve ex_root ''inbox/h:q/x'')) two_inboxes = Inr two_inboxes"
    "os_mkdir 0 (resolve ex_root ''inbox/h:q/x'') two_inboxes = Inl FileExistsError" by code_simp+
  show "\<exists>k. fst (open_bundle_write ex_root 0 ''inbox/h:q/x'' two_inboxes) = Inl (BundlePathConflictError ''inbox/h:q/x'' k)"
    unfolding open_bundle_write_def Let_def c(1,2) option.case sum.case c(3) by simp
qed

text \<open>A sidecar that lacks a field ends the iteration over the claims, and with it the sweep.\<close>

definition bad_sidecar :: fs where
  "bad_sidecar = [([], DirNode 0), ([''srv''], DirNode 0), (ex_base, DirNode 0), (ex_base @ [''a.json''], FileNode (''{'' @ [CHR 0x22] @ ''schema_version'' @ [CHR 0x22] @ '':1}'') 0)]"

lemma malformed_sidecar_raises: "iter_all ex_base bad_sidecar = Inl (KeyError ''jti'')"
  by code_simp

text \<open>
  A claim outlives the bundle it was issued for: the deletion of the bundle does not touch it, and it is found by its
  path alone. The files fetched of the old bundle then count for a new one at the same path, which is retired by the
  fetch of the others, whatever its identifier.
\<close>

lemma stale_claim_retires_bundle:
  assumes c: "claimed digest base root c fs" and f: "bundle_files_ok files"
    and n: "mf_name ` set (bm_files m) \<subseteq> insert n (set (cr_files_fetched c))"
    and p: "publish root t (cr_bundle_path c) files m (snd (delete_bundle root t (cr_bundle_path c) fs)) = (Inr (), fs')"
  shows "meta_at root fs' (cr_bundle_path c) = Some m
    \<and> meta_at root (snd (post_stream_claim_accounting digest base root t' (cr_jti c) (cr_bundle_path c) n (bm_files m) fs'))
        (cr_bundle_path c) = None"
proof -
  let ?p = "cr_bundle_path c" and ?f = "snd (delete_bundle root t (cr_bundle_path c) fs)"
  have "claimed digest base root c ?f" by (rule delete_bundle_claimed [OF c])
  then have i: "store_invar root ?f" "claims_invar digest base ?f" "separate root base" "jti_ok (cr_jti c)" "good_key ?p"
    "record_of base ?f (cr_jti c) = Some c" by (auto simp: claimed_def claim_ok_def)
  have wf: "fs_wf ?f" "clean root" using i(1) by (auto simp: store_invar_def)
  have e: "entry_at fs' (base @ [x]) = entry_at ?f (base @ [x])" for x
    using publish_frame [OF wf i(5) f p] beside_data [OF i(3,5)] by blast
  have si: "store_invar root fs'" using publish_invar [OF i(1,5) f, of t m] p by simp
  then have ci: "claims_invar digest base fs'" using i(2) e by (simp add: claims_invar_def store_invar_def)
  have "record_of base fs' (cr_jti c) = Some c" using records_cong [OF i(2) ci i(4) e] i(6) by simp
  then have k: "claimed digest base root c fs'" using c si ci by (simp add: claimed_def)
  have m: "meta_at root fs' ?p = Some m" using publish_view [OF i(1,5) f p] by blast
  with accounting_complete [OF k m n, of t'] show ?thesis by auto
qed

text \<open>
  The scan for the newest bundle does not look at the claims: while the newest one is being fetched by reference, a pick of
  \<^verbatim>\<open>latest\<close> answers that there is nothing, whatever else waits in the inbox and is listed there.
\<close>

lemma latest_blocked_by_claim:
  assumes "rt_access env ident (''inbox:'' @ agent) ''pick''" "lib_laws (rt_lib env)"
    and "newest_bundle env t (inbox_refs env agent fs) [] None fs = Inr (Some (p, m))"
    and "evaluate_download (rt_limits env) (total_size (bm_files m)) = DownloadReference"
    and "claims_invar (rt_digest env) (rt_claims_base env) fs" "locked (rt_digest env) (rt_claims_base env) fs p"
  shows "pick_inbox_file env uuid t ident agent ''latest'' fs = (Inl (HttpError 404 ''File not found: latest''), fs)"
  using assms issue_locked [of "rt_digest env" "rt_claims_base env" fs "pick_claim uuid t p m agent" t]
  by (simp add: pick_inbox_file_def enforce_def select_pick_def inbox_reference_claim pick_claim_def)

end
