(* ===== verification/Spec2Isabelle.thy ===== *)
theory Spec2Isabelle
  imports Streaming Observability Store_Properties Claim_Properties Access_Properties Tool_Properties Admin_Properties Cli_Properties Service_Properties
    Pick_Race Latest Auditing Policies Surface Docs_Version Divergences
begin

text \<open>
  Cassetta is a service through which agents leave each other bundles of files: a sender opens an upload
  session, streams an archive into the inbox of a recipient, and the recipient picks the bundle, either with
  its contents in the answer or by reference, fetching each file with a credential. Beside the inboxes there
  is a shared store, and both are reached over HTTP routes, over the tools of an MCP server and with
  command line clients. This development models \<^verbatim>\<open>src/src/cassetta\<close> and the release script
  \<^verbatim>\<open>src/scripts/sync-docs-version.py\<close>. Source files are named relative to the former.

  \<^bold>\<open>Parts of the program and the theories that model them.\<close>

  \<^item> \<open>Prelude\<close>, \<open>Numerals_Text\<close>, \<open>Timestamps\<close>, \<open>Encoding\<close>, \<open>Json\<close>: the parts of Python's standard library
    the sources use, with their round trips: string methods, \<^verbatim>\<open>str\<close> and \<^verbatim>\<open>int\<close>, ISO time stamps, base64 and
    percent encoding, \<^verbatim>\<open>json.dumps\<close> and \<^verbatim>\<open>json.loads\<close>.
  \<^item> \<open>Filesystem\<close>: paths, directories, files with modification times, exclusive creation, recursive removal.
    A list of paths is resolved component by component, so that \<^verbatim>\<open>..\<close> means what it means to the kernel.
  \<^item> \<open>Paths\<close>: \<^verbatim>\<open>path_validation.py\<close>, \<^verbatim>\<open>auth/manifest_validation.py\<close>, the label fields of \<^verbatim>\<open>models.py\<close>.
  \<^item> \<open>Limits\<close>: \<^verbatim>\<open>limits.py\<close>, \<^verbatim>\<open>protocols/limits.py\<close>, \<^verbatim>\<open>defaults/default_limits.py\<close>, \<^verbatim>\<open>LimitsConfig\<close>.
  \<^item> \<open>Storage\<close>, \<open>Storage_Laws\<close>, \<open>Bundle_Store\<close>, \<open>Publishing\<close>, \<open>Listing\<close>:
    \<^verbatim>\<open>backends/filesystem/storage.py\<close>. \<open>Storage\<close> has the operations; the others what a writer changes, the
    contract of a bundle store, when a publication succeeds, and which directories a listing reports.
  \<^item> \<open>Claims\<close>, \<open>Claims_Laws\<close>, \<open>Claims_Race\<close>: \<^verbatim>\<open>claims.py\<close> and \<^verbatim>\<open>backends/filesystem/claim_storage.py\<close>: the
    operations, their contract, and concurrent issuers as interleaved steps.
  \<^item> \<open>Gc\<close>: the reaper \<^verbatim>\<open>gc.py\<close>. \<open>Expiry\<close>: the retention loop of \<^verbatim>\<open>app.py\<close>.
  \<^item> \<open>Keystore\<close>: \<^verbatim>\<open>auth/models.py\<close>, \<^verbatim>\<open>backends/filesystem/keystore.py\<close>, \<^verbatim>\<open>auth/dependencies.py\<close>.
    \<open>Key_Routes\<close>: \<^verbatim>\<open>routes/keys.py\<close>.
  \<^item> \<open>Tokens\<close>: \<^verbatim>\<open>auth/jwt_tokens.py\<close> and \<^verbatim>\<open>auth/jwt_hot_reload.py\<close>.
  \<^item> \<open>Downloads\<close>, \<open>Downloads_Laws\<close>: \<^verbatim>\<open>mime.py\<close>, \<^verbatim>\<open>envelopes.py\<close>, \<^verbatim>\<open>downloads.py\<close>, \<^verbatim>\<open>routes/download.py\<close>.
  \<^item> \<open>Send_Init\<close>: \<^verbatim>\<open>send_init.py\<close>, \<^verbatim>\<open>routes/uploads.py\<close>. \<open>Upload\<close>: \<^verbatim>\<open>routes/upload.py\<close>. \<open>Streaming\<close>:
    \<^verbatim>\<open>streaming.py\<close> and the two threads of an upload.
  \<^item> \<open>Inbox\<close>, \<open>Inbox_Laws\<close>: \<^verbatim>\<open>routes/inbox.py\<close>. \<open>Files\<close>: \<^verbatim>\<open>routes/files.py\<close>. \<open>Agents\<close>:
    \<^verbatim>\<open>routes/agents.py\<close>, \<^verbatim>\<open>defaults/default_access.py\<close>, \<^verbatim>\<open>rate_limit/limiter.py\<close>.
  \<^item> \<open>Settings\<close>: \<^verbatim>\<open>config.py\<close>. \<open>Server\<close>: \<^verbatim>\<open>capabilities.py\<close>, the exception handlers and the assembly of
    \<^verbatim>\<open>app.py\<close>, \<^verbatim>\<open>defaults/factory.py\<close>. \<open>Mcp\<close>: \<^verbatim>\<open>mcp_server.py\<close>, \<^verbatim>\<open>mcp_auth.py\<close>.
  \<^item> \<open>Observability\<close>: \<^verbatim>\<open>structured_log.py\<close>, \<^verbatim>\<open>auth/observability.py\<close>, \<^verbatim>\<open>middleware.py\<close> and the metrics protocol.
  \<^item> \<open>Cli\<close>: the commands of \<^verbatim>\<open>cli/\<close>.
  \<^item> \<open>Policies\<close>: the contracts of \<^verbatim>\<open>protocols/limits.py\<close> and \<^verbatim>\<open>protocols/access.py\<close> and the core defaults as their instances.
  \<^item> \<open>Auditing\<close>: the events and counters of denials, uploads, broadcasts and rejections of the limiter, inside their handlers.
  \<^item> \<open>Stamp_Order\<close>, \<open>Latest\<close>: stamps compared as texts are in the order of time, and the pick of \<^verbatim>\<open>latest\<close> over that.
  \<^item> \<open>Download_Stream\<close>: the body generator of \<^verbatim>\<open>routes/download.py\<close>. \<open>Pick_Race\<close>: the two halves of an inline pick
    in several workers.
  \<^item> \<open>Startup\<close>: \<^verbatim>\<open>create_app\<close> and \<^verbatim>\<open>lifespan\<close> of \<^verbatim>\<open>app.py\<close>, \<^verbatim>\<open>build_core_defaults\<close>, the key rotation signal, the globals of
    the tool server. \<open>Surface\<close>: the answers and dependencies the other theories do not need.
  \<^item> \<open>Names\<close>, \<open>Shown\<close>, \<open>Service\<close>, \<open>Service_Steps\<close>, \<open>Service_Tools\<close>, \<open>Service_Runs\<close>: the running service. \<open>Names\<close> shows that directory entries
    always have names a listing can spell, \<open>Shown\<close> which bundles the inboxes show after each operation. \<open>Service\<close> dispatches
    every request that changes bundles or claims to its route or tool, beside passes of the two loops (\<open>serve\<close>), and has the
    invariant between requests. \<open>Service_Steps\<close> (the operations behind them), \<open>Service_Tools\<close> (store, tools, broadcasts) and
    \<open>Service_Runs\<close> (the rest, the loops) show what each of them does to the message at a path.
  \<^item> \<open>Docs_Version\<close>: the release script.
  \<^item> \<open>Transfers\<close> composes the sending and the fetching side. \<open>Examples\<close> has the values the witnesses use.

  \<^bold>\<open>How the code is represented.\<close> A \<^verbatim>\<open>str\<close> is its UTF-8 bytes. Clock readings are whole microseconds, the
  resolution of \<^verbatim>\<open>datetime\<close>. Integers are unbounded, as in Python. An operation that may raise returns
  \<open>exc + 'a\<close>; one that also changes the file system returns the pair with the new file system, also when it
  raises after a partial change. A route handler takes the environment the application gives it
  (\<open>route_env\<close>, \<open>send_env\<close>, \<open>broadcast_env\<close>, \<open>mcp_env\<close>), the clock, the caller and the request, and returns the
  response or a status with its detail; \<open>HttpRaised\<close> is what nothing catches. What the program draws at
  random (identifiers, raw keys) and what it takes from elsewhere is an argument: the JWT library with
  \<open>lib_laws\<close> and \<open>jwt_laws\<close>, what its documentation says of HS256 tokens, SHA-256, \<^verbatim>\<open>mimetypes\<close>, the members
  \<^verbatim>\<open>tarfile\<close> finds in a body, the rate limiter, the HTTP client, loggers and metrics providers. The witnesses
  instantiate them (\<open>ex_lib\<close>, \<open>ex_digest\<close>).

  \<^bold>\<open>Interfaces.\<close> \<open>bundle_store\<close> is the contract of the storage protocol for bundles: an abstract state answers,
  for a path, manifest and contents, and publishing and deleting are its two updates. The filesystem backend
  interprets it as \<open>filesystem\<close>. \<open>claim_storage\<close> is the contract of a claim store, interpreted as
  \<open>fs_claims\<close>, and \<open>key_store_contract\<close> that of a key store, interpreted as \<open>file_keys\<close>. \<open>mailbox\<close> says when a place delivers at most
  what was left there, in order; each inbox path of the service interprets it as \<open>inbox\<close>. \<open>limits_policy\<close> says that decisions follow the advertised limits,
  interpreted as \<open>core_limits\<close>, and \<open>visibility_policy\<close> that the visible agents are some of the given ones, interpreted as \<open>default_visibility\<close>. Four step
  relations model what runs concurrently or over time: \<open>issue_step\<close> (issuers of claims, one exclusive creation
  a step), \<open>ks_step\<close> (changes of the key store), \<open>bridge_step\<close> (event loop and worker of an upload), \<open>pick_step\<close> (workers
  that pick one bundle).

  \<^bold>\<open>What is shown.\<close>

  \<^item> \<open>Service_Properties\<close>: over any run of the service, over HTTP and over MCP, from its start on a fresh volume or from any
    well-formed state, what picks deliver from an inbox path is a subsequence of what senders deposited there.
  \<^item> \<open>Latest\<close>: a pick of \<^verbatim>\<open>latest\<close> delivers the newest live bundle by the clock and touches no other. \<open>Auditing\<close>: an upload is
    counted once, as what it was, and auditing changes no answer.
  \<^item> \<open>Pick_Race\<close>: concurrent picks answer with the whole bundle, though more than one may. \<open>Download_Stream\<close>: a download arrives in
    order and counts only when it was read to its end. \<open>Docs_Version\<close>: one run of the script suffices, for a version of three numbers.
  \<^item> Here: a payload sent through a session is picked byte for byte and once; a pick by reference is exclusive,
    serves the stored bytes and retires bundle, claim and lock with the last file.
  \<^item> \<open>Store_Properties\<close>: published bundles survive unrelated changes (the refinement of the abstract store), a
    failed upload leaves no trace, a successful one has committed what was declared within the limits, listings and sweeps are
    exact, nested bundles are refused, validated paths stay inside their namespace.
  \<^item> \<open>Claim_Properties\<close>: of concurrent issuers exactly one wins and every run ends; the life of a claim.
  \<^item> \<open>Access_Properties\<close>: keys stay unambiguous, revocation and rotation of keys take effect, the key file reads back, credentials
    are confined to their purpose, bundle and files, and the overlap of a rotation is exact.
  \<^item> \<open>Tool_Properties\<close>: the MCP tools agree with the routes and return what was sent or put.
  \<^item> \<open>Admin_Properties\<close>: the configuration a server starts with, retention, broadcasts, key routes, and that a
    client reading the capabilities document decides as the server does.
  \<^item> \<open>Cli_Properties\<close>: \<^verbatim>\<open>cassetta send\<close> and \<^verbatim>\<open>cassetta download\<close> against the routes, end to end.
  \<^item> \<open>Streaming\<close>: the bridge delivers the body whatever the reads, and when it can hang. \<open>Observability\<close>: logging and metrics
    never disturb a request, a log line is one JSON object, the configuration of loggers is idempotent.
  \<^item> \<open>Divergences\<close>: inputs on which the code does not do what it means to, evaluated on the same definitions.

  \<^bold>\<open>Bounds and fuel.\<close> \<open>loads\<close> carries the length of its text plus one as fuel; every recursive call consumes a
  character, and \<open>loads_dumps\<close> shows that it suffices for every text \<open>dumps\<close> writes. The listing of a directory
  recurses over the finitely many paths of the file system. The loops of the reaper and of the retention run
  over the list of wake-ups they are given. All other recursions end by structure or by a measure.

  \<^bold>\<open>Not modelled.\<close> Calls of loggers and metrics inside the handlers other than those of \<open>Auditing\<close> (their helpers are in \<open>Observability\<close>); fsync
  and file modes, which the model of the file system does not show; the scheduling of tasks, beyond the interleavings the step relations
  and the runs have; the matching of URLs against the routes, which the framework does, and the registration of commands; the bytes of tar and gzip; an
  exception of the operating system other than those of the namespace (a full disk). Texts of some 400, 401 and
  422 answers are abbreviated. A request sees one clock reading. A failing \<^verbatim>\<open>mkdir(parents=True)\<close> leaves
  the file system as it was. JSON numbers are integers, the escapes of \<^verbatim>\<open>json.dumps\<close> are those of
  \<^verbatim>\<open>ensure_ascii=False\<close> and DEL is escaped too. \<^verbatim>\<open>urlsplit\<close> does not check brackets of an IPv6 host. The files a
  download command writes are a map from paths to contents. Of \<^verbatim>\<open>protocols/\<close> the data types are modelled; the
  abstract methods have no code. The helpers \<^verbatim>\<open>mcp_server.py\<close> repeats from the routes are modelled once. In a run, requests
  name paths that are not nested with the one observed, and the tool picks the newest bundle in other inboxes only, because
  its reply does not tell the path; the keys, slots and answers of the limiter a request meets are arbitrary. The release
  script reads ASCII.

  \<^bold>\<open>Open.\<close> The identifiers of a broadcast in the log of a run, which counts every identifier it may draw; a failing disk inside
  \<^verbatim>\<open>issue\<close>.
\<close>

section \<open>Transfers\<close>

text \<open>
  C2. End to end. A sender opens an upload session for a recipient, streams an archive of the
  declared files with the session's credential before it expires, to a free path; then the
  recipient picks the bundle. The upload answers with the session's bundle identifier, the pick
  returns exactly the files that were sent, byte for byte and in order, with the sender's
  label, and consumes the bundle: every later pick of the path is a 404 that changes nothing.
\<close>

theorem send_upload_pick:
  assumes session: "create_upload_session env jti bid key t dest path raw ident = Inr s"
    and rec: "resolve_recipient (se_alias env) dest (Some (id_label ident)) = Inr rec"
    and lib: "lib_laws (se_lib env)" "chk jti = None" "js_primary slots = key"
    and tm: "epoch t \<le> epoch t'" "epoch t' < epoch t + ts_upload_token_ttl (ttls (se_limits env))"
    and files: "map (\<lambda>f. (mf_name f, mf_size f)) (sm_files raw) = map (\<lambda>(n, b). (n, int (length b))) files"
      "payload_ok files" "\<forall>(n, b) \<in> set files. int (length b) \<le> effective_per_file_max cfg"
    and fs: "store_invar (rt_root renv) fs" "free_path (rt_root renv) fs (inbox_path rec path)"
    and url: "url_unquote param = inbox_path rec path"
    and pick: "path \<noteq> ''latest''" "rt_access renv picker (''inbox:'' @ rec) ''pick''"
      "is_expired_by_meta t'' (isoformat (utcfromtimestamp t')) (rt_default_ttl renv) = Inr False"
      "evaluate_download (rt_limits renv) (total_size (sm_files raw)) = DownloadInline"
  shows "\<exists>fs1 r e fs2.
      upload_bundle (jl_decode (se_lib env)) chk (rt_root renv) t' mono_t cfg slots (''Bearer '' @ us_batch_token s)
        param (tar_of files) fs = (Inr bid, fs1)
      \<and> pick_inbox_file renv uuid t'' picker rec path fs1 = (Inr r, fs2)
      \<and> rr_body r = InlineBody e \<and> map decode_entry (ie_files e) = map Some files \<and> rr_sender r = id_label ident
      \<and> (\<forall>uuid' t3. pick_inbox_file renv uuid' t3 picker rec path fs2
            = (Inl (HttpError 404 (''File not found: '' @ path)), fs2))"
proof -
  let ?p = "inbox_path rec path"
  let ?m = "upload_meta t' bid (Some (id_label ident)) (um_files (session_manifest env raw))"
  obtain fs1 where u: "upload_bundle (jl_decode (se_lib env)) chk (rt_root renv) t' mono_t cfg slots
      (''Bearer '' @ us_batch_token s) param (tar_of files) fs = (Inr bid, fs1)"
    "store_invar (rt_root renv) fs1" "meta_at (rt_root renv) fs1 ?p = Some ?m"
    "\<forall>(n, b) \<in> set files. file_at (rt_root renv) fs1 ?p n = Some b"
    using upload_declared [where chk = chk and jti = jti, OF session rec lib tm files fs url] by blast
  have g: "good_key ?p" "distinct (map fst files)"
    using fs(2) files(2) by (simp_all add: free_path_def payload_ok_def layout_ok_def)
  have m: "bm_created_at ?m = isoformat (utcfromtimestamp t')" "sender_header ?m = id_label ident"
    by (simp_all add: upload_meta_def sender_header_def)
  obtain r e fs2 where k: "pick_inbox_file renv uuid t'' picker rec path fs1 = (Inr r, fs2)"
    "rr_body r = InlineBody e" "map decode_entry (ie_files e) = map Some files" "rr_sender r = id_label ident"
    "read_bundle_meta (rt_root renv) ?p fs2 = Inl FileNotFoundError"
    using pick_payload [OF u(2) g(1) pick(1,2) u(3) _ _ session_declares(1) [OF files(1)] g(2) u(4), of t'' uuid]
      pick(3,4) m session_declares(2) [OF files(1)] by auto
  show ?thesis using u(1) k(1-4) pick_absent [OF k(5) pick(2,1)] by blast
qed

theorem send_upload_pick_witness:
  "\<exists>fs1 r e fs2.
      upload_bundle (jl_decode ex_lib) noop_revocation_check ex_root 0 0 (ex_limits None) ex_slots
        (''Bearer '' @ us_batch_token ex_session) ex_path (tar_of ex_files) ex_fs0 = (Inr ''b1'', fs1)
      \<and> pick_inbox_file (ex_env (Some 100)) ''u'' 5000000 (KeyIdentity ''h:p'') ''h:p'' ''x'' fs1 = (Inr r, fs2)
      \<and> rr_body r = InlineBody e \<and> map decode_entry (ie_files e) = map Some ex_files \<and> rr_sender r = ''h:q''"
proof -
  note w = send_upload_pick [where env = ex_send_env and renv = "ex_env (Some 100)" and rec = "''h:p''" and t = 0 and t' = 0
      and t'' = 5000000 and path = "''x''" and files = ex_files and chk = noop_revocation_check and slots = ex_slots
      and cfg = "ex_limits None" and fs = ex_fs0 and picker = "KeyIdentity ''h:p''" and uuid = "''u''" and mono_t = 0 and param = ex_path,
      OF ex_session_ok, unfolded ex_env_simps ex_inbox_path]
  have "resolve_recipient None ''h:p'' (Some (id_label (KeyIdentity ''h:q''))) = Inr ''h:p''"
    "noop_revocation_check ''j1'' = None"
    "map (\<lambda>f. (mf_name f, mf_size f)) ex_manifest = map (\<lambda>(n, b). (n, int (length b))) ex_files"
    "\<forall>(n, b) \<in> set ex_files. int (length b) \<le> effective_per_file_max (ex_limits None)"
    by (simp_all add: resolve_recipient_def noop_revocation_check_def ex_manifest_def ex_files_def ex_limits_facts)
  moreover have "url_unquote ex_path = ex_path" by code_simp
  ultimately show ?thesis
    using w [OF _ ex_lib_laws _ refl _ _ _ ex_free(2) _ ex_ok(1) ex_free(1)] by (simp add: ex_epoch ex_limits_facts ex_fresh) blast
qed



end
